(* ===== verification/Prelude.thy ===== *)
theory Prelude
  imports Main "HOL-Library.Word"
begin

unbundle bit_operations_syntax

text \<open>
  What every component of the model shares: the machine types, the outcomes of C code (a value,
  or one of the ways a C execution goes wrong), pointers, byte memory and C strings, together
  with the rewriting and introduction rules that the component theories use on them.

  A function of the source that can only return is a plain HOL function. One that can hit an
  \<open>assert\<close> or \<open>abort()\<close>, call \<open>exit(EXIT_FAILURE)\<close>, or step outside what C defines (a read or
  write outside an object, a null or dangling pointer, a second \<open>free\<close>) returns
  \<open>'a res\<close>, the sum of \<open>fault\<close> and the result.
\<close>

section \<open>Machine types\<close>

type_synonym byte = "8 word"     \<comment> \<open>\<open>uint8_t\<close>\<close>
type_synonym u16 = "16 word"     \<comment> \<open>\<open>uint16_t\<close>, \<open>in_port_t\<close>\<close>
type_synonym u32 = "32 word"     \<comment> \<open>\<open>uint32_t\<close>\<close>
type_synonym u64 = "64 word"     \<comment> \<open>\<open>size_t\<close>\<close>

section \<open>Outcomes\<close>

datatype fault =
    Aborted    \<comment> \<open>\<open>abort()\<close> or a failed \<open>assert\<close>\<close>
  | Exited     \<comment> \<open>\<open>exit(EXIT_FAILURE)\<close>\<close>
  | Undefined  \<comment> \<open>behaviour C leaves undefined\<close>

type_synonym 'a res = "fault + 'a"

definition bind_res :: "'a res \<Rightarrow> ('a \<Rightarrow> 'b res) \<Rightarrow> 'b res" where
  "bind_res m f = (case m of Inl e \<Rightarrow> Inl e | Inr x \<Rightarrow> f x)"

definition no_fault :: "'a res \<Rightarrow> bool" where
  "no_fault m \<longleftrightarrow> (case m of Inl _ \<Rightarrow> False | Inr _ \<Rightarrow> True)"

lemma bind_res_simps [simp]:
  "bind_res (Inl e) f = Inl e"
  "bind_res (Inr x) f = f x"
  by (simp_all add: bind_res_def)

lemma bind_res_cong [fundef_cong]:
  "m = m' \<Longrightarrow> (\<And>x. m' = Inr x \<Longrightarrow> f x = g x) \<Longrightarrow> bind_res m f = bind_res m' g"
  by (simp add: bind_res_def split: sum.splits)

lemma bind_res_assoc [simp]:
  "bind_res (bind_res m f) g = bind_res m (\<lambda>x. bind_res (f x) g)"
  by (simp add: bind_res_def split: sum.splits)

lemma bind_res_eq_Inr:
  "bind_res m f = Inr y \<longleftrightarrow> (\<exists>x. m = Inr x \<and> f x = Inr y)"
  by (cases m) auto

lemma bind_res_InrE [elim!]:
  assumes "bind_res m f = Inr y"
  obtains x where "m = Inr x" and "f x = Inr y"
  using assms by (auto simp: bind_res_eq_Inr)

lemma bind_res_eq_Inl:
  "bind_res m f = Inl e \<longleftrightarrow> m = Inl e \<or> (\<exists>x. m = Inr x \<and> f x = Inl e)"
  by (cases m) auto

lemma no_fault_simps [simp]:
  "no_fault (Inr x)" "\<not> no_fault (Inl e)"
  by (simp_all add: no_fault_def)

lemma no_fault_iff: "no_fault m \<longleftrightarrow> (\<exists>x. m = Inr x)"
  by (cases m) auto

lemma no_fault_bind:
  "no_fault (bind_res m f) \<longleftrightarrow> (\<exists>x. m = Inr x \<and> no_fault (f x))"
  by (cases m) auto

section \<open>Pointers\<close>

text \<open>
  \<open>Dangling\<close> is a pointer to freed memory or one never initialised: it may be compared with
  \<open>NULL\<close> (it is not \<open>NULL\<close>), and neither dereferenced nor freed.
\<close>

datatype 'a ptr = Null | Ptr 'a | Dangling

definition deref :: "'a ptr \<Rightarrow> 'a res" where
  "deref p = (case p of Null \<Rightarrow> Inl Undefined | Ptr x \<Rightarrow> Inr x | Dangling \<Rightarrow> Inl Undefined)"

definition free_ptr :: "'a ptr \<Rightarrow> 'a ptr res" where
  "free_ptr p = (case p of Null \<Rightarrow> Inr Null | Ptr _ \<Rightarrow> Inr Dangling | Dangling \<Rightarrow> Inl Undefined)"

lemma deref_simps [simp]:
  "deref (Ptr x) = Inr x" "deref Null = Inl Undefined" "deref Dangling = Inl Undefined"
  by (simp_all add: deref_def)

lemma deref_eq_Inr [simp]: "deref p = Inr x \<longleftrightarrow> p = Ptr x"
  by (cases p) auto

lemma free_ptr_simps [simp]:
  "free_ptr Null = Inr Null" "free_ptr (Ptr x) = Inr Dangling"
  "free_ptr Dangling = Inl Undefined"
  by (simp_all add: free_ptr_def)

section \<open>Byte memory\<close>

definition mem_load :: "nat \<Rightarrow> nat \<Rightarrow> 'a list \<Rightarrow> 'a list res" where
  "mem_load off n mem =
     (if off + n \<le> length mem then Inr (take n (drop off mem)) else Inl Undefined)"

definition mem_store :: "nat \<Rightarrow> 'a list \<Rightarrow> 'a list \<Rightarrow> 'a list res" where
  "mem_store off bs mem =
     (if off + length bs \<le> length mem
      then Inr (take off mem @ bs @ drop (off + length bs) mem) else Inl Undefined)"

lemma mem_store_Inr:
  "off + length bs \<le> length mem \<Longrightarrow>
   mem_store off bs mem = Inr (take off mem @ bs @ drop (off + length bs) mem)"
  by (simp add: mem_store_def)

lemma mem_store_length:
  "mem_store off bs mem = Inr mem' \<Longrightarrow> length mem' = length mem"
  by (auto simp: mem_store_def split: if_splits)

lemma mem_store_one:
  "i < length mem \<Longrightarrow> mem_store i [x] mem = Inr (mem[i := x])"
  by (simp add: mem_store_def upd_conv_take_nth_drop)

text \<open>Reading the bytes just stored, and the bytes before them, gives both in order.\<close>

lemma take_drop_store:
  assumes "r \<le> w" and "w + length bs \<le> length mem"
  shows "take (w + length bs - r) (drop r (take w mem @ bs @ drop (w + length bs) mem))
       = take (w - r) (drop r mem) @ bs"
proof -
  have "w + length bs - r = (w - r) + length bs" using assms by simp
  moreover have "drop r (take w mem @ bs @ drop (w + length bs) mem)
      = take (w - r) (drop r mem) @ bs @ drop (w + length bs) mem"
    using assms by (simp add: drop_take)
  moreover have "length (take (w - r) (drop r mem)) = w - r" using assms by simp
  ultimately show ?thesis by simp
qed

section \<open>C strings\<close>

text \<open>
  A \<open>char\<close> array is a list of bytes, \<open>None\<close> where it was never written. \<open>c_string\<close> is what
  \<open>strcmp\<close>, \<open>strlen\<close> and \<open>strcpy\<close> see: the bytes before the first NUL; running over an
  indeterminate byte or off the end of the array is undefined.
\<close>

fun c_string :: "byte option list \<Rightarrow> byte list res" where
  "c_string [] = Inl Undefined"
| "c_string (None # _) = Inl Undefined"
| "c_string (Some c # cs) =
     (if c = 0 then Inr [] else bind_res (c_string cs) (\<lambda>s. Inr (c # s)))"

definition bytes_of :: "string \<Rightarrow> byte list" where
  "bytes_of s = map of_char s"

lemma c_string_terminated:
  "0 \<notin> set s \<Longrightarrow> c_string (map Some s @ Some 0 # rest) = Inr s"
  by (induction s) auto

lemma c_string_prefix:
  "c_string (map Some s @ Some 0 # rest) = Inr (takeWhile (\<lambda>c. c \<noteq> 0) s)"
  by (induction s) auto

lemma bytes_of_simps [simp]:
  "bytes_of [] = []" "bytes_of (c # s) = of_char c # bytes_of s"
  by (simp_all add: bytes_of_def)

section \<open>Lists and words\<close>

lemma unat_Suc_word: "unat (w + 1) = Suc (unat w)" if "Suc (unat w) < 2 ^ LENGTH('a)"
  for w :: "'a::len word"
  using that by (simp add: unat_word_ariths)

lemma unat_minus_one_word: "w \<noteq> 0 \<Longrightarrow> unat (w - 1) = unat w - 1"
  for w :: "'a::len word"
  by (simp add: unat_minus_one)

lemma byte_less_256 [simp]: "unat (b :: byte) < 256"
proof -
  have "unat b < 2 ^ LENGTH(8)" by (rule unsigned_less)
  then show ?thesis by simp
qed

lemma byte_le_255 [simp]: "unat (b :: byte) \<le> 255"
  using byte_less_256 [of b] by linarith

lemma byte_uint_bounds: "uint (b :: byte) < 256" "b \<noteq> 0 \<Longrightarrow> 0 < uint b"
proof -
  have "uint b < 2 ^ LENGTH(8)" by (rule unsigned_less)
  then show "uint b < 256" by simp
  show "0 < uint b" if "b \<noteq> 0"
    using that by (metis linorder_not_less order_antisym uint_0_iff unsigned_greater_eq)
qed

lemma word_le_zero_iff: "w \<le> 0 \<longleftrightarrow> w = 0" for w :: "'a::len word"
  by simp

lemma unat_of_nat_byte: "n < 256 \<Longrightarrow> unat (of_nat n :: byte) = n"
  by (simp add: unat_of_nat)

lemma nth_list_update_if:
  "i < length xs \<Longrightarrow> xs[i := x] ! j = (if i = j then x else xs ! j)"
  by auto

end
