(* ===== verification/Stm.thy ===== *)
theory Stm
  imports Prelude
begin

text \<open>
  \<open>src/stm.c\<close>: the small state-machine engine whose events are those of the selector. A state
  definition is a record of optional handlers (\<open>None\<close> is a null function pointer); the handlers
  act on an environment \<open>'s\<close>, whatever the selector key gives them access to. \<open>current\<close> is the
  offset of the pointer \<open>stm->current\<close> in the array \<open>states\<close>.

  The contract of the engine with the states plugged into it is the locale \<open>stm_client\<close>: what
  holds on entry to a state, what holds while the machine rests in it, and what the handlers,
  the arrival and the departure actions have to establish.
\<close>

section \<open>The code\<close>

record 's state_definition =
  sd_state :: nat
  on_arrival :: "(nat \<Rightarrow> 's \<Rightarrow> 's res) option"
  on_departure :: "(nat \<Rightarrow> 's \<Rightarrow> 's res) option"
  on_read_ready :: "('s \<Rightarrow> (nat \<times> 's) res) option"
  on_write_ready :: "('s \<Rightarrow> (nat \<times> 's) res) option"
  on_block_ready :: "('s \<Rightarrow> (nat \<times> 's) res) option"

record 's state_machine =
  stm_initial :: nat
  stm_max_state :: nat
  stm_states :: "'s state_definition list"
  stm_current :: "nat option"

definition stm_at :: "'s state_machine \<Rightarrow> nat \<Rightarrow> 's state_definition res" where
  "stm_at m i = (if i < length (stm_states m) then Inr (stm_states m ! i) else Inl Undefined)"

fun stm_check_states :: "'s state_machine \<Rightarrow> nat list \<Rightarrow> unit res" where
  "stm_check_states m [] = Inr ()"
| "stm_check_states m (i # is) =
     bind_res (stm_at m i)
       (\<lambda>d. if i \<noteq> sd_state d then Inl Aborted else stm_check_states m is)"

definition stm_init :: "'s state_machine \<Rightarrow> 's state_machine res" where
  "stm_init m =
     bind_res (stm_check_states m [0..<Suc (stm_max_state m)])
       (\<lambda>_. if stm_initial m < stm_max_state m
            then Inr (m\<lparr>stm_current := None\<rparr>) else Inl Aborted)"

definition run_action :: "(nat \<Rightarrow> 's \<Rightarrow> 's res) option \<Rightarrow> nat \<Rightarrow> 's \<Rightarrow> 's res" where
  "run_action a i s = (case a of None \<Rightarrow> Inr s | Some f \<Rightarrow> f i s)"

definition handle_first :: "'s state_machine \<Rightarrow> 's \<Rightarrow> ('s state_machine \<times> 's) res" where
  "handle_first m s =
     (case stm_current m of
        None \<Rightarrow>
          bind_res (stm_at m (stm_initial m))
            (\<lambda>d. bind_res (run_action (on_arrival d) (sd_state d) s)
              (\<lambda>s'. Inr (m\<lparr>stm_current := Some (stm_initial m)\<rparr>, s')))
      | Some _ \<Rightarrow> Inr (m, s))"

definition jump :: "'s state_machine \<Rightarrow> nat \<Rightarrow> 's \<Rightarrow> ('s state_machine \<times> 's) res" where
  "jump m nxt s =
     (if nxt > stm_max_state m then Inl Aborted
      else if stm_current m = Some nxt then Inr (m, s)
      else
        bind_res
          (case stm_current m of
             None \<Rightarrow> Inr s
           | Some c \<Rightarrow>
               bind_res (stm_at m c) (\<lambda>d. run_action (on_departure d) (sd_state d) s))
          (\<lambda>s1. bind_res (stm_at m nxt)
            (\<lambda>d. bind_res (run_action (on_arrival d) (sd_state d) s1)
              (\<lambda>s2. Inr (m\<lparr>stm_current := Some nxt\<rparr>, s2)))))"

text \<open>The three handlers differ only in the function pointer they call.\<close>

definition stm_handler ::
  "('s state_definition \<Rightarrow> ('s \<Rightarrow> (nat \<times> 's) res) option) \<Rightarrow>
   's state_machine \<Rightarrow> 's \<Rightarrow> (nat \<times> 's state_machine \<times> 's) res" where
  "stm_handler ready m s =
     bind_res (handle_first m s)
       (\<lambda>(m1, s1).
          case stm_current m1 of
            None \<Rightarrow> Inl Undefined
          | Some c \<Rightarrow>
              bind_res (stm_at m1 c)
                (\<lambda>d. case ready d of
                   None \<Rightarrow> Inl Aborted
                 | Some f \<Rightarrow>
                     bind_res (f s1)
                       (\<lambda>(ret, s2). bind_res (jump m1 ret s2)
                         (\<lambda>(m2, s3). Inr (ret, m2, s3)))))"

definition stm_handler_read ::
  "'s state_machine \<Rightarrow> 's \<Rightarrow> (nat \<times> 's state_machine \<times> 's) res" where
  "stm_handler_read = stm_handler on_read_ready"

definition stm_handler_write ::
  "'s state_machine \<Rightarrow> 's \<Rightarrow> (nat \<times> 's state_machine \<times> 's) res" where
  "stm_handler_write = stm_handler on_write_ready"

definition stm_handler_block ::
  "'s state_machine \<Rightarrow> 's \<Rightarrow> (nat \<times> 's state_machine \<times> 's) res" where
  "stm_handler_block = stm_handler on_block_ready"

definition stm_handler_close :: "'s state_machine \<Rightarrow> 's \<Rightarrow> 's res" where
  "stm_handler_close m s =
     (case stm_current m of
        None \<Rightarrow> Inr s
      | Some c \<Rightarrow> bind_res (stm_at m c) (\<lambda>d. run_action (on_departure d) (sd_state d) s))"

definition stm_state :: "'s state_machine \<Rightarrow> nat res" where
  "stm_state m =
     (case stm_current m of
        None \<Rightarrow> Inr (stm_initial m)
      | Some c \<Rightarrow> bind_res (stm_at m c) (\<lambda>d. Inr (sd_state d)))"

section \<open>Well-formed machines\<close>

definition stm_wf :: "'s state_machine \<Rightarrow> bool" where
  "stm_wf m \<longleftrightarrow>
     stm_max_state m < length (stm_states m) \<and> stm_initial m < stm_max_state m \<and>
     (\<forall>i \<le> stm_max_state m. sd_state (stm_states m ! i) = i) \<and>
     (case stm_current m of None \<Rightarrow> True | Some c \<Rightarrow> c \<le> stm_max_state m)"

definition stm_same :: "'s state_machine \<Rightarrow> 's state_machine \<Rightarrow> bool" where
  "stm_same m m' \<longleftrightarrow>
     stm_states m' = stm_states m \<and> stm_initial m' = stm_initial m \<and>
     stm_max_state m' = stm_max_state m"

lemma stm_check_states_iff:
  "stm_check_states m is = Inr () \<longleftrightarrow>
   (\<forall>i \<in> set is. i < length (stm_states m) \<and> sd_state (stm_states m ! i) = i)"
  by (induction "is") (auto simp: stm_at_def bind_res_def split: sum.splits)

lemma stm_init_wf:
  "stm_init m = Inr m' \<longleftrightarrow>
   stm_wf (m\<lparr>stm_current := None\<rparr>) \<and> m' = m\<lparr>stm_current := None\<rparr>"
proof -
  have "stm_check_states m [0..<Suc (stm_max_state m)] = Inr () \<longleftrightarrow>
    stm_max_state m < length (stm_states m) \<and>
    (\<forall>i \<le> stm_max_state m. sd_state (stm_states m ! i) = i)"
    unfolding stm_check_states_iff by (force simp del: upt_Suc)
  then show ?thesis
    unfolding stm_init_def bind_res_eq_Inr by (auto simp: stm_wf_def simp del: upt_Suc)
qed

lemma stm_state_wf:
  "stm_wf m \<Longrightarrow>
   stm_state m = Inr (case stm_current m of None \<Rightarrow> stm_initial m | Some c \<Rightarrow> c)"
  by (auto simp: stm_state_def stm_wf_def stm_at_def split: option.splits)

lemma handle_first_wf:
  assumes "stm_wf m" and "handle_first m s = Inr (m1, s1)"
  shows "stm_wf m1" "stm_same m m1" "stm_current m1 \<noteq> None"
  using assms
  by (auto simp: handle_first_def stm_wf_def stm_same_def stm_at_def split: option.splits if_splits)

lemma jump_wf:
  assumes "stm_wf m" and "jump m nxt s = Inr (m1, s1)"
  shows "stm_wf m1" "stm_same m m1" "stm_current m1 = Some nxt" "nxt \<le> stm_max_state m"
  using assms
  by (auto simp: jump_def stm_wf_def stm_same_def split: if_splits)

lemma stm_handler_wf:
  assumes wf: "stm_wf m" and run: "stm_handler ready m s = Inr (ret, m', s')"
  shows "stm_wf m'" "stm_same m m'" "stm_current m' = Some ret" "ret \<le> stm_max_state m"
proof -
  from run obtain m1 s1 s2 where first: "handle_first m s = Inr (m1, s1)"
    and jmp: "jump m1 ret s2 = Inr (m', s')"
    by (auto simp: stm_handler_def split: option.splits)
  note w1 = handle_first_wf [OF wf first]
  note w2 = jump_wf [OF w1(1) jmp]
  show "stm_wf m'" "stm_current m' = Some ret" using w2 by auto
  show "stm_same m m'" "ret \<le> stm_max_state m" using w1 w2 by (auto simp: stm_same_def)
qed

text \<open>What one event does: the arrival of the first state, the handler, and the change of state.\<close>

lemma stm_handler_cases:
  assumes wf: "stm_wf m" and run: "stm_handler ready m c = Inr (j, m', c')"
  obtains i c1 f c2 where "i \<le> stm_max_state m" and "j \<le> stm_max_state m" and "stm_current m' = Some j"
    and "stm_current m = None \<and> i = stm_initial m \<and>
        run_action (on_arrival (stm_states m ! i)) i c = Inr c1 \<or> stm_current m = Some i \<and> c1 = c"
    and "ready (stm_states m ! i) = Some f" and "f c1 = Inr (j, c2)"
    and "j = i \<and> c' = c2 \<or> j \<noteq> i \<and>
      (\<exists>c3. run_action (on_departure (stm_states m ! i)) i c2 = Inr c3 \<and>
        run_action (on_arrival (stm_states m ! j)) j c3 = Inr c')"
proof -
  obtain m1 c1 c2 i f where first: "handle_first m c = Inr (m1, c1)" and i: "stm_current m1 = Some i"
    and f: "ready (stm_states m1 ! i) = Some f" "f c1 = Inr (j, c2)"
    and jmp: "jump m1 j c2 = Inr (m', c')"
    using run by (auto simp: stm_handler_def stm_at_def split: option.splits if_splits)
  note w1 = handle_first_wf [OF wf first]
  have st: "stm_states m1 = stm_states m" "stm_max_state m1 = stm_max_state m"
    using w1 by (auto simp: stm_same_def)
  have i_le: "i \<le> stm_max_state m" using w1(1) i st by (simp add: stm_wf_def)
  have sd: "sd_state (stm_states m ! k) = k" if "k \<le> stm_max_state m" for k
    using wf that by (simp add: stm_wf_def)
  have c1: "stm_current m = None \<and> i = stm_initial m \<and>
      run_action (on_arrival (stm_states m ! i)) i c = Inr c1 \<or> stm_current m = Some i \<and> c1 = c"
    using first i sd [of "stm_initial m"] wf
    by (auto simp: handle_first_def stm_at_def stm_wf_def split: option.splits if_splits)
  have j_le: "j \<le> stm_max_state m" and cur: "stm_current m' = Some j"
    using stm_handler_wf [OF wf run] by auto
  have "j = i \<and> c' = c2 \<or> j \<noteq> i \<and>
      (\<exists>c3. run_action (on_departure (stm_states m ! i)) i c2 = Inr c3 \<and>
        run_action (on_arrival (stm_states m ! j)) j c3 = Inr c')"
    using jmp i st sd [OF i_le] sd [OF j_le] by (auto simp: jump_def stm_at_def split: if_splits)
  then show ?thesis using that [of i c1 f c2] i_le j_le cur c1 f st(1) by simp
qed

section \<open>The contract between the engine and its states\<close>

text \<open>
  \<open>entry n i s\<close>: what the environment satisfies when state \<open>i\<close> is entered, before its arrival
  action; \<open>rest n i s\<close>: what it satisfies whenever the machine waits in \<open>i\<close>. The number \<open>n\<close> is a
  budget that an arrival action and a handler may each use one of (a counter that they increment,
  say). \<open>ready_move\<close> is what a departure action has to turn into the entry condition of the next
  state; \<open>ok\<close> singles out the events considered.
\<close>

locale stm_client =
  fixes m0 :: "'s state_machine"
    and entry :: "nat \<Rightarrow> nat \<Rightarrow> 's \<Rightarrow> bool"
    and rest :: "nat \<Rightarrow> nat \<Rightarrow> 's \<Rightarrow> bool"
    and ok :: "('s state_definition \<Rightarrow> ('s \<Rightarrow> (nat \<times> 's) res) option) \<Rightarrow> bool"
  assumes machine: "stm_wf m0"
    and arrival: "i \<le> stm_max_state m0 \<Longrightarrow> entry n i s \<Longrightarrow>
      run_action (on_arrival (stm_states m0 ! i)) i s = Inr s' \<Longrightarrow> rest (Suc n) i s'"
    and ready_stay: "i \<le> stm_max_state m0 \<Longrightarrow> rest n i s \<Longrightarrow> ok ready \<Longrightarrow>
      ready (stm_states m0 ! i) = Some f \<Longrightarrow> f s = Inr (i, s') \<Longrightarrow> rest (Suc n) i s'"
    and ready_move: "i \<le> stm_max_state m0 \<Longrightarrow> rest n i s \<Longrightarrow> ok ready \<Longrightarrow>
      ready (stm_states m0 ! i) = Some f \<Longrightarrow> f s = Inr (j, s') \<Longrightarrow> i \<noteq> j \<Longrightarrow>
      j \<le> stm_max_state m0 \<Longrightarrow>
      run_action (on_departure (stm_states m0 ! i)) i s' = Inr s'' \<Longrightarrow> entry (Suc n) j s''"
    and spare: "rest n i s \<Longrightarrow> rest (Suc n) i s"
begin

definition rests :: "nat \<Rightarrow> 's state_machine \<Rightarrow> 's \<Rightarrow> bool" where
  "rests n m s \<longleftrightarrow> stm_same m0 m \<and> stm_wf m \<and>
     (case stm_current m of None \<Rightarrow> entry n (stm_initial m) s | Some c \<Rightarrow> rest n c s)"

lemma at_state:
  "stm_same m0 m \<Longrightarrow> stm_wf m \<Longrightarrow> i \<le> stm_max_state m0 \<Longrightarrow>
   stm_at m i = Inr (stm_states m0 ! i) \<and> sd_state (stm_states m0 ! i) = i"
  using machine by (auto simp: stm_at_def stm_same_def stm_wf_def)

lemma first_rests:
  assumes "rests n m s" and first: "handle_first m s = Inr (m1, s1)"
  obtains c where "stm_current m1 = Some c" and "rest (Suc n) c s1" and "stm_same m0 m1"
    and "stm_wf m1"
proof (cases "stm_current m")
  case None
  have m: "stm_same m0 m" "stm_wf m" "entry n (stm_initial m0) s"
    using assms(1) None by (auto simp: rests_def stm_same_def)
  have i: "stm_initial m0 \<le> stm_max_state m0" "stm_initial m = stm_initial m0"
    using machine m by (auto simp: stm_wf_def stm_same_def)
  have "run_action (on_arrival (stm_states m0 ! stm_initial m0)) (stm_initial m0) s = Inr s1"
    and "m1 = m\<lparr>stm_current := Some (stm_initial m0)\<rparr>"
    using first None at_state [OF m(1,2) i(1)] i(2) by (auto simp: handle_first_def)
  moreover have "rest (Suc n) (stm_initial m0) s1"
    using calculation(1) arrival i(1) m(3) by blast
  ultimately show ?thesis
    using handle_first_wf [OF m(2) first] m(1)
    by (intro that [of "stm_initial m0"]) (auto simp: stm_same_def)
next
  case (Some c)
  then show ?thesis
    using assms spare by (intro that [of c]) (auto simp: rests_def handle_first_def)
qed

lemma jump_rests:
  assumes same: "stm_same m0 m" and wf: "stm_wf m" and c: "stm_current m = Some c"
    and j: "jump m j s = Inr (m', s')"
    and stay: "j = c \<Longrightarrow> rest n c s"
    and move: "\<And>s''. j \<noteq> c \<Longrightarrow> j \<le> stm_max_state m0 \<Longrightarrow>
      run_action (on_departure (stm_states m0 ! c)) c s = Inr s'' \<Longrightarrow> entry n j s''"
  shows "rests (Suc n) m' s'"
proof -
  have le: "c \<le> stm_max_state m0" "j \<le> stm_max_state m0"
    using wf c same jump_wf [OF wf j] by (auto simp: stm_wf_def stm_same_def)
  note atc = at_state [OF same wf le(1)] and atj = at_state [OF same wf le(2)]
  have m': "stm_same m0 m'" "stm_wf m'" "stm_current m' = Some j"
    using jump_wf [OF wf j] same by (auto simp: stm_same_def)
  show ?thesis
  proof (cases "j = c")
    case True
    then show ?thesis using j c m' stay spare by (auto simp: jump_def rests_def split: if_splits)
  next
    case False
    then obtain s1 where
      dep: "run_action (on_departure (stm_states m0 ! c)) c s = Inr s1" and
      arr: "run_action (on_arrival (stm_states m0 ! j)) j s1 = Inr s'"
      using j c atc atj by (auto simp: jump_def split: if_splits)
    have "rest (Suc n) j s'" using arrival [OF le(2) move [OF False le(2) dep] arr] .
    then show ?thesis using m' by (simp add: rests_def)
  qed
qed

text \<open>An event uses at most three: the first arrival, the handler and the arrival it leads to.\<close>

lemma handler_rests:
  assumes inv: "rests n m s" and ok: "ok ready"
    and run: "stm_handler ready m s = Inr (ret, m', s')"
  shows "rests (n + 3) m' s'"
proof -
  from run obtain m1 s1 where first: "handle_first m s = Inr (m1, s1)"
    by (auto simp: stm_handler_def)
  from inv first obtain c where c: "stm_current m1 = Some c" "rest (Suc n) c s1"
    "stm_same m0 m1" "stm_wf m1"
    by (rule first_rests)
  have le: "c \<le> stm_max_state m0" using c by (auto simp: stm_wf_def stm_same_def)
  from run first c at_state [OF c(3,4) le] obtain f s2 where
    f: "ready (stm_states m0 ! c) = Some f" "f s1 = Inr (ret, s2)"
    and j: "jump m1 ret s2 = Inr (m', s')"
    by (auto simp: stm_handler_def split: option.splits)
  have "rests (Suc (Suc (Suc n))) m' s'"
    using c(3,4,1) j
  proof (rule jump_rests)
    show "rest (Suc (Suc n)) c s2" if "ret = c"
      using ready_stay [OF le c(2) ok f(1)] f(2) that by simp
    show "entry (Suc (Suc n)) ret s''" if "ret \<noteq> c" "ret \<le> stm_max_state m0"
      "run_action (on_departure (stm_states m0 ! c)) c s2 = Inr s''" for s''
      using ready_move [OF le c(2) ok f(1,2)] that by auto
  qed
  then show ?thesis by (simp add: numeral_3_eq_3)
qed

text \<open>The handler that ran, and the state it ran in.\<close>

lemma handler_ran:
  assumes inv: "rests n m s" and run: "stm_handler ready m s = Inr (ret, m', s')"
  obtains c f s1 s2 where "c = (case stm_current m of None \<Rightarrow> stm_initial m0 | Some c \<Rightarrow> c)"
    and "c \<le> stm_max_state m0" and "rest (Suc n) c s1"
    and "ready (stm_states m0 ! c) = Some f" and "f s1 = Inr (ret, s2)"
proof -
  from run obtain m1 s1 where first: "handle_first m s = Inr (m1, s1)"
    by (auto simp: stm_handler_def)
  from inv first obtain c where c: "stm_current m1 = Some c" "rest (Suc n) c s1"
    "stm_same m0 m1" "stm_wf m1"
    by (rule first_rests)
  have le: "c \<le> stm_max_state m0" using c by (auto simp: stm_wf_def stm_same_def)
  have "stm_initial m = stm_initial m0" using inv by (simp add: rests_def stm_same_def)
  then have "c = (case stm_current m of None \<Rightarrow> stm_initial m0 | Some c \<Rightarrow> c)"
    using first c(1) by (auto simp: handle_first_def split: option.splits)
  moreover from run first c at_state [OF c(3,4) le] obtain f s2 where
    "ready (stm_states m0 ! c) = Some f" "f s1 = Inr (ret, s2)"
    by (auto simp: stm_handler_def split: option.splits)
  ultimately show ?thesis using that le c(2) by blast
qed

end

section \<open>Properties of the engine\<close>

text \<open>
  The engine never leaves its table. Whatever the handlers plugged into a well-formed machine
  do, an event that returns leaves the machine in the state the handler asked for, which is a
  state of the table, and changes neither the table, its size nor its initial state; a handler
  that asks for a state past the table, or an event the state has no handler for, aborts instead.
\<close>

theorem stm_event_in_table:
  assumes "stm_wf m" and "stm_handler ready m s = Inr (ret, m', s')"
  shows "stm_wf m' \<and> stm_same m m' \<and> stm_current m' = Some ret \<and> ret \<le> stm_max_state m \<and>
    stm_state m' = Inr ret"
  using stm_handler_wf [OF assms] stm_state_wf [of m'] by simp

definition demo_stm :: "unit state_machine" where
  "demo_stm = \<lparr>stm_initial = 0, stm_max_state = 1,
     stm_states =
       [\<lparr>sd_state = 0, on_arrival = None, on_departure = None,
         on_read_ready = Some (\<lambda>s. Inr (1, s)), on_write_ready = None, on_block_ready = None\<rparr>,
        \<lparr>sd_state = 1, on_arrival = None, on_departure = None, on_read_ready = None,
         on_write_ready = Some (\<lambda>s. Inr (2, s)), on_block_ready = None\<rparr>],
     stm_current = None\<rparr>"

lemma stm_event_in_table_witness:
  "\<exists>m'. stm_handler on_read_ready demo_stm () = Inr (1, m', ()) \<and> stm_state m' = Inr 1"
proof -
  have wf: "stm_wf demo_stm" by (auto simp: stm_wf_def demo_stm_def nth_Cons')
  have run: "stm_handler on_read_ready demo_stm () = Inr (1, demo_stm\<lparr>stm_current := Some 1\<rparr>, ())"
    by (simp add: stm_handler_def handle_first_def jump_def stm_at_def run_action_def demo_stm_def)
  show ?thesis using stm_event_in_table [OF wf run] run by simp
qed

end
