(* ===== verification/Selector.thy ===== *)
theory Selector
  imports Prelude
begin

text \<open>
  \<open>src/selector.c\<close>: the multiplexer. A table indexed by file descriptor says who is interested in
  what; \<open>pselect\<close> waits on the sets derived from it, and one iteration calls the handlers of the
  descriptors that are ready. The four handlers of an \<open>fd_handler\<close> act on the selector and on
  the rest of the program's state \<open>'w\<close>; an item points at its \<open>fd_handler\<close> by a name \<open>'h\<close>, which
  the argument \<open>tbl\<close> resolves, and carries a pointer \<open>'d\<close> for its user (\<open>None\<close> is \<open>NULL\<close>).
  What \<open>malloc\<close> and \<open>pselect\<close> return are arguments; the mutex around the finished jobs, the
  signal set-up and the timeouts are left out. The selector pointer itself is never null here.
\<close>

section \<open>The code\<close>

datatype selector_status =
    SELECTOR_SUCCESS | SELECTOR_ENOMEM | SELECTOR_MAXFD | SELECTOR_IARGS | SELECTOR_FDINUSE
  | SELECTOR_IO

type_synonym fd_interest = u32

definition OP_NOOP :: fd_interest where "OP_NOOP = 0"
definition OP_READ :: fd_interest where "OP_READ = 1"
definition OP_WRITE :: fd_interest where "OP_WRITE = 4"

lemmas op_defs = OP_NOOP_def OP_READ_def OP_WRITE_def

definition INTEREST_OFF :: "fd_interest \<Rightarrow> fd_interest \<Rightarrow> fd_interest" where
  "INTEREST_OFF flags off = flags AND (NOT off)"

definition wants :: "fd_interest \<Rightarrow> fd_interest \<Rightarrow> bool" where
  "wants op i \<longleftrightarrow> op AND i \<noteq> 0"

definition ITEMS_MAX_SIZE :: nat where "ITEMS_MAX_SIZE = 1024"
definition FD_UNUSED :: int where "FD_UNUSED = -1"

record ('h, 'd) item =
  it_fd :: int
  it_interest :: fd_interest
  it_handler :: "'h option"
  it_data :: "'d option"

record ('h, 'd) fdselector =
  fds :: "('h, 'd) item list ptr"
  fd_size :: nat
  max_fd :: nat
  master_r :: "nat set"
  master_w :: "nat set"
  slave_r :: "nat set"
  slave_w :: "nat set"
  resolution_jobs :: "nat list"

type_synonym ('h, 'd, 'w) hook =
  "nat \<Rightarrow> 'd option \<Rightarrow> ('h, 'd) fdselector \<times> 'w \<Rightarrow> (('h, 'd) fdselector \<times> 'w) res"

record ('h, 'd, 'w) fd_handler =
  handle_read :: "('h, 'd, 'w) hook option"
  handle_write :: "('h, 'd, 'w) hook option"
  handle_block :: "('h, 'd, 'w) hook option"
  handle_close :: "('h, 'd, 'w) hook option"

definition item_used :: "('h, 'd) item \<Rightarrow> bool" where
  "item_used it \<longleftrightarrow> it_fd it \<noteq> FD_UNUSED"

definition blank_item :: "('h, 'd) item" where
  "blank_item = \<lparr>it_fd = 0, it_interest = 0, it_handler = None, it_data = None\<rparr>"

definition item_init :: "('h, 'd) item \<Rightarrow> ('h, 'd) item" where
  "item_init it = it\<lparr>it_fd := FD_UNUSED\<rparr>"

definition INVALID_FD :: "int \<Rightarrow> bool" where
  "INVALID_FD fd \<longleftrightarrow> fd < 0 \<or> fd \<ge> int ITEMS_MAX_SIZE"

fun bit_count :: "nat \<Rightarrow> nat" where
  "bit_count n = (if n = 0 then 0 else Suc (bit_count (n div 2)))"

declare bit_count.simps [simp del]

text \<open>
  \<open>1UL << bits\<close> is at a shift of 64 or more when \<open>n\<close> has 64 bits: undefined. The callers pass at
  most \<open>ITEMS_MAX_SIZE\<close>.
\<close>

definition next_capacity :: "nat \<Rightarrow> nat res" where
  "next_capacity n =
     (let bits = bit_count n
      in if bits \<ge> 64 then Inl Undefined
         else let tmp = 2 ^ bits
              in if tmp < n then Inl Aborted
                 else Inr ((if tmp > ITEMS_MAX_SIZE then ITEMS_MAX_SIZE else tmp) + 1))"

text \<open>Growing the table; \<open>ok\<close> is whether \<open>calloc\<close> or \<open>realloc\<close> succeeds.\<close>

definition ensure_capacity ::
  "bool \<Rightarrow> ('h, 'd) fdselector \<Rightarrow> nat \<Rightarrow> (selector_status \<times> ('h, 'd) fdselector) res" where
  "ensure_capacity ok s n =
     (if n < fd_size s then Inr (SELECTOR_SUCCESS, s)
      else if n > ITEMS_MAX_SIZE then Inr (SELECTOR_MAXFD, s)
      else
        bind_res (next_capacity n)
          (\<lambda>new_size.
            (case fds s of
               Null \<Rightarrow>
                 Inr (if ok then (SELECTOR_SUCCESS,
                        s\<lparr>fds := Ptr (replicate new_size (item_init blank_item)), fd_size := new_size\<rparr>)
                      else (SELECTOR_ENOMEM, s))
             | Ptr items \<Rightarrow>
                 Inr (if ok then (SELECTOR_SUCCESS,
                        s\<lparr>fds := Ptr (take (fd_size s) items
                               @ replicate (new_size - fd_size s) (item_init blank_item)),
                          fd_size := new_size\<rparr>)
                      else (SELECTOR_ENOMEM, s))
             | Dangling \<Rightarrow> Inl Undefined)))"

definition selector_new :: "bool \<Rightarrow> bool \<Rightarrow> nat \<Rightarrow> ('h, 'd) fdselector option res" where
  "selector_new ok_struct ok_table initial =
     (if ok_struct then
        bind_res (ensure_capacity ok_table
            \<lparr>fds = Null, fd_size = 0, max_fd = 0, master_r = {}, master_w = {}, slave_r = {},
             slave_w = {}, resolution_jobs = []\<rparr> initial)
          (\<lambda>(st, s). Inr (if st = SELECTOR_SUCCESS then Some s else None))
      else Inr None)"

definition item_at :: "('h, 'd) fdselector \<Rightarrow> nat \<Rightarrow> ('h, 'd) item res" where
  "item_at s i =
     bind_res (deref (fds s)) (\<lambda>items. if i < length items then Inr (items ! i) else Inl Undefined)"

definition item_put :: "('h, 'd) fdselector \<Rightarrow> nat \<Rightarrow> ('h, 'd) item \<Rightarrow> ('h, 'd) fdselector res" where
  "item_put s i it =
     bind_res (deref (fds s))
       (\<lambda>items. if i < length items then Inr (s\<lparr>fds := Ptr (items[i := it])\<rparr>) else Inl Undefined)"

text \<open>\<open>FD_CLR(-1, ..)\<close> would write outside the set.\<close>

definition items_update_fdset_for_fd ::
  "('h, 'd) fdselector \<Rightarrow> ('h, 'd) item \<Rightarrow> ('h, 'd) fdselector res" where
  "items_update_fdset_for_fd s it =
     (if it_fd it < 0 then Inl Undefined
      else
        let fd = nat (it_fd it); r = master_r s - {fd}; w = master_w s - {fd}
        in Inr (if item_used it
             then s\<lparr>master_r := (if wants (it_interest it) OP_READ then insert fd r else r),
                    master_w := (if wants (it_interest it) OP_WRITE then insert fd w else w)\<rparr>
             else s\<lparr>master_r := r, master_w := w\<rparr>))"

fun items_max_from :: "('h, 'd) fdselector \<Rightarrow> nat list \<Rightarrow> nat \<Rightarrow> nat res" where
  "items_max_from s [] m = Inr m"
| "items_max_from s (i # is) m =
     bind_res (item_at s i)
       (\<lambda>it. items_max_from s is
          (if item_used it \<and> it_fd it > int m then nat (it_fd it) else m))"

definition items_max_fd :: "('h, 'd) fdselector \<Rightarrow> nat res" where
  "items_max_fd s = items_max_from s [0..<Suc (max_fd s)] 0"

definition selector_register ::
  "bool \<Rightarrow> ('h, 'd) fdselector \<Rightarrow> int \<Rightarrow> 'h option \<Rightarrow> fd_interest \<Rightarrow> 'd option \<Rightarrow>
   (selector_status \<times> ('h, 'd) fdselector) res" where
  "selector_register ok s fd handler interest data =
     (if INVALID_FD fd \<or> handler = None then Inr (SELECTOR_IARGS, s)
      else
        let ufd = nat fd
        in bind_res
          (if ufd > fd_size s then ensure_capacity ok s ufd else Inr (SELECTOR_SUCCESS, s))
          (\<lambda>(ret, s1).
            if ret \<noteq> SELECTOR_SUCCESS then Inr (ret, s1)
            else bind_res (item_at s1 ufd)
              (\<lambda>it. if item_used it then Inr (SELECTOR_FDINUSE, s1)
                else
                  let it' = \<lparr>it_fd = fd, it_interest = interest, it_handler = handler,
                             it_data = data\<rparr>
                  in bind_res (item_put s1 ufd it')
                    (\<lambda>s2. let s3 = (if ufd > max_fd s2 then s2\<lparr>max_fd := ufd\<rparr> else s2)
                         in bind_res (items_update_fdset_for_fd s3 it')
                              (\<lambda>s4. Inr (SELECTOR_SUCCESS, s4))))))"

text \<open>Calling through a null \<open>fd_handler\<close> or a null function pointer is undefined.\<close>

definition item_hooks ::
  "('h \<Rightarrow> ('h, 'd, 'w) fd_handler) \<Rightarrow> ('h, 'd) item \<Rightarrow> ('h, 'd, 'w) fd_handler res" where
  "item_hooks tbl it =
     (case it_handler it of None \<Rightarrow> Inl Undefined | Some h \<Rightarrow> Inr (tbl h))"

text \<open>The call of \<open>handle_close\<close>, if there is one.\<close>

definition close_hook ::
  "('h \<Rightarrow> ('h, 'd, 'w) fd_handler) \<Rightarrow> ('h, 'd) item \<Rightarrow> ('h, 'd) fdselector \<times> 'w \<Rightarrow>
   (('h, 'd) fdselector \<times> 'w) res" where
  "close_hook tbl it sw =
     bind_res (item_hooks tbl it)
       (\<lambda>h. case handle_close h of
          None \<Rightarrow> Inr sw | Some f \<Rightarrow> f (nat (it_fd it)) (it_data it) sw)"

definition selector_unregister_fd ::
  "('h \<Rightarrow> ('h, 'd, 'w) fd_handler) \<Rightarrow> ('h, 'd) fdselector \<times> 'w \<Rightarrow> int \<Rightarrow>
   (selector_status \<times> ('h, 'd) fdselector \<times> 'w) res" where
  "selector_unregister_fd tbl = (\<lambda>(s, w) fd.
     if INVALID_FD fd then Inr (SELECTOR_IARGS, s, w)
     else
       let i = nat fd
       in bind_res (item_at s i)
         (\<lambda>it. if \<not> item_used it then Inr (SELECTOR_IARGS, s, w)
           else bind_res (close_hook tbl it (s, w))
             (\<lambda>(s1, w1). bind_res (item_at s1 i)
               (\<lambda>it1. bind_res (items_update_fdset_for_fd s1 (it1\<lparr>it_interest := OP_NOOP\<rparr>))
                 (\<lambda>s2. bind_res (item_put s2 i (item_init blank_item))
                   (\<lambda>s3. bind_res (items_max_fd s3)
                     (\<lambda>m. Inr (SELECTOR_SUCCESS, s3\<lparr>max_fd := m\<rparr>, w1))))))))"

definition selector_set_interest ::
  "('h, 'd) fdselector \<Rightarrow> int \<Rightarrow> fd_interest \<Rightarrow> (selector_status \<times> ('h, 'd) fdselector) res" where
  "selector_set_interest s fd i =
     (if INVALID_FD fd then Inr (SELECTOR_IARGS, s)
      else bind_res (item_at s (nat fd))
        (\<lambda>it. if \<not> item_used it then Inr (SELECTOR_IARGS, s)
          else bind_res (item_put s (nat fd) (it\<lparr>it_interest := i\<rparr>))
            (\<lambda>s1. bind_res (items_update_fdset_for_fd s1 (it\<lparr>it_interest := i\<rparr>))
              (\<lambda>s2. Inr (SELECTOR_SUCCESS, s2)))))"

definition selector_set_interest_key ::
  "('h, 'd) fdselector \<Rightarrow> int option \<Rightarrow> fd_interest \<Rightarrow>
   (selector_status \<times> ('h, 'd) fdselector) res" where
  "selector_set_interest_key s key i =
     (case key of
        None \<Rightarrow> Inr (SELECTOR_IARGS, s)
      | Some fd \<Rightarrow> if INVALID_FD fd then Inr (SELECTOR_IARGS, s) else selector_set_interest s fd i)"

text \<open>
  One descriptor of an iteration. \<open>item\<close> and \<open>key.data\<close> are read before the read handler runs; a
  table that the read handler made grow may have moved, and then \<open>item\<close> dangles.
\<close>

definition handle_item ::
  "('h \<Rightarrow> ('h, 'd, 'w) fd_handler) \<Rightarrow> ('h, 'd) fdselector \<times> 'w \<Rightarrow> nat \<Rightarrow>
   (('h, 'd) fdselector \<times> 'w) res" where
  "handle_item tbl = (\<lambda>(s, w) i.
     bind_res (item_at s i)
       (\<lambda>it. if \<not> item_used it then Inr (s, w)
         else
           let key_fd = nat (it_fd it); key_data = it_data it
           in bind_res
             (if key_fd \<in> slave_r s \<and> wants OP_READ (it_interest it) then
                bind_res (item_hooks tbl it)
                  (\<lambda>h. case handle_read h of
                     None \<Rightarrow> Inl Aborted
                   | Some f \<Rightarrow> f key_fd key_data (s, w))
              else Inr (s, w))
             (\<lambda>(s1, w1).
               if i \<notin> slave_w s1 then Inr (s1, w1)
               else if fd_size s1 \<noteq> fd_size s then Inl Undefined
               else bind_res (item_at s1 i)
                 (\<lambda>it1. if wants OP_WRITE (it_interest it1) then
                     bind_res (item_hooks tbl it1)
                       (\<lambda>h. case handle_write h of
                          None \<Rightarrow> Inl Aborted
                        | Some f \<Rightarrow> f key_fd key_data (s1, w1))
                   else Inr (s1, w1)))))"

fun handle_items ::
  "('h \<Rightarrow> ('h, 'd, 'w) fd_handler) \<Rightarrow> nat list \<Rightarrow> ('h, 'd) fdselector \<times> 'w \<Rightarrow>
   (('h, 'd) fdselector \<times> 'w) res" where
  "handle_items tbl [] sw = Inr sw"
| "handle_items tbl (i # is) sw = bind_res (handle_item tbl sw i) (handle_items tbl is)"

definition handle_iteration ::
  "('h \<Rightarrow> ('h, 'd, 'w) fd_handler) \<Rightarrow> ('h, 'd) fdselector \<times> 'w \<Rightarrow>
   (('h, 'd) fdselector \<times> 'w) res" where
  "handle_iteration tbl sw = handle_items tbl [0..<Suc (max_fd (fst sw))] sw"

fun handle_jobs ::
  "('h \<Rightarrow> ('h, 'd, 'w) fd_handler) \<Rightarrow> nat list \<Rightarrow> ('h, 'd) fdselector \<times> 'w \<Rightarrow>
   (('h, 'd) fdselector \<times> 'w) res" where
  "handle_jobs tbl [] sw = Inr sw"
| "handle_jobs tbl (j # js) sw =
     bind_res (item_at (fst sw) j)
       (\<lambda>it. bind_res
          (if item_used it then
             bind_res (item_hooks tbl it)
               (\<lambda>h. case handle_block h of
                  None \<Rightarrow> Inl Undefined
                | Some f \<Rightarrow> f (nat (it_fd it)) (it_data it) sw)
           else Inr sw)
          (handle_jobs tbl js))"

definition handle_block_notifications ::
  "('h \<Rightarrow> ('h, 'd, 'w) fd_handler) \<Rightarrow> ('h, 'd) fdselector \<times> 'w \<Rightarrow>
   (('h, 'd) fdselector \<times> 'w) res" where
  "handle_block_notifications tbl sw =
     bind_res (handle_jobs tbl (resolution_jobs (fst sw)) sw)
       (\<lambda>(s, w). Inr (s\<lparr>resolution_jobs := []\<rparr>, w))"

definition selector_notify_block ::
  "bool \<Rightarrow> ('h, 'd) fdselector \<Rightarrow> nat \<Rightarrow> selector_status \<times> ('h, 'd) fdselector" where
  "selector_notify_block ok s fd =
     (if ok then (SELECTOR_SUCCESS, s\<lparr>resolution_jobs := fd # resolution_jobs s\<rparr>)
      else (SELECTOR_ENOMEM, s))"

text \<open>
  What \<open>pselect\<close> reports: a failure, interrupted or not, or the descriptors that are ready, which
  it leaves in the sets it was given.
\<close>

datatype pselect_result = Interrupted | Failed | Ready "nat set" "nat set"

definition selector_select ::
  "('h \<Rightarrow> ('h, 'd, 'w) fd_handler) \<Rightarrow> pselect_result \<Rightarrow> ('h, 'd) fdselector \<times> 'w \<Rightarrow>
   (selector_status \<times> ('h, 'd) fdselector \<times> 'w) res" where
  "selector_select tbl res = (\<lambda>(s, w).
     (case res of
        Failed \<Rightarrow> Inr (SELECTOR_IO, s\<lparr>slave_r := master_r s, slave_w := master_w s\<rparr>, w)
      | Interrupted \<Rightarrow>
          bind_res (handle_block_notifications tbl
              (s\<lparr>slave_r := master_r s, slave_w := master_w s\<rparr>, w))
            (\<lambda>(s', w'). Inr (SELECTOR_SUCCESS, s', w'))
      | Ready r wr \<Rightarrow>
          bind_res (handle_iteration tbl
              (s\<lparr>slave_r := master_r s \<inter> r, slave_w := master_w s \<inter> wr\<rparr>, w))
            (\<lambda>sw. bind_res (handle_block_notifications tbl sw)
              (\<lambda>(s', w'). Inr (SELECTOR_SUCCESS, s', w')))))"

section \<open>The table as a map\<close>

text \<open>
  \<open>registered s\<close> is what a client of the selector sees: which descriptors are registered, with
  their interest, handler and data. The invariant says that everything else in the selector
  (the array, its size, the greatest descriptor, the two sets for \<open>pselect\<close>) is derived from it.
\<close>

definition registered :: "('h, 'd) fdselector \<Rightarrow> nat \<Rightarrow> ('h, 'd) item option" where
  "registered s i =
     (case fds s of
        Ptr items \<Rightarrow> if i < length items \<and> item_used (items ! i) then Some (items ! i) else None
      | _ \<Rightarrow> None)"

definition item_ok :: "('h, 'd) fdselector \<Rightarrow> nat \<Rightarrow> ('h, 'd) item \<Rightarrow> bool" where
  "item_ok s i it \<longleftrightarrow>
     it_fd it = int i \<and> i < ITEMS_MAX_SIZE \<and> i \<le> max_fd s \<and> it_handler it \<noteq> None"

definition wanted :: "('h, 'd) fdselector \<Rightarrow> fd_interest \<Rightarrow> nat set" where
  "wanted s op = {i. \<exists>it. registered s i = Some it \<and> wants (it_interest it) op}"

text \<open>An item that is not in use has no handler left.\<close>

definition tidy :: "('h, 'd) item list \<Rightarrow> bool" where
  "tidy items \<longleftrightarrow> (\<forall>it \<in> set items. item_used it \<or> it_handler it = None)"

lemma tidy_update:
  assumes "tidy items" and "item_used it \<or> it_handler it = None"
  shows "tidy (items[i := it])"
proof -
  have "set (items[i := it]) \<subseteq> insert it (set items)" by (rule set_update_subset_insert)
  then have "\<forall>x \<in> set (items[i := it]). x = it \<or> x \<in> set items" by blast
  then show ?thesis using assms unfolding tidy_def by metis
qed

definition selector_inv :: "('h, 'd) fdselector \<Rightarrow> bool" where
  "selector_inv s \<longleftrightarrow>
     (\<exists>items. fds s = Ptr items \<and> length items = fd_size s \<and> tidy items) \<and>
     max_fd s < fd_size s \<and> fd_size s \<le> Suc ITEMS_MAX_SIZE \<and>
     (\<forall>i it. registered s i = Some it \<longrightarrow> item_ok s i it) \<and>
     master_r s = wanted s OP_READ \<and> master_w s = wanted s OP_WRITE"

lemma selector_inv_fds:
  assumes "selector_inv s"
  obtains items where "fds s = Ptr items" and "length items = fd_size s" and "tidy items"
  using assms that unfolding selector_inv_def by blast

lemma registered_item_ok: "selector_inv s \<Longrightarrow> registered s i = Some it \<Longrightarrow> item_ok s i it"
  by (simp add: selector_inv_def)

lemma registered_bounds:
  "selector_inv s \<Longrightarrow> registered s i = Some it \<Longrightarrow>
   i < fd_size s \<and> i < ITEMS_MAX_SIZE \<and> i \<le> max_fd s \<and> it_fd it = int i \<and> item_used it"
  using registered_item_ok [of s i it]
  by (simp add: item_ok_def item_used_def FD_UNUSED_def) (simp add: selector_inv_def)

text \<open>Reading and writing an item, in terms of the map.\<close>

lemma item_at_inv:
  assumes "selector_inv s" and "i < fd_size s"
  obtains it where "item_at s i = Inr it"
    and "registered s i = (if item_used it then Some it else None)"
proof -
  obtain items where "fds s = Ptr items" "length items = fd_size s"
    using assms(1) by (rule selector_inv_fds)
  then show ?thesis
    using assms(2) by (intro that [of "items ! i"]) (simp_all add: item_at_def registered_def)
qed

lemma item_at_registered:
  "registered s i = Some it \<Longrightarrow> item_at s i = Inr it"
  by (auto simp: item_at_def registered_def split: ptr.splits if_splits)

lemma item_put_inv:
  assumes "selector_inv s" and "i < fd_size s"
  obtains items where "item_put s i it = Inr (s\<lparr>fds := Ptr items\<rparr>)" and "length items = fd_size s"
    and "registered (s\<lparr>fds := Ptr items\<rparr>)
       = (registered s)(i := if item_used it then Some it else None)"
    and "item_used it \<longrightarrow> tidy items"
proof -
  obtain items where f: "fds s = Ptr items" "length items = fd_size s" "tidy items"
    using assms(1) by (rule selector_inv_fds)
  then show ?thesis
    using assms(2) tidy_update [of items it i]
    by (intro that [of "items[i := it]"])
      (auto simp: item_put_def registered_def fun_eq_iff nth_list_update)
qed

lemma registered_update [simp]:
  "registered (s\<lparr>max_fd := m\<rparr>) = registered s"
  "registered (s\<lparr>master_r := r\<rparr>) = registered s"
  "registered (s\<lparr>master_w := r\<rparr>) = registered s"
  "registered (s\<lparr>slave_r := r\<rparr>) = registered s"
  "registered (s\<lparr>slave_w := r\<rparr>) = registered s"
  "registered (s\<lparr>resolution_jobs := js\<rparr>) = registered s"
  by (simp_all add: registered_def fun_eq_iff)

lemma selector_inv_update [simp]:
  "selector_inv (s\<lparr>slave_r := r\<rparr>) = selector_inv s"
  "selector_inv (s\<lparr>slave_w := r\<rparr>) = selector_inv s"
  "selector_inv (s\<lparr>resolution_jobs := js\<rparr>) = selector_inv s"
  by (simp_all add: selector_inv_def wanted_def item_ok_def)

section \<open>Capacity\<close>

lemma bit_count_upper: "n < 2 ^ bit_count n"
proof (induction n rule: bit_count.induct)
  case (1 n)
  show ?case
  proof (cases "n = 0")
    case False
    then show ?thesis using 1 by (subst bit_count.simps) auto
  qed (simp add: bit_count.simps)
qed

lemma bit_count_mono: "n < 2 ^ k \<Longrightarrow> bit_count n \<le> k"
proof (induction k arbitrary: n)
  case 0
  then show ?case by (simp add: bit_count.simps)
next
  case (Suc k)
  then have "n div 2 < 2 ^ k" by auto
  then show ?case using Suc.IH [of "n div 2"] by (subst bit_count.simps) simp
qed

lemma next_capacity_spec:
  assumes "n \<le> ITEMS_MAX_SIZE"
  obtains m where "next_capacity n = Inr m" and "n < m" and "m \<le> Suc ITEMS_MAX_SIZE"
proof -
  have "bit_count n \<le> 11"
    using assms by (intro bit_count_mono) (simp add: ITEMS_MAX_SIZE_def)
  moreover have "n < 2 ^ bit_count n" by (rule bit_count_upper)
  ultimately show ?thesis
    using assms by (intro that [of "(if 2 ^ bit_count n > ITEMS_MAX_SIZE then ITEMS_MAX_SIZE
        else 2 ^ bit_count n) + 1"]) (simp_all add: next_capacity_def Let_def)
qed

lemma unused_init [simp]: "\<not> item_used (item_init it)"
  by (simp add: item_used_def item_init_def)

lemma handler_init [simp]: "it_handler (item_init it) = it_handler it"
  by (simp add: item_init_def)

lemma handler_blank [simp]: "it_handler blank_item = None"
  by (simp add: blank_item_def)

lemma tidy_grow: "tidy items \<Longrightarrow> tidy (items @ replicate n (item_init blank_item))"
  by (auto simp: tidy_def)

lemma ensure_capacity_spec:
  assumes inv: "selector_inv s" and n: "n \<le> ITEMS_MAX_SIZE"
  obtains st s' where "ensure_capacity ok s n = Inr (st, s')" and "selector_inv s'"
    and "registered s' = registered s" and "resolution_jobs s' = resolution_jobs s"
    and "fd_size s \<le> fd_size s'"
    and "st = SELECTOR_SUCCESS \<and> n < fd_size s' \<or> st = SELECTOR_ENOMEM \<and> \<not> ok \<and> s' = s"
proof (cases "n < fd_size s")
  case True
  then show ?thesis using inv by (intro that [of SELECTOR_SUCCESS s]) (simp_all add: ensure_capacity_def)
next
  case False
  obtain items where f: "fds s = Ptr items" "length items = fd_size s" "tidy items"
    using inv by (rule selector_inv_fds)
  obtain m where m: "next_capacity n = Inr m" "n < m" "m \<le> Suc ITEMS_MAX_SIZE"
    using n by (rule next_capacity_spec)
  show ?thesis
  proof (cases ok)
    case True
    let ?s' = "s\<lparr>fds := Ptr (take (fd_size s) items
                   @ replicate (m - fd_size s) (item_init blank_item)), fd_size := m\<rparr>"
    have reg: "registered ?s' = registered s"
      using f by (auto simp: registered_def fun_eq_iff nth_append)
    then have "selector_inv ?s'"
      using inv m f False by (auto simp: selector_inv_def item_ok_def wanted_def tidy_grow)
    then show ?thesis
      using f m n False reg True
      by (intro that [of SELECTOR_SUCCESS ?s']) (simp_all add: ensure_capacity_def)
  next
    case nok: False
    then show ?thesis
      using f m n False inv by (intro that [of SELECTOR_ENOMEM s]) (simp_all add: ensure_capacity_def)
  qed
qed

lemma selector_new_spec:
  assumes "n \<le> ITEMS_MAX_SIZE" and "selector_new ok1 ok2 n = Inr (Some s)"
  shows "selector_inv s \<and> registered s = (\<lambda>_. None) \<and> n < fd_size s"
proof -
  obtain m where m: "next_capacity n = Inr m" "n < m" "m \<le> Suc ITEMS_MAX_SIZE"
    using assms(1) by (rule next_capacity_spec)
  have "fds s = Ptr (replicate m (item_init blank_item))" "fd_size s = m" "max_fd s = 0"
    "master_r s = {}" "master_w s = {}"
    using assms m by (auto simp: selector_new_def ensure_capacity_def split: if_splits)
  then show ?thesis
    using m by (auto simp: selector_inv_def registered_def wanted_def tidy_def)
qed

section \<open>The operations on the map\<close>

lemma wanted_put:
  "registered s' = (registered s)(i := Some it) \<Longrightarrow> wanted s' op =
   (if wants (it_interest it) op then insert i (wanted s op - {i}) else wanted s op - {i})"
  by (auto simp: wanted_def)

lemma wanted_remove: "registered s' = (registered s)(i := None) \<Longrightarrow> wanted s' op = wanted s op - {i}"
  by (auto simp: wanted_def)

lemma update_fdset_put:
  assumes "it_fd it = int i"
  shows "items_update_fdset_for_fd s it = Inr (s
     \<lparr>master_r := if wants (it_interest it) OP_READ then insert i (master_r s - {i})
                 else master_r s - {i},
      master_w := if wants (it_interest it) OP_WRITE then insert i (master_w s - {i})
                 else master_w s - {i}\<rparr>)"
  using assms by (cases s) (simp add: items_update_fdset_for_fd_def item_used_def FD_UNUSED_def Let_def)

text \<open>The state after a write of item \<open>i\<close> and the update of the two sets.\<close>

definition table_put ::
  "('h, 'd) fdselector \<Rightarrow> ('h, 'd) item list \<Rightarrow> nat \<Rightarrow> ('h, 'd) item \<Rightarrow> ('h, 'd) fdselector" where
  "table_put s items i it =
     (let s1 = s\<lparr>fds := Ptr items\<rparr> in
      s1\<lparr>master_r := if wants (it_interest it) OP_READ then insert i (master_r s - {i})
                 else master_r s - {i},
      master_w := if wants (it_interest it) OP_WRITE then insert i (master_w s - {i})
                 else master_w s - {i}\<rparr>)"

lemma table_put_simps [simp]:
  "registered (table_put s items i it) = registered (s\<lparr>fds := Ptr items\<rparr>)"
  "fd_size (table_put s items i it) = fd_size s"
  "max_fd (table_put s items i it) = max_fd s"
  "fds (table_put s items i it) = Ptr items"
  "resolution_jobs (table_put s items i it) = resolution_jobs s"
  "slave_r (table_put s items i it) = slave_r s"
  "slave_w (table_put s items i it) = slave_w s"
  by (simp_all add: table_put_def Let_def registered_def fun_eq_iff)

lemma table_put_inv:
  assumes inv: "selector_inv s" and len: "length items = fd_size s" "tidy items"
    and reg: "registered (s\<lparr>fds := Ptr items\<rparr>) = (registered s)(i := Some it)"
    and it: "it_fd it = int i" "i < ITEMS_MAX_SIZE" "it_handler it \<noteq> None"
    and m: "i \<le> m" "max_fd s \<le> m" "m < fd_size s"
  shows "selector_inv ((table_put s items i it)\<lparr>max_fd := m\<rparr>)"
proof -
  let ?s' = "(table_put s items i it)\<lparr>max_fd := m\<rparr>"
  have r: "registered ?s' = (registered s)(i := Some it)" using reg by simp
  have "master_r s = wanted s OP_READ" "master_w s = wanted s OP_WRITE"
    using inv by (simp_all add: selector_inv_def)
  then have sets: "master_r ?s' = wanted ?s' OP_READ" "master_w ?s' = wanted ?s' OP_WRITE"
    unfolding wanted_put [OF r] by (simp_all add: table_put_def Let_def)
  have "item_ok ?s' j it'" if "registered ?s' j = Some it'" for j it'
    using that registered_item_ok [OF inv, of j it'] it m r
    by (auto simp: item_ok_def split: if_splits)
  then show ?thesis
    using sets len m inv by (simp add: selector_inv_def)
qed

lemma selector_set_interest_spec:
  assumes inv: "selector_inv s" and it: "registered s i = Some it"
  obtains s' where "selector_set_interest s (int i) op = Inr (SELECTOR_SUCCESS, s')"
    and "selector_inv s'" and "registered s' = (registered s)(i \<mapsto> it\<lparr>it_interest := op\<rparr>)"
    and "resolution_jobs s' = resolution_jobs s" and "fd_size s' = fd_size s"
proof -
  let ?it = "it\<lparr>it_interest := op\<rparr>"
  have b: "i < fd_size s" "i < ITEMS_MAX_SIZE" "i \<le> max_fd s" "it_fd it = int i" "item_used it"
    using registered_bounds [OF inv it] by auto
  have it': "it_fd ?it = int i" "it_handler ?it \<noteq> None" "item_used ?it"
    using b registered_item_ok [OF inv it] by (simp_all add: item_ok_def item_used_def)
  obtain items where p: "item_put s i ?it = Inr (s\<lparr>fds := Ptr items\<rparr>)" "length items = fd_size s"
    "registered (s\<lparr>fds := Ptr items\<rparr>) = (registered s)(i := Some ?it)" "tidy items"
    using item_put_inv [OF inv b(1), of ?it] it'(3) by auto
  have "max_fd s < fd_size s" using inv by (simp add: selector_inv_def)
  then have "selector_inv ((table_put s items i ?it)\<lparr>max_fd := max_fd s\<rparr>)"
    using table_put_inv [OF inv p(2,4,3) it'(1) b(2) it'(2) b(3)] by simp
  then have "selector_inv (table_put s items i ?it)" by (simp add: table_put_def Let_def)
  moreover have "selector_set_interest s (int i) op = Inr (SELECTOR_SUCCESS, table_put s items i ?it)"
    using b item_at_registered [OF it] p(1) update_fdset_put [OF it'(1)]
    by (simp add: selector_set_interest_def INVALID_FD_def table_put_def Let_def)
  ultimately show ?thesis
    using that [of "table_put s items i ?it"] p(3) by simp
qed

text \<open>
  Registering. The array has \<open>fd_size\<close> items, and the code grows it only when the descriptor is
  greater than that: the descriptor \<open>fd_size\<close> itself is out of bounds.
\<close>

lemma selector_register_spec:
  assumes inv: "selector_inv s" and i: "i < ITEMS_MAX_SIZE" "i \<noteq> fd_size s"
  obtains st s' where "selector_register ok s (int i) (Some h) op d = Inr (st, s')"
    and "selector_inv s'" and "resolution_jobs s' = resolution_jobs s" and "fd_size s \<le> fd_size s'"
    and "st = SELECTOR_SUCCESS \<and> registered s i = None \<and>
         registered s' = (registered s)(i \<mapsto>
           \<lparr>it_fd = int i, it_interest = op, it_handler = Some h, it_data = d\<rparr>)
       \<or> st = SELECTOR_FDINUSE \<and> registered s i \<noteq> None \<and> registered s' = registered s
       \<or> st = SELECTOR_ENOMEM \<and> \<not> ok \<and> s' = s"
proof -
  let ?it = "\<lparr>it_fd = int i, it_interest = op, it_handler = Some h, it_data = d\<rparr>"
  obtain st s1 where grow: "(if i > fd_size s then ensure_capacity ok s i
      else Inr (SELECTOR_SUCCESS, s)) = Inr (st, s1)"
    and s1: "selector_inv s1" "registered s1 = registered s"
      "resolution_jobs s1 = resolution_jobs s" "fd_size s \<le> fd_size s1"
      "st = SELECTOR_SUCCESS \<and> i < fd_size s1 \<or> st = SELECTOR_ENOMEM \<and> \<not> ok \<and> s1 = s"
  proof (cases "i > fd_size s")
    case True
    obtain st s1 where e: "ensure_capacity ok s i = Inr (st, s1)" "selector_inv s1"
      "registered s1 = registered s" "resolution_jobs s1 = resolution_jobs s"
      "fd_size s \<le> fd_size s1"
      "st = SELECTOR_SUCCESS \<and> i < fd_size s1 \<or> st = SELECTOR_ENOMEM \<and> \<not> ok \<and> s1 = s"
      using i(1) by (rule ensure_capacity_spec [OF inv less_imp_le, of i ok])
    show ?thesis by (rule that [of st s1]) (use e True in simp_all)
  next
    case False
    then show ?thesis using inv i(2) by (intro that [of SELECTOR_SUCCESS s]) simp_all
  qed
  have valid: "\<not> INVALID_FD (int i)" using i(1) by (simp add: INVALID_FD_def)
  note reg = selector_register_def Let_def
  show ?thesis
  proof (cases "st = SELECTOR_SUCCESS")
    case False
    then show ?thesis
      using that [of st s1] grow s1 inv valid by (simp add: reg)
  next
    case True
    then have lt: "i < fd_size s1" using s1(5) by simp
    obtain it0 where it0: "item_at s1 i = Inr it0"
      "registered s1 i = (if item_used it0 then Some it0 else None)"
      using s1(1) lt by (rule item_at_inv)
    show ?thesis
    proof (cases "item_used it0")
      case True
      then show ?thesis
        using that [of SELECTOR_FDINUSE s1] grow s1 valid it0 \<open>st = SELECTOR_SUCCESS\<close>
        by (simp add: reg)
    next
      case free: False
      have used: "item_used ?it" by (simp add: item_used_def FD_UNUSED_def)
      obtain items where p: "item_put s1 i ?it = Inr (s1\<lparr>fds := Ptr items\<rparr>)"
        "length items = fd_size s1"
        "registered (s1\<lparr>fds := Ptr items\<rparr>) = (registered s1)(i := Some ?it)" "tidy items"
        using item_put_inv [OF s1(1) lt, of ?it] used by auto
      let ?m = "max i (max_fd s1)"
      let ?s' = "(table_put s1 items i ?it)\<lparr>max_fd := ?m\<rparr>"
      have "max_fd s1 < fd_size s1" using s1(1) by (simp add: selector_inv_def)
      then have inv': "selector_inv ?s'"
        using lt by (intro table_put_inv [OF s1(1) p(2,4,3) _ i(1)]) simp_all
      have "selector_register ok s (int i) (Some h) op d = Inr (SELECTOR_SUCCESS, ?s')"
        using grow valid it0(1) free p(1) \<open>st = SELECTOR_SUCCESS\<close> update_fdset_put [of ?it i]
        by (simp add: reg table_put_def max_def)
      then show ?thesis
        using that [of SELECTOR_SUCCESS ?s'] inv' s1 p(3) it0(2) free by simp
    qed
  qed
qed

lemma selector_register_at_size:
  assumes inv: "selector_inv s" and i: "fd_size s < ITEMS_MAX_SIZE"
  shows "selector_register ok s (int (fd_size s)) (Some h) op d = Inl Undefined"
proof -
  obtain items where "fds s = Ptr items" "length items = fd_size s"
    using inv by (rule selector_inv_fds)
  then show ?thesis
    using i by (simp add: selector_register_def INVALID_FD_def Let_def item_at_def)
qed

lemma items_max_from_spec:
  assumes inv: "\<And>i. i \<in> set is \<Longrightarrow> \<exists>it. item_at s i = Inr it \<and> (item_used it \<longrightarrow> it_fd it = int i)"
  shows "\<exists>m'. items_max_from s is m = Inr m' \<and> m \<le> m' \<and> m' \<in> insert m (set is)
    \<and> (\<forall>i \<in> set is. \<forall>it. item_at s i = Inr it \<longrightarrow> item_used it \<longrightarrow> i \<le> m')"
  using assms
proof (induction "is" arbitrary: m)
  case Nil
  then show ?case by simp
next
  case (Cons i "is")
  obtain it where it: "item_at s i = Inr it" "item_used it \<longrightarrow> it_fd it = int i"
    using Cons.prems [of i] by auto
  let ?m = "if item_used it \<and> it_fd it > int m then nat (it_fd it) else m"
  obtain m' where m': "items_max_from s is ?m = Inr m'" "?m \<le> m'" "m' \<in> insert ?m (set is)"
    "\<forall>i \<in> set is. \<forall>it. item_at s i = Inr it \<longrightarrow> item_used it \<longrightarrow> i \<le> m'"
    using Cons.IH [of ?m] Cons.prems by auto
  have le: "m \<le> ?m" "item_used it \<longrightarrow> i \<le> ?m" "?m \<in> {m, i}" using it(2) by auto
  have "m \<le> m'" "item_used it \<longrightarrow> i \<le> m'" using le(1,2) m'(2) by (meson order_trans)+
  moreover have "m' \<in> insert m (set (i # is))" using m'(3) le(3) by auto
  ultimately show ?case using it(1) m'(1,4) by (intro exI [of _ m']) simp
qed

lemma selector_unregister_spec:
  assumes inv: "selector_inv s" and it: "registered s i = Some it"
    and close: "close_hook tbl it (s, w) = Inr (s, w1)"
  obtains s' where "selector_unregister_fd tbl (s, w) (int i) = Inr (SELECTOR_SUCCESS, s', w1)"
    and "selector_inv s'" and "registered s' = (registered s)(i := None)"
    and "resolution_jobs s' = resolution_jobs s" and "fd_size s' = fd_size s"
proof -
  have b: "i < fd_size s" "i < ITEMS_MAX_SIZE" "i \<le> max_fd s" "it_fd it = int i" "item_used it"
    using registered_bounds [OF inv it] by auto
  obtain items where f: "fds s = Ptr items" "length items = fd_size s" "tidy items"
    using inv by (rule selector_inv_fds)
  let ?s2 = "s\<lparr>master_r := master_r s - {i}, master_w := master_w s - {i}\<rparr>"
  let ?s3 = "?s2\<lparr>fds := Ptr (items[i := item_init blank_item])\<rparr>"
  have upd: "items_update_fdset_for_fd s (it\<lparr>it_interest := OP_NOOP\<rparr>) = Inr ?s2"
    using update_fdset_put [of "it\<lparr>it_interest := OP_NOOP\<rparr>" i s] b(4)
    by (simp add: OP_NOOP_def wants_def op_defs)
  have put: "item_put ?s2 i (item_init blank_item) = Inr ?s3"
    using f b(1) by (simp add: item_put_def)
  have reg: "registered ?s3 = (registered s)(i := None)"
    using f b(1) by (auto simp: registered_def fun_eq_iff nth_list_update)
  have at3: "\<exists>it'. item_at ?s3 j = Inr it' \<and> (item_used it' \<longrightarrow> it_fd it' = int j)"
    if "j < fd_size s" for j
  proof -
    have "registered s j = Some it' \<Longrightarrow> it_fd it' = int j" for it'
      using registered_bounds [OF inv, of j it'] by simp
    then show ?thesis
      using f that by (cases "j = i") (auto simp: item_at_def registered_def)
  qed
  have lt: "max_fd s < fd_size s" using inv by (simp add: selector_inv_def)
  have "\<exists>it'. item_at ?s3 j = Inr it' \<and> (item_used it' \<longrightarrow> it_fd it' = int j)"
    if "j \<in> set [0..<Suc (max_fd s)]" for j
    using that lt by (intro at3) (simp del: upt_Suc)
  from items_max_from_spec [of "[0..<Suc (max_fd s)]" ?s3 0, OF this]
  obtain m where m: "items_max_from ?s3 [0..<Suc (max_fd s)] 0 = Inr m"
    "m \<in> insert 0 (set [0..<Suc (max_fd s)])"
    "\<forall>j \<in> set [0..<Suc (max_fd s)]. \<forall>it. item_at ?s3 j = Inr it \<longrightarrow> item_used it \<longrightarrow> j \<le> m"
    by blast
  let ?s4 = "?s3\<lparr>max_fd := m\<rparr>"
  have r4: "registered ?s4 = (registered s)(i := None)" using reg by simp
  have "item_ok ?s4 j it'" if "registered ?s4 j = Some it'" for j it'
  proof -
    have r: "registered s j = Some it'" "registered ?s3 j = Some it'"
      using that r4 reg by (auto split: if_splits)
    have "j \<le> m"
      using m(3) item_at_registered [OF r(2)] registered_bounds [OF inv r(1)] by auto
    then show ?thesis using registered_item_ok [OF inv r(1)] by (simp add: item_ok_def)
  qed
  moreover have "master_r ?s4 = wanted ?s4 OP_READ" "master_w ?s4 = wanted ?s4 OP_WRITE"
    unfolding wanted_remove [OF r4] using inv by (simp_all add: selector_inv_def)
  ultimately have inv4: "selector_inv ?s4"
    using f m(2) lt inv by (auto simp: selector_inv_def tidy_update)
  have "selector_unregister_fd tbl (s, w) (int i) = Inr (SELECTOR_SUCCESS, ?s4, w1)"
    using b item_at_registered [OF it] close upd put m(1)
    by (simp add: selector_unregister_fd_def INVALID_FD_def Let_def items_max_fd_def
        del: upt_Suc)
  then show ?thesis
    using that [of ?s4] inv4 r4 by simp
qed

lemma selector_unregister_unused:
  assumes "selector_inv s" and "i < fd_size s" and "registered s i = None"
  shows "selector_unregister_fd tbl (s, w) (int i) = Inr (SELECTOR_IARGS, s, w)"
proof -
  obtain it where "item_at s i = Inr it" "registered s i = (if item_used it then Some it else None)"
    using assms(1,2) by (rule item_at_inv)
  then show ?thesis using assms(3) by (simp add: selector_unregister_fd_def Let_def split: if_splits)
qed

lemma selector_set_interest_unused:
  assumes "selector_inv s" and "i < fd_size s" and "registered s i = None"
  shows "selector_set_interest s (int i) op = Inr (SELECTOR_IARGS, s)"
proof -
  obtain it where "item_at s i = Inr it" "registered s i = (if item_used it then Some it else None)"
    using assms(1,2) by (rule item_at_inv)
  then show ?thesis using assms(3) by (simp add: selector_set_interest_def Let_def split: if_splits)
qed

section \<open>Properties of the operations\<close>

text \<open>
  \<open>C34\<close> Registering is an insertion. On a consistent selector, for a descriptor below the platform's
  limit that is not the table's size, \<open>selector_register\<close> returns with the selector consistent,
  and either the descriptor was free and is now registered with that interest, handler and data
  (every other registration untouched, the table grown if need be), or it was taken and nothing
  changed, or memory ran out and nothing changed.
\<close>

theorem selector_register_inserts:
  assumes "selector_inv s" and "i < ITEMS_MAX_SIZE" and "i \<noteq> fd_size s"
  shows "\<exists>st s'. selector_register ok s (int i) (Some h) op d = Inr (st, s') \<and> selector_inv s' \<and>
    (st = SELECTOR_SUCCESS \<and> registered s i = None \<and>
       registered s' = (registered s)(i \<mapsto>
         \<lparr>it_fd = int i, it_interest = op, it_handler = Some h, it_data = d\<rparr>)
     \<or> st = SELECTOR_FDINUSE \<and> registered s i \<noteq> None \<and> registered s' = registered s
     \<or> st = SELECTOR_ENOMEM \<and> \<not> ok \<and> s' = s)"
  by (rule selector_register_spec [OF assms, of ok h op d]) blast

lemma selector_new_1024:
  obtains s :: "('h, 'd) fdselector" where "selector_new True True 1024 = Inr (Some s)"
    and "selector_inv s" and "registered s = (\<lambda>_. None)" and "1024 < fd_size s"
proof -
  obtain m where m: "next_capacity 1024 = Inr m" "1024 < m"
    by (rule next_capacity_spec [of 1024]) (simp_all add: ITEMS_MAX_SIZE_def)
  then obtain s :: "('h, 'd) fdselector" where s: "selector_new True True 1024 = Inr (Some s)"
    by (simp add: selector_new_def ensure_capacity_def ITEMS_MAX_SIZE_def)
  then show ?thesis
    using that [of s] selector_new_spec [of 1024 True True s] by (simp add: ITEMS_MAX_SIZE_def)
qed

lemma selector_register_inserts_witness:
  "\<exists>s s' :: (unit, unit) fdselector. selector_new True True 1024 = Inr (Some s) \<and>
     selector_register True s 7 (Some ()) OP_READ None = Inr (SELECTOR_SUCCESS, s') \<and>
     7 \<in> master_r s' \<and> 7 \<notin> master_w s'"
proof -
  obtain s :: "(unit, unit) fdselector" where s: "selector_new True True 1024 = Inr (Some s)"
    "selector_inv s" "registered s = (\<lambda>_. None)" "1024 < fd_size s"
    by (rule selector_new_1024)
  obtain st s' where r: "selector_register True s (int 7) (Some ()) OP_READ None = Inr (st, s')"
    "selector_inv s'" "st = SELECTOR_SUCCESS" "registered s' = (registered s)(7 \<mapsto>
         \<lparr>it_fd = int 7, it_interest = OP_READ, it_handler = Some (), it_data = None\<rparr>)"
    using selector_register_inserts [OF s(2), of 7 True "()" OP_READ None] s(3,4)
    by (auto simp: ITEMS_MAX_SIZE_def)
  have "7 \<in> master_r s'" "7 \<notin> master_w s'"
    using r(2,4) by (auto simp: selector_inv_def wanted_def wants_def op_defs)
  then show ?thesis using s(1) r(1,3) by auto
qed

text \<open>
  The check before growing the table is off by one: the descriptor that equals the table's
  size is not made room for, and registering it reads past the array. The server is not exposed
  to it because it asks for 1024 elements at once and gets 1025.
\<close>

theorem selector_register_off_by_one:
  assumes "selector_inv s" and "fd_size s < ITEMS_MAX_SIZE"
  shows "selector_register ok s (int (fd_size s)) (Some h) op d = Inl Undefined"
  by (rule selector_register_at_size [OF assms])

lemma selector_register_off_by_one_witness:
  "\<exists>s :: (unit, unit) fdselector. selector_new True True 0 = Inr (Some s) \<and>
     selector_register True s 2 (Some ()) OP_READ None = Inl Undefined"
proof -
  have c: "next_capacity 0 = Inr 2"
    by (simp add: next_capacity_def bit_count.simps ITEMS_MAX_SIZE_def)
  then obtain s :: "(unit, unit) fdselector" where s: "selector_new True True 0 = Inr (Some s)"
    "fd_size s = 2"
    by (simp add: selector_new_def ensure_capacity_def ITEMS_MAX_SIZE_def)
  have "selector_inv s" using selector_new_spec [of 0 True True s] s(1) by (simp add: ITEMS_MAX_SIZE_def)
  from selector_register_off_by_one [OF this] show ?thesis
    using s by (auto simp: ITEMS_MAX_SIZE_def)
qed

text \<open>
  Unregistering is a deletion. On a consistent selector, for a registered descriptor whose
  close handler leaves the selector alone, \<open>selector_unregister_fd\<close> succeeds, runs the close
  handler once with the descriptor's data, removes that registration and no other, and the
  selector stays consistent: the greatest descriptor and both \<open>pselect\<close> sets are right again.
\<close>

theorem selector_unregister_deletes:
  assumes "selector_inv s" and "registered s i = Some it"
    and "close_hook tbl it (s, w) = Inr (s, w1)"
  shows "\<exists>s'. selector_unregister_fd tbl (s, w) (int i) = Inr (SELECTOR_SUCCESS, s', w1) \<and>
    selector_inv s' \<and> registered s' = (registered s)(i := None)"
  by (rule selector_unregister_spec [OF assms]) blast

lemma selector_unregister_deletes_witness:
  "\<exists>(s :: (unit, unit) fdselector) s1 s2. selector_new True True 1024 = Inr (Some s) \<and>
     selector_register True s 7 (Some ()) OP_READ None = Inr (SELECTOR_SUCCESS, s1) \<and>
     selector_unregister_fd (\<lambda>_. \<lparr>handle_read = None, handle_write = None, handle_block = None,
       handle_close = Some (\<lambda>fd d (s, n). Inr (s, n + 1))\<rparr>) (s1, 0 :: nat) 7
     = Inr (SELECTOR_SUCCESS, s2, 1) \<and> master_r s2 = {}"
proof -
  let ?tbl = "\<lambda>_ :: unit. \<lparr>handle_read = None, handle_write = None, handle_block = None,
       handle_close = Some (\<lambda>fd (d :: unit option) (s, n). Inr (s, n + 1))\<rparr>"
  let ?it = "\<lparr>it_fd = int 7, it_interest = OP_READ, it_handler = Some (), it_data = None :: unit option\<rparr>"
  obtain s :: "(unit, unit) fdselector" where s: "selector_new True True 1024 = Inr (Some s)"
    "selector_inv s" "registered s = (\<lambda>_. None)" "1024 < fd_size s"
    by (rule selector_new_1024)
  have ne: "7 < ITEMS_MAX_SIZE" "7 \<noteq> fd_size s" using s(4) by (auto simp: ITEMS_MAX_SIZE_def)
  obtain st s1 where r: "selector_register True s (int 7) (Some ()) OP_READ None = Inr (st, s1)"
    "selector_inv s1" "st = SELECTOR_SUCCESS" "registered s1 = (registered s)(7 \<mapsto> ?it)"
    by (rule selector_register_spec [OF s(2) ne, of True "()" OP_READ None]) (auto simp: s(3))
  have at: "registered s1 7 = Some ?it" using r(4) by simp
  have "close_hook ?tbl ?it (s1, 0 :: nat) = Inr (s1, 1)"
    by (simp add: close_hook_def item_hooks_def)
  from selector_unregister_deletes [OF r(2) at this] obtain s2 where
    u: "selector_unregister_fd ?tbl (s1, 0 :: nat) (int 7) = Inr (SELECTOR_SUCCESS, s2, 1)"
    "selector_inv s2" "registered s2 = (registered s1)(7 := None)" by blast
  have "registered s2 = (\<lambda>_. None)" using u(3) r(4) s(3) by (auto simp: fun_eq_iff)
  then have "master_r s2 = {}" using u(2) by (auto simp: selector_inv_def wanted_def)
  then show ?thesis using s(1) r(1,3) u(1) by auto
qed

end
