(* ===== verification/Buffer.thy ===== *)
theory Buffer
  imports Prelude
begin

text \<open>
  \<open>src/buffer.c\<close>: the direct-access byte buffer between \<open>recv\<close>/\<open>send\<close> and the parsers. The
  record mirrors \<open>struct buffer\<close>, with the pointers \<open>read\<close>, \<open>write\<close> and \<open>limit\<close> as offsets from
  \<open>data\<close> and the memory \<open>data\<close> points at as a list of bytes. The contract is a queue of bytes:
  \<open>buffer_contents\<close> is the queue, writing appends to it, reading takes from its front, and
  neither advancing nor compacting loses or reorders a byte.
\<close>

section \<open>The code\<close>

record buffer =
  buf_data :: "byte list"
  buf_limit :: nat
  buf_read :: nat
  buf_write :: nat

definition buffer_reset :: "buffer \<Rightarrow> buffer" where
  "buffer_reset b = b\<lparr>buf_read := 0, buf_write := 0\<rparr>"

definition buffer_init :: "buffer \<Rightarrow> nat \<Rightarrow> byte list \<Rightarrow> buffer" where
  "buffer_init b n mem = (buffer_reset (b\<lparr>buf_data := mem\<rparr>))\<lparr>buf_limit := n\<rparr>"

definition buffer_can_write :: "buffer \<Rightarrow> bool" where
  "buffer_can_write b \<longleftrightarrow> int (buf_limit b) - int (buf_write b) > 0"

definition buffer_write_ptr :: "buffer \<Rightarrow> (nat \<times> nat) res" where
  "buffer_write_ptr b =
     (if buf_write b \<le> buf_limit b
      then Inr (buf_write b, buf_limit b - buf_write b) else Inl Aborted)"

definition buffer_can_read :: "buffer \<Rightarrow> bool" where
  "buffer_can_read b \<longleftrightarrow> int (buf_write b) - int (buf_read b) > 0"

definition buffer_read_ptr :: "buffer \<Rightarrow> (nat \<times> nat) res" where
  "buffer_read_ptr b =
     (if buf_read b \<le> buf_write b
      then Inr (buf_read b, buf_write b - buf_read b) else Inl Aborted)"

definition buffer_compact :: "buffer \<Rightarrow> buffer res" where
  "buffer_compact b =
     (if buf_read b = 0 then Inr b
      else if buf_read b = buf_write b then Inr (b\<lparr>buf_read := 0, buf_write := 0\<rparr>)
      else if buf_write b < buf_read b then Inl Undefined
      else
        let n = buf_write b - buf_read b
        in bind_res (mem_load (buf_read b) n (buf_data b))
             (\<lambda>bs. bind_res (mem_store 0 bs (buf_data b))
               (\<lambda>mem. Inr (b\<lparr>buf_data := mem, buf_read := 0, buf_write := n\<rparr>))))"

definition buffer_write_adv :: "buffer \<Rightarrow> int \<Rightarrow> buffer res" where
  "buffer_write_adv b bytes =
     (if bytes > -1 then
        let w = buf_write b + nat bytes
        in if w \<le> buf_limit b then Inr (b\<lparr>buf_write := w\<rparr>) else Inl Aborted
      else Inr b)"

definition buffer_read_adv :: "buffer \<Rightarrow> int \<Rightarrow> buffer res" where
  "buffer_read_adv b bytes =
     (if bytes > -1 then
        let r = buf_read b + nat bytes; b' = b\<lparr>buf_read := r\<rparr>
        in if r \<le> buf_write b
           then (if r = buf_write b then buffer_compact b' else Inr b')
           else Inl Aborted
      else Inr b)"

definition buffer_read :: "buffer \<Rightarrow> (byte \<times> buffer) res" where
  "buffer_read b =
     (if buffer_can_read b then
        bind_res (mem_load (buf_read b) 1 (buf_data b))
          (\<lambda>bs. bind_res (buffer_read_adv b 1) (\<lambda>b'. Inr (hd bs, b')))
      else Inr (0, b))"

definition buffer_write :: "buffer \<Rightarrow> byte \<Rightarrow> buffer res" where
  "buffer_write b c =
     (if buffer_can_write b then
        bind_res (mem_store (buf_write b) [c] (buf_data b))
          (\<lambda>mem. buffer_write_adv (b\<lparr>buf_data := mem\<rparr>) 1)
      else Inr b)"

text \<open>
  What \<open>recv\<close> and the marshalling code do through the pointer of \<open>buffer_write_ptr\<close>: store
  bytes from the write offset on. The caller then tells the buffer with \<open>buffer_write_adv\<close>.
\<close>

definition buffer_poke :: "buffer \<Rightarrow> byte list \<Rightarrow> buffer res" where
  "buffer_poke b bs =
     bind_res (mem_store (buf_write b) bs (buf_data b)) (\<lambda>mem. Inr (b\<lparr>buf_data := mem\<rparr>))"

definition buffer_append :: "buffer \<Rightarrow> byte list \<Rightarrow> buffer res" where
  "buffer_append b bs =
     bind_res (buffer_poke b bs) (\<lambda>b'. buffer_write_adv b' (int (length bs)))"

lemmas buffer_defs =
  buffer_reset_def buffer_init_def buffer_can_write_def buffer_write_ptr_def buffer_can_read_def
  buffer_read_ptr_def buffer_compact_def buffer_write_adv_def buffer_read_adv_def buffer_read_def
  buffer_write_def buffer_poke_def buffer_append_def mem_load_def mem_store_def

section \<open>Invariant and abstraction\<close>

text \<open>An empty buffer is at its start, so all of it is free.\<close>

definition buffer_inv :: "buffer \<Rightarrow> bool" where
  "buffer_inv b \<longleftrightarrow>
     buf_read b \<le> buf_write b \<and> buf_write b \<le> buf_limit b \<and> buf_limit b \<le> length (buf_data b) \<and>
     (buf_read b = buf_write b \<longrightarrow> buf_write b = 0)"

definition buffer_contents :: "buffer \<Rightarrow> byte list" where
  "buffer_contents b = take (buf_write b - buf_read b) (drop (buf_read b) (buf_data b))"

definition buffer_space :: "buffer \<Rightarrow> nat" where
  "buffer_space b = buf_limit b - buf_write b"

lemma buffer_contents_length:
  "buffer_inv b \<Longrightarrow> length (buffer_contents b) = buf_write b - buf_read b"
  by (auto simp: buffer_inv_def buffer_contents_def)

lemma buffer_can_read_iff:
  "buffer_inv b \<Longrightarrow> buffer_can_read b \<longleftrightarrow> buffer_contents b \<noteq> []"
  by (auto simp: buffer_can_read_def buffer_inv_def buffer_contents_def)

lemma buffer_can_write_iff: "buffer_can_write b \<longleftrightarrow> 0 < buffer_space b"
  by (auto simp: buffer_can_write_def buffer_space_def)

lemma buffer_space_empty: "buffer_inv b \<Longrightarrow> buffer_contents b = [] \<Longrightarrow> buffer_space b = buf_limit b"
  using buffer_contents_length [of b] by (auto simp: buffer_inv_def buffer_space_def)

lemma buffer_write_ptr_inv:
  "buffer_inv b \<Longrightarrow> buffer_write_ptr b = Inr (buf_write b, buffer_space b)"
  by (simp add: buffer_write_ptr_def buffer_inv_def buffer_space_def)

lemma buffer_read_ptr_inv:
  "buffer_inv b \<Longrightarrow> buffer_read_ptr b = Inr (buf_read b, length (buffer_contents b))"
  by (simp add: buffer_read_ptr_def buffer_contents_length) (simp add: buffer_inv_def)

lemma buffer_init_spec:
  assumes "n \<le> length mem"
  shows "buffer_inv (buffer_init b n mem)" "buffer_contents (buffer_init b n mem) = []"
    "buffer_space (buffer_init b n mem) = n" "buf_limit (buffer_init b n mem) = n"
  using assms
  by (simp_all add: buffer_init_def buffer_reset_def buffer_inv_def buffer_contents_def
      buffer_space_def)

lemma buffer_compact_spec:
  assumes "buffer_inv b"
  obtains b' where "buffer_compact b = Inr b'" and "buffer_inv b'"
    and "buffer_contents b' = buffer_contents b" and "buf_limit b' = buf_limit b"
    and "buf_read b' = 0"
proof (cases "buf_read b = 0 \<or> buf_read b = buf_write b")
  case True
  let ?b' = "if buf_read b = 0 then b else b\<lparr>buf_read := 0, buf_write := 0\<rparr>"
  show ?thesis
    by (rule that [of ?b'])
      (use True assms in \<open>auto simp: buffer_compact_def buffer_inv_def buffer_contents_def\<close>)
next
  case False
  let ?n = "buf_write b - buf_read b"
  let ?bs = "take ?n (drop (buf_read b) (buf_data b))"
  let ?b' = "b\<lparr>buf_data := ?bs @ drop ?n (buf_data b), buf_read := 0, buf_write := ?n\<rparr>"
  have bounds: "buf_read b < buf_write b" "buf_write b \<le> buf_limit b"
    "buf_limit b \<le> length (buf_data b)" "buf_read b \<noteq> 0"
    using False assms by (auto simp: buffer_inv_def)
  then have len: "length ?bs = ?n" by simp
  have load: "mem_load (buf_read b) ?n (buf_data b) = Inr ?bs"
    using bounds by (simp add: mem_load_def)
  have store: "mem_store 0 ?bs (buf_data b) = Inr (?bs @ drop ?n (buf_data b))"
    using bounds len by (simp add: mem_store_def)
  have "buffer_compact b = Inr ?b'"
    using bounds load store by (simp add: buffer_compact_def Let_def)
  moreover have "buffer_inv ?b'" and "buffer_contents ?b' = buffer_contents b"
    using bounds len by (simp_all add: buffer_inv_def buffer_contents_def)
  ultimately show ?thesis by (intro that [of ?b']) simp_all
qed

lemma buffer_read_adv_spec:
  assumes inv: "buffer_inv b" and n: "n \<le> length (buffer_contents b)"
  obtains b' where "buffer_read_adv b (int n) = Inr b'" and "buffer_inv b'"
    and "buffer_contents b' = drop n (buffer_contents b)" and "buf_limit b' = buf_limit b"
proof -
  let ?b1 = "b\<lparr>buf_read := buf_read b + n\<rparr>"
  have le: "buf_read b + n \<le> buf_write b"
    using n buffer_contents_length [OF inv] inv unfolding buffer_inv_def by linarith
  have c1: "buffer_contents ?b1 = drop n (buffer_contents b)"
    using inv le by (auto simp: buffer_contents_def drop_take add.commute)
  show ?thesis
  proof (cases "buf_read b + n = buf_write b")
    case True
    let ?b' = "b\<lparr>buf_read := 0, buf_write := 0\<rparr>"
    have "buffer_read_adv b (int n) = Inr ?b'"
      using True by (cases b) (simp add: buffer_read_adv_def buffer_compact_def Let_def)
    then show ?thesis
      by (rule that) (use inv c1 True in \<open>simp_all add: buffer_inv_def buffer_contents_def\<close>)
  next
    case False
    then have "buffer_inv ?b1" using inv le by (simp add: buffer_inv_def)
    then show ?thesis
      by (intro that [of ?b1]) (use c1 le False in \<open>simp_all add: buffer_read_adv_def\<close>)
  qed
qed

lemma buffer_read_spec:
  assumes inv: "buffer_inv b" and c: "buffer_contents b = x # xs"
  obtains b' where "buffer_read b = Inr (x, b')" and "buffer_inv b'"
    and "buffer_contents b' = xs" and "buf_limit b' = buf_limit b"
proof -
  obtain b' where b': "buffer_read_adv b (int 1) = Inr b'" "buffer_inv b'"
    "buffer_contents b' = drop 1 (buffer_contents b)" "buf_limit b' = buf_limit b"
    using buffer_read_adv_spec [OF inv, of 1] c by auto
  have len: "buf_read b < buf_write b" "buf_write b \<le> length (buf_data b)"
    using inv c buffer_contents_length [OF inv] by (auto simp: buffer_inv_def)
  then have "take 1 (drop (buf_read b) (buf_data b)) = [x]"
    using c by (cases "drop (buf_read b) (buf_data b)")
      (auto simp: buffer_contents_def take_Cons' split: if_splits)
  then have "buffer_read b = Inr (x, b')"
    using b'(1) len by (simp add: buffer_read_def buffer_can_read_def mem_load_def)
  with b' c show ?thesis by (intro that [of b']) simp_all
qed

lemma buffer_append_spec:
  assumes inv: "buffer_inv b" and le: "length bs \<le> buffer_space b"
  obtains b' where "buffer_append b bs = Inr b'" and "buffer_inv b'"
    and "buffer_contents b' = buffer_contents b @ bs" and "buf_limit b' = buf_limit b"
    and "buffer_space b' = buffer_space b - length bs"
proof -
  let ?mem = "take (buf_write b) (buf_data b) @ bs @
    drop (buf_write b + length bs) (buf_data b)"
  let ?b' = "b\<lparr>buf_data := ?mem, buf_write := buf_write b + length bs\<rparr>"
  have bounds: "buf_read b \<le> buf_write b" "buf_write b + length bs \<le> buf_limit b"
    "buf_limit b \<le> length (buf_data b)"
    using inv le by (auto simp: buffer_inv_def buffer_space_def)
  then have "buffer_append b bs = Inr ?b'"
    by (simp add: buffer_append_def buffer_poke_def mem_store_Inr buffer_write_adv_def Let_def)
  moreover have "buffer_inv ?b'"
    using bounds inv by (auto simp: buffer_inv_def)
  moreover have "buffer_contents ?b' = buffer_contents b @ bs"
    using take_drop_store [of "buf_read b" "buf_write b" bs "buf_data b"] bounds
    by (simp add: buffer_contents_def)
  ultimately show ?thesis
    using bounds by (intro that [of ?b']) (simp_all add: buffer_space_def)
qed

lemma buffer_append_overflow:
  assumes "buffer_inv b" and "buffer_space b < length bs"
  shows "\<not> no_fault (buffer_append b bs)"
  using assms
  by (auto simp: buffer_append_def buffer_poke_def no_fault_bind mem_store_def buffer_write_adv_def
      buffer_space_def buffer_inv_def Let_def split: if_splits)

lemma buffer_write_spec:
  assumes inv: "buffer_inv b" and sp: "0 < buffer_space b"
  obtains b' where "buffer_write b c = Inr b'" and "buffer_inv b'"
    and "buffer_contents b' = buffer_contents b @ [c]" and "buf_limit b' = buf_limit b"
proof -
  have "buffer_write b c = buffer_append b [c]"
    using sp by (simp add: buffer_write_def buffer_can_write_iff buffer_append_def buffer_poke_def)
  then show ?thesis
    using buffer_append_spec [OF inv, of "[c]"] sp that by (auto simp: Suc_le_eq)
qed

text \<open>Reading shrinks the readable region, whatever the buffer: the loops over it end.\<close>

lemma buffer_read_decreases:
  assumes "buffer_can_read b" and "buffer_read b = Inr (c, b')"
  shows "buf_write b' - buf_read b' < buf_write b - buf_read b"
  using assms
  by (auto simp: buffer_read_def buffer_read_adv_def buffer_compact_def buffer_can_read_def Let_def
      split: if_splits)

section \<open>A buffer is a bounded queue of bytes\<close>

text \<open>
  Any sequence of the operations the program performs on a buffer. \<open>buffer_run\<close> also returns the
  bytes that went in and those that came out.
\<close>

datatype buffer_op =
    Op_write byte | Op_read | Op_append "byte list" | Op_take nat | Op_compact

fun buffer_exec :: "buffer_op \<Rightarrow> buffer \<Rightarrow> (byte list \<times> byte list \<times> buffer) res" where
  "buffer_exec (Op_write c) b =
     bind_res (buffer_write b c) (\<lambda>b'. Inr (if buffer_can_write b then [c] else [], [], b'))"
| "buffer_exec Op_read b =
     bind_res (buffer_read b) (\<lambda>(c, b'). Inr ([], if buffer_can_read b then [c] else [], b'))"
| "buffer_exec (Op_append bs) b = bind_res (buffer_append b bs) (\<lambda>b'. Inr (bs, [], b'))"
| "buffer_exec (Op_take n) b =
     bind_res (buffer_read_adv b (int n)) (\<lambda>b'. Inr ([], take n (buffer_contents b), b'))"
| "buffer_exec Op_compact b = bind_res (buffer_compact b) (\<lambda>b'. Inr ([], [], b'))"

fun buffer_run :: "buffer_op list \<Rightarrow> buffer \<Rightarrow> (byte list \<times> byte list \<times> buffer) res" where
  "buffer_run [] b = Inr ([], [], b)"
| "buffer_run (op # ops) b =
     bind_res (buffer_exec op b)
       (\<lambda>(i, out, b1). bind_res (buffer_run ops b1)
         (\<lambda>(i', out', b2). Inr (i @ i', out @ out', b2)))"

definition exec_ok :: "buffer_op \<Rightarrow> buffer \<Rightarrow> bool" where
  "exec_ok op b = (case op of
     Op_append bs \<Rightarrow> length bs \<le> buffer_space b | Op_take n \<Rightarrow> n \<le> length (buffer_contents b)
   | _ \<Rightarrow> True)"

lemma buffer_read_adv_overrun:
  "buffer_inv b \<Longrightarrow> length (buffer_contents b) < n \<Longrightarrow> \<not> no_fault (buffer_read_adv b (int n))"
  by (auto simp: buffer_read_adv_def buffer_inv_def buffer_contents_def Let_def)

lemma buffer_exec_cases:
  assumes inv: "buffer_inv b"
  shows "if exec_ok op b then
      \<exists>i out b'. buffer_exec op b = Inr (i, out, b') \<and> buffer_inv b' \<and>
        buffer_contents b @ i = out @ buffer_contents b' \<and> buf_limit b' = buf_limit b
    else \<not> no_fault (buffer_exec op b)"
proof (cases op)
  case (Op_write c)
  show ?thesis
  proof (cases "buffer_can_write b")
    case True
    then obtain b' where "buffer_write b c = Inr b'" "buffer_inv b'"
      "buffer_contents b' = buffer_contents b @ [c]" "buf_limit b' = buf_limit b"
      using buffer_write_spec [OF inv, of c] buffer_can_write_iff by blast
    then show ?thesis using Op_write True by (simp add: exec_ok_def)
  next
    case False
    then show ?thesis using Op_write inv by (simp add: exec_ok_def buffer_write_def)
  qed
next
  case Op_read
  show ?thesis
  proof (cases "buffer_contents b")
    case Nil
    then show ?thesis
      using Op_read inv by (simp add: exec_ok_def buffer_read_def buffer_can_read_iff)
  next
    case (Cons x xs)
    then obtain b' where "buffer_read b = Inr (x, b')" "buffer_inv b'" "buffer_contents b' = xs"
      "buf_limit b' = buf_limit b"
      using buffer_read_spec [OF inv] by blast
    then show ?thesis using Op_read Cons inv by (simp add: exec_ok_def buffer_can_read_iff)
  qed
next
  case (Op_append bs)
  show ?thesis
  proof (cases "length bs \<le> buffer_space b")
    case True
    then obtain b' where "buffer_append b bs = Inr b'" "buffer_inv b'"
      "buffer_contents b' = buffer_contents b @ bs" "buf_limit b' = buf_limit b"
      using buffer_append_spec [OF inv] by blast
    then show ?thesis using Op_append True by (simp add: exec_ok_def)
  next
    case False
    then show ?thesis
      using Op_append buffer_append_overflow [OF inv, of bs] by (auto simp: exec_ok_def no_fault_bind)
  qed
next
  case (Op_take n)
  show ?thesis
  proof (cases "n \<le> length (buffer_contents b)")
    case True
    then obtain b' where "buffer_read_adv b (int n) = Inr b'" "buffer_inv b'"
      "buffer_contents b' = drop n (buffer_contents b)" "buf_limit b' = buf_limit b"
      using buffer_read_adv_spec [OF inv] by blast
    then show ?thesis using Op_take True by (simp add: exec_ok_def)
  next
    case False
    then show ?thesis
      using Op_take buffer_read_adv_overrun [OF inv, of n] by (auto simp: exec_ok_def no_fault_bind)
  qed
next
  case Op_compact
  obtain b' where "buffer_compact b = Inr b'" "buffer_inv b'"
    "buffer_contents b' = buffer_contents b" "buf_limit b' = buf_limit b"
    using buffer_compact_spec [OF inv] by blast
  then show ?thesis using Op_compact by (simp add: exec_ok_def)
qed

lemma buffer_run_queue:
  assumes "buffer_inv b" and "buffer_run ops b = Inr (i, out, b')"
  shows "buffer_inv b' \<and> buffer_contents b @ i = out @ buffer_contents b' \<and>
    buf_limit b' = buf_limit b"
  using assms
proof (induction ops arbitrary: b i out)
  case Nil
  then show ?case by simp
next
  case (Cons op ops)
  then obtain i1 o1 b1 i2 o2 where e: "buffer_exec op b = Inr (i1, o1, b1)"
    "buffer_run ops b1 = Inr (i2, o2, b')" "i = i1 @ i2" "out = o1 @ o2"
    by auto
  have "buffer_inv b1 \<and> buffer_contents b @ i1 = o1 @ buffer_contents b1 \<and> buf_limit b1 = buf_limit b"
    using buffer_exec_cases [OF Cons.prems(1), of op] e(1) by (auto split: if_splits)
  with Cons.IH [OF _ e(2)] e(3,4) show ?case by (metis append.assoc)
qed

text \<open>
  \<open>C11\<close> The buffer is a bounded first-in first-out queue. Whatever sequence of reads, writes, bulk
  writes through \<open>buffer_write_ptr\<close>, advances and compactions runs on a freshly initialised buffer,
  if none of them faults then the bytes that came out, followed by the bytes the buffer holds, are
  exactly the bytes that went in, in order, and never more than the capacity are held.
\<close>

theorem buffer_fifo:
  assumes "n \<le> length mem" and "buffer_run ops (buffer_init b n mem) = Inr (i, out, b')"
  shows "out @ buffer_contents b' = i \<and> length (buffer_contents b') \<le> n \<and> buffer_inv b'"
proof -
  have "buffer_inv b' \<and> out @ buffer_contents b' = i \<and> buf_limit b' = n"
    using buffer_run_queue [OF buffer_init_spec(1) [OF assms(1)] assms(2)]
      buffer_init_spec(2,4) [OF assms(1), of b] by simp
  then show ?thesis by (auto simp: buffer_contents_length buffer_inv_def)
qed

lemma buffer_fifo_witness:
  "\<exists>i out b'. buffer_run [Op_append [1, 2, 3], Op_read, Op_compact, Op_write 4, Op_take 2]
       (buffer_init \<lparr>buf_data = [], buf_limit = 0, buf_read = 0, buf_write = 0\<rparr> 4 [0, 0, 0, 0, 0])
     = Inr (i, out, b') \<and> out @ buffer_contents b' = i \<and> out = [1, 2, 3]"
proof -
  let ?b = "buffer_init \<lparr>buf_data = [], buf_limit = 0, buf_read = 0, buf_write = 0\<rparr> 4 [0, 0, 0, 0, 0]"
  let ?ops = "[Op_append [1, 2, 3], Op_read, Op_compact, Op_write 4, Op_take 2]"
  have "\<exists>i b'. buffer_run ?ops ?b = Inr (i, [1, 2, 3], b')"
    by (simp add: buffer_defs buffer_contents_def Let_def)
  then obtain i b' where r: "buffer_run ?ops ?b = Inr (i, [1, 2, 3], b')" by blast
  then show ?thesis using buffer_fifo [OF _ r] by auto
qed

text \<open>
  The buffer operations that the program calls fault in exactly the two cases in which their
  \<open>assert\<close> fails or memory would be overrun: writing more bytes than are free, and consuming more
  bytes than are held. Everything else is defined and keeps the buffer well formed.
\<close>

theorem buffer_faults_exactly:
  assumes "buffer_inv b"
  shows "no_fault (buffer_exec op b) \<longleftrightarrow>
    (case op of Op_append bs \<Rightarrow> length bs \<le> buffer_space b
      | Op_take n \<Rightarrow> n \<le> length (buffer_contents b) | _ \<Rightarrow> True)"
  using buffer_exec_cases [OF assms, of op]
  by (auto simp: exec_ok_def no_fault_iff split: if_splits)

lemma buffer_faults_exactly_witness:
  "\<not> no_fault (buffer_exec (Op_append [1, 2, 3])
     (buffer_init \<lparr>buf_data = [], buf_limit = 0, buf_read = 0, buf_write = 0\<rparr> 2 [0, 0, 0]))"
  by (subst buffer_faults_exactly)
    (simp_all add: buffer_init_spec)

end
