(* ===== verification/Users.thy ===== *)
theory Users
  imports Buffer
begin

text \<open>
  The server's global tables and what reads and writes them: the users and administrators of
  \<open>src/main.c\<close>, the credential checks of \<open>src/authentication.c\<close>, and the operations and replies
  of the management protocol in \<open>src/management_request.c\<close> that do not touch a connection.
  A \<open>char *\<close> of the tables points at a C string, allocated with \<open>malloc\<close> or belonging to the
  command line (\<open>argv\<close>), which must not be freed. Seen from outside, a table is the list of
  accounts in its first \<open>nusers\<close> entries.
\<close>

section \<open>The code\<close>

definition MAX_USERS :: nat where "MAX_USERS = 255"

record cstr =
  cs_heap :: bool
  cs_bytes :: "byte list"

record user =
  u_name :: "cstr ptr"
  u_pass :: "cstr ptr"

record globals =
  users :: "user list"
  nusers :: nat
  admins :: "user list"
  nadmins :: nat
  auth_method :: byte
  password_dissectors :: byte
  metrics_historic_connections :: u64
  metrics_concurrent_connections :: u64
  metrics_max_concurrent_connections :: u64
  metrics_historic_byte_transfer :: u64
  metrics_historic_auth_attempts :: u64
  metrics_historic_connections_attempts :: u64
  total_reads :: u64
  metrics_average_bytes_per_read :: u64
  total_writes :: u64
  metrics_average_bytes_per_write :: u64

definition initial_globals :: globals where
  "initial_globals =
     \<lparr>users = replicate MAX_USERS \<lparr>u_name = Null, u_pass = Null\<rparr>, nusers = 0,
      admins = replicate MAX_USERS \<lparr>u_name = Null, u_pass = Null\<rparr>, nadmins = 0,
      auth_method = 0x02, password_dissectors = 0,
      metrics_historic_connections = 0, metrics_concurrent_connections = 0,
      metrics_max_concurrent_connections = 0, metrics_historic_byte_transfer = 0,
      metrics_historic_auth_attempts = 0, metrics_historic_connections_attempts = 0,
      total_reads = 0, metrics_average_bytes_per_read = 0,
      total_writes = 0, metrics_average_bytes_per_write = 0\<rparr>"

definition str_bytes :: "cstr ptr \<Rightarrow> byte list res" where
  "str_bytes p = bind_res (deref p) (\<lambda>s. Inr (cs_bytes s))"

definition free_str :: "cstr ptr \<Rightarrow> unit res" where
  "free_str p =
     (case p of
        Null \<Rightarrow> Inr ()
      | Ptr s \<Rightarrow> if cs_heap s then Inr () else Inl Undefined
      | Dangling \<Rightarrow> Inl Undefined)"

text \<open>\<open>strcmp(a, b) == 0\<close>, \<open>a\<close> a buffer filled by a parser and \<open>b\<close> a string of the tables.\<close>

definition strcmp_eq :: "byte option list ptr \<Rightarrow> cstr ptr \<Rightarrow> bool res" where
  "strcmp_eq a b =
     bind_res (bind_res (deref a) c_string)
       (\<lambda>x. bind_res (str_bytes b) (\<lambda>y. Inr (x = y)))"

definition user_at :: "user list \<Rightarrow> nat \<Rightarrow> user res" where
  "user_at us i = (if i < length us then Inr (us ! i) else Inl Undefined)"

fun check_from ::
  "user list \<Rightarrow> byte option list ptr \<Rightarrow> byte option list ptr \<Rightarrow> nat list \<Rightarrow> nat option res" where
  "check_from us name pass [] = Inr None"
| "check_from us name pass (i # is) =
     bind_res (user_at us i)
       (\<lambda>u. bind_res (strcmp_eq name (u_name u))
         (\<lambda>same. if same then
              bind_res (strcmp_eq pass (u_pass u))
                (\<lambda>ok. if ok then Inr (Some i) else check_from us name pass is)
            else check_from us name pass is))"

text \<open>The second component is what is assigned to \<open>userIndex\<close> on success.\<close>

definition checkCredentials ::
  "globals \<Rightarrow> byte option list ptr \<Rightarrow> byte option list ptr \<Rightarrow> (byte \<times> nat option) res" where
  "checkCredentials g name pass =
     bind_res (check_from (users g) name pass [0..<nusers g])
       (\<lambda>r. Inr (case r of Some i \<Rightarrow> (0x00, Some i) | None \<Rightarrow> (0x01, None)))"

definition checkMngCredentials ::
  "globals \<Rightarrow> byte option list ptr \<Rightarrow> byte option list ptr \<Rightarrow> byte res" where
  "checkMngCredentials g name pass =
     bind_res (check_from (admins g) name pass [0..<nadmins g])
       (\<lambda>r. Inr (case r of Some i \<Rightarrow> 0x00 | None \<Rightarrow> 0x01))"

definition strdup :: "bool \<Rightarrow> byte option list ptr \<Rightarrow> cstr ptr res" where
  "strdup ok p =
     bind_res (bind_res (deref p) c_string)
       (\<lambda>s. if ok then Inr (Ptr \<lparr>cs_heap = True, cs_bytes = s\<rparr>) else Inl Undefined)"

definition addUser ::
  "bool \<Rightarrow> bool \<Rightarrow> globals \<Rightarrow> byte option list ptr \<Rightarrow> byte option list ptr \<Rightarrow> globals res" where
  "addUser ok1 ok2 g name pass =
     (if nusers g \<ge> MAX_USERS then Inr g
      else
        bind_res (strdup ok1 name)
          (\<lambda>n. bind_res (strdup ok2 pass)
            (\<lambda>p. bind_res (user_at (users g) (nusers g))
              (\<lambda>_. Inr (g\<lparr>users := (users g)[nusers g := \<lparr>u_name = n, u_pass = p\<rparr>],
                         nusers := nusers g + 1\<rparr>)))))"

fun delete_from ::
  "byte option list ptr \<Rightarrow> nat list \<Rightarrow> user list \<times> bool \<Rightarrow> (user list \<times> bool) res" where
  "delete_from name [] s = Inr s"
| "delete_from name (i # is) (us, deleted) =
     bind_res (user_at us i)
       (\<lambda>u. if deleted then
            bind_res (user_at us (i - 1)) (\<lambda>_. delete_from name is (us[i - 1 := u], deleted))
          else
            bind_res (strcmp_eq name (u_name u))
              (\<lambda>same. if same then
                   bind_res (free_str (u_name u))
                     (\<lambda>_. bind_res (free_str (u_pass u))
                       (\<lambda>_. delete_from name is (us[i := \<lparr>u_name = Null, u_pass = Null\<rparr>], True)))
                 else delete_from name is (us, deleted)))"

definition deleteUser :: "globals \<Rightarrow> byte option list ptr \<Rightarrow> globals res" where
  "deleteUser g name =
     bind_res (delete_from name [0..<nusers g] (users g, False))
       (\<lambda>(us, deleted). Inr (g\<lparr>users := us,
          nusers := (if deleted then nusers g - 1 else nusers g)\<rparr>))"

text \<open>\<open>*option\<close> of the one-byte options.\<close>

definition first_byte :: "byte option list ptr \<Rightarrow> byte res" where
  "first_byte p = bind_res (deref p) (\<lambda>mem. case mem of Some b # _ \<Rightarrow> Inr b | _ \<Rightarrow> Inl Undefined)"

definition disableAuth :: "globals \<Rightarrow> byte option list ptr \<Rightarrow> globals res" where
  "disableAuth g option =
     bind_res (first_byte option)
       (\<lambda>b. Inr (g\<lparr>auth_method := if b = 0x00 then 0x02 else 0x00\<rparr>))"

definition disablePasswordDissectors :: "globals \<Rightarrow> byte option list ptr \<Rightarrow> globals res" where
  "disablePasswordDissectors g option =
     bind_res (first_byte option) (\<lambda>b. Inr (g\<lparr>password_dissectors := b\<rparr>))"

subsection \<open>Replies\<close>

text \<open>Writing through the pointer of \<open>buffer_write_ptr\<close> when at least \<open>need\<close> bytes are free.\<close>

definition marshall :: "nat \<Rightarrow> byte list \<Rightarrow> buffer \<Rightarrow> buffer res" where
  "marshall need bs b =
     bind_res (buffer_write_ptr b)
       (\<lambda>(ptr, n). if n < need then Inr b
          else bind_res (buffer_poke b bs) (\<lambda>b1. buffer_write_adv b1 (int (length bs))))"

definition status_mng_marshal :: "byte \<Rightarrow> buffer \<Rightarrow> buffer res" where
  "status_mng_marshal status b = marshall 1 [status] b"

text \<open>The bytes of a \<open>uint32_t\<close> in memory, on the little-endian machines the program targets.\<close>

definition u32_bytes :: "u32 \<Rightarrow> byte list" where
  "u32_bytes v = [ucast v, ucast (drop_bit 8 v), ucast (drop_bit 16 v), ucast (drop_bit 24 v)]"

definition uint_mng_request_marshall :: "u32 \<Rightarrow> buffer \<Rightarrow> buffer res" where
  "uint_mng_request_marshall v b = marshall 5 (0x00 # u32_bytes v) b"

definition supported_indexes_mng_request_marshall :: "buffer \<Rightarrow> buffer res" where
  "supported_indexes_mng_request_marshall b =
     marshall 18 [0x00, 0x0E, 0x00, 0x01, 0x02, 0x03, 0x04, 0x05, 0x06, 0x07, 0x08, 0x09, 0x0A,
                  0x0B, 0x0C, 0x0D] b"

text \<open>
  The first loop of \<open>list_users_mng_request_marshall\<close>: \<open>aux\<close> is a \<open>size_t\<close>, and the byte that
  carries each length is not counted. \<open>None\<close> is the early return.
\<close>

fun list_users_fits :: "u64 \<Rightarrow> nat list \<Rightarrow> user list \<Rightarrow> byte list list option res" where
  "list_users_fits aux [] us = Inr (Some [])"
| "list_users_fits aux (i # is) us =
     bind_res (user_at us i)
       (\<lambda>u. bind_res (str_bytes (u_name u))
         (\<lambda>s. if of_nat (length s) > aux then Inr None
           else bind_res (list_users_fits (aux - of_nat (length s)) is us)
                  (\<lambda>r. Inr (case r of None \<Rightarrow> None | Some ns \<Rightarrow> Some (s # ns)))))"

definition list_users_mng_request_marshall :: "globals \<Rightarrow> buffer \<Rightarrow> buffer res" where
  "list_users_mng_request_marshall g b =
     bind_res (buffer_write_ptr b)
       (\<lambda>(ptr, n). bind_res (list_users_fits (of_nat n - 2) [0..<nusers g] (users g))
         (\<lambda>r. case r of
            None \<Rightarrow> Inr b
          | Some names \<Rightarrow>
              (let bs = 0x00 # of_nat (nusers g) # concat (map (\<lambda>s. of_nat (length s) # s) names)
               in bind_res (buffer_poke b bs)
                    (\<lambda>b1. buffer_write_adv b1 (int (length bs))))))"

definition auth_reply :: "buffer \<Rightarrow> byte \<Rightarrow> (int \<times> buffer) res" where
  "auth_reply b r =
     bind_res (buffer_write_ptr b)
       (\<lambda>(ptr, n). if n < 2 then Inr (-1, b)
          else bind_res (buffer_poke b [0x01, r])
            (\<lambda>b1. bind_res (buffer_write_adv b1 2) (\<lambda>b2. Inr (2, b2))))"

section \<open>Accounts\<close>

definition account :: "user \<Rightarrow> (byte list \<times> byte list) res" where
  "account u = bind_res (str_bytes (u_name u))
     (\<lambda>n. bind_res (str_bytes (u_pass u)) (\<lambda>p. Inr (n, p)))"

text \<open>\<open>holds us n as\<close>: the first \<open>n\<close> entries of the table are the accounts \<open>as\<close>.\<close>

definition holds :: "user list \<Rightarrow> nat \<Rightarrow> (byte list \<times> byte list) list \<Rightarrow> bool" where
  "holds us n as \<longleftrightarrow> length us = MAX_USERS \<and> n \<le> MAX_USERS \<and> length as = n \<and>
     (\<forall>i < n. account (us ! i) = Inr (as ! i))"

definition c_text :: "byte option list ptr \<Rightarrow> byte list \<Rightarrow> bool" where
  "c_text p s \<longleftrightarrow> bind_res (deref p) c_string = Inr s"

lemma account_Inr:
  "account u = Inr (n, p) \<longleftrightarrow> str_bytes (u_name u) = Inr n \<and> str_bytes (u_pass u) = Inr p"
  by (auto simp: account_def)

lemma strcmp_eq_text:
  "c_text a s \<Longrightarrow> str_bytes b = Inr t \<Longrightarrow> strcmp_eq a b = Inr (s = t)"
  by (simp add: strcmp_eq_def c_text_def)

lemma holds_at:
  "holds us n as \<Longrightarrow> i < n \<Longrightarrow> user_at us i = Inr (us ! i) \<and> account (us ! i) = Inr (as ! i)"
  by (auto simp: holds_def user_at_def)

text \<open>The check finds the first entry with that name and that password.\<close>

lemma check_from_find:
  assumes "holds us n as" and "c_text name s" and "c_text pass t" and "\<forall>i \<in> set is. i < n"
  shows "check_from us name pass is = Inr (find (\<lambda>i. as ! i = (s, t)) is)"
  using assms(4)
proof (induction "is")
  case Nil
  then show ?case by simp
next
  case (Cons i "is")
  obtain n p where np: "as ! i = (n, p)" by (cases "as ! i")
  have at: "user_at us i = Inr (us ! i)" "account (us ! i) = Inr (n, p)"
    using holds_at [OF assms(1), of i] Cons.prems np by auto
  then have bytes: "str_bytes (u_name (us ! i)) = Inr n" "str_bytes (u_pass (us ! i)) = Inr p"
    by (simp_all add: account_Inr)
  have "strcmp_eq name (u_name (us ! i)) = Inr (s = n)" "strcmp_eq pass (u_pass (us ! i)) = Inr (t = p)"
    using strcmp_eq_text [OF assms(2) bytes(1)] strcmp_eq_text [OF assms(3) bytes(2)] .
  then show ?case
    using Cons at np by auto
qed

lemma find_index_mem:
  "find (\<lambda>i. as ! i = x) [0..<length as] = None \<longleftrightarrow> x \<notin> set as"
  "find (\<lambda>i. as ! i = x) [0..<length as] = Some i \<Longrightarrow> i < length as \<and> as ! i = x"
  by (auto simp: find_None_iff find_Some_iff in_set_conv_nth)

lemma checkCredentials_accounts:
  assumes h: "holds (users g) (nusers g) as" and "c_text name s" "c_text pass t"
  shows "\<exists>r. checkCredentials g name pass = Inr r \<and>
    (if (s, t) \<in> set as then fst r = 0 \<and> (\<exists>i. snd r = Some i \<and> i < nusers g \<and> as ! i = (s, t))
     else r = (1, None))"
proof -
  have len: "nusers g = length as" using h by (simp add: holds_def)
  have run: "check_from (users g) name pass [0..<nusers g]
      = Inr (find (\<lambda>i. as ! i = (s, t)) [0..<length as])"
    using check_from_find [OF assms, of "[0..<nusers g]"] by (simp add: len)
  show ?thesis
  proof (cases "find (\<lambda>i. as ! i = (s, t)) [0..<length as]")
    case None
    have "check_from (users g) name pass [0..<nusers g] = Inr None" by (simp only: run None)
    then show ?thesis
      using None find_index_mem(1) [of as "(s, t)"] by (simp add: checkCredentials_def)
  next
    case (Some i)
    then have "(s, t) \<in> set as" using find_index_mem(1) [of as "(s, t)"] by auto
    then show ?thesis
      using run Some find_index_mem(2) [OF Some] len by (simp add: checkCredentials_def)
  qed
qed

lemma checkMngCredentials_accounts:
  assumes h: "holds (admins g) (nadmins g) as" and "c_text name s" "c_text pass t"
  shows "checkMngCredentials g name pass = Inr (if (s, t) \<in> set as then 0 else 1)"
proof -
  have len: "nadmins g = length as" using h by (simp add: holds_def)
  have run: "check_from (admins g) name pass [0..<nadmins g]
      = Inr (find (\<lambda>i. as ! i = (s, t)) [0..<length as])"
    using check_from_find [OF assms, of "[0..<nadmins g]"] by (simp add: len)
  then show ?thesis
    using find_index_mem(1) [of as "(s, t)"]
    by (auto simp: checkMngCredentials_def split: option.splits)
qed

lemma addUser_accounts:
  assumes h: "holds (users g) (nusers g) as" and "c_text name s" "c_text pass t"
  shows "\<exists>g'. addUser True True g name pass = Inr g' \<and>
    holds (users g') (nusers g') (if nusers g < MAX_USERS then as @ [(s, t)] else as)"
proof (cases "nusers g < MAX_USERS")
  case True
  let ?u = "\<lparr>u_name = Ptr \<lparr>cs_heap = True, cs_bytes = s\<rparr>, u_pass = Ptr \<lparr>cs_heap = True, cs_bytes = t\<rparr>\<rparr>"
  have "strdup True name = Inr (u_name ?u)" "strdup True pass = Inr (u_pass ?u)"
    using assms(2,3) by (simp_all add: strdup_def c_text_def)
  moreover have "holds ((users g)[nusers g := ?u]) (nusers g + 1) (as @ [(s, t)])"
    using h True
    by (auto simp: holds_def account_def str_bytes_def nth_append nth_list_update less_Suc_eq)
  ultimately show ?thesis
    using True h by (simp add: addUser_def user_at_def holds_def)
next
  case False
  then show ?thesis using h by (simp add: addUser_def)
qed

fun remove_account ::
  "byte list \<Rightarrow> (byte list \<times> byte list) list \<Rightarrow> (byte list \<times> byte list) list" where
  "remove_account s [] = []"
| "remove_account s (a # as) = (if fst a = s then as else a # remove_account s as)"

lemma remove_account_at:
  "i < length as \<Longrightarrow> fst (as ! i) = s \<Longrightarrow> \<forall>k < i. fst (as ! k) \<noteq> s \<Longrightarrow>
   remove_account s as = take i as @ drop (Suc i) as"
proof (induction as arbitrary: i)
  case (Cons a as)
  show ?case
  proof (cases i)
    case 0
    then show ?thesis using Cons.prems by simp
  next
    case (Suc j)
    have "fst a \<noteq> s" "\<forall>k < j. fst (as ! k) \<noteq> s" using Cons.prems(3) Suc by force+
    then show ?thesis using Cons Suc by simp
  qed
qed simp

lemma remove_account_none:
  "\<forall>k < length as. fst (as ! k) \<noteq> s \<Longrightarrow> remove_account s as = as"
proof (induction as)
  case (Cons a as)
  then have "fst a \<noteq> s" "\<forall>k < length as. fst (as ! k) \<noteq> s" by force+
  then show ?case using Cons.IH by simp
qed simp

lemma delete_shift:
  assumes "0 < i" and "n \<le> length us"
  shows "\<exists>us'. delete_from name [i..<n] (us, True) = Inr (us', True) \<and> length us' = length us \<and>
    (\<forall>k < length us. us' ! k = (if i \<le> Suc k \<and> Suc k < n then us ! Suc k else us ! k))"
  using assms
proof (induction "n - i" arbitrary: i us)
  case 0
  then show ?case by (auto intro!: exI [of _ us])
next
  case (Suc d)
  then have lt: "i < n" by simp
  let ?us = "us[i - 1 := us ! i]"
  obtain us' where us': "delete_from name [Suc i..<n] (?us, True) = Inr (us', True)"
    "length us' = length ?us"
    "\<forall>k < length ?us. us' ! k = (if Suc i \<le> Suc k \<and> Suc k < n then ?us ! Suc k else ?us ! k)"
    using Suc.hyps(1) [of "Suc i" ?us] Suc.hyps(2) Suc.prems by force
  have "us' ! k = (if i \<le> Suc k \<and> Suc k < n then us ! Suc k else us ! k)" if "k < length us" for k
    using us'(3) that Suc.prems lt by (cases "Suc k = i") (auto simp: nth_list_update)
  then show ?case
    using us'(1,2) lt Suc.prems by (simp add: upt_conv_Cons user_at_def)
qed

text \<open>Every string of the table was allocated, so that \<open>deleteUser\<close> may free it.\<close>

definition heap_users :: "user list \<Rightarrow> nat \<Rightarrow> bool" where
  "heap_users us n \<longleftrightarrow> (\<forall>i < n. free_str (u_name (us ! i)) = Inr () \<and>
     free_str (u_pass (us ! i)) = Inr ())"

lemma delete_search:
  assumes h: "holds us n as" and nm: "c_text name s" and heap: "heap_users us n" and "j \<le> n"
    and "\<forall>k < j. fst (as ! k) \<noteq> s"
  shows "if \<exists>k < n. fst (as ! k) = s then
      \<exists>i < n. fst (as ! i) = s \<and> (\<forall>k < i. fst (as ! k) \<noteq> s) \<and>
        delete_from name [j..<n] (us, False) =
        delete_from name [Suc i..<n] (us[i := \<lparr>u_name = Null, u_pass = Null\<rparr>], True)
    else delete_from name [j..<n] (us, False) = Inr (us, False)"
  using assms(4,5)
proof (induction "n - j" arbitrary: j)
  case 0
  then show ?case by auto
next
  case (Suc d)
  then have lt: "j < n" by simp
  obtain m p where mp: "as ! j = (m, p)" by (cases "as ! j")
  have at: "user_at us j = Inr (us ! j)" "str_bytes (u_name (us ! j)) = Inr m"
    using holds_at [OF h lt] mp by (auto simp: account_Inr)
  have cmp: "strcmp_eq name (u_name (us ! j)) = Inr (s = m)"
    using strcmp_eq_text [OF nm at(2)] .
  show ?case
  proof (cases "s = m")
    case True
    then have "delete_from name [j..<n] (us, False) =
        delete_from name [Suc j..<n] (us[j := \<lparr>u_name = Null, u_pass = Null\<rparr>], True)"
      using lt at(1) cmp heap by (simp add: upt_conv_Cons heap_users_def)
    then show ?thesis using True mp lt Suc.prems(2) by auto
  next
    case False
    then have "delete_from name [j..<n] (us, False) = delete_from name [Suc j..<n] (us, False)"
      using lt at(1) cmp by (simp add: upt_conv_Cons)
    moreover have "\<forall>k < Suc j. fst (as ! k) \<noteq> s" using Suc.prems(2) False mp by (auto simp: less_Suc_eq)
    ultimately show ?thesis using Suc.hyps(1) [of "Suc j"] Suc.hyps(2) lt by simp
  qed
qed

lemma deleteUser_accounts:
  assumes h: "holds (users g) (nusers g) as" and nm: "c_text name s"
    and heap: "heap_users (users g) (nusers g)"
  shows "\<exists>g'. deleteUser g name = Inr g' \<and>
    holds (users g') (nusers g') (remove_account s as) \<and> auth_method g' = auth_method g"
proof (cases "\<exists>k < nusers g. fst (as ! k) = s")
  case False
  have len: "length as = nusers g" using h by (simp add: holds_def)
  have "delete_from name [0..<nusers g] (users g, False) = Inr (users g, False)"
    using delete_search [OF h nm heap, of 0] False by simp
  then show ?thesis
    using False h len remove_account_none [of as s] by (simp add: deleteUser_def)
next
  case True
  let ?n = "nusers g"
  have len: "length as = ?n" "length (users g) = MAX_USERS" "?n \<le> MAX_USERS"
    using h by (simp_all add: holds_def)
  obtain i where i: "i < ?n" "fst (as ! i) = s" "\<forall>k < i. fst (as ! k) \<noteq> s"
    "delete_from name [0..<?n] (users g, False) =
     delete_from name [Suc i..<?n] ((users g)[i := \<lparr>u_name = Null, u_pass = Null\<rparr>], True)"
    using delete_search [OF h nm heap, of 0] True by auto
  obtain us' where us': "delete_from name [0..<?n] (users g, False) = Inr (us', True)"
    "length us' = MAX_USERS"
    "\<forall>k < MAX_USERS. us' ! k = (if Suc i \<le> Suc k \<and> Suc k < ?n
       then (users g)[i := \<lparr>u_name = Null, u_pass = Null\<rparr>] ! Suc k
       else (users g)[i := \<lparr>u_name = Null, u_pass = Null\<rparr>] ! k)"
    using delete_shift [of "Suc i" ?n "(users g)[i := \<lparr>u_name = Null, u_pass = Null\<rparr>]" name]
      i(4) len by auto
  have "account (us' ! k) = Inr ((take i as @ drop (Suc i) as) ! k)" if "k < ?n - 1" for k
    using us'(3) that i(1) len holds_at [OF h, of k] holds_at [OF h, of "Suc k"]
    by (auto simp: nth_append min_def)
  then have "holds us' (?n - 1) (take i as @ drop (Suc i) as)"
    using us'(2) len i(1) by (simp add: holds_def)
  then show ?thesis
    using us'(1) remove_account_at [of i as s] i len by (simp add: deleteUser_def)
qed

section \<open>Replies\<close>

lemma marshall_spec:
  assumes "buffer_inv b" and "length bs \<le> need"
  obtains b' where "marshall need bs b = Inr b'" and "buffer_inv b'"
    and "buffer_contents b' = buffer_contents b @ (if need \<le> buffer_space b then bs else [])"
    and "buf_limit b' = buf_limit b"
proof (cases "need \<le> buffer_space b")
  case True
  then have fit: "length bs \<le> buffer_space b" using assms(2) by simp
  obtain b' where b': "buffer_append b bs = Inr b'" "buffer_inv b'"
    "buffer_contents b' = buffer_contents b @ bs" "buf_limit b' = buf_limit b"
    using buffer_append_spec [OF assms(1) fit] by blast
  then have "marshall need bs b = Inr b'"
    using True assms(1)
    by (simp add: marshall_def buffer_write_ptr_inv buffer_append_def)
  then show ?thesis using that [of b'] b' True by simp
next
  case False
  then show ?thesis
    using that [of b] assms(1) by (simp add: marshall_def buffer_write_ptr_inv)
qed

text \<open>The value the management client reads back from the four bytes.\<close>

definition u32_of_bytes :: "byte list \<Rightarrow> u32" where
  "u32_of_bytes bs =
     ucast (bs ! 3) * 0x1000000 + ucast (bs ! 2) * 0x10000 + ucast (bs ! 1) * 0x100 + ucast (bs ! 0)"

lemma base256_digits:
  fixes n :: nat
  assumes "n < 4294967296"
  shows "n div 16777216 mod 256 * 16777216 + n div 65536 mod 256 * 65536
       + n div 256 mod 256 * 256 + n mod 256 = n"
proof -
  define a where "a = n div 256"
  define b where "b = a div 256"
  define c where "c = b div 256"
  have e: "n = a * 256 + n mod 256" "a = b * 256 + a mod 256" "b = c * 256 + b mod 256"
    unfolding a_def b_def c_def by simp_all
  have d: "n div 65536 = b" "n div 16777216 = c"
    unfolding a_def b_def c_def by (simp_all add: div_mult2_eq [symmetric])
  have "c < 256" using assms unfolding d(2) [symmetric] by (simp add: less_mult_imp_div_less)
  then have c: "c mod 256 = c" by simp
  define x y z where "x = n mod 256" "y = a mod 256" "z = b mod 256"
  show ?thesis unfolding d c a_def [symmetric]
    using e unfolding x_y_z_def [symmetric] by linarith
qed

lemma u32_of_bytes_u32_bytes: "u32_of_bytes (u32_bytes v) = v"
proof -
  have lt: "unat v < 4294967296" using unsigned_less [of v] by simp
  have low: "n mod 4294967296 mod 256 = n mod 256" for n :: nat
    by (rule mod_mod_cancel) simp
  have "unat (u32_of_bytes (u32_bytes v)) =
      (unat v div 16777216 mod 256 * 16777216 + unat v div 65536 mod 256 * 65536
       + unat v div 256 mod 256 * 256 + unat v mod 256) mod 4294967296"
    by (simp add: u32_of_bytes_def u32_bytes_def unat_word_ariths unsigned_ucast_eq
          unsigned_drop_bit_eq drop_bit_eq_div take_bit_eq_mod low)
  then have "unat (u32_of_bytes (u32_bytes v)) = unat v" unfolding base256_digits [OF lt] using lt by simp
  then show ?thesis by (simp add: word_unat_eq_iff)
qed

text \<open>
  The user list. The loop accepts the names when they fit without their length bytes, and the
  bytes written are the encoding with them.
\<close>

definition encode_users :: "byte list list \<Rightarrow> byte list" where
  "encode_users names =
     0x00 # of_nat (length names) # concat (map (\<lambda>s. of_nat (length s) # s) names)"

lemma length_encode_users:
  "length (encode_users names) = 2 + length names + sum_list (map length names)"
  by (induction names) (auto simp: encode_users_def)

lemma list_users_fits_names:
  assumes h: "holds us n as" and "\<forall>i \<in> set is. i < n \<and> length (fst (as ! i)) < 2 ^ 64"
    and "m < 2 ^ 64"
  shows "list_users_fits (of_nat m) is us =
    Inr (if sum_list (map (\<lambda>i. length (fst (as ! i))) is) \<le> m
         then Some (map (\<lambda>i. fst (as ! i)) is) else None)"
  using assms(2,3)
proof (induction "is" arbitrary: m)
  case Nil
  then show ?case by simp
next
  case (Cons i "is")
  obtain s p where sp: "as ! i = (s, p)" by (cases "as ! i")
  have at: "user_at us i = Inr (us ! i)" "str_bytes (u_name (us ! i)) = Inr s"
    using holds_at [OF h, of i] Cons.prems(1) sp by (auto simp: account_Inr)
  show ?case
  proof (cases "length s \<le> m")
    case True
    have small: "length s < 2 ^ 64" "m - length s < 2 ^ 64" using True Cons.prems(2) by auto
    then have "\<not> (of_nat m :: u64) < of_nat (length s)"
      using True Cons.prems(2) by (simp add: word_less_nat_alt unat_of_nat)
    moreover have "(of_nat m :: u64) - of_nat (length s) = of_nat (m - length s)"
      using True by simp
    ultimately show ?thesis
      using Cons.IH [of "m - length s"] Cons.prems(1) small at sp True by auto
  next
    case False
    have "length s < 2 ^ 64" using Cons.prems(1) sp by simp
    then have "(of_nat m :: u64) < of_nat (length s)"
      using False Cons.prems(2) by (simp add: word_less_nat_alt unat_of_nat)
    then show ?thesis using at sp False by simp
  qed
qed

lemma list_users_spec:
  assumes b: "buffer_inv b" "2 \<le> buffer_space b" "buffer_space b < 2 ^ 64"
    and h: "holds (users g) (nusers g) as" and names: "names = map fst as"
    and short: "\<forall>s \<in> set names. length s < 2 ^ 64"
  shows "list_users_mng_request_marshall g b =
    (if 2 + sum_list (map length names) \<le> buffer_space b
     then buffer_append b (encode_users names) else Inr b)"
proof -
  have len: "length as = nusers g" using h by (simp add: holds_def)
  have sub: "(of_nat (buffer_space b) - 2 :: u64) = of_nat (buffer_space b - 2)"
    using b(2) by simp
  have map: "map (\<lambda>i. fst (as ! i)) [0..<nusers g] = names"
    unfolding names len [symmetric] by (rule nth_equalityI) simp_all
  then have map': "map (\<lambda>i. length (fst (as ! i))) [0..<nusers g] = map length names"
    by (simp add: map_map [symmetric] comp_def flip: map)
  have "fst (as ! i) \<in> set names" if "i < nusers g" for i
    using that names len by simp
  then have "\<forall>i \<in> set [0..<nusers g]. i < nusers g \<and> length (fst (as ! i)) < 2 ^ 64"
    using short by simp
  then have fits: "list_users_fits (of_nat (buffer_space b) - 2) [0..<nusers g] (users g) =
    Inr (if sum_list (map length names) \<le> buffer_space b - 2 then Some names else None)"
    using list_users_fits_names [OF h, of "[0..<nusers g]" "buffer_space b - 2"] b(3)
    unfolding map map' sub by simp
  have iff: "sum_list (map length names) \<le> buffer_space b - 2 \<longleftrightarrow>
    2 + sum_list (map length names) \<le> buffer_space b" using b(2) by auto
  have n: "length names = nusers g" using names len by simp
  show ?thesis
    using b(1) fits iff n
    by (simp add: list_users_mng_request_marshall_def buffer_write_ptr_inv buffer_append_def
        encode_users_def Let_def)
qed

lemma auth_reply_spec:
  assumes "buffer_inv b" and "2 \<le> buffer_space b"
  obtains b' where "auth_reply b r = Inr (2, b')" and "buffer_inv b'"
    and "buffer_contents b' = buffer_contents b @ [0x01, r]" and "buf_limit b' = buf_limit b"
proof -
  have "auth_reply b r = bind_res (buffer_append b [0x01, r]) (\<lambda>b2. Inr (2, b2))"
    using assms by (simp add: auth_reply_def buffer_write_ptr_inv buffer_append_def)
  moreover obtain b' where "buffer_append b [0x01, r] = Inr b'" "buffer_inv b'"
    "buffer_contents b' = buffer_contents b @ [0x01, r]" "buf_limit b' = buf_limit b"
    using buffer_append_spec [OF assms(1), of "[0x01, r]"] assms(2) by auto
  ultimately show ?thesis by (intro that [of b']) simp_all
qed

section \<open>Properties of the accounts and replies\<close>

definition c_buf :: "byte list \<Rightarrow> byte option list ptr" where
  "c_buf s = Ptr (map Some s @ [Some 0])"

lemma c_buf_text: "0 \<notin> set s \<Longrightarrow> c_text (c_buf s) s"
  by (simp add: c_text_def c_buf_def c_string_terminated)

definition heap_user :: "byte list \<Rightarrow> byte list \<Rightarrow> user" where
  "heap_user n p = \<lparr>u_name = Ptr \<lparr>cs_heap = True, cs_bytes = n\<rparr>,
     u_pass = Ptr \<lparr>cs_heap = True, cs_bytes = p\<rparr>\<rparr>"

definition demo_globals :: globals where
  "demo_globals = initial_globals\<lparr>
     users := [heap_user [0x61] [0x62], heap_user [0x63] [0x64]] @
       replicate 253 \<lparr>u_name = Null, u_pass = Null\<rparr>, nusers := 2\<rparr>"

lemma demo_globals_holds:
  "holds (users demo_globals) (nusers demo_globals) [([0x61], [0x62]), ([0x63], [0x64])]"
  "heap_users (users demo_globals) (nusers demo_globals)"
  by (auto simp: demo_globals_def holds_def heap_users_def heap_user_def account_def str_bytes_def
      free_str_def MAX_USERS_def less_2_cases_iff nth_append)

text \<open>
  \<open>C14\<close> Credentials are accepted exactly when they are an account: for a table that holds the
  accounts \<open>as\<close>, \<open>checkCredentials\<close> never faults, answers 0x00 if and only if the user name and
  the password that were sent are one of them, and then names an entry that has both; otherwise
  it answers 0x01 and names none.
\<close>

theorem credentials_accepted_iff_account:
  assumes "holds (users g) (nusers g) as" and "c_text name s" and "c_text pass t"
  shows "\<exists>r i. checkCredentials g name pass = Inr (r, i) \<and> (r = 0x00 \<longleftrightarrow> (s, t) \<in> set as) \<and>
    (r \<noteq> 0x00 \<longrightarrow> r = 0x01 \<and> i = None) \<and>
    (r = 0x00 \<longrightarrow> (\<exists>k. i = Some k \<and> k < nusers g \<and> as ! k = (s, t)))"
  using checkCredentials_accounts [OF assms] by (auto split: if_splits)

lemma credentials_accepted_iff_account_witness:
  "\<exists>r i. checkCredentials demo_globals (c_buf [0x63]) (c_buf [0x62]) = Inr (r, i) \<and> r = 0x01"
  using credentials_accepted_iff_account [OF demo_globals_holds(1) c_buf_text c_buf_text,
      of "[0x63]" "[0x62]"] by auto

text \<open>
  \<open>C15\<close> The management operations on users implement a list of accounts. \<open>addUser\<close> appends the
  account unless 255 are there, in which case it changes nothing; \<open>deleteUser\<close> removes the first
  account with that name, shifting the others down, or changes nothing; neither faults, when
  every stored string was allocated by the server.
\<close>

theorem user_table_refines_account_list:
  assumes "holds (users g) (nusers g) as" and "heap_users (users g) (nusers g)"
    and "c_text name s" and "c_text pass t"
  shows "\<exists>g1 g2. addUser True True g name pass = Inr g1 \<and> deleteUser g name = Inr g2 \<and>
    holds (users g1) (nusers g1) (if nusers g < MAX_USERS then as @ [(s, t)] else as) \<and>
    holds (users g2) (nusers g2) (remove_account s as)"
  using addUser_accounts [OF assms(1,3,4)] deleteUser_accounts [OF assms(1,3,2)] by blast

lemma user_table_refines_account_list_witness:
  "\<exists>g1 g2. addUser True True demo_globals (c_buf [0x61]) (c_buf [0x65]) = Inr g1 \<and>
    deleteUser demo_globals (c_buf [0x61]) = Inr g2 \<and>
    holds (users g1) 3 [([0x61], [0x62]), ([0x63], [0x64]), ([0x61], [0x65])] \<and>
    holds (users g2) 1 [([0x63], [0x64])]"
proof -
  obtain g1 g2 where g: "addUser True True demo_globals (c_buf [0x61]) (c_buf [0x65]) = Inr g1"
    "deleteUser demo_globals (c_buf [0x61]) = Inr g2"
    "holds (users g1) (nusers g1) [([0x61], [0x62]), ([0x63], [0x64]), ([0x61], [0x65])]"
    "holds (users g2) (nusers g2) [([0x63], [0x64])]"
    using user_table_refines_account_list [OF demo_globals_holds c_buf_text c_buf_text,
        of "[0x61]" "[0x65]"] by (auto simp: demo_globals_def MAX_USERS_def)
  then have "nusers g1 = 3" "nusers g2 = 1" by (auto simp: holds_def)
  then show ?thesis using g by auto
qed

text \<open>
  A counter in a management reply is the counter modulo 2 to the 32: whatever \<open>size_t\<close> the
  server holds, the five bytes it writes, a zero and the value's low half in memory order, are
  read back by the client as that value reduced; the high half is lost.
\<close>

theorem metric_reply_truncates:
  assumes "buffer_inv b" and "5 \<le> buffer_space b"
  shows "\<exists>b' bs. uint_mng_request_marshall (ucast (m :: u64)) b = Inr b' \<and> buffer_inv b' \<and>
    buffer_contents b' = buffer_contents b @ 0x00 # bs \<and> length bs = 4 \<and>
    unat (u32_of_bytes bs) = unat m mod 2 ^ 32"
proof -
  have len: "length (0x00 # u32_bytes (ucast m)) \<le> 5" by (simp add: u32_bytes_def)
  obtain b' where b': "marshall 5 (0x00 # u32_bytes (ucast m)) b = Inr b'" "buffer_inv b'"
    "buffer_contents b' = buffer_contents b @
      (if 5 \<le> buffer_space b then 0x00 # u32_bytes (ucast m) else [])"
    by (rule marshall_spec [OF assms(1) len])
  then have "uint_mng_request_marshall (ucast m) b = Inr b'" "buffer_inv b'"
    "buffer_contents b' = buffer_contents b @ 0x00 # u32_bytes (ucast m)"
    using assms(2) by (simp_all only: uint_mng_request_marshall_def if_True)
  moreover have "length (u32_bytes (ucast m)) = 4" by (simp add: u32_bytes_def)
  moreover have "unat (u32_of_bytes (u32_bytes (ucast m))) = unat m mod 2 ^ 32"
    unfolding u32_of_bytes_u32_bytes by (simp add: unsigned_ucast_eq take_bit_eq_mod)
  ultimately show ?thesis by blast
qed

definition demo_space :: "nat \<Rightarrow> buffer" where
  "demo_space n = \<lparr>buf_data = replicate n 0, buf_limit = n, buf_read = 0, buf_write = 0\<rparr>"

lemma demo_space [simp]:
  "buffer_inv (demo_space n)" "buffer_space (demo_space n) = n" "buffer_contents (demo_space n) = []"
  by (simp_all add: demo_space_def buffer_inv_def buffer_space_def buffer_contents_def)

lemma metric_reply_truncates_witness:
  "\<exists>b' bs. uint_mng_request_marshall (ucast (0x100000007 :: u64)) (demo_space 8) = Inr b' \<and>
    unat (u32_of_bytes bs) = 7"
  using metric_reply_truncates [of "demo_space 8" "0x100000007"] by auto

text \<open>
  The user list is checked against the wrong size. When the names alone fit in the buffer but
  their length bytes do not fit beside them, \<open>list_users_mng_request_marshall\<close> does not return
  early: it writes past the end of the buffer or dies in the \<open>assert\<close> of \<open>buffer_write_adv\<close>. When
  everything fits, it appends the status, the count, and each name with its length.
\<close>

theorem list_users_overflow:
  assumes "buffer_inv b" and "2 \<le> buffer_space b" and "buffer_space b < 2 ^ 64"
    and "holds (users g) (nusers g) as" and "\<forall>s \<in> set (map fst as). length s < 2 ^ 64"
    and "2 + sum_list (map length (map fst as)) \<le> buffer_space b"
  shows "if 2 + length as + sum_list (map length (map fst as)) \<le> buffer_space b
    then \<exists>b'. list_users_mng_request_marshall g b = Inr b' \<and>
      buffer_contents b' = buffer_contents b @ encode_users (map fst as)
    else \<not> no_fault (list_users_mng_request_marshall g b)"
proof -
  have run: "list_users_mng_request_marshall g b = buffer_append b (encode_users (map fst as))"
    using list_users_spec [OF assms(1-4) refl assms(5)] assms(6) by simp
  have len: "length (encode_users (map fst as)) = 2 + length as + sum_list (map length (map fst as))"
    by (simp only: length_encode_users length_map)
  show ?thesis
  proof (cases "2 + length as + sum_list (map length (map fst as)) \<le> buffer_space b")
    case True
    then obtain b' where "buffer_append b (encode_users (map fst as)) = Inr b'"
      "buffer_contents b' = buffer_contents b @ encode_users (map fst as)"
      using buffer_append_spec [OF assms(1)] len by metis
    then show ?thesis using True run by auto
  next
    case False
    then show ?thesis using buffer_append_overflow [OF assms(1)] len run by simp
  qed
qed

lemma list_users_overflow_witness:
  "\<not> no_fault (list_users_mng_request_marshall demo_globals (demo_space 5))"
  using list_users_overflow [of "demo_space 5" demo_globals, OF _ _ _ demo_globals_holds(1)] by simp

end
