(* ===== verification/Stream_Parser.thy ===== *)
theory Stream_Parser
  imports Buffer
begin

text \<open>
  The interface between the read buffer and the incremental parsers. \<open>hello_consume\<close>,
  \<open>consume\<close> and \<open>request_consume\<close> are the same loop: while the buffer has a byte and the
  parser is not finished, read one byte and feed it. The locale \<open>stream_parser\<close> states that
  loop equation as its law and proves what every such loop has in common: it computes
  \<open>run_parser\<close> of the buffer's contents, leaves the unread bytes in the buffer, and the way
  TCP cuts the stream into segments does not matter.
\<close>

section \<open>Reference semantics\<close>

fun run_parser ::
  "('p \<Rightarrow> byte \<Rightarrow> ('st \<times> 'p) res) \<Rightarrow> ('st \<Rightarrow> bool \<Rightarrow> bool \<times> bool) \<Rightarrow>
   'p \<Rightarrow> 'st \<Rightarrow> bool \<Rightarrow> byte list \<Rightarrow> ('p \<times> 'st \<times> bool \<times> byte list \<times> bool) res" where
  "run_parser feed fin p st err [] = Inr (p, st, err, [], False)"
| "run_parser feed fin p st err (x # xs) =
     bind_res (feed p x)
       (\<lambda>(st1, p1).
          if fst (fin st1 err) then Inr (p1, st1, snd (fin st1 err), xs, True)
          else run_parser feed fin p1 st1 (snd (fin st1 err)) xs)"

lemma run_parser_append:
  "run_parser feed fin p st err (xs @ ys) =
   bind_res (run_parser feed fin p st err xs)
     (\<lambda>(p1, st1, err1, rest, done).
        if done then Inr (p1, st1, err1, rest @ ys, True)
        else run_parser feed fin p1 st1 err1 ys)"
proof (induction xs arbitrary: p st err)
  case (Cons x xs)
  then show ?case by (cases "feed p x") (auto split: prod.splits)
qed simp

lemma run_parser_state_irrelevant:
  "xs \<noteq> [] \<Longrightarrow> run_parser feed fin p st err xs = run_parser feed fin p st' err xs"
  by (cases xs) auto

lemma run_parser_rest:
  "run_parser feed fin p st err xs = Inr (p', st', err', rest, done) \<Longrightarrow>
   (\<not> done \<longrightarrow> rest = []) \<and> (\<exists>used. xs = used @ rest)"
proof (induction xs arbitrary: p st err)
  case (Cons x xs)
  then obtain st1 p1 where f: "feed p x = Inr (st1, p1)" by auto
  show ?case
  proof (cases "fst (fin st1 err)")
    case True
    with Cons.prems f show ?thesis by auto
  next
    case False
    with Cons.prems f have "(\<not> done \<longrightarrow> rest = []) \<and> (\<exists>used. xs = used @ rest)"
      by (intro Cons.IH [of p1 st1 "snd (fin st1 err)"]) simp
    then show ?thesis by (metis append_Cons)
  qed
qed simp

lemma run_parser_finished:
  "run_parser feed fin p st err xs = Inr (p', st', err', rest, True) \<Longrightarrow> \<exists>e. fst (fin st' e)"
proof (induction xs arbitrary: p st err)
  case (Cons x xs)
  then obtain st1 p1 where f: "feed p x = Inr (st1, p1)" by auto
  then show ?case
    using Cons.prems Cons.IH [of p1 st1 "snd (fin st1 err)"] by (auto split: if_splits)
qed simp

section \<open>The interface\<close>

locale stream_parser =
  fixes feed :: "'p \<Rightarrow> byte \<Rightarrow> ('st \<times> 'p) res"
    and fin :: "'st \<Rightarrow> bool \<Rightarrow> bool \<times> bool"
    and loop :: "buffer \<Rightarrow> 'p \<Rightarrow> 'st \<Rightarrow> bool \<Rightarrow> (buffer \<times> 'p \<times> 'st \<times> bool) res"
  assumes loop_step: "loop b p st err =
    (if buffer_can_read b then
       bind_res (buffer_read b)
         (\<lambda>(c, b1). bind_res (feed p c)
            (\<lambda>(st1, p1).
               if fst (fin st1 err) then Inr (b1, p1, st1, snd (fin st1 err))
               else loop b1 p1 st1 (snd (fin st1 err))))
     else Inr (b, p, st, err))"
begin

lemma loop_fault:
  assumes "buffer_inv b" and "run_parser feed fin p st err (buffer_contents b) = Inl e"
  shows "loop b p st err = Inl e"
  using assms
proof (induction "buffer_contents b" arbitrary: b p st err)
  case Nil
  then show ?case by auto
next
  case (Cons x xs)
  from Cons.hyps(2) obtain b1 where b1: "buffer_read b = Inr (x, b1)" "buffer_inv b1"
    "buffer_contents b1 = xs"
    using buffer_read_spec [OF Cons.prems(1)] by metis
  have can: "buffer_can_read b"
    using Cons.prems(1) Cons.hyps(2) by (auto simp: buffer_can_read_iff)
  show ?case
  proof (cases "feed p x")
    case (Inl e')
    then show ?thesis
      using Cons.prems(2) Cons.hyps(2) [symmetric] b1 can by (subst loop_step) simp
  next
    case (Inr sp)
    then obtain st1 p1 where sp: "feed p x = Inr (st1, p1)" by (cases sp) auto
    have nd: "\<not> fst (fin st1 err)"
      and run1: "run_parser feed fin p1 st1 (snd (fin st1 err)) (buffer_contents b1) = Inl e"
      using Cons.prems(2) Cons.hyps(2) [symmetric] sp b1(3) by (auto split: if_splits)
    then have "loop b1 p1 st1 (snd (fin st1 err)) = Inl e"
      using Cons.hyps(1) [of b1] b1 by simp
    then show ?thesis
      using b1 can sp nd by (subst loop_step) simp
  qed
qed

lemma loop_result:
  assumes "buffer_inv b"
    and "run_parser feed fin p st err (buffer_contents b) = Inr (p', st', err', rest, done)"
  obtains b' where "loop b p st err = Inr (b', p', st', err')" and "buffer_inv b'"
    and "buffer_contents b' = rest" and "buf_limit b' = buf_limit b"
  using assms
proof (induction "buffer_contents b" arbitrary: b p st err thesis)
  case Nil
  then show ?case by (subst (asm) loop_step) (auto simp: buffer_can_read_iff)
next
  case (Cons x xs)
  from Cons.hyps(2) obtain b1 where b1: "buffer_read b = Inr (x, b1)" "buffer_inv b1"
    "buffer_contents b1 = xs" "buf_limit b1 = buf_limit b"
    using buffer_read_spec [OF Cons.prems(2)] by metis
  have can: "buffer_can_read b"
    using Cons.prems(2) Cons.hyps(2) by (auto simp: buffer_can_read_iff)
  from Cons.prems(3) obtain st1 p1 where sp: "feed p x = Inr (st1, p1)"
    by (auto simp flip: Cons.hyps(2))
  let ?err1 = "snd (fin st1 err)"
  have step: "loop b p st err =
    (if fst (fin st1 err) then Inr (b1, p1, st1, ?err1) else loop b1 p1 st1 ?err1)"
    using b1 can sp by (subst loop_step) simp
  show ?case
  proof (cases "fst (fin st1 err)")
    case True
    then have "p' = p1 \<and> st' = st1 \<and> err' = ?err1 \<and> rest = xs"
      using Cons.prems(3) sp by (auto simp flip: Cons.hyps(2))
    then show ?thesis using Cons.prems(1) [of b1] step True b1 by simp
  next
    case False
    then have "run_parser feed fin p1 st1 ?err1 (buffer_contents b1) =
      Inr (p', st', err', rest, done)"
      using Cons.prems(3) sp b1(3) by (auto simp flip: Cons.hyps(2))
    then obtain b' where "loop b1 p1 st1 ?err1 = Inr (b', p', st', err')" "buffer_inv b'"
      "buffer_contents b' = rest" "buf_limit b' = buf_limit b1"
      using Cons.hyps(1) [of b1 p1 st1 ?err1] b1 by metis
    then show ?thesis using Cons.prems(1) [of b'] step False b1 by simp
  qed
qed

lemma loop_run:
  assumes "buffer_inv b" and "loop b p st err = Inr (b', p', st', err')"
  obtains rest d where
    "run_parser feed fin p st err (buffer_contents b) = Inr (p', st', err', rest, d)"
    and "buffer_contents b' = rest" and "buffer_inv b'"
proof (cases "run_parser feed fin p st err (buffer_contents b)")
  case (Inl e)
  then show ?thesis using loop_fault [OF assms(1) Inl] assms(2) by simp
next
  case (Inr r)
  obtain p1 st1 err1 rest d where r: "r = (p1, st1, err1, rest, d)" by (cases r)
  obtain b1 where "loop b p st err = Inr (b1, p1, st1, err1)" "buffer_inv b1"
    "buffer_contents b1 = rest"
    using loop_result [OF assms(1) Inr [unfolded r]] by metis
  then show ?thesis using that [of rest d] Inr r assms(2) by simp
qed

lemma loop_unfinished:
  assumes "buffer_inv b" and "loop b p st err = Inr (b', p', st', err')"
    and "\<And>e. \<not> fst (fin st' e)"
  shows "run_parser feed fin p st err (buffer_contents b) = Inr (p', st', err', [], False)"
proof -
  obtain rest d where r:
    "run_parser feed fin p st err (buffer_contents b) = Inr (p', st', err', rest, d)"
    using loop_run [OF assms(1,2)] by metis
  have "\<not> d"
  proof
    assume d
    with r have "run_parser feed fin p st err (buffer_contents b) = Inr (p', st', err', rest, True)"
      by simp
    from run_parser_finished [OF this] show False using assms(3) by blast
  qed
  then show ?thesis using r run_parser_rest [OF r] by simp
qed

text \<open>
  Two segments or one: parse what is in the buffer, receive \<open>ys\<close> more and parse again, and the
  parser is where it would be had everything been in the buffer at once.
\<close>

lemma loop_fragmented:
  assumes b: "buffer_inv b" and all: "buffer_inv ball"
    "buffer_contents ball = buffer_contents b @ ys" "ys \<noteq> []"
    and first: "loop b p st err = Inr (b1, p1, st1, err1)" "\<And>e. \<not> fst (fin st1 e)"
    and b2: "buffer_inv b2" "buffer_contents b2 = ys"
  shows "map_sum id (\<lambda>(b, r). (buffer_contents b, r)) (loop b2 p1 st' err1) =
         map_sum id (\<lambda>(b, r). (buffer_contents b, r)) (loop ball p st err)"
proof -
  have "run_parser feed fin p st err (buffer_contents ball) =
    run_parser feed fin p1 st' err1 (buffer_contents b2)"
    using all(2,3) loop_unfinished [OF b first] b2(2) run_parser_state_irrelevant [of ys feed fin p1 st1 err1 st']
    by (simp add: run_parser_append)
  note eq = this
  show ?thesis
  proof (cases "run_parser feed fin p st err (buffer_contents ball)")
    case (Inl e)
    then show ?thesis
      using loop_fault [OF all(1) Inl] loop_fault [OF b2(1)] eq by simp
  next
    case (Inr r)
    obtain p2 st2 err2 rest d where r: "r = (p2, st2, err2, rest, d)" by (cases r) auto
    obtain b3 where "loop ball p st err = Inr (b3, p2, st2, err2)" "buffer_contents b3 = rest"
      using loop_result [OF all(1) Inr [unfolded r]] by metis
    moreover obtain b4 where "loop b2 p1 st' err1 = Inr (b4, p2, st2, err2)"
      "buffer_contents b4 = rest"
      using loop_result [OF b2(1) trans [OF eq [symmetric] Inr [unfolded r]]] by metis
    ultimately show ?thesis by simp
  qed
qed

end

text \<open>A parser with an invariant that no byte breaks never faults, however long the input.\<close>

locale safe_stream_parser = stream_parser +
  fixes wf :: "'p \<Rightarrow> bool"
  assumes feed_safe: "wf p \<Longrightarrow> \<exists>st1 p1. feed p x = Inr (st1, p1) \<and>
    (\<not> fst (fin st1 err) \<longrightarrow> wf p1)"
begin

lemma run_safe:
  "wf p \<Longrightarrow> \<exists>p' st' err' rest done.
     run_parser feed fin p st err xs = Inr (p', st', err', rest, done) \<and> (\<not> done \<longrightarrow> wf p')"
proof (induction xs arbitrary: p st err)
  case Nil
  then show ?case by auto
next
  case (Cons x xs)
  then obtain st1 p1 where sp: "feed p x = Inr (st1, p1)"
    and wf1: "\<not> fst (fin st1 err) \<longrightarrow> wf p1"
    using feed_safe by blast
  then show ?case
    using Cons.IH [of p1 st1 "snd (fin st1 err)"] by auto
qed

lemma loop_safe:
  assumes "buffer_inv b" and "wf p"
  obtains b' p' st' err' where "loop b p st err = Inr (b', p', st', err')" and "buffer_inv b'"
    and "buf_limit b' = buf_limit b"
proof -
  obtain p' st' err' rest fin' where
    "run_parser feed fin p st err (buffer_contents b) = Inr (p', st', err', rest, fin')"
    using run_safe [OF assms(2)] by blast
  then show ?thesis using loop_result [OF assms(1)] that by metis
qed

end

end
