(* ===== verification/Hello_Parser.thy ===== *)
theory Hello_Parser
  imports Stream_Parser
begin

text \<open>
  The parser half of \<open>src/hello.c\<close>: the version/method-selection message of RFC 1928 and the
  reply to it. The parser reports every offered method to a callback; the only one the program
  installs, \<open>on_hello_method\<close>, stores the wanted method through \<open>p->data\<close>, which points at
  \<open>client.hello.method\<close>. That cell is threaded through the parser beside its record.
\<close>

section \<open>The code\<close>

definition SOCKS_VERSION :: byte where "SOCKS_VERSION = 0x05"
definition MNG_VERSION :: byte where "MNG_VERSION = 0x01"
definition MNG_AUTH_METHOD :: byte where "MNG_AUTH_METHOD = 0x02"
definition METHOD_NO_AUTHENTICATION_REQUIRED :: byte where
  "METHOD_NO_AUTHENTICATION_REQUIRED = 0x00"
definition METHOD_NO_ACCEPTABLE_METHODS :: byte where "METHOD_NO_ACCEPTABLE_METHODS = 0xFF"
definition METHOD_USERNAME_PASSWORD :: byte where "METHOD_USERNAME_PASSWORD = 0x02"

lemmas hello_constants =
  SOCKS_VERSION_def MNG_VERSION_def MNG_AUTH_METHOD_def METHOD_NO_AUTHENTICATION_REQUIRED_def
  METHOD_NO_ACCEPTABLE_METHODS_def METHOD_USERNAME_PASSWORD_def

datatype hello_state =
    hello_version | hello_nmethods | hello_methods | hello_done | hello_error_unsupported_version

datatype hello_callback = On_hello_method

record hello_parser =
  hp_on_authentication_method :: "hello_callback option"
  hp_version :: byte
  hp_method :: byte
  hp_state :: hello_state
  hp_remaining :: byte

definition hello_parser_init :: "hello_parser \<Rightarrow> hello_parser" where
  "hello_parser_init p = p\<lparr>hp_state := hello_version, hp_remaining := 0\<rparr>"

definition on_hello_method :: "hello_parser \<Rightarrow> byte \<Rightarrow> byte \<Rightarrow> byte" where
  "on_hello_method p cell m = (if hp_method p = m then m else cell)"

fun call_on_method :: "hello_callback option \<Rightarrow> hello_parser \<Rightarrow> byte \<Rightarrow> byte \<Rightarrow> byte" where
  "call_on_method None p cell m = cell"
| "call_on_method (Some On_hello_method) p cell m = on_hello_method p cell m"

definition hello_parser_feed ::
  "hello_parser \<times> byte \<Rightarrow> byte \<Rightarrow> (hello_state \<times> hello_parser \<times> byte) res" where
  "hello_parser_feed = (\<lambda>(p, cell) b.
     let (p', cell') =
       (case hp_state p of
          hello_version \<Rightarrow>
            (if b = hp_version p then (p\<lparr>hp_state := hello_nmethods\<rparr>, cell)
             else (p\<lparr>hp_state := hello_error_unsupported_version\<rparr>, cell))
        | hello_nmethods \<Rightarrow>
            (let p1 = p\<lparr>hp_remaining := b, hp_state := hello_methods\<rparr>
             in (if hp_remaining p1 \<le> 0 then p1\<lparr>hp_state := hello_done\<rparr> else p1, cell))
        | hello_methods \<Rightarrow>
            (let cell1 = call_on_method (hp_on_authentication_method p) p cell b;
                 p1 = p\<lparr>hp_remaining := hp_remaining p - 1\<rparr>
             in (if hp_remaining p1 \<le> 0 then p1\<lparr>hp_state := hello_done\<rparr> else p1, cell1))
        | hello_done \<Rightarrow> (p, cell)
        | hello_error_unsupported_version \<Rightarrow> (p, cell))
     in Inr (hp_state p', p', cell'))"

text \<open>The second component is \<open>*error\<close> afterwards (the caller may also pass a null pointer).\<close>

definition hello_is_done :: "hello_state \<Rightarrow> bool \<Rightarrow> bool \<times> bool" where
  "hello_is_done st err =
     (case st of
        hello_error_unsupported_version \<Rightarrow> (True, True)
      | hello_done \<Rightarrow> (True, err)
      | _ \<Rightarrow> (False, err))"

function hello_loop ::
  "buffer \<Rightarrow> hello_parser \<times> byte \<Rightarrow> hello_state \<Rightarrow> bool \<Rightarrow>
   (buffer \<times> (hello_parser \<times> byte) \<times> hello_state \<times> bool) res" where
  "hello_loop b p st err =
    (if buffer_can_read b then
       bind_res (buffer_read b)
         (\<lambda>(c, b1). bind_res (hello_parser_feed p c)
            (\<lambda>(st1, p1).
               if fst (hello_is_done st1 err) then Inr (b1, p1, st1, snd (hello_is_done st1 err))
               else hello_loop b1 p1 st1 (snd (hello_is_done st1 err))))
     else Inr (b, p, st, err))"
  by pat_completeness auto
termination
  by (relation "measure (\<lambda>(b, _). buf_write b - buf_read b)") (auto dest: buffer_read_decreases)

declare hello_loop.simps [simp del]

definition hello_consume ::
  "buffer \<Rightarrow> hello_parser \<times> byte \<Rightarrow> bool \<Rightarrow>
   (buffer \<times> (hello_parser \<times> byte) \<times> hello_state \<times> bool) res" where
  "hello_consume b p err = hello_loop b p (hp_state (fst p)) err"

definition hello_marshal :: "buffer \<Rightarrow> byte \<Rightarrow> byte \<Rightarrow> (int \<times> buffer) res" where
  "hello_marshal b method version =
     bind_res (buffer_write_ptr b)
       (\<lambda>(ptr, n).
          if n < 2 then Inr (-1, b)
          else bind_res (buffer_poke b [version, method])
            (\<lambda>b1. bind_res (buffer_write_adv b1 2) (\<lambda>b2. Inr (2, b2))))"

section \<open>The parser as a stream parser\<close>

interpretation hello: safe_stream_parser hello_parser_feed hello_is_done hello_loop "\<lambda>_. True"
proof unfold_locales
  show "hello_loop b p st err =
    (if buffer_can_read b then
       bind_res (buffer_read b)
         (\<lambda>(c, b1). bind_res (hello_parser_feed p c)
            (\<lambda>(st1, p1).
               if fst (hello_is_done st1 err) then Inr (b1, p1, st1, snd (hello_is_done st1 err))
               else hello_loop b1 p1 st1 (snd (hello_is_done st1 err))))
     else Inr (b, p, st, err))" for b p st err
    by (rule hello_loop.simps)
  show "\<exists>st1 p1. hello_parser_feed p x = Inr (st1, p1) \<and>
    (\<not> fst (hello_is_done st1 err) \<longrightarrow> True)" for p x err
    by (cases p) (auto simp: hello_parser_feed_def Let_def split: prod.splits)
qed

definition hello_run ::
  "hello_parser \<times> byte \<Rightarrow> byte list \<Rightarrow>
   ((hello_parser \<times> byte) \<times> hello_state \<times> bool \<times> byte list \<times> bool) res" where
  "hello_run p bs = run_parser hello_parser_feed hello_is_done p (hp_state (fst p)) False bs"

lemma hello_is_done_simps [simp]:
  "hello_is_done hello_error_unsupported_version err = (True, True)"
  "hello_is_done hello_done err = (True, err)"
  "hello_is_done hello_version err = (False, err)"
  "hello_is_done hello_nmethods err = (False, err)"
  "hello_is_done hello_methods err = (False, err)"
  by (simp_all add: hello_is_done_def)

lemma hello_feed_version:
  "hp_state p = hello_version \<Longrightarrow>
   hello_parser_feed (p, cell) b =
     (if b = hp_version p then Inr (hello_nmethods, p\<lparr>hp_state := hello_nmethods\<rparr>, cell)
      else Inr (hello_error_unsupported_version,
             p\<lparr>hp_state := hello_error_unsupported_version\<rparr>, cell))"
  by (simp add: hello_parser_feed_def Let_def)

lemma hello_feed_nmethods:
  "hp_state p = hello_nmethods \<Longrightarrow>
   hello_parser_feed (p, cell) b =
     (let st = if b = 0 then hello_done else hello_methods
      in Inr (st, p\<lparr>hp_remaining := b, hp_state := st\<rparr>, cell))"
  by (auto simp: hello_parser_feed_def Let_def)

lemma hello_feed_methods:
  "hp_state p = hello_methods \<Longrightarrow>
   hp_on_authentication_method p = Some On_hello_method \<Longrightarrow>
   hello_parser_feed (p, cell) b =
     (let st = if hp_remaining p = 1 then hello_done else hello_methods
      in Inr (st, p\<lparr>hp_remaining := hp_remaining p - 1, hp_state := st\<rparr>,
           if hp_method p = b then b else cell))"
  by (cases p) (auto simp: hello_parser_feed_def on_hello_method_def Let_def)

text \<open>The methods part, from \<open>hp_remaining\<close> methods outstanding.\<close>

lemma hello_run_methods:
  assumes "length ms = unat (hp_remaining p)" and "ms \<noteq> []"
    and "hp_state p = hello_methods"
    and "hp_on_authentication_method p = Some On_hello_method"
  shows "run_parser hello_parser_feed hello_is_done (p, cell) st err (ms @ rest) =
    Inr ((p\<lparr>hp_remaining := 0, hp_state := hello_done\<rparr>,
          if hp_method p \<in> set ms then hp_method p else cell),
         hello_done, err, rest, True)"
  using assms
proof (induction ms arbitrary: p cell st)
  case (Cons m ms)
  let ?p = "p\<lparr>hp_remaining := hp_remaining p - 1, hp_state := hello_methods\<rparr>"
  have nz: "hp_remaining p \<noteq> 0" using Cons.prems(1) by auto
  then have un: "unat (hp_remaining p - 1) = length ms"
    using Cons.prems(1) by (simp add: unat_minus_one_word)
  have one: "hp_remaining p = 1 \<longleftrightarrow> ms = []"
    using Cons.prems(1) nz by (auto simp: word_unat_eq_iff)
  show ?case
  proof (cases "ms = []")
    case True
    with Cons.prems one show ?thesis by (simp add: hello_feed_methods)
  next
    case False
    show ?thesis
      using Cons.prems False one un Cons.IH [of ?p "if hp_method p = m then m else cell"]
      by (auto simp: hello_feed_methods)
  qed
qed simp

text \<open>A whole hello message with the expected version.\<close>

lemma hello_run_message:
  assumes "hp_on_authentication_method p = Some On_hello_method"
    and "length ms < 256"
  shows "\<exists>p'. hello_run (hello_parser_init p, cell)
      (hp_version p # of_nat (length ms) # ms @ rest) =
    Inr ((p', if hp_method p \<in> set ms then hp_method p else cell), hello_done, False, rest, True)"
proof (cases "ms = []")
  case True
  then show ?thesis
    by (simp add: hello_run_def hello_parser_init_def hello_feed_version hello_feed_nmethods Let_def)
next
  case False
  then have "of_nat (length ms) \<noteq> (0 :: byte)"
    using unat_of_nat_byte [OF assms(2)] by auto
  with False assms show ?thesis
    by (simp add: hello_run_def hello_parser_init_def hello_feed_version hello_feed_nmethods Let_def
        hello_run_methods unat_of_nat_byte)
qed

lemma hello_run_bad_version:
  "b \<noteq> hp_version p \<Longrightarrow> \<exists>p'. hello_run (hello_parser_init p, cell) (b # rest) =
    Inr ((p', cell), hello_error_unsupported_version, True, rest, True)"
  by (simp add: hello_run_def hello_parser_init_def hello_feed_version)

text \<open>
  Whatever the bytes, the cell is afterwards what it was, or the wanted method; and the record
  keeps its callback, version and method.
\<close>

definition hello_same :: "hello_parser \<Rightarrow> hello_parser \<Rightarrow> bool" where
  "hello_same p p' \<longleftrightarrow>
     hp_on_authentication_method p' = hp_on_authentication_method p \<and>
     hp_version p' = hp_version p \<and> hp_method p' = hp_method p"

lemma hello_feed_cell:
  "hello_parser_feed (p, cell) b = Inr (st, p', cell') \<Longrightarrow>
   hello_same p p' \<and> st = hp_state p' \<and> (cell' = cell \<or> cell' = hp_method p)"
  by (cases "hp_on_authentication_method p"; cases "the (hp_on_authentication_method p)")
    (auto simp: hello_parser_feed_def hello_same_def on_hello_method_def Let_def
      split: hello_state.splits if_splits)

lemma hello_run_cell:
  "run_parser hello_parser_feed hello_is_done (p, cell) st err bs =
     Inr ((p', cell'), st', err', rest, done) \<Longrightarrow>
   hello_same p p' \<and> (cell' = cell \<or> cell' = hp_method p)"
proof (induction bs arbitrary: p cell st err)
  case Nil
  then show ?case by (auto simp: hello_same_def)
next
  case (Cons b bs)
  then obtain st1 p1 cell1 where f: "hello_parser_feed (p, cell) b = Inr (st1, p1, cell1)"
    by (auto split: prod.splits)
  show ?case
  proof (cases "fst (hello_is_done st1 err)")
    case True
    with Cons.prems f hello_feed_cell [OF f] show ?thesis by auto
  next
    case False
    with Cons.prems f have "hello_same p1 p' \<and> (cell' = cell1 \<or> cell' = hp_method p1)"
      by (intro Cons.IH [of p1 cell1 st1 "snd (hello_is_done st1 err)"]) simp
    with hello_feed_cell [OF f] show ?thesis by (auto simp: hello_same_def)
  qed
qed

lemma hello_marshal_spec:
  assumes "buffer_inv b" and "2 \<le> buffer_space b"
  obtains b' where "hello_marshal b method version = Inr (2, b')" and "buffer_inv b'"
    and "buffer_contents b' = buffer_contents b @ [version, method]"
    and "buf_limit b' = buf_limit b"
proof -
  have "hello_marshal b method version =
    bind_res (buffer_append b [version, method]) (\<lambda>b2. Inr (2, b2))"
    using assms by (simp add: hello_marshal_def buffer_write_ptr_inv buffer_append_def)
  moreover obtain b' where "buffer_append b [version, method] = Inr b'" "buffer_inv b'"
    "buffer_contents b' = buffer_contents b @ [version, method]" "buf_limit b' = buf_limit b"
    using buffer_append_spec [OF assms(1), of "[version, method]"] assms(2) by auto
  ultimately show ?thesis by (intro that [of b']) simp_all
qed

section \<open>Properties of the method negotiation\<close>

text \<open>
  The negotiation of RFC 1928. When the buffer holds a whole hello message with the version
  the server speaks, \<open>hello_consume\<close> reads exactly that message, leaves what follows it in the
  buffer, and selects the method the server wants when the client offered it, wherever in the
  list and among however many others; otherwise the selection is what it was.
\<close>

theorem hello_selects_method:
  assumes "buffer_inv b" and "buffer_contents b = hp_version p # of_nat (length ms) # ms @ rest"
    and "length ms < 256" and "hp_on_authentication_method p = Some On_hello_method"
  shows "\<exists>b' p'. hello_consume b (hello_parser_init p, cell) False =
      Inr (b', (p', if hp_method p \<in> set ms then hp_method p else cell), hello_done, False) \<and>
    buffer_contents b' = rest \<and> buffer_inv b'"
proof -
  obtain p' where "hello_run (hello_parser_init p, cell) (buffer_contents b) =
    Inr ((p', if hp_method p \<in> set ms then hp_method p else cell), hello_done, False, rest, True)"
    using hello_run_message [OF assms(4,3)] assms(2) by metis
  from hello.loop_result [OF assms(1) this [unfolded hello_run_def]] show ?thesis
    unfolding hello_consume_def by metis
qed

definition demo_hello_parser :: hello_parser where
  "demo_hello_parser =
     \<lparr>hp_on_authentication_method = Some On_hello_method, hp_version = 5, hp_method = 2,
      hp_state = hello_done, hp_remaining = 7\<rparr>"

lemma hello_selects_method_witness:
  "\<exists>b' p'. hello_consume \<lparr>buf_data = [5, 2, 0, 2, 9], buf_limit = 5, buf_read = 0, buf_write = 5\<rparr>
      (hello_parser_init demo_hello_parser, 0xFF) False = Inr (b', (p', 2), hello_done, False) \<and>
    buffer_contents b' = [9]"
  using hello_selects_method [of "\<lparr>buf_data = [5, 2, 0, 2, 9], buf_limit = 5, buf_read = 0,
      buf_write = 5\<rparr>" demo_hello_parser "[0, 2]" "[9]" "0xFF"]
  by (auto simp: buffer_inv_def buffer_contents_def demo_hello_parser_def)

text \<open>
  \<open>C36\<close> How TCP cuts the hello message into segments does not matter: when the first bytes do not
  finish the message, consuming the rest later, from whatever buffer it arrives in, gives the
  parser, the outcome and the unread bytes that consuming everything at once gives.
\<close>

theorem hello_fragmented:
  assumes "buffer_inv b" and "buffer_inv ball" and "buffer_inv b2"
    and "buffer_contents ball = buffer_contents b @ buffer_contents b2" "buffer_contents b2 \<noteq> []"
    and first: "hello_consume b p err = Inr (b1, p1, st1, err1)"
    and unfinished: "st1 \<notin> {hello_done, hello_error_unsupported_version}"
  shows "map_sum id (\<lambda>(b, r). (buffer_contents b, r)) (hello_consume b2 p1 err1) =
         map_sum id (\<lambda>(b, r). (buffer_contents b, r)) (hello_consume ball p err)"
proof -
  have "\<not> fst (hello_is_done st1 e)" for e using unfinished by (cases st1) auto
  from hello.loop_fragmented [OF assms(1,2,4,5) first [unfolded hello_consume_def] this assms(3) refl]
  show ?thesis unfolding hello_consume_def .
qed

lemma hello_fragmented_witness:
  "map_sum id (\<lambda>(b, r). (buffer_contents b, r))
     (hello_consume \<lparr>buf_data = [1, 2], buf_limit = 2, buf_read = 0, buf_write = 2\<rparr>
        (demo_hello_parser\<lparr>hp_state := hello_nmethods, hp_remaining := 0\<rparr>, 0xFF) False) =
   map_sum id (\<lambda>(b, r). (buffer_contents b, r))
     (hello_consume \<lparr>buf_data = [5, 1, 2], buf_limit = 3, buf_read = 0, buf_write = 3\<rparr>
        (hello_parser_init demo_hello_parser, 0xFF) False)"
proof -
  let ?b = "\<lparr>buf_data = [5], buf_limit = 1, buf_read = 0, buf_write = 1\<rparr>"
  have first: "hello_consume ?b (hello_parser_init demo_hello_parser, 0xFF) False =
     Inr (\<lparr>buf_data = [5], buf_limit = 1, buf_read = 0, buf_write = 0\<rparr>,
        (demo_hello_parser\<lparr>hp_state := hello_nmethods, hp_remaining := 0\<rparr>, 0xFF),
        hello_nmethods, False)"
    by (simp add: hello_consume_def hello_loop.simps buffer_defs Let_def hello_feed_version
        hello_parser_init_def demo_hello_parser_def)
  show ?thesis
    by (rule hello_fragmented [OF _ _ _ _ _ first])
      (simp_all add: buffer_inv_def buffer_contents_def)
qed

end
