(* ===== verification/New_Parser.thy ===== *)
theory New_Parser
  imports Stream_Parser
begin

text \<open>
  \<open>src/new_parser.c\<close>: the table-driven parser of length-prefixed fields used for the
  username/password sub-negotiation and for the management requests. A parser is an array of
  pointers to sub-states; \<open>read_N\<close> reads a length into the next sub-state and allocates its
  \<open>result\<close>, \<open>long_read\<close> fills a \<open>result\<close> and terminates it with NUL. The flag \<open>ok\<close> of the feeding
  functions says whether \<open>malloc\<close> succeeds; the code does not test it there.
\<close>

section \<open>The code\<close>

datatype parser_state = single_read | read_N | long_read | done_read | error_read

type_synonym check = "byte option list ptr \<Rightarrow> byte \<Rightarrow> byte \<Rightarrow> (bool \<times> byte) res"

record parser_substate =
  ps_state :: parser_state
  ps_result :: "byte option list ptr"
  ps_check_function :: "check option"
  ps_size :: byte
  ps_remaining :: byte

record parser =
  pa_index :: byte
  pa_size :: byte
  pa_current :: parser_state
  pa_states :: "parser_substate ptr list ptr"
  pa_error :: byte

definition substate_ptr :: "parser \<Rightarrow> nat \<Rightarrow> parser_substate ptr res" where
  "substate_ptr p i =
     bind_res (deref (pa_states p)) (\<lambda>arr. if i < length arr then Inr (arr ! i) else Inl Undefined)"

definition substate_at :: "parser \<Rightarrow> nat \<Rightarrow> parser_substate res" where
  "substate_at p i = bind_res (substate_ptr p i) deref"

definition substate_put :: "parser \<Rightarrow> nat \<Rightarrow> parser_substate \<Rightarrow> parser res" where
  "substate_put p i ss =
     bind_res (deref (pa_states p))
       (\<lambda>arr. if i < length arr then Inr (p\<lparr>pa_states := Ptr (arr[i := Ptr ss])\<rparr>)
              else Inl Undefined)"

definition result_put :: "byte option list ptr \<Rightarrow> int \<Rightarrow> byte \<Rightarrow> byte option list ptr res" where
  "result_put r i v =
     bind_res (deref r)
       (\<lambda>mem. if 0 \<le> i \<and> i < int (length mem) then Inr (Ptr (mem[nat i := Some v]))
              else Inl Undefined)"

definition result_malloc :: "bool \<Rightarrow> nat \<Rightarrow> byte option list ptr" where
  "result_malloc ok n = (if ok then Ptr (replicate n None) else Null)"

definition parser_init :: "parser \<Rightarrow> parser res" where
  "parser_init p =
     bind_res (substate_at p 0)
       (\<lambda>ss. Inr (p\<lparr>pa_current := ps_state ss, pa_index := 0, pa_error := 0\<rparr>))"

text \<open>The step to the next sub-state that ends \<open>long_read\<close> and a \<open>read_N\<close> of zero.\<close>

definition parser_advance :: "parser \<Rightarrow> parser res" where
  "parser_advance p =
     (let p1 = p\<lparr>pa_index := pa_index p + 1\<rparr>
      in if pa_index p1 \<ge> pa_size p1 then Inr (p1\<lparr>pa_current := done_read\<rparr>)
         else bind_res (substate_at p1 (unat (pa_index p1)))
                (\<lambda>ss. Inr (p1\<lparr>pa_current := ps_state ss\<rparr>)))"

definition feed_single_read :: "parser \<Rightarrow> byte \<Rightarrow> parser res" where
  "feed_single_read p b =
     (let i = unat (pa_index p);
          adv = (\<lambda>p. let p1 = p\<lparr>pa_index := pa_index p + 1\<rparr>
                     in bind_res (substate_ptr p1 (unat (pa_index p1)))
                          (\<lambda>_. if pa_index p1 \<ge> pa_size p1 then Inr (p1\<lparr>pa_current := done_read\<rparr>)
                               else bind_res (substate_at p1 (unat (pa_index p1)))
                                      (\<lambda>ss. Inr (p1\<lparr>pa_current := ps_state ss\<rparr>))))
      in bind_res (substate_at p i)
        (\<lambda>ss. bind_res (result_put (ps_result ss) 0 b)
          (\<lambda>r. bind_res (substate_put p i (ss\<lparr>ps_result := r\<rparr>))
            (\<lambda>p1. case ps_check_function ss of
                None \<Rightarrow> adv p1
              | Some chk \<Rightarrow>
                  bind_res (chk r 1 (pa_error p1))
                    (\<lambda>(passed, e).
                      if passed then adv (p1\<lparr>pa_error := e\<rparr>)
                      else substate_put (p1\<lparr>pa_error := e\<rparr>) i
                             (ss\<lparr>ps_result := r, ps_state := error_read\<rparr>))))))"

definition feed_read_N :: "bool \<Rightarrow> parser \<Rightarrow> byte \<Rightarrow> parser res" where
  "feed_read_N ok p b =
     (let p1 = p\<lparr>pa_index := pa_index p + 1\<rparr>; i = unat (pa_index p1)
      in if pa_index p1 \<ge> pa_size p1 then Inr (p1\<lparr>pa_current := error_read\<rparr>)
         else bind_res (substate_at p1 i)
           (\<lambda>ss. let ss1 = ss\<lparr>ps_remaining := b, ps_size := b\<rparr>;
                     p2 = p1\<lparr>pa_current := ps_state ss1\<rparr>
                 in if ps_remaining ss1 \<le> 0 then
                      bind_res (result_put (result_malloc ok 1) 0 0)
                        (\<lambda>r. bind_res (substate_put p2 i (ss1\<lparr>ps_result := r\<rparr>)) parser_advance)
                    else
                      substate_put p2 i
                        (ss1\<lparr>ps_result := result_malloc ok (unat (ps_size ss1) + 1)\<rparr>)))"

definition feed_long_read :: "parser \<Rightarrow> byte \<Rightarrow> parser res" where
  "feed_long_read p b =
     (let i = unat (pa_index p)
      in bind_res (substate_at p i)
        (\<lambda>ss. bind_res (result_put (ps_result ss)
                         (int (unat (ps_size ss)) - int (unat (ps_remaining ss))) b)
          (\<lambda>r. let ss1 = ss\<lparr>ps_result := r, ps_remaining := ps_remaining ss - 1\<rparr>
               in if ps_remaining ss1 \<le> 0 then
                    bind_res (result_put r (int (unat (ps_size ss1))) 0)
                      (\<lambda>r'. bind_res (substate_put p i (ss1\<lparr>ps_result := r'\<rparr>))
                        (\<lambda>p1. case ps_check_function ss1 of
                            None \<Rightarrow> parser_advance p1
                          | Some chk \<Rightarrow>
                              bind_res (chk r' (ps_size ss1) (pa_error p1))
                                (\<lambda>(passed, e).
                                  if passed then parser_advance (p1\<lparr>pa_error := e\<rparr>)
                                  else Inr (p1\<lparr>pa_error := e, pa_current := error_read\<rparr>))))
                  else substate_put p i ss1)))"

definition parser_feed :: "bool \<Rightarrow> parser \<Rightarrow> byte \<Rightarrow> (parser_state \<times> parser) res" where
  "parser_feed ok p b =
     bind_res (substate_ptr p (unat (pa_index p)))
       (\<lambda>_. bind_res
          (case pa_current p of
             single_read \<Rightarrow> feed_single_read p b
           | read_N \<Rightarrow> feed_read_N ok p b
           | long_read \<Rightarrow> feed_long_read p b
           | done_read \<Rightarrow> Inr p
           | error_read \<Rightarrow> Inr p)
          (\<lambda>p'. Inr (pa_current p', p')))"

definition is_done :: "parser_state \<Rightarrow> bool \<Rightarrow> bool \<times> bool" where
  "is_done st err =
     (case st of error_read \<Rightarrow> (True, True) | done_read \<Rightarrow> (True, err) | _ \<Rightarrow> (False, err))"

function consume_loop ::
  "bool \<Rightarrow> buffer \<Rightarrow> parser \<Rightarrow> parser_state \<Rightarrow> bool \<Rightarrow>
   (buffer \<times> parser \<times> parser_state \<times> bool) res" where
  "consume_loop ok b p st err =
    (if buffer_can_read b then
       bind_res (buffer_read b)
         (\<lambda>(c, b1). bind_res (parser_feed ok p c)
            (\<lambda>(st1, p1).
               if fst (is_done st1 err) then Inr (b1, p1, st1, snd (is_done st1 err))
               else consume_loop ok b1 p1 st1 (snd (is_done st1 err))))
     else Inr (b, p, st, err))"
  by pat_completeness auto
termination
  by (relation "measure (\<lambda>(ok, b, _). buf_write b - buf_read b)")
    (auto dest: buffer_read_decreases)

declare consume_loop.simps [simp del]

definition consume ::
  "bool \<Rightarrow> buffer \<Rightarrow> parser \<Rightarrow> bool \<Rightarrow> (buffer \<times> parser \<times> parser_state \<times> bool) res" where
  "consume ok b p err =
     bind_res (substate_at p 0) (\<lambda>ss. consume_loop ok b p (ps_state ss) err)"

lemma is_done_simps [simp]:
  "is_done error_read err = (True, True)" "is_done done_read err = (True, err)"
  "is_done single_read err = (False, err)" "is_done read_N err = (False, err)"
  "is_done long_read err = (False, err)"
  by (simp_all add: is_done_def)

section \<open>Parsers whose sub-states are all allocated\<close>

definition parser_of :: "parser_substate list \<Rightarrow> nat \<Rightarrow> parser_state \<Rightarrow> byte \<Rightarrow> parser" where
  "parser_of ss i cur e =
     \<lparr>pa_index = of_nat i, pa_size = of_nat (length ss), pa_current = cur,
      pa_states = Ptr (map Ptr ss), pa_error = e\<rparr>"

lemma parser_of_simps [simp]:
  "pa_current (parser_of ss i cur e) = cur" "pa_error (parser_of ss i cur e) = e"
  "pa_states (parser_of ss i cur e) = Ptr (map Ptr ss)"
  "pa_index (parser_of ss i cur e) = of_nat i"
  "pa_size (parser_of ss i cur e) = of_nat (length ss)"
  "(parser_of ss i cur e)\<lparr>pa_current := c\<rparr> = parser_of ss i c e"
  "(parser_of ss i cur e)\<lparr>pa_error := e'\<rparr> = parser_of ss i cur e'"
  by (simp_all add: parser_of_def)

lemma substate_of [simp]:
  assumes "i < length ss"
  shows "substate_at (parser_of ss k cur e) i = Inr (ss ! i)"
    and "substate_ptr (parser_of ss k cur e) i = Inr (Ptr (ss ! i))"
    and "substate_put (parser_of ss k cur e) i s = Inr (parser_of (ss[i := s]) k cur e)"
  using assms
  by (simp_all add: substate_at_def substate_ptr_def substate_put_def map_update [symmetric]
      parser_of_def)

lemma parser_next_index:
  "length ss < 256 \<Longrightarrow> (parser_of ss i cur e)\<lparr>pa_index := of_nat i + 1\<rparr> =
    parser_of ss (Suc i) cur e"
  by (simp add: parser_of_def add.commute)

lemma of_nat_byte_le [simp]:
  "a < 256 \<Longrightarrow> b < 256 \<Longrightarrow> (of_nat a :: byte) \<le> of_nat b \<longleftrightarrow> a \<le> b"
  by (simp add: word_le_nat_alt unat_of_nat_byte)

lemma parser_advance_of:
  assumes "length ss < 256" and "i < length ss"
  shows "parser_advance (parser_of ss i cur e) =
    (if Suc i = length ss then Inr (parser_of ss (Suc i) done_read e)
     else Inr (parser_of ss (Suc i) (ps_state (ss ! Suc i)) e))"
proof -
  have "Suc i < 256" using assms by simp
  then have le: "(of_nat (length ss) :: byte) \<le> of_nat (Suc i) \<longleftrightarrow> length ss \<le> Suc i"
    using assms by (intro of_nat_byte_le) simp_all
  have un: "unat (of_nat (Suc i) :: byte) = Suc i"
    using \<open>Suc i < 256\<close> by (rule unat_of_nat_byte)
  show ?thesis
    using assms le un
    by (simp add: parser_advance_def Let_def parser_next_index del: of_nat_Suc)
qed

section \<open>Reading one field\<close>

text \<open>The sub-state \<open>s\<close> once it holds the bytes \<open>u\<close>, terminated by NUL.\<close>

definition field_of :: "parser_substate \<Rightarrow> byte list \<Rightarrow> parser_substate" where
  "field_of s u = s\<lparr>ps_size := of_nat (length u), ps_remaining := 0,
     ps_result := Ptr (map Some u @ [Some 0])\<rparr>"

lemma result_put_Ptr [simp]:
  "result_put (Ptr mem) i v =
    (if 0 \<le> i \<and> i < int (length mem) then Inr (Ptr (mem[nat i := Some v])) else Inl Undefined)"
  by (simp add: result_put_def)

lemma result_put_prefix:
  assumes "length dn < length mem" and "take (length dn) mem = map Some dn"
  shows "\<exists>mem'. result_put (Ptr mem) (int (length dn)) b = Inr (Ptr mem') \<and>
    length mem' = length mem \<and> take (Suc (length dn)) mem' = map Some (dn @ [b])"
proof -
  let ?mem' = "mem[length dn := Some b]"
  have "result_put (Ptr mem) (int (length dn)) b = Inr (Ptr ?mem')"
    using assms(1) by simp
  moreover have "take (Suc (length dn)) ?mem' = map Some (dn @ [b])"
    using assms by (simp add: take_Suc_conv_app_nth)
  ultimately show ?thesis by simp
qed

lemma take_full_terminated:
  assumes "length mem = Suc (length u)" and "take (length u) mem = map Some u"
  shows "result_put (Ptr mem) (int (length u)) 0 = Inr (Ptr (map Some u @ [Some 0]))"
proof -
  have "mem[length u := Some 0] = take (length u) mem @ [Some 0]"
    using assms(1) by (simp add: upd_conv_take_nth_drop)
  then show ?thesis using assms by simp
qed

text \<open>
  A sub-state half-way through a \<open>long_read\<close>: \<open>dn\<close> is what it has read, \<open>n\<close> what is left.
\<close>

definition reading :: "parser_substate \<Rightarrow> byte list \<Rightarrow> nat \<Rightarrow> bool" where
  "reading s dn n \<longleftrightarrow>
     unat (ps_size s) = length dn + n \<and> unat (ps_remaining s) = n \<and>
     (\<exists>mem. ps_result s = Ptr mem \<and> length mem = Suc (length dn + n) \<and>
       take (length dn) mem = map Some dn)"

lemma unat_index [simp]:
  "i < length ss \<Longrightarrow> length ss < 256 \<Longrightarrow> unat (of_nat i :: byte) = i"
  by (rule unat_of_nat_byte) simp

lemma reading_put:
  assumes r: "reading s dn (Suc n)"
  obtains mem where
    "result_put (ps_result s) (int (unat (ps_size s)) - int (unat (ps_remaining s))) b =
      Inr (Ptr mem)"
    and "length mem = Suc (length dn + Suc n)" and "take (Suc (length dn)) mem = map Some (dn @ [b])"
    and "unat (ps_remaining s - 1) = n" and "unat (ps_size s) = length dn + Suc n"
proof -
  obtain mem where mem: "ps_result s = Ptr mem" "length mem = Suc (length dn + Suc n)"
    "take (length dn) mem = map Some dn"
    using r by (auto simp: reading_def)
  have rem: "unat (ps_remaining s) = Suc n" "unat (ps_size s) = length dn + Suc n"
    using r by (auto simp: reading_def)
  then have "ps_remaining s \<noteq> 0" by auto
  then have rem': "unat (ps_remaining s - 1) = n" using rem by (simp add: unat_minus_one_word)
  have off: "int (unat (ps_size s)) - int (unat (ps_remaining s)) = int (length dn)"
    using rem by simp
  obtain mem' where "result_put (Ptr mem) (int (length dn)) b = Inr (Ptr mem')"
    "length mem' = length mem" "take (Suc (length dn)) mem' = map Some (dn @ [b])"
    using result_put_prefix [of dn mem b] mem by auto
  then have "result_put (ps_result s) (int (unat (ps_size s)) - int (unat (ps_remaining s))) b =
      Inr (Ptr mem')"
    unfolding off mem(1) by simp
  then show ?thesis
    using mem(2) rem(2) rem' \<open>length mem' = length mem\<close>
      \<open>take (Suc (length dn)) mem' = map Some (dn @ [b])\<close>
    by (intro that [of mem']) simp_all
qed

lemma feed_long_more:
  assumes i: "i < length ss" "length ss < 256" and r: "reading (ss ! i) dn (Suc n)" and n: "0 < n"
  obtains s' where "reading s' (dn @ [b]) n" and "ps_state s' = ps_state (ss ! i)"
    and "ps_check_function s' = ps_check_function (ss ! i)" and "field_of s' = field_of (ss ! i)"
    and "parser_feed ok (parser_of ss i long_read e) b =
      Inr (long_read, parser_of (ss[i := s']) i long_read e)"
proof -
  obtain mem where put: "result_put (ps_result (ss ! i))
      (int (unat (ps_size (ss ! i))) - int (unat (ps_remaining (ss ! i)))) b = Inr (Ptr mem)"
    and mem: "length mem = Suc (length dn + Suc n)" "take (Suc (length dn)) mem = map Some (dn @ [b])"
    and rem: "unat (ps_remaining (ss ! i) - 1) = n" "unat (ps_size (ss ! i)) = length dn + Suc n"
    using reading_put [OF r] by blast
  let ?s' = "(ss ! i)\<lparr>ps_result := Ptr mem, ps_remaining := ps_remaining (ss ! i) - 1\<rparr>"
  have nz: "ps_remaining (ss ! i) - 1 \<noteq> 0" using rem n by auto
  have "reading ?s' (dn @ [b]) n"
    using rem mem by (simp add: reading_def)
  moreover have "parser_feed ok (parser_of ss i long_read e) b =
      Inr (long_read, parser_of (ss[i := ?s']) i long_read e)"
    using i put nz by (simp add: parser_feed_def feed_long_read_def Let_def)
  ultimately show ?thesis
    by (intro that [of ?s']) (simp_all add: field_of_def fun_eq_iff)
qed

lemma feed_long_last:
  assumes i: "i < length ss" "length ss < 256" and r: "reading (ss ! i) dn 1"
  shows "parser_feed ok (parser_of ss i long_read e) b =
    (let s' = field_of (ss ! i) (dn @ [b]); ss' = ss[i := s'] in
     bind_res
       (case ps_check_function (ss ! i) of
          None \<Rightarrow> parser_advance (parser_of ss' i long_read e)
        | Some chk \<Rightarrow>
            bind_res (chk (ps_result s') (ps_size s') e)
              (\<lambda>(passed, e').
                if passed then parser_advance (parser_of ss' i long_read e')
                else Inr (parser_of ss' i error_read e')))
       (\<lambda>p. Inr (pa_current p, p)))"
proof -
  obtain mem where put: "result_put (ps_result (ss ! i))
      (int (unat (ps_size (ss ! i))) - int (unat (ps_remaining (ss ! i)))) b = Inr (Ptr mem)"
    and mem: "length mem = Suc (length dn + Suc 0)" "take (Suc (length dn)) mem = map Some (dn @ [b])"
    and rem: "unat (ps_remaining (ss ! i) - 1) = 0" "unat (ps_size (ss ! i)) = length dn + Suc 0"
    using reading_put [of "ss ! i" dn 0] r by auto
  have z: "ps_remaining (ss ! i) - 1 = 0" using rem(1) by (simp only: unat_eq_0)
  have "length (dn @ [b]) < 256" using rem(2) byte_less_256 [of "ps_size (ss ! i)"] by simp
  then have size: "ps_size (ss ! i) = of_nat (length (dn @ [b]))"
    using rem(2) unat_of_nat_byte by (metis Suc_eq_plus1 add.right_neutral add_Suc_right
        length_append_singleton word_unat_eq_iff)
  have nul: "result_put (Ptr mem) (int (unat (ps_size (ss ! i)))) 0 =
      Inr (Ptr (map Some (dn @ [b]) @ [Some 0]))"
    using take_full_terminated [of mem "dn @ [b]"] mem rem(2) by simp
  let ?s' = "field_of (ss ! i) (dn @ [b])"
  have s': "(ss ! i)\<lparr>ps_remaining := 0, ps_result := Ptr (map Some dn @ [Some b, Some 0])\<rparr> = ?s'"
    and s'': "(ss ! i)\<lparr>ps_result := Ptr (map Some dn @ [Some b, Some 0]), ps_remaining := 0\<rparr> = ?s'"
    and res: "ps_result ?s' = Ptr (map Some dn @ [Some b, Some 0])"
    and siz: "ps_size ?s' = ps_size (ss ! i)"
    using size by (simp_all add: field_of_def)
  show ?thesis
  proof (cases "ps_check_function (ss ! i)")
    case None
    then show ?thesis
      using i put z nul by (simp add: parser_feed_def feed_long_read_def Let_def s' s'')
  next
    case (Some chk)
    show ?thesis
      using i put z nul Some
      by (cases "chk (Ptr (map Some dn @ [Some b, Some 0])) (ps_size (ss ! i)) e")
        (auto simp: parser_feed_def feed_long_read_def Let_def s' s'' res siz)
  qed
qed

lemma run_parser_Cons_Inr:
  "feed p x = Inr (st1, p1) \<Longrightarrow>
   run_parser feed fin p st err (x # xs) =
     (if fst (fin st1 err) then Inr (p1, st1, snd (fin st1 err), xs, True)
      else run_parser feed fin p1 st1 (snd (fin st1 err)) xs)"
  by simp

text \<open>What the parser is once \<open>long_read\<close> has stored its last byte and has no check to run.\<close>

definition after_field :: "parser_substate list \<Rightarrow> nat \<Rightarrow> byte \<Rightarrow> byte list \<Rightarrow> parser" where
  "after_field ss i e u =
     (let ss' = ss[i := field_of (ss ! i) u]
      in if Suc i = length ss then parser_of ss' (Suc i) done_read e
         else parser_of ss' (Suc i) (ps_state (ss ! Suc i)) e)"

lemma advance_after_field:
  "i < length ss \<Longrightarrow> length ss < 256 \<Longrightarrow>
   parser_advance (parser_of (ss[i := field_of (ss ! i) u]) i cur e) = Inr (after_field ss i e u)"
  by (simp add: parser_advance_of after_field_def Let_def)

lemma run_long_read:
  assumes "i < length ss" "length ss < 256" and "reading (ss ! i) dn (length bs)" and "bs \<noteq> []"
    and "ps_check_function (ss ! i) = None"
  shows "run_parser (parser_feed ok) is_done (parser_of ss i long_read e) st err (bs @ xs) =
    (let p = after_field ss i e (dn @ bs); st' = pa_current p in
     if fst (is_done st' err) then Inr (p, st', snd (is_done st' err), xs, True)
     else run_parser (parser_feed ok) is_done p st' (snd (is_done st' err)) xs)"
  using assms
proof (induction bs arbitrary: ss dn st)
  case Nil
  then show ?case by simp
next
  case (Cons b bs)
  show ?case
  proof (cases "bs = []")
    case True
    have r1: "reading (ss ! i) dn 1" using Cons.prems(3) True by simp
    have "parser_feed ok (parser_of ss i long_read e) b =
      Inr (pa_current (after_field ss i e (dn @ [b])), after_field ss i e (dn @ [b]))"
      using feed_long_last [OF Cons.prems(1,2) r1, of ok e b] Cons.prems(1,2,5)
        advance_after_field [OF Cons.prems(1,2), of "dn @ [b]" long_read e]
      by (simp add: Let_def)
    then show ?thesis using True by (simp add: run_parser_Cons_Inr Let_def)
  next
    case False
    have r: "reading (ss ! i) dn (Suc (length bs))" using Cons.prems(3) by simp
    obtain s' where s': "reading s' (dn @ [b]) (length bs)" "ps_state s' = ps_state (ss ! i)"
      "ps_check_function s' = ps_check_function (ss ! i)" "field_of s' = field_of (ss ! i)"
      and f: "parser_feed ok (parser_of ss i long_read e) b =
        Inr (long_read, parser_of (ss[i := s']) i long_read e)"
      using feed_long_more [OF Cons.prems(1,2) r, of b ok e] False by blast
    have same: "after_field (ss[i := s']) i e u = after_field ss i e u" for u
      using Cons.prems(1) s'(4) by (simp add: after_field_def Let_def)
    show ?thesis
      using Cons.IH [of "ss[i := s']" "dn @ [b]" long_read] Cons.prems False s' f same
      by (simp add: run_parser_Cons_Inr)
  qed
qed

lemma feed_read_N_of:
  assumes i: "Suc i < length ss" "length ss < 256"
  obtains s' where
    "parser_feed True (parser_of ss i read_N e) b =
      (if b = 0 then Inr (pa_current (after_field ss (Suc i) e []), after_field ss (Suc i) e [])
       else Inr (ps_state (ss ! Suc i),
              parser_of (ss[Suc i := s']) (Suc i) (ps_state (ss ! Suc i)) e))"
    and "reading s' [] (unat b)" and "ps_state s' = ps_state (ss ! Suc i)"
    and "ps_check_function s' = ps_check_function (ss ! Suc i)"
    and "field_of s' = field_of (ss ! Suc i)"
proof -
  let ?s = "ss ! Suc i"
  let ?s' = "?s\<lparr>ps_remaining := b, ps_size := b,
    ps_result := Ptr (replicate (Suc (unat b)) None)\<rparr>"
  have idx: "unat (of_nat (Suc i) :: byte) = Suc i" "unat (of_nat i :: byte) = i"
    using i by (intro unat_of_nat_byte; simp)+
  have nle: "\<not> (of_nat (length ss) :: byte) \<le> of_nat (Suc i)"
    using i by (subst of_nat_byte_le) simp_all
  have z: "?s\<lparr>ps_remaining := 0, ps_size := 0, ps_result := Ptr [Some 0]\<rparr> = field_of ?s []"
    "?s\<lparr>ps_size := 0, ps_remaining := 0, ps_result := Ptr [Some 0]\<rparr> = field_of ?s []"
    "?s\<lparr>ps_result := Ptr [Some 0], ps_size := 0, ps_remaining := 0\<rparr> = field_of ?s []"
    by (simp_all add: field_of_def)
  have "parser_feed True (parser_of ss i read_N e) b =
      (if b = 0 then Inr (pa_current (after_field ss (Suc i) e []), after_field ss (Suc i) e [])
       else Inr (ps_state ?s, parser_of (ss[Suc i := ?s']) (Suc i) (ps_state ?s) e))"
    using i idx nle z advance_after_field [of "Suc i" ss "[]" "ps_state ?s" e]
    by (cases "b = 0") (simp_all add: parser_feed_def feed_read_N_def Let_def parser_next_index
        result_malloc_def del: of_nat_Suc)
  moreover have "reading ?s' [] (unat b)" by (simp add: reading_def)
  ultimately show ?thesis
    by (intro that [of ?s']) (simp_all add: field_of_def fun_eq_iff)
qed

section \<open>Sequences of length-prefixed fields\<close>

text \<open>
  The layout the program builds: pairs of a \<open>read_N\<close> and an unchecked \<open>long_read\<close>. \<open>encode_field\<close>
  is the wire format of one field.
\<close>

fun counted :: "(parser_substate \<times> parser_substate) list \<Rightarrow> parser_substate list" where
  "counted [] = []"
| "counted ((n, l) # fs) = n # l # counted fs"

definition counted_ok :: "(parser_substate \<times> parser_substate) list \<Rightarrow> bool" where
  "counted_ok fs \<longleftrightarrow> (\<forall>(n, l) \<in> set fs.
     ps_state n = read_N \<and> ps_state l = long_read \<and> ps_check_function l = None)"

fun filled ::
  "(parser_substate \<times> parser_substate) list \<Rightarrow> byte list list \<Rightarrow> parser_substate list" where
  "filled ((n, l) # fs) (u # us) = n # field_of l u # filled fs us"
| "filled fs us = counted fs"

definition encode_field :: "byte list \<Rightarrow> byte list" where
  "encode_field u = of_nat (length u) # u"

lemma length_counted [simp]: "length (counted fs) = 2 * length fs"
  by (induction fs rule: counted.induct) auto

lemma length_filled [simp]: "length (filled fs us) = 2 * length fs"
  by (induction fs us rule: filled.induct) auto

lemma field_step:
  assumes ss: "ss = pre @ n # l # post" and len: "length ss < 256" and u: "length u < 256"
    and l: "ps_state l = long_read" "ps_check_function l = None"
    and p: "p = after_field ss (Suc (length pre)) e u"
  shows "run_parser (parser_feed True) is_done (parser_of ss (length pre) read_N e) st err
      (encode_field u @ xs) =
    (if fst (is_done (pa_current p) err)
     then Inr (p, pa_current p, snd (is_done (pa_current p) err), xs, True)
     else run_parser (parser_feed True) is_done p (pa_current p)
            (snd (is_done (pa_current p) err)) xs)"
proof -
  have i: "Suc (length pre) < length ss" using ss by simp
  have nth: "ss ! Suc (length pre) = l" using ss by (simp add: nth_append)
  let ?i = "Suc (length pre)" and ?n = "of_nat (length u) :: byte"
  obtain s' where f0: "parser_feed True (parser_of ss (length pre) read_N e) ?n =
      (if ?n = 0 then Inr (pa_current (after_field ss ?i e []), after_field ss ?i e [])
       else Inr (ps_state (ss ! ?i), parser_of (ss[?i := s']) ?i (ps_state (ss ! ?i)) e))"
    and s'0: "reading s' [] (unat ?n)" "ps_state s' = ps_state (ss ! ?i)"
    "ps_check_function s' = ps_check_function (ss ! ?i)" "field_of s' = field_of (ss ! ?i)"
    by (rule feed_read_N_of [OF i len])
  note f = f0 [unfolded nth l] and s' = s'0 [unfolded nth l]
  show ?thesis
  proof (cases "u = []")
    case True
    then show ?thesis using f p by (simp add: encode_field_def)
  next
    case False
    then have nz: "of_nat (length u) \<noteq> (0 :: byte)"
      using unat_of_nat_byte [OF u] by auto
    have same: "after_field (ss[Suc (length pre) := s']) (Suc (length pre)) e u = p"
      using i s'(4) nth p by (simp add: after_field_def Let_def)
    show ?thesis
      using f nz run_long_read [of "Suc (length pre)" "ss[Suc (length pre) := s']" "[]" u True
          e long_read err xs] i len s' False same unat_of_nat_byte [OF u]
      by (simp add: encode_field_def Let_def)
  qed
qed

lemma run_counted:
  assumes "counted_ok fs" and "fs \<noteq> []" and "length us = length fs"
    and "\<forall>u \<in> set us. length u < 256" and "length pre + 2 * length fs < 256"
  shows "run_parser (parser_feed True) is_done
      (parser_of (pre @ counted fs) (length pre) read_N e) st err
      (concat (map encode_field us) @ xs) =
    Inr (parser_of (pre @ filled fs us) (length pre + 2 * length fs) done_read e,
         done_read, err, xs, True)"
  using assms
proof (induction fs arbitrary: us pre st)
  case Nil
  then show ?case by simp
next
  case (Cons nl fs)
  obtain n l where nl: "nl = (n, l)" by (cases nl)
  obtain u us' where us: "us = u # us'" using Cons.prems(3) by (cases us) auto
  let ?ss = "pre @ n # l # counted fs"
  let ?pre = "pre @ [n, field_of l u]"
  have l: "ps_state n = read_N" "ps_state l = long_read" "ps_check_function l = None"
    using Cons.prems(1) nl by (auto simp: counted_ok_def)
  have upd: "?ss[Suc (length pre) := field_of (?ss ! Suc (length pre)) u] = ?pre @ counted fs"
    by (simp add: list_update_append nth_append)
  have "run_parser (parser_feed True) is_done
      (parser_of (pre @ counted (nl # fs)) (length pre) read_N e) st err
      (encode_field u @ concat (map encode_field us') @ xs) =
    (let p = after_field ?ss (Suc (length pre)) e u in
     if fst (is_done (pa_current p) err)
     then Inr (p, pa_current p, snd (is_done (pa_current p) err),
            concat (map encode_field us') @ xs, True)
     else run_parser (parser_feed True) is_done p (pa_current p)
            (snd (is_done (pa_current p) err)) (concat (map encode_field us') @ xs))"
    using field_step [of ?ss pre n l "counted fs" u _ e st err] l nl us Cons.prems
    by (simp add: Let_def)
  moreover have "after_field ?ss (Suc (length pre)) e u =
      (if fs = [] then parser_of (?pre @ counted fs) (length ?pre) done_read e
       else parser_of (?pre @ counted fs) (length ?pre) read_N e)"
  proof (cases fs)
    case Nil
    then show ?thesis using upd by (simp add: after_field_def Let_def)
  next
    case (Cons nl' fs')
    then obtain n' l' where "nl' = (n', l')" by (cases nl')
    moreover then have "ps_state n' = read_N"
      using Cons.prems(1) Cons by (auto simp: counted_ok_def)
    ultimately show ?thesis
      using upd Cons by (simp add: after_field_def Let_def nth_append)
  qed
  ultimately show ?case
    using Cons.IH [of us' ?pre read_N] Cons.prems nl us
    by (cases "fs = []") (auto simp: counted_ok_def Let_def)
qed

section \<open>No byte sequence breaks a well laid out parser\<close>

definition check_total :: "parser_substate \<Rightarrow> bool" where
  "check_total s \<longleftrightarrow> (\<forall>chk u sz e. ps_check_function s = Some chk \<longrightarrow> u \<noteq> [] \<longrightarrow>
     no_fault (chk (Ptr (map Some u @ [Some 0])) sz e))"

definition layout_ok :: "parser_substate list \<Rightarrow> bool" where
  "layout_ok ss \<longleftrightarrow> length ss < 256 \<and> (\<forall>j < length ss.
     (ps_state (ss ! j) = read_N \<or> ps_state (ss ! j) = long_read) \<and> check_total (ss ! j) \<and>
     (Suc j < length ss \<longrightarrow> ps_state (ss ! j) \<noteq> ps_state (ss ! Suc j)))"

definition parser_safe :: "parser \<Rightarrow> bool" where
  "parser_safe p \<longleftrightarrow> (\<exists>ss i e. p = parser_of ss i (ps_state (ss ! i)) e \<and> i < length ss \<and>
     layout_ok ss \<and> (ps_state (ss ! i) = long_read \<longrightarrow> (\<exists>dn n. reading (ss ! i) dn (Suc n))))"

lemma layout_ok_update:
  assumes "layout_ok ss" and "i < length ss" and "ps_state s = ps_state (ss ! i)"
    and "ps_check_function s = ps_check_function (ss ! i)"
  shows "layout_ok (ss[i := s])"
  using assms by (auto simp: layout_ok_def check_total_def nth_list_update)

lemma field_of_state [simp]:
  "ps_state (field_of s u) = ps_state s"
  "ps_check_function (field_of s u) = ps_check_function s"
  by (simp_all add: field_of_def)

lemma after_field_safe:
  assumes lay: "layout_ok ss" and i: "i < length ss" and long: "ps_state (ss ! i) = long_read"
  shows "\<not> fst (is_done (pa_current (after_field ss i e u)) err) \<longrightarrow>
    parser_safe (after_field ss i e u)"
proof (cases "Suc i = length ss")
  case True
  then show ?thesis by (simp add: after_field_def Let_def)
next
  case False
  let ?ss = "ss[i := field_of (ss ! i) u]"
  have "ps_state (ss ! Suc i) = read_N"
    using lay i long False unfolding layout_ok_def by (metis Suc_lessI)
  then have "after_field ss i e u = parser_of ?ss (Suc i) (ps_state (?ss ! Suc i)) e"
    and "ps_state (?ss ! Suc i) = read_N"
    using False by (simp_all add: after_field_def Let_def)
  moreover have "layout_ok ?ss" using layout_ok_update [OF lay i] by simp
  ultimately have "parser_safe (after_field ss i e u)"
    unfolding parser_safe_def using False i
    by (intro exI [of _ ?ss] exI [of _ "Suc i"] exI [of _ e]) simp
  then show ?thesis ..
qed

lemma parser_feed_safe:
  assumes "parser_safe p"
  shows "\<exists>st1 p1. parser_feed True p b = Inr (st1, p1) \<and>
    (\<not> fst (is_done st1 err) \<longrightarrow> parser_safe p1)"
proof -
  obtain ss i e where p: "p = parser_of ss i (ps_state (ss ! i)) e" and i: "i < length ss"
    and lay: "layout_ok ss"
    and rd: "ps_state (ss ! i) = long_read \<longrightarrow> (\<exists>dn n. reading (ss ! i) dn (Suc n))"
    using assms unfolding parser_safe_def by blast
  have len: "length ss < 256" using lay by (simp add: layout_ok_def)
  consider (N_last) "ps_state (ss ! i) = read_N" "Suc i = length ss"
    | (N) "ps_state (ss ! i) = read_N" "Suc i < length ss"
    | (more) dn n where "ps_state (ss ! i) = long_read" "reading (ss ! i) dn (Suc (Suc n))"
    | (last) dn where "ps_state (ss ! i) = long_read" "reading (ss ! i) dn (Suc 0)"
    using lay i rd unfolding layout_ok_def by (metis Suc_lessI not0_implies_Suc)
  then show ?thesis
  proof cases
    case N_last
    then have "(of_nat (length ss) :: byte) \<le> of_nat i + 1"
      by (metis add.commute of_nat_Suc order_refl)
    moreover have "unat (of_nat i :: byte) = i" using i len by simp
    ultimately show ?thesis
      using p N_last(1) substate_of(2) [OF i]
      by (simp add: parser_feed_def feed_read_N_def Let_def)
  next
    case N
    have long: "ps_state (ss ! Suc i) = long_read"
      using lay i N unfolding layout_ok_def by metis
    obtain s' where f: "parser_feed True (parser_of ss i read_N e) b =
        (if b = 0 then Inr (pa_current (after_field ss (Suc i) e []), after_field ss (Suc i) e [])
         else Inr (ps_state (ss ! Suc i),
                parser_of (ss[Suc i := s']) (Suc i) (ps_state (ss ! Suc i)) e))"
      and s': "reading s' [] (unat b)" "ps_state s' = ps_state (ss ! Suc i)"
      "ps_check_function s' = ps_check_function (ss ! Suc i)"
      by (rule feed_read_N_of [OF N(2) len])
    show ?thesis
    proof (cases "b = 0")
      case True
      then show ?thesis using f p N after_field_safe [OF lay N(2) long, of e "[]" err] by simp
    next
      case False
      then obtain n where "unat b = Suc n" by (metis not0_implies_Suc unat_eq_0)
      then have "parser_safe (parser_of (ss[Suc i := s']) (Suc i) (ps_state (ss ! Suc i)) e)"
        unfolding parser_safe_def using N(2) s' long layout_ok_update [OF lay N(2) s'(2,3)]
        by (intro exI [of _ "ss[Suc i := s']"] exI [of _ "Suc i"] exI [of _ e]) auto
      then show ?thesis using f p N False by simp
    qed
  next
    case more
    obtain s' where s': "reading s' (dn @ [b]) (Suc n)" "ps_state s' = ps_state (ss ! i)"
      "ps_check_function s' = ps_check_function (ss ! i)"
      and f: "parser_feed True (parser_of ss i long_read e) b =
        Inr (long_read, parser_of (ss[i := s']) i long_read e)"
      using feed_long_more [OF i len more(2), of b True e] by blast
    have "parser_safe (parser_of (ss[i := s']) i long_read e)"
      unfolding parser_safe_def using i s' more layout_ok_update [OF lay i s'(2,3)]
      by (intro exI [of _ "ss[i := s']"] exI [of _ i] exI [of _ e]) auto
    then show ?thesis using f p more by simp
  next
    case last
    have r: "reading (ss ! i) dn 1" using last(2) by simp
    note f = feed_long_last [OF i len r, of True e b]
    note adv = advance_after_field [OF i len, of "dn @ [b]" long_read]
    note safe = after_field_safe [OF lay i last(1), of _ "dn @ [b]" err]
    show ?thesis
    proof (cases "ps_check_function (ss ! i)")
      case None
      then show ?thesis using f adv safe p last(1) by (simp add: Let_def)
    next
      case (Some chk)
      let ?r = "ps_result (field_of (ss ! i) (dn @ [b]))"
      have "check_total (ss ! i)" using lay i by (simp add: layout_ok_def)
      then have "no_fault (chk (Ptr (map Some (dn @ [b]) @ [Some 0])) sz e)" for sz
        using Some unfolding check_total_def by blast
      then have "no_fault (chk ?r sz e)" for sz by (simp add: field_of_def)
      then obtain passed e' where "chk ?r (ps_size (field_of (ss ! i) (dn @ [b]))) e =
          Inr (passed, e')"
        by (metis no_fault_iff surj_pair)
      then show ?thesis using f adv safe p last(1) Some by (simp add: Let_def)
    qed
  qed
qed

interpretation fields: safe_stream_parser
  "parser_feed True" is_done "consume_loop True" parser_safe
proof unfold_locales
  show "consume_loop True b p st err =
    (if buffer_can_read b then
       bind_res (buffer_read b)
         (\<lambda>(c, b1). bind_res (parser_feed True p c)
            (\<lambda>(st1, p1).
               if fst (is_done st1 err) then Inr (b1, p1, st1, snd (is_done st1 err))
               else consume_loop True b1 p1 st1 (snd (is_done st1 err))))
     else Inr (b, p, st, err))" for b p st err
    by (rule consume_loop.simps)
qed (rule parser_feed_safe)

end
