(* ===== verification/Request_Parser.thy ===== *)
theory Request_Parser
  imports Stream_Parser
begin

text \<open>
  \<open>src/request_parser.c\<close> with the data of \<open>include/request.h\<close>, and the byte-level functions of
  \<open>src/request.c\<close> (\<open>request_consume\<close>, \<open>request_is_done\<close>, \<open>request_marshall\<close>): the parser of the
  SOCKS request. The union of \<open>struct request\<close> is a datatype of the members the code writes;
  \<open>dest_port\<close> is kept as the two bytes of its memory image, which are in network order.
\<close>

section \<open>The code\<close>

definition MAX_FQDN_SIZE :: nat where "MAX_FQDN_SIZE = 0xFF"
definition IPV4_LEN :: nat where "IPV4_LEN = 4"
definition IPV6_LEN :: nat where "IPV6_LEN = 16"

definition socks_req_cmd_connect :: byte where "socks_req_cmd_connect = 0x01"
definition socks_req_addrtype_ipv4 :: byte where "socks_req_addrtype_ipv4 = 0x01"
definition socks_req_addrtype_domain :: byte where "socks_req_addrtype_domain = 0x03"
definition socks_req_addrtype_ipv6 :: byte where "socks_req_addrtype_ipv6 = 0x04"

lemmas request_constants =
  MAX_FQDN_SIZE_def IPV4_LEN_def IPV6_LEN_def socks_req_cmd_connect_def
  socks_req_addrtype_ipv4_def socks_req_addrtype_domain_def socks_req_addrtype_ipv6_def

record sockaddr_in =
  sin_addr :: "byte list"
  sin_port :: "byte list"

record sockaddr_in6 =
  sin6_addr :: "byte list"
  sin6_port :: "byte list"

record sockaddr_fqdn =
  fqdn_host :: "byte option list"
  fqdn_size :: int

datatype dest_union = Dest_in sockaddr_in | Dest_in6 sockaddr_in6 | Dest_fqdn sockaddr_fqdn

record request =
  rq_cmd :: byte
  rq_dest_addr_type :: byte
  rq_dest :: dest_union
  rq_dest_port :: "byte list"

datatype request_state =
    request_version | request_cmd | request_rsv | request_atyp
  | request_dest_addr | request_dest_addr_fqdn | request_dest_port
  | request_done
  | request_error | request_error_unsupported_cmd | request_error_unsupported_type
  | request_error_unsupported_version

record request_parser =
  rp_request :: "request ptr"
  rp_state :: request_state
  rp_remaining :: byte
  rp_read :: byte

text \<open>\<open>fresh\<close> is the memory \<open>malloc\<close> returns, with whatever it holds; \<open>Null\<close> when it fails.\<close>

definition request_parser_init :: "request ptr \<Rightarrow> request_parser \<Rightarrow> int \<times> request_parser" where
  "request_parser_init fresh p =
     (let p' = p\<lparr>rp_state := request_version, rp_read := 0, rp_remaining := 0,
                  rp_request := fresh\<rparr>
      in (if rp_request p' = Null then -1 else 0, p'))"

definition request_parser_close :: "request_parser \<Rightarrow> request_parser res" where
  "request_parser_close p =
     bind_res (free_ptr (rp_request p)) (\<lambda>_. Inr (p\<lparr>rp_request := Null\<rparr>))"

definition remaining_set :: "request_parser \<Rightarrow> byte \<Rightarrow> request_parser" where
  "remaining_set p n = p\<lparr>rp_remaining := n, rp_read := 0\<rparr>"

definition remaining_is_done :: "request_parser \<Rightarrow> bool" where
  "remaining_is_done p \<longleftrightarrow> rp_read p \<ge> rp_remaining p"

definition ipv4_address_init :: sockaddr_in where
  "ipv4_address_init = \<lparr>sin_addr = replicate 4 0, sin_port = [0, 0]\<rparr>"

definition ipv6_address_init :: sockaddr_in6 where
  "ipv6_address_init = \<lparr>sin6_addr = replicate 16 0, sin6_port = [0, 0]\<rparr>"

definition request_version_step :: "byte \<Rightarrow> request_state" where
  "request_version_step b =
     (if b = 0x05 then request_cmd else request_error_unsupported_version)"

definition cmd :: "request_parser \<Rightarrow> byte \<Rightarrow> (request_state \<times> request_parser) res" where
  "cmd p b =
     (if b = socks_req_cmd_connect then
        bind_res (deref (rp_request p))
          (\<lambda>r. Inr (request_rsv, p\<lparr>rp_request := Ptr (r\<lparr>rq_cmd := b\<rparr>)\<rparr>))
      else Inr (request_error_unsupported_cmd, p))"

definition address_type :: "request_parser \<Rightarrow> byte \<Rightarrow> (request_state \<times> request_parser) res" where
  "address_type p b =
     bind_res (deref (rp_request p))
       (\<lambda>r. let r1 = r\<lparr>rq_dest_addr_type := b\<rparr>; p1 = p\<lparr>rp_request := Ptr r1\<rparr>
            in Inr
              (if b = socks_req_addrtype_ipv4 then
                 (request_dest_addr,
                  (remaining_set p1 (of_nat IPV4_LEN))
                    \<lparr>rp_request := Ptr (r1\<lparr>rq_dest := Dest_in ipv4_address_init\<rparr>)\<rparr>)
               else if b = socks_req_addrtype_domain then (request_dest_addr_fqdn, p1)
               else if b = socks_req_addrtype_ipv6 then
                 (request_dest_addr,
                  (remaining_set p1 (of_nat IPV6_LEN))
                    \<lparr>rp_request := Ptr (r1\<lparr>rq_dest := Dest_in6 ipv6_address_init\<rparr>)\<rparr>)
               else (request_error_unsupported_type, p1)))"

definition as_fqdn :: "dest_union \<Rightarrow> sockaddr_fqdn" where
  "as_fqdn d = (case d of Dest_fqdn f \<Rightarrow> f
     | _ \<Rightarrow> \<lparr>fqdn_host = replicate MAX_FQDN_SIZE None, fqdn_size = 0\<rparr>)"

definition dest_address_fqdn ::
  "request_parser \<Rightarrow> byte \<Rightarrow> (request_state \<times> request_parser) res" where
  "dest_address_fqdn p b =
     (if unat b > MAX_FQDN_SIZE - 1 then Inr (request_error, p)
      else
        let p1 = remaining_set p b
        in bind_res (deref (rp_request p1))
          (\<lambda>r. let f = as_fqdn (rq_dest r); i = int (unat (rp_remaining p1)) - 1
               in if 0 \<le> i \<and> i < int (length (fqdn_host f)) then
                    Inr (request_dest_addr,
                      p1\<lparr>rp_request := Ptr (r\<lparr>rq_dest := Dest_fqdn
                        (f\<lparr>fqdn_host := (fqdn_host f)[nat i := Some 0],
                           fqdn_size := int (unat b)\<rparr>)\<rparr>)\<rparr>)
                  else Inl Undefined))"

text \<open>Storing the next byte of the destination; writing through the wrong member is a fault.\<close>

definition dest_store :: "request \<Rightarrow> nat \<Rightarrow> byte \<Rightarrow> request res" where
  "dest_store r i b =
     (case rq_dest r of
        Dest_in a \<Rightarrow>
          (if rq_dest_addr_type r = socks_req_addrtype_ipv4 \<and> i < length (sin_addr a)
           then Inr (r\<lparr>rq_dest := Dest_in (a\<lparr>sin_addr := (sin_addr a)[i := b]\<rparr>)\<rparr>)
           else Inl Undefined)
      | Dest_in6 a \<Rightarrow>
          (if rq_dest_addr_type r = socks_req_addrtype_ipv6 \<and> i < length (sin6_addr a)
           then Inr (r\<lparr>rq_dest := Dest_in6 (a\<lparr>sin6_addr := (sin6_addr a)[i := b]\<rparr>)\<rparr>)
           else Inl Undefined)
      | Dest_fqdn f \<Rightarrow>
          (if rq_dest_addr_type r = socks_req_addrtype_domain \<and> i < length (fqdn_host f)
           then Inr (r\<lparr>rq_dest := Dest_fqdn (f\<lparr>fqdn_host := (fqdn_host f)[i := Some b]\<rparr>)\<rparr>)
           else Inl Undefined))"

definition known_addr_type :: "byte \<Rightarrow> bool" where
  "known_addr_type t \<longleftrightarrow> t = socks_req_addrtype_ipv4 \<or> t = socks_req_addrtype_domain \<or>
     t = socks_req_addrtype_ipv6"

definition dest_addr :: "request_parser \<Rightarrow> byte \<Rightarrow> (request_state \<times> request_parser) res" where
  "dest_addr p b =
     bind_res (deref (rp_request p))
       (\<lambda>r. bind_res
          (if known_addr_type (rq_dest_addr_type r) then
             bind_res (dest_store r (unat (rp_read p)) b)
               (\<lambda>r1. Inr (p\<lparr>rp_request := Ptr r1, rp_read := rp_read p + 1\<rparr>))
           else Inr p)
          (\<lambda>p1.
            if remaining_is_done p1 then
              bind_res (deref (rp_request p1))
                (\<lambda>r1. Inr (request_dest_port,
                  (remaining_set p1 2)\<lparr>rp_request := Ptr (r1\<lparr>rq_dest_port := [0, 0]\<rparr>)\<rparr>))
            else Inr (request_dest_addr, p1)))"

definition set_port :: "request \<Rightarrow> request res" where
  "set_port r =
     (if rq_dest_addr_type r = socks_req_addrtype_ipv4 then
        (case rq_dest r of
           Dest_in a \<Rightarrow> Inr (r\<lparr>rq_dest := Dest_in (a\<lparr>sin_port := rq_dest_port r\<rparr>)\<rparr>)
         | _ \<Rightarrow> Inl Undefined)
      else if rq_dest_addr_type r = socks_req_addrtype_ipv6 then
        (case rq_dest r of
           Dest_in6 a \<Rightarrow> Inr (r\<lparr>rq_dest := Dest_in6 (a\<lparr>sin6_port := rq_dest_port r\<rparr>)\<rparr>)
         | _ \<Rightarrow> Inl Undefined)
      else Inr r)"

definition dest_port :: "request_parser \<Rightarrow> byte \<Rightarrow> (request_state \<times> request_parser) res" where
  "dest_port p b =
     bind_res (deref (rp_request p))
       (\<lambda>r. if unat (rp_read p) < length (rq_dest_port r) then
          let r1 = r\<lparr>rq_dest_port := (rq_dest_port r)[unat (rp_read p) := b]\<rparr>;
              p1 = p\<lparr>rp_request := Ptr r1, rp_read := rp_read p + 1\<rparr>
          in if remaining_is_done p1 then
               bind_res (set_port r1) (\<lambda>r2. Inr (request_done, p1\<lparr>rp_request := Ptr r2\<rparr>))
             else Inr (request_dest_port, p1)
        else Inl Undefined)"

definition request_parser_feed ::
  "request_parser \<Rightarrow> byte \<Rightarrow> (request_state \<times> request_parser) res" where
  "request_parser_feed p b =
     bind_res
       (case rp_state p of
          request_version \<Rightarrow> Inr (request_version_step b, p)
        | request_cmd \<Rightarrow> cmd p b
        | request_rsv \<Rightarrow> Inr (request_atyp, p)
        | request_atyp \<Rightarrow> address_type p b
        | request_dest_addr \<Rightarrow> dest_addr p b
        | request_dest_addr_fqdn \<Rightarrow> dest_address_fqdn p b
        | request_dest_port \<Rightarrow> dest_port p b
        | request_done \<Rightarrow> Inr (request_done, p)
        | request_error_unsupported_version \<Rightarrow> Inr (request_error_unsupported_version, p)
        | request_error_unsupported_cmd \<Rightarrow> Inr (request_error_unsupported_cmd, p)
        | request_error_unsupported_type \<Rightarrow> Inr (request_error_unsupported_type, p)
        | request_error \<Rightarrow> Inr (request_error, p))
       (\<lambda>(st, p'). Inr (st, p'\<lparr>rp_state := st\<rparr>))"

text \<open>\<open>request_is_done\<close> only reads \<open>*error\<close>: it is passed on unchanged.\<close>

definition request_is_done :: "request_state \<Rightarrow> bool \<Rightarrow> bool \<times> bool" where
  "request_is_done st err = (st = request_done \<and> \<not> err, err)"

function request_loop ::
  "buffer \<Rightarrow> request_parser \<Rightarrow> request_state \<Rightarrow> bool \<Rightarrow>
   (buffer \<times> request_parser \<times> request_state \<times> bool) res" where
  "request_loop b p st err =
    (if buffer_can_read b then
       bind_res (buffer_read b)
         (\<lambda>(c, b1). bind_res (request_parser_feed p c)
            (\<lambda>(st1, p1).
               if fst (request_is_done st1 err)
               then Inr (b1, p1, st1, snd (request_is_done st1 err))
               else request_loop b1 p1 st1 (snd (request_is_done st1 err))))
     else Inr (b, p, st, err))"
  by pat_completeness auto
termination
  by (relation "measure (\<lambda>(b, _). buf_write b - buf_read b)") (auto dest: buffer_read_decreases)

declare request_loop.simps [simp del]

definition request_consume ::
  "buffer \<Rightarrow> request_parser \<Rightarrow> bool \<Rightarrow>
   (buffer \<times> request_parser \<times> request_state \<times> bool) res" where
  "request_consume b p err = request_loop b p (rp_state p) err"

definition request_marshall :: "byte \<Rightarrow> buffer \<Rightarrow> (int \<times> buffer) res" where
  "request_marshall status b =
     bind_res (buffer_write_ptr b)
       (\<lambda>(ptr, count).
          if count < 10 then Inr (-1, b)
          else
            bind_res (buffer_poke b
                [0x05, status, 0x00, socks_req_addrtype_ipv4, 0, 0, 0, 0, 0, 0])
              (\<lambda>b1. bind_res (buffer_write_adv b1 10) (\<lambda>b2. Inr (10, b2))))"

interpretation req: stream_parser request_parser_feed request_is_done request_loop
proof unfold_locales
  show "request_loop b p st err =
    (if buffer_can_read b then
       bind_res (buffer_read b)
         (\<lambda>(c, b1). bind_res (request_parser_feed p c)
            (\<lambda>(st1, p1).
               if fst (request_is_done st1 err)
               then Inr (b1, p1, st1, snd (request_is_done st1 err))
               else request_loop b1 p1 st1 (snd (request_is_done st1 err))))
     else Inr (b, p, st, err))" for b p st err
    by (rule request_loop.simps)
qed

section \<open>Error states\<close>

definition request_failed :: "request_state \<Rightarrow> bool" where
  "request_failed st \<longleftrightarrow> st \<in> {request_error, request_error_unsupported_cmd,
     request_error_unsupported_type, request_error_unsupported_version}"

lemma request_feed_failed:
  "request_failed (rp_state p) \<Longrightarrow> request_parser_feed p b = Inr (rp_state p, p)"
  by (cases "rp_state p") (auto simp: request_failed_def request_parser_feed_def)

lemma request_run_failed:
  assumes "request_failed (rp_state p)"
  shows "run_parser request_parser_feed request_is_done p (rp_state p) err bs =
    Inr (p, rp_state p, err, [], False)"
proof (induction bs)
  case (Cons b bs)
  moreover have "fst (request_is_done (rp_state p) err) = False"
    "snd (request_is_done (rp_state p) err) = err"
    using assms by (auto simp: request_is_done_def request_failed_def)
  ultimately show ?case
    by (simp add: request_feed_failed [OF assms])
qed simp

section \<open>Well-formed parsers\<close>

definition dest_ok :: "request \<Rightarrow> bool" where
  "dest_ok r \<longleftrightarrow>
     (rq_dest_addr_type r = socks_req_addrtype_ipv4 \<and>
        (\<exists>a. rq_dest r = Dest_in a \<and> length (sin_addr a) = IPV4_LEN)) \<or>
     (rq_dest_addr_type r = socks_req_addrtype_ipv6 \<and>
        (\<exists>a. rq_dest r = Dest_in6 a \<and> length (sin6_addr a) = IPV6_LEN)) \<or>
     (rq_dest_addr_type r = socks_req_addrtype_domain \<and>
        (\<exists>f. rq_dest r = Dest_fqdn f \<and> length (fqdn_host f) = MAX_FQDN_SIZE))"

definition fresh_ok :: "request \<Rightarrow> bool" where
  "fresh_ok r \<longleftrightarrow> length (fqdn_host (as_fqdn (rq_dest r))) = MAX_FQDN_SIZE"

definition dest_capacity :: "request \<Rightarrow> nat" where
  "dest_capacity r = (case rq_dest r of Dest_in a \<Rightarrow> length (sin_addr a)
     | Dest_in6 a \<Rightarrow> length (sin6_addr a) | Dest_fqdn f \<Rightarrow> length (fqdn_host f))"

definition request_wf :: "request_parser \<Rightarrow> bool" where
  "request_wf p \<longleftrightarrow> (\<exists>r. rp_request p = Ptr r \<and>
     (case rp_state p of
        request_dest_addr \<Rightarrow> dest_ok r \<and> unat (rp_read p) < unat (rp_remaining p) \<and>
          unat (rp_remaining p) \<le> dest_capacity r
      | request_dest_port \<Rightarrow> dest_ok r \<and> length (rq_dest_port r) = 2 \<and> rp_remaining p = 2 \<and>
          unat (rp_read p) < 2
      | request_done \<Rightarrow> dest_ok r \<and> length (rq_dest_port r) = 2
      | request_dest_addr_fqdn \<Rightarrow> fresh_ok r \<and> rq_dest_addr_type r = socks_req_addrtype_domain
      | _ \<Rightarrow> fresh_ok r))"

lemma request_is_done_simps [simp]:
  "fst (request_is_done st err) \<longleftrightarrow> st = request_done \<and> \<not> err"
  "snd (request_is_done st err) = err"
  by (simp_all add: request_is_done_def)

text \<open>The only byte a well-formed parser cannot take is a domain length of zero.\<close>

lemma dest_store_ok:
  assumes "dest_ok r" and "i < dest_capacity r"
  shows "\<exists>r'. dest_store r i b = Inr r' \<and> dest_ok r' \<and> dest_capacity r' = dest_capacity r \<and>
    rq_dest_addr_type r' = rq_dest_addr_type r \<and> rq_dest_port r' = rq_dest_port r"
  using assms
  by (auto simp: dest_ok_def dest_store_def dest_capacity_def)

lemma dest_ok_known: "dest_ok r \<Longrightarrow> known_addr_type (rq_dest_addr_type r)"
  by (auto simp: dest_ok_def known_addr_type_def)

lemma dest_ok_capacity: "dest_ok r \<Longrightarrow> dest_capacity r \<le> 255"
  by (auto simp: dest_ok_def dest_capacity_def request_constants)

lemma set_port_ok:
  "dest_ok r \<Longrightarrow> \<exists>r'. set_port r = Inr r' \<and> dest_ok r' \<and> rq_dest_port r' = rq_dest_port r"
  by (auto simp: dest_ok_def set_port_def request_constants split: dest_union.splits)

lemma dest_addr_wf:
  assumes "request_wf p" and "rp_state p = request_dest_addr"
  shows "\<exists>st p'. dest_addr p b = Inr (st, p') \<and> request_wf (p'\<lparr>rp_state := st\<rparr>)"
proof -
  obtain r where r: "rp_request p = Ptr r" "dest_ok r" "unat (rp_read p) < unat (rp_remaining p)"
    "unat (rp_remaining p) \<le> dest_capacity r"
    using assms by (auto simp: request_wf_def)
  obtain r1 where r1: "dest_store r (unat (rp_read p)) b = Inr r1" "dest_ok r1"
    "dest_capacity r1 = dest_capacity r" "rq_dest_port r1 = rq_dest_port r"
    using dest_store_ok [OF r(2), of "unat (rp_read p)" b] r(3,4) by auto
  have un: "unat (rp_read p + 1) = Suc (unat (rp_read p))"
    using r(3,4) dest_ok_capacity [OF r(2)] by (intro unat_Suc_word) simp
  have "dest_ok (r1\<lparr>rq_dest_port := [0, 0]\<rparr>)"
    using r1(2) by (auto simp: dest_ok_def)
  then show ?thesis
    using r r1 un dest_ok_known [OF r(2)]
    by (auto simp: dest_addr_def remaining_is_done_def remaining_set_def request_wf_def
        word_le_nat_alt)
qed

lemma dest_port_wf:
  assumes "request_wf p" and "rp_state p = request_dest_port"
  shows "\<exists>st p'. dest_port p b = Inr (st, p') \<and> request_wf (p'\<lparr>rp_state := st\<rparr>)"
proof -
  obtain r where r: "rp_request p = Ptr r" "dest_ok r" "length (rq_dest_port r) = 2"
    "rp_remaining p = 2" "unat (rp_read p) < 2"
    using assms by (auto simp: request_wf_def)
  let ?r1 = "r\<lparr>rq_dest_port := (rq_dest_port r)[unat (rp_read p) := b]\<rparr>"
  have ok1: "dest_ok ?r1" using r(2) by (auto simp: dest_ok_def)
  obtain r2 where r2: "set_port ?r1 = Inr r2" "dest_ok r2" "rq_dest_port r2 = rq_dest_port ?r1"
    using set_port_ok [OF ok1] by auto
  have un: "unat (rp_read p + 1) = Suc (unat (rp_read p))"
    using r(5) by (intro unat_Suc_word) simp
  show ?thesis
    using r r2 ok1 un
    by (auto simp: dest_port_def remaining_is_done_def request_wf_def word_le_nat_alt Let_def)
qed

lemma request_feed_wf:
  assumes wf: "request_wf p" and nz: "\<not> (rp_state p = request_dest_addr_fqdn \<and> b = 0)"
  shows "\<exists>st p'. request_parser_feed p b = Inr (st, p') \<and> st = rp_state p' \<and> request_wf p'"
proof -
  have lift: "\<exists>st p'. request_parser_feed p b = Inr (st, p') \<and> st = rp_state p' \<and> request_wf p'"
    if "\<exists>st p'. f = Inr (st, p') \<and> request_wf (p'\<lparr>rp_state := st\<rparr>)"
      "request_parser_feed p b = bind_res f (\<lambda>(st, p'). Inr (st, p'\<lparr>rp_state := st\<rparr>))" for f
    using that by auto
  obtain r where r: "rp_request p = Ptr r" using wf by (auto simp: request_wf_def)
  have fresh: "fresh_ok r" if "rp_state p \<in> {request_version, request_cmd, request_rsv,
      request_atyp, request_dest_addr_fqdn}"
    using wf r that by (auto simp: request_wf_def)
  show ?thesis
  proof (cases "rp_state p")
    case request_dest_addr
    then show ?thesis using lift [OF dest_addr_wf [OF wf]] by (simp add: request_parser_feed_def)
  next
    case request_dest_port
    then show ?thesis using lift [OF dest_port_wf [OF wf]] by (simp add: request_parser_feed_def)
  next
    case request_atyp
    then show ?thesis
      using r fresh
      by (auto simp: request_parser_feed_def address_type_def request_wf_def dest_ok_def Let_def
          remaining_set_def ipv4_address_init_def ipv6_address_init_def request_constants
          dest_capacity_def fresh_ok_def)
  next
    case request_dest_addr_fqdn
    then have len: "length (fqdn_host (as_fqdn (rq_dest r))) = 255"
      and dom: "rq_dest_addr_type r = socks_req_addrtype_domain" and "b \<noteq> 0"
      using wf r nz by (auto simp: request_wf_def fresh_ok_def MAX_FQDN_SIZE_def)
    then have "0 < unat b" by (simp add: unat_gt_0)
    then show ?thesis
      using r request_dest_addr_fqdn wf len dom byte_le_255 [of b] byte_uint_bounds [of b] \<open>b \<noteq> 0\<close>
      by (auto simp: request_parser_feed_def dest_address_fqdn_def request_wf_def dest_ok_def
          Let_def remaining_set_def dest_capacity_def MAX_FQDN_SIZE_def)
  next
    case request_version
    then show ?thesis
      using r fresh by (auto simp: request_parser_feed_def request_version_step_def request_wf_def)
  next
    case request_cmd
    then show ?thesis
      using r fresh by (auto simp: request_parser_feed_def cmd_def request_wf_def fresh_ok_def)
  qed (use wf r in \<open>auto simp: request_parser_feed_def request_wf_def\<close>)
qed

lemma request_feed_zero_length:
  assumes "request_wf p" and "rp_state p = request_dest_addr_fqdn"
  shows "request_parser_feed p 0 = Inl Undefined"
  using assms
  by (auto simp: request_wf_def request_parser_feed_def dest_address_fqdn_def remaining_set_def
      Let_def)

section \<open>What a request means\<close>

fun dest_store_all :: "request \<Rightarrow> nat \<Rightarrow> byte list \<Rightarrow> request res" where
  "dest_store_all r i [] = Inr r"
| "dest_store_all r i (b # bs) =
     bind_res (dest_store r i b) (\<lambda>r'. dest_store_all r' (Suc i) bs)"

lemma list_update_store:
  "i < length xs \<Longrightarrow> take (Suc i) (xs[i := b]) @ bs @ drop (Suc i + n) (xs[i := b]) =
    take i xs @ b # bs @ drop (Suc i + n) xs"
  by (simp add: take_Suc_conv_app_nth)

lemma dest_store_all_in:
  "rq_dest r = Dest_in a \<Longrightarrow> rq_dest_addr_type r = socks_req_addrtype_ipv4 \<Longrightarrow>
   i + length bs \<le> length (sin_addr a) \<Longrightarrow>
   dest_store_all r i bs = Inr (r\<lparr>rq_dest := Dest_in
     (a\<lparr>sin_addr := take i (sin_addr a) @ bs @ drop (i + length bs) (sin_addr a)\<rparr>)\<rparr>)"
proof (induction bs arbitrary: r a i)
  case (Cons b bs)
  then show ?case
    using list_update_store [of i "sin_addr a" b bs "length bs"] by (simp add: dest_store_def)
qed simp

lemma dest_store_all_in6:
  "rq_dest r = Dest_in6 a \<Longrightarrow> rq_dest_addr_type r = socks_req_addrtype_ipv6 \<Longrightarrow>
   i + length bs \<le> length (sin6_addr a) \<Longrightarrow>
   dest_store_all r i bs = Inr (r\<lparr>rq_dest := Dest_in6
     (a\<lparr>sin6_addr := take i (sin6_addr a) @ bs @ drop (i + length bs) (sin6_addr a)\<rparr>)\<rparr>)"
proof (induction bs arbitrary: r a i)
  case (Cons b bs)
  then show ?case
    using list_update_store [of i "sin6_addr a" b bs "length bs"] by (simp add: dest_store_def)
qed simp

lemma dest_store_all_fqdn:
  "rq_dest r = Dest_fqdn f \<Longrightarrow> rq_dest_addr_type r = socks_req_addrtype_domain \<Longrightarrow>
   i + length bs \<le> length (fqdn_host f) \<Longrightarrow>
   dest_store_all r i bs = Inr (r\<lparr>rq_dest := Dest_fqdn (f\<lparr>fqdn_host :=
     take i (fqdn_host f) @ map Some bs @ drop (i + length bs) (fqdn_host f)\<rparr>)\<rparr>)"
proof (induction bs arbitrary: r f i)
  case (Cons b bs)
  then show ?case
    using list_update_store [of i "fqdn_host f" "Some b" "map Some bs" "length bs"]
    by (simp add: dest_store_def)
qed simp

lemma dest_store_type:
  "dest_store r i b = Inr r' \<Longrightarrow> rq_dest_addr_type r' = rq_dest_addr_type r"
  by (auto simp: dest_store_def split: dest_union.splits if_splits)

lemma run_dest_addr:
  assumes "rp_state p = request_dest_addr" and "rp_request p = Ptr r"
    and "known_addr_type (rq_dest_addr_type r)" and "bs \<noteq> []"
    and "unat (rp_read p) + length bs = unat (rp_remaining p)"
    and "dest_store_all r (unat (rp_read p)) bs = Inr r'"
  shows "run_parser request_parser_feed request_is_done p st err (bs @ xs) =
    run_parser request_parser_feed request_is_done
      (p\<lparr>rp_state := request_dest_port, rp_request := Ptr (r'\<lparr>rq_dest_port := [0, 0]\<rparr>),
         rp_remaining := 2, rp_read := 0\<rparr>) request_dest_port err xs"
  using assms
proof (induction bs arbitrary: p r st)
  case Nil
  then show ?case by simp
next
  case (Cons b bs)
  obtain r1 where r1: "dest_store r (unat (rp_read p)) b = Inr r1"
    and all: "dest_store_all r1 (Suc (unat (rp_read p))) bs = Inr r'"
    using Cons.prems(6) by auto
  have known: "known_addr_type (rq_dest_addr_type r1)"
    using dest_store_type [OF r1] Cons.prems(3) by simp
  have un: "unat (rp_read p + 1) = Suc (unat (rp_read p))"
  proof (rule unat_Suc_word)
    have "unat (rp_read p) + Suc (length bs) = unat (rp_remaining p)" using Cons.prems(5) by simp
    then have "Suc (unat (rp_read p)) < 256" using byte_less_256 [of "rp_remaining p"] by linarith
    then show "Suc (unat (rp_read p)) < 2 ^ LENGTH(8)" by simp
  qed
  show ?case
  proof (cases "bs = []")
    case True
    have "request_parser_feed p b = Inr (request_dest_port,
        p\<lparr>rp_state := request_dest_port, rp_request := Ptr (r'\<lparr>rq_dest_port := [0, 0]\<rparr>),
          rp_remaining := 2, rp_read := 0\<rparr>)"
      using Cons.prems r1 all un True
      by (cases p) (simp add: request_parser_feed_def dest_addr_def remaining_is_done_def
          remaining_set_def word_le_nat_alt)
    then show ?thesis using True by simp
  next
    case False
    let ?p = "p\<lparr>rp_request := Ptr r1, rp_read := rp_read p + 1\<rparr>"
    have "\<not> rp_remaining p \<le> rp_read p + 1"
      using False Cons.prems(5) un by (cases bs) (auto simp: word_le_nat_alt)
    then have "request_parser_feed p b = Inr (request_dest_addr, ?p)"
      using Cons.prems r1
      by (simp add: request_parser_feed_def dest_addr_def remaining_is_done_def)
    then show ?thesis
      using Cons.IH [of ?p r1 request_dest_addr] Cons.prems known all un False by simp
  qed
qed

lemma run_dest_port:
  assumes "rp_state p = request_dest_port" and "rp_request p = Ptr r"
    and "rp_remaining p = 2" and "rp_read p = 0" and "length (rq_dest_port r) = 2"
    and "set_port (r\<lparr>rq_dest_port := [b1, b2]\<rparr>) = Inr r'"
  shows "run_parser request_parser_feed request_is_done p st False (b1 # b2 # xs) =
    Inr (p\<lparr>rp_state := request_done, rp_request := Ptr r', rp_read := 2\<rparr>,
         request_done, False, xs, True)"
proof -
  obtain c1 c2 where "rq_dest_port r = [c1, c2]"
    using assms(5) by (auto simp: numeral_2_eq_2 length_Suc_conv)
  then show ?thesis
    using assms
    by (simp add: request_parser_feed_def dest_port_def remaining_is_done_def Let_def
        word_le_nat_alt)
qed

text \<open>Where a request asks the proxy to connect to, as its wire format and as the code stores it.\<close>

datatype address = Ip4 "byte list" | Ip6 "byte list" | Domain "byte list"

fun address_ok :: "address \<Rightarrow> bool" where
  "address_ok (Ip4 a) \<longleftrightarrow> length a = 4"
| "address_ok (Ip6 a) \<longleftrightarrow> length a = 16"
| "address_ok (Domain h) \<longleftrightarrow> 0 < length h \<and> length h < 255"

fun encode_address :: "address \<Rightarrow> byte list" where
  "encode_address (Ip4 a) = 0x01 # a"
| "encode_address (Ip6 a) = 0x04 # a"
| "encode_address (Domain h) = 0x03 # of_nat (length h) # h"

definition encode_request :: "address \<Rightarrow> byte list \<Rightarrow> byte list" where
  "encode_request d port = [0x05, 0x01, 0x00] @ encode_address d @ port"

definition request_target :: "request \<Rightarrow> address" where
  "request_target r =
     (case rq_dest r of
        Dest_in a \<Rightarrow> Ip4 (sin_addr a)
      | Dest_in6 a \<Rightarrow> Ip6 (sin6_addr a)
      | Dest_fqdn f \<Rightarrow> Domain (map the (take (nat (fqdn_size f)) (fqdn_host f))))"

lemma run_address_port:
  assumes "rp_state p = request_dest_addr" and "rp_request p = Ptr r"
    and "known_addr_type (rq_dest_addr_type r)" and "bs \<noteq> []"
    and "rp_read p = 0" and "length bs = unat (rp_remaining p)"
    and "dest_store_all r 0 bs = Inr r1"
    and "set_port (r1\<lparr>rq_dest_port := [b1, b2]\<rparr>) = Inr r2"
  shows "\<exists>p'. run_parser request_parser_feed request_is_done p st False (bs @ b1 # b2 # xs) =
    Inr (p', request_done, False, xs, True) \<and> rp_request p' = Ptr r2"
  using assms run_dest_addr [of p r bs r1 st False "b1 # b2 # xs"]
    run_dest_port [of "p\<lparr>rp_state := request_dest_port,
      rp_request := Ptr (r1\<lparr>rq_dest_port := [0, 0]\<rparr>), rp_remaining := 2, rp_read := 0\<rparr>"
      "r1\<lparr>rq_dest_port := [0, 0]\<rparr>" b1 b2 r2 request_dest_port xs]
  by simp

definition request_holds :: "request \<Rightarrow> address \<Rightarrow> byte list \<Rightarrow> bool" where
  "request_holds r d port \<longleftrightarrow>
     rq_cmd r = socks_req_cmd_connect \<and> request_target r = d \<and> rq_dest_port r = port \<and>
     (case rq_dest r of Dest_in a \<Rightarrow> sin_port a = port | Dest_in6 a \<Rightarrow> sin6_port a = port
      | Dest_fqdn f \<Rightarrow> 0 \<le> fqdn_size f \<and> nat (fqdn_size f) \<le> length (fqdn_host f) \<and>
          None \<notin> set (take (nat (fqdn_size f)) (fqdn_host f))) \<and>
     rq_dest_addr_type r = hd (encode_address d)"

lemma request_run_encoded:
  assumes init: "request_parser_init (Ptr r0) p0 = (0, p)" and fresh: "fresh_ok r0"
    and d: "address_ok d"
  shows "\<exists>p' r. run_parser request_parser_feed request_is_done p (rp_state p) False
      (encode_request d [b1, b2] @ xs) = Inr (p', request_done, False, xs, True) \<and>
    rp_request p' = Ptr r \<and> request_holds r d [b1, b2]"
proof (cases d)
  case (Ip4 a)
  let ?r = "r0\<lparr>rq_cmd := 1, rq_dest_addr_type := 1, rq_dest := Dest_in ipv4_address_init\<rparr>"
  let ?p = "p0\<lparr>rp_state := request_dest_addr, rp_read := 0, rp_remaining := 4,
    rp_request := Ptr ?r\<rparr>"
  have p: "run_parser request_parser_feed request_is_done p (rp_state p) False
      (encode_request d [b1, b2] @ xs) =
    run_parser request_parser_feed request_is_done ?p request_dest_addr False (a @ b1 # b2 # xs)"
    using init Ip4
    by (cases p0) (auto simp: encode_request_def request_parser_init_def request_parser_feed_def
        request_version_step_def cmd_def address_type_def request_constants Let_def
        remaining_set_def)
  let ?a = "\<lparr>sin_addr = a, sin_port = [0, 0]\<rparr>"
  have "dest_store_all ?r 0 a = Inr (?r\<lparr>rq_dest := Dest_in ?a\<rparr>)"
    using dest_store_all_in [of ?r ipv4_address_init 0 a] d Ip4
    by (simp add: ipv4_address_init_def request_constants)
  then show ?thesis
    unfolding p using run_address_port [of ?p ?r a "?r\<lparr>rq_dest := Dest_in ?a\<rparr>" b1 b2
        "?r\<lparr>rq_dest_port := [b1, b2], rq_dest := Dest_in (?a\<lparr>sin_port := [b1, b2]\<rparr>)\<rparr>"
        request_dest_addr xs] d Ip4
    by (fastforce simp: known_addr_type_def request_constants set_port_def request_holds_def
        request_target_def)
next
  case (Ip6 a)
  let ?r = "r0\<lparr>rq_cmd := 1, rq_dest_addr_type := 4, rq_dest := Dest_in6 ipv6_address_init\<rparr>"
  let ?p = "p0\<lparr>rp_state := request_dest_addr, rp_read := 0, rp_remaining := 16,
    rp_request := Ptr ?r\<rparr>"
  have p: "run_parser request_parser_feed request_is_done p (rp_state p) False
      (encode_request d [b1, b2] @ xs) =
    run_parser request_parser_feed request_is_done ?p request_dest_addr False (a @ b1 # b2 # xs)"
    using init Ip6
    by (cases p0) (auto simp: encode_request_def request_parser_init_def request_parser_feed_def
        request_version_step_def cmd_def address_type_def request_constants Let_def
        remaining_set_def)
  let ?a = "\<lparr>sin6_addr = a, sin6_port = [0, 0]\<rparr>"
  have "dest_store_all ?r 0 a = Inr (?r\<lparr>rq_dest := Dest_in6 ?a\<rparr>)"
    using dest_store_all_in6 [of ?r ipv6_address_init 0 a] d Ip6
    by (simp add: ipv6_address_init_def request_constants)
  then show ?thesis
    unfolding p using run_address_port [of ?p ?r a "?r\<lparr>rq_dest := Dest_in6 ?a\<rparr>" b1 b2
        "?r\<lparr>rq_dest_port := [b1, b2], rq_dest := Dest_in6 (?a\<lparr>sin6_port := [b1, b2]\<rparr>)\<rparr>"
        request_dest_addr xs] d Ip6
    by (fastforce simp: known_addr_type_def request_constants set_port_def request_holds_def
        request_target_def)
next
  case (Domain h)
  let ?n = "length h"
  let ?f0 = "as_fqdn (rq_dest r0)"
  let ?f = "?f0\<lparr>fqdn_host := (fqdn_host ?f0)[?n - 1 := Some 0], fqdn_size := int ?n\<rparr>"
  let ?r = "r0\<lparr>rq_cmd := 1, rq_dest_addr_type := 3, rq_dest := Dest_fqdn ?f\<rparr>"
  let ?p = "p0\<lparr>rp_state := request_dest_addr, rp_read := 0, rp_remaining := of_nat ?n,
    rp_request := Ptr ?r\<rparr>"
  have n: "0 < ?n" "?n < 255" "unat (of_nat ?n :: byte) = ?n" "uint (of_nat ?n :: byte) = int ?n"
    using d Domain by (auto simp: unat_of_nat_byte uint_nat)
  have len: "length (fqdn_host ?f0) = 255" using fresh by (simp add: fresh_ok_def MAX_FQDN_SIZE_def)
  have p: "run_parser request_parser_feed request_is_done p (rp_state p) False
      (encode_request d [b1, b2] @ xs) =
    run_parser request_parser_feed request_is_done ?p request_dest_addr False (h @ b1 # b2 # xs)"
    using init Domain n len
    by (cases p0; cases r0) (auto simp: encode_request_def request_parser_init_def
        request_parser_feed_def request_version_step_def cmd_def address_type_def
        request_constants Let_def remaining_set_def dest_address_fqdn_def nat_diff_distrib')
  let ?f1 = "?f\<lparr>fqdn_host := map Some h @ drop ?n (fqdn_host ?f)\<rparr>"
  have "dest_store_all ?r 0 h = Inr (?r\<lparr>rq_dest := Dest_fqdn ?f1\<rparr>)"
    using dest_store_all_fqdn [of ?r ?f 0 h] n len by (simp add: request_constants)
  then show ?thesis
    unfolding p using run_address_port [of ?p ?r h "?r\<lparr>rq_dest := Dest_fqdn ?f1\<rparr>" b1 b2
        "?r\<lparr>rq_dest_port := [b1, b2], rq_dest := Dest_fqdn ?f1\<rparr>" request_dest_addr xs] n Domain
    by (fastforce simp: known_addr_type_def request_constants set_port_def request_holds_def
        request_target_def comp_def)
qed

section \<open>Properties of the request parser\<close>

definition demo_request :: request where
  "demo_request = \<lparr>rq_cmd = 0, rq_dest_addr_type = 0,
     rq_dest = Dest_fqdn \<lparr>fqdn_host = replicate 255 None, fqdn_size = 0\<rparr>, rq_dest_port = [0, 0]\<rparr>"

definition demo_request_parser :: request_parser where
  "demo_request_parser = snd (request_parser_init (Ptr demo_request)
     \<lparr>rp_request = Null, rp_state = request_done, rp_remaining = 9, rp_read = 9\<rparr>)"

definition demo_buffer :: "byte list \<Rightarrow> buffer" where
  "demo_buffer bs = \<lparr>buf_data = bs, buf_limit = length bs, buf_read = 0, buf_write = length bs\<rparr>"

lemma demo_buffer [simp]:
  "buffer_inv (demo_buffer bs)" "buffer_contents (demo_buffer bs) = bs"
  by (simp_all add: demo_buffer_def buffer_inv_def buffer_contents_def)

lemma demo_request_parser_init:
  "request_parser_init (Ptr demo_request)
     \<lparr>rp_request = Null, rp_state = request_done, rp_remaining = 9, rp_read = 9\<rparr>
   = (0, demo_request_parser)"
  by (simp add: demo_request_parser_def request_parser_init_def Let_def)

lemma demo_fresh: "fresh_ok demo_request"
  by (simp add: fresh_ok_def demo_request_def as_fqdn_def MAX_FQDN_SIZE_def)

text \<open>
  \<open>C13\<close> The SOCKS request round trip. For every destination the parser accepts (an IPv4 or IPv6
  address, or a name of 1 to 254 bytes) and every port, \<open>request_consume\<close> on the wire encoding of
  the CONNECT request reports \<open>request_done\<close> having read exactly that request, and the struct it
  filled holds that destination and that port.
\<close>

theorem request_roundtrip:
  assumes "buffer_inv b" and "buffer_contents b = encode_request dst [b1, b2] @ rest"
    and "address_ok dst" and "fresh_ok r0" and "request_parser_init (Ptr r0) p0 = (0, p)"
  shows "\<exists>b' p' r. request_consume b p False = Inr (b', p', request_done, False) \<and>
    buffer_contents b' = rest \<and> rp_request p' = Ptr r \<and> request_holds r dst [b1, b2]"
proof -
  obtain p' r where "run_parser request_parser_feed request_is_done p (rp_state p) False
      (buffer_contents b) = Inr (p', request_done, False, rest, True)"
    "rp_request p' = Ptr r" "request_holds r dst [b1, b2]"
    using request_run_encoded [OF assms(5,4,3), of b1 b2 rest] assms(2) by auto
  with req.loop_result [OF assms(1) this(1)] show ?thesis
    unfolding request_consume_def by metis
qed

lemma request_roundtrip_witness:
  "\<exists>b' p' r. request_consume (demo_buffer [5, 1, 0, 3, 2, 0x61, 0x62, 0x1F, 0x90, 7])
       demo_request_parser False = Inr (b', p', request_done, False) \<and>
    buffer_contents b' = [7] \<and> rp_request p' = Ptr r \<and>
    request_holds r (Domain [0x61, 0x62]) [0x1F, 0x90]"
  using request_roundtrip [of "demo_buffer [5, 1, 0, 3, 2, 0x61, 0x62, 0x1F, 0x90, 7]"
      "Domain [0x61, 0x62]" "0x1F" "0x90" "[7]", OF _ _ _ demo_fresh demo_request_parser_init]
  by (simp add: encode_request_def)

text \<open>
  \<open>C38\<close> A request in error never finishes. Once the version, the command or the address type was
  refused, whatever arrives is swallowed, the parser does not change, and \<open>request_is_done\<close> stays
  false: \<open>request_read\<close> keeps returning \<open>REQUEST_READ\<close> and the error reply of
  \<open>request_process\<close> is never sent.
\<close>

theorem request_error_absorbs:
  assumes "buffer_inv b" and "request_failed (rp_state p)"
  shows "\<exists>b'. request_consume b p err = Inr (b', p, rp_state p, err) \<and> buffer_contents b' = [] \<and>
    \<not> fst (request_is_done (rp_state p) err)"
proof -
  have "rp_state p \<noteq> request_done" using assms(2) by (auto simp: request_failed_def)
  with req.loop_result [OF assms(1) request_run_failed [OF assms(2), of err "buffer_contents b"]]
  show ?thesis unfolding request_consume_def by (metis request_is_done_simps(1))
qed

lemma request_error_absorbs_witness:
  "\<exists>b'. request_consume (demo_buffer [5, 1, 0])
       (demo_request_parser\<lparr>rp_state := request_error_unsupported_cmd\<rparr>) False =
     Inr (b', demo_request_parser\<lparr>rp_state := request_error_unsupported_cmd\<rparr>,
          request_error_unsupported_cmd, False)"
  using request_error_absorbs [of "demo_buffer [5, 1, 0]"
      "demo_request_parser\<lparr>rp_state := request_error_unsupported_cmd\<rparr>" False]
  by (auto simp: request_failed_def)

lemma request_run_fault:
  assumes "request_wf p" and "run_parser request_parser_feed request_is_done p st err bs = Inl e"
  shows "e = Undefined \<and> (\<exists>pre post p'. bs = pre @ 0 # post \<and>
    rp_state p' = request_dest_addr_fqdn \<and> request_wf p' \<and> (pre = [] \<and> p' = p \<or>
      run_parser request_parser_feed request_is_done p st err pre =
        Inr (p', request_dest_addr_fqdn, err, [], False)))"
  using assms
proof (induction bs arbitrary: p st)
  case Nil
  then show ?case by simp
next
  case (Cons b bs)
  show ?case
  proof (cases "rp_state p = request_dest_addr_fqdn \<and> b = 0")
    case True
    then have "e = Undefined"
      using Cons.prems(2) request_feed_zero_length [OF Cons.prems(1)] by simp
    then show ?thesis
      using True Cons.prems(1) by (intro conjI exI [of _ "[]"] exI [of _ bs] exI [of _ p]) simp_all
  next
    case False
    then obtain st1 p1 where f: "request_parser_feed p b = Inr (st1, p1)" "st1 = rp_state p1"
      "request_wf p1"
      using request_feed_wf [OF Cons.prems(1), of b] by blast
    then have go: "\<not> fst (request_is_done st1 err)"
      "run_parser request_parser_feed request_is_done p1 st1 err bs = Inl e"
      using Cons.prems(2) by (auto split: if_splits)
    obtain pre post p' where ih: "e = Undefined" "bs = pre @ 0 # post"
      "rp_state p' = request_dest_addr_fqdn" "request_wf p'"
      "pre = [] \<and> p' = p1 \<or> run_parser request_parser_feed request_is_done p1 st1 err pre =
        Inr (p', request_dest_addr_fqdn, err, [], False)"
      using Cons.IH [OF f(3) go(2)] by blast
    have "run_parser request_parser_feed request_is_done p st err (b # pre) =
        Inr (p', request_dest_addr_fqdn, err, [], False)"
      using ih(3,5) f(1,2) go(1) by auto
    then show ?thesis
      using ih by (intro conjI exI [of _ "b # pre"] exI [of _ post] exI [of _ p']) simp_all
  qed
qed

text \<open>
  \<open>C37\<close> No byte sequence makes the request parser fault, with one exception: a domain name whose
  length byte is zero, for which \<open>dest_address_fqdn\<close> writes \<open>host[-1]\<close>. When \<open>request_consume\<close>
  faults, the fault is that one.
\<close>

theorem request_faults_only_on_empty_domain:
  assumes "buffer_inv b" and "request_wf p" and "request_consume b p err = Inl e"
  shows "e = Undefined \<and> (\<exists>pre post p'. buffer_contents b = pre @ 0 # post \<and>
    rp_state p' = request_dest_addr_fqdn \<and> request_wf p' \<and> (pre = [] \<and> p' = p \<or>
      run_parser request_parser_feed request_is_done p (rp_state p) err pre =
        Inr (p', request_dest_addr_fqdn, err, [], False)))"
proof (cases "run_parser request_parser_feed request_is_done p (rp_state p) err (buffer_contents b)")
  case (Inl e')
  then have "e' = e"
    using req.loop_fault [OF assms(1) Inl] assms(3) by (simp add: request_consume_def)
  then show ?thesis using request_run_fault [OF assms(2) Inl] by blast
next
  case (Inr r)
  obtain p1 st1 err1 rest d where r: "r = (p1, st1, err1, rest, d)" by (cases r)
  obtain b1 where "request_consume b p err = Inr (b1, p1, st1, err1)"
    using req.loop_result [OF assms(1) Inr [unfolded r]] by (metis request_consume_def)
  then show ?thesis using assms(3) by simp
qed

lemma request_faults_only_on_empty_domain_witness:
  "request_consume (demo_buffer [5, 1, 0, 3, 0]) demo_request_parser False = Inl Undefined \<and>
   (\<exists>pre post. [5, 1, 0, 3, 0] = pre @ (0 :: byte) # post)"
proof -
  have wf: "request_wf demo_request_parser"
    using demo_fresh
    by (simp add: request_wf_def demo_request_parser_def request_parser_init_def Let_def)
  have fault: "request_consume (demo_buffer [5, 1, 0, 3, 0]) demo_request_parser False = Inl Undefined"
    by (simp add: request_consume_def request_loop.simps buffer_defs Let_def demo_buffer_def
        request_parser_feed_def demo_request_parser_def request_parser_init_def demo_request_def
        request_version_step_def cmd_def address_type_def dest_address_fqdn_def remaining_set_def
        request_constants as_fqdn_def)
  show ?thesis
    using request_faults_only_on_empty_domain [OF demo_buffer(1) wf fault] fault
    unfolding demo_buffer(2) by blast
qed

end
