(* ===== verification/Password_Parser.thy ===== *)
theory Password_Parser
  imports Prelude "HOL-Library.Sublist"
begin

text \<open>
  \<open>src/password_parser.c\<close>: the POP3 credential dissector that \<open>copy_read\<close> runs over the relayed
  bytes of a connection, both directions feeding one parser. The names it grows byte by byte are
  modelled with their allocation (\<open>malloc\<close>, \<open>realloc\<close>, \<open>free\<close>, the five-byte growth of
  \<open>checkSize\<close>), so that writes out of bounds, uses after \<open>free\<close> and double frees are faults.
  The line printed for a credential is its user name and password, appended to a log; the other
  fields of the line (date, proxy user, addresses) are left out. \<open>ok\<close> says whether allocation
  succeeds, which the code does not test.
\<close>

section \<open>The code\<close>

definition BUFFER_SIZE :: nat where "BUFFER_SIZE = 5"
definition USER_L :: nat where "USER_L = 5"
definition PASS_L :: nat where "PASS_L = 10"

definition user_reserved_pop3_word :: "byte list" where
  "user_reserved_pop3_word = [0x75, 0x73, 0x65, 0x72, 0x20]"

definition pass_reserved_pop3_word :: "byte list" where
  "pass_reserved_pop3_word = [0x2B, 0x4F, 0x4B, 0x0D, 0x0A, 0x70, 0x61, 0x73, 0x73, 0x20]"

datatype password_parser_state = user_word_search | user_read | pass_word_search | pass_read

record password_parser =
  pp_current :: password_parser_state
  pp_current_index :: nat
  pp_last :: bool
  pp_username :: "byte option list ptr"
  pp_password :: "byte option list ptr"

type_synonym credential_log = "(byte list \<times> byte list) list"

definition isascii :: "byte \<Rightarrow> bool" where
  "isascii c \<longleftrightarrow> unat c \<le> 127"

definition password_parser_init :: "password_parser \<Rightarrow> password_parser" where
  "password_parser_init p =
     p\<lparr>pp_current_index := 0, pp_current := user_word_search, pp_last := False\<rparr>"

definition word_at :: "byte list \<Rightarrow> nat \<Rightarrow> byte res" where
  "word_at w i = (if i < length w then Inr (w ! i) else Inl Undefined)"

definition c_realloc :: "bool \<Rightarrow> byte option list ptr \<Rightarrow> nat \<Rightarrow> byte option list ptr res" where
  "c_realloc ok p n =
     (case p of
        Dangling \<Rightarrow> Inl Undefined
      | Null \<Rightarrow> Inr (if ok then Ptr (replicate n None) else Null)
      | Ptr mem \<Rightarrow>
          Inr (if ok then Ptr (take n mem @ replicate (n - length mem) None) else Null))"

definition checkSize :: "bool \<Rightarrow> byte option list ptr \<Rightarrow> nat \<Rightarrow> byte option list ptr res" where
  "checkSize ok buf sz =
     (if sz mod BUFFER_SIZE = 0 then
        (if sz = 0 then Inr (if ok then Ptr (replicate (sz + BUFFER_SIZE) None) else Null)
         else c_realloc ok buf (sz + BUFFER_SIZE))
      else Inr buf)"

definition name_put :: "byte option list ptr \<Rightarrow> nat \<Rightarrow> byte \<Rightarrow> byte option list ptr res" where
  "name_put buf i b =
     bind_res (deref buf)
       (\<lambda>mem. if i < length mem then Inr (Ptr (mem[i := Some b])) else Inl Undefined)"

definition user_read_reset ::
  "password_parser \<Rightarrow> byte \<Rightarrow> (password_parser_state \<times> password_parser) res" where
  "user_read_reset p b =
     (let p1 = p\<lparr>pp_current_index := 0, pp_last := False\<rparr>
      in bind_res (if pp_current_index p1 \<noteq> 0 then free_ptr (pp_username p1)
                   else Inr (pp_username p1))
        (\<lambda>u. bind_res (word_at user_reserved_pop3_word (pp_current_index p1))
          (\<lambda>w. Inr (user_word_search,
             p1\<lparr>pp_username := u,
                pp_current_index := (if w = b then pp_current_index p1 + 1
                                     else pp_current_index p1)\<rparr>))))"

definition user_read_handler ::
  "bool \<Rightarrow> password_parser \<Rightarrow> byte \<Rightarrow> (password_parser_state \<times> password_parser) res" where
  "user_read_handler ok p b =
     (if pp_current_index p \<ge> 255 then user_read_reset p b
      else if pp_last p \<and> b \<noteq> 0x0A then user_read_reset p b
      else if b = 0x0D then Inr (user_read, p\<lparr>pp_last := True\<rparr>)
      else if b = 0x0A then
        bind_res (checkSize ok (pp_username p) (pp_current_index p))
          (\<lambda>u. bind_res (name_put u (pp_current_index p) 0)
            (\<lambda>u'. Inr (pass_word_search,
               p\<lparr>pp_username := u', pp_current_index := 0, pp_last := False\<rparr>)))
      else if isascii b then
        bind_res (checkSize ok (pp_username p) (pp_current_index p))
          (\<lambda>u. bind_res (name_put u (pp_current_index p) b)
            (\<lambda>u'. Inr (user_read,
               p\<lparr>pp_username := u', pp_current_index := pp_current_index p + 1\<rparr>)))
      else user_read_reset p b)"

definition pass_read_reset ::
  "password_parser \<Rightarrow> byte \<Rightarrow> (password_parser_state \<times> password_parser) res" where
  "pass_read_reset p b =
     bind_res (if pp_current_index p \<noteq> 0 then free_ptr (pp_password p) else Inr (pp_password p))
       (\<lambda>w. bind_res (free_ptr (pp_username p))
         (\<lambda>u. let p1 = p\<lparr>pp_password := w, pp_username := u, pp_current_index := 0,
                          pp_last := False\<rparr>
              in bind_res (word_at user_reserved_pop3_word (pp_current_index p1))
                (\<lambda>c. Inr (user_word_search,
                   if c = b then p1\<lparr>pp_current_index := pp_current_index p1 + 1\<rparr> else p1))))"

definition print_credential :: "password_parser \<Rightarrow> (byte list \<times> byte list) res" where
  "print_credential p =
     bind_res (bind_res (deref (pp_username p)) c_string)
       (\<lambda>u. bind_res (bind_res (deref (pp_password p)) c_string) (\<lambda>w. Inr (u, w)))"

definition pass_read_handler ::
  "bool \<Rightarrow> password_parser \<times> credential_log \<Rightarrow> byte \<Rightarrow>
   (password_parser_state \<times> password_parser \<times> credential_log) res" where
  "pass_read_handler ok = (\<lambda>(p, log) b.
     let quiet = (\<lambda>r. bind_res r (\<lambda>(st, p'). Inr (st, p', log)))
     in if pp_current_index p \<ge> 255 then quiet (pass_read_reset p b)
        else if pp_last p \<and> b \<noteq> 0x0A then quiet (pass_read_reset p b)
        else if b = 0x0D then Inr (pass_read, p\<lparr>pp_last := True\<rparr>, log)
        else if b = 0x0A then
          bind_res (checkSize ok (pp_password p) (pp_current_index p))
            (\<lambda>w. bind_res (name_put w (pp_current_index p) 0)
              (\<lambda>w'. let p1 = p\<lparr>pp_password := w'\<rparr>
                    in bind_res (print_credential p1)
                      (\<lambda>c. bind_res (pass_read_reset p1 b)
                        (\<lambda>(st, p'). Inr (st, p', log @ [c])))))
        else if isascii b then
          bind_res (checkSize ok (pp_password p) (pp_current_index p))
            (\<lambda>w. bind_res (name_put w (pp_current_index p) b)
              (\<lambda>w'. Inr (pass_read,
                 p\<lparr>pp_password := w', pp_current_index := pp_current_index p + 1\<rparr>, log)))
        else quiet (user_read_reset p b))"

definition pass_word_search_handler ::
  "password_parser \<Rightarrow> byte \<Rightarrow> (password_parser_state \<times> password_parser) res" where
  "pass_word_search_handler p b =
     bind_res (word_at pass_reserved_pop3_word (pp_current_index p))
       (\<lambda>c. let p1 = p\<lparr>pp_current_index := pp_current_index p + 1\<rparr>
            in if c = b then
                 (if pp_current_index p1 = PASS_L
                  then Inr (pass_read, p1\<lparr>pp_current_index := 0\<rparr>)
                  else Inr (pass_word_search, p1))
               else
                 bind_res (free_ptr (pp_username p1))
                   (\<lambda>u. let p2 = p1\<lparr>pp_username := u, pp_current_index := 0, pp_last := False\<rparr>
                        in bind_res (word_at user_reserved_pop3_word (pp_current_index p2))
                          (\<lambda>c'. Inr (user_word_search,
                             if c' = b then p2\<lparr>pp_current_index := pp_current_index p2 + 1\<rparr>
                             else p2))))"

definition user_word_search_handler ::
  "password_parser \<Rightarrow> byte \<Rightarrow> (password_parser_state \<times> password_parser) res" where
  "user_word_search_handler p b =
     bind_res (word_at user_reserved_pop3_word (pp_current_index p))
       (\<lambda>c. let p1 = p\<lparr>pp_current_index := pp_current_index p + 1\<rparr>
            in if c = b then
                 (if pp_current_index p1 = USER_L
                  then Inr (user_read, p1\<lparr>pp_current_index := 0\<rparr>)
                  else Inr (user_word_search, p1))
               else
                 let p2 = p1\<lparr>pp_current_index := 0\<rparr>
                 in bind_res (word_at user_reserved_pop3_word (pp_current_index p2))
                   (\<lambda>c'. Inr (user_word_search,
                      if c' = b then p2\<lparr>pp_current_index := pp_current_index p2 + 1\<rparr> else p2)))"

definition password_parser_feed ::
  "bool \<Rightarrow> password_parser \<times> credential_log \<Rightarrow> byte \<Rightarrow>
   (password_parser_state \<times> password_parser \<times> credential_log) res" where
  "password_parser_feed ok = (\<lambda>(p, log) b.
     let quiet = (\<lambda>r. bind_res r (\<lambda>(st, p'). Inr (st, p', log)))
     in case pp_current p of
          user_word_search \<Rightarrow> quiet (user_word_search_handler p b)
        | user_read \<Rightarrow> quiet (user_read_handler ok p b)
        | pass_word_search \<Rightarrow> quiet (pass_word_search_handler p b)
        | pass_read \<Rightarrow> pass_read_handler ok (p, log) b)"

fun password_consume ::
  "bool \<Rightarrow> byte list \<Rightarrow> password_parser \<times> credential_log \<Rightarrow>
   (password_parser \<times> credential_log) res" where
  "password_consume ok [] s = Inr s"
| "password_consume ok (b # bs) s =
     bind_res (password_parser_feed ok s b)
       (\<lambda>(st, p, log). password_consume ok bs (p\<lparr>pp_current := st\<rparr>, log))"

lemmas pop3_defs =
  BUFFER_SIZE_def USER_L_def PASS_L_def user_reserved_pop3_word_def pass_reserved_pop3_word_def

lemma password_consume_append:
  "password_consume ok (xs @ ys) s =
   bind_res (password_consume ok xs s) (password_consume ok ys)"
  by (induction xs arbitrary: s) (auto simp: bind_res_def split: sum.splits prod.splits)

section \<open>Names under construction\<close>

text \<open>\<open>growing m u\<close>: the array holds \<open>u\<close>, with the capacity \<open>checkSize\<close> has given it.\<close>

definition growing :: "byte option list ptr \<Rightarrow> byte list \<Rightarrow> bool" where
  "growing m u \<longleftrightarrow> u = [] \<or> (\<exists>mem. m = Ptr mem \<and>
     length mem = 5 * ((length u + 4) div 5) \<and> take (length u) mem = map Some u)"

definition named :: "byte option list ptr \<Rightarrow> byte list \<Rightarrow> bool" where
  "named m u \<longleftrightarrow> (\<exists>rest. m = Ptr (map Some u @ Some 0 # rest))"

lemma name_put_step:
  assumes "length u < length mem" and "take (length u) mem = map Some u"
  shows "name_put (Ptr mem) (length u) b = Inr (Ptr (map Some (u @ [b]) @ drop (Suc (length u)) mem))"
proof -
  have "mem[length u := Some b] = take (length u) mem @ Some b # drop (Suc (length u)) mem"
    using assms(1) by (simp add: upd_conv_take_nth_drop)
  then show ?thesis using assms by (simp add: name_put_def)
qed

lemma growing_checkSize:
  assumes g: "growing m u"
  obtains mem where "checkSize True m (length u) = Inr (Ptr mem)"
    and "length mem = 5 * ((length u + 5) div 5)" and "take (length u) mem = map Some u"
proof (cases "u = []")
  case True
  then show ?thesis
    by (intro that [of "replicate 5 None"]) (simp_all add: checkSize_def BUFFER_SIZE_def)
next
  case False
  then obtain mem where mem: "m = Ptr mem" "length mem = 5 * ((length u + 4) div 5)"
    "take (length u) mem = map Some u"
    using g by (auto simp: growing_def)
  show ?thesis
  proof (cases "length u mod 5 = 0")
    case True
    then have "length mem = length u" using mem(2) by presburger
    moreover have "5 * ((length u + 5) div 5) = length u + 5" using True by presburger
    ultimately show ?thesis
      using mem True False
      by (intro that [of "mem @ replicate 5 None"])
        (simp_all add: checkSize_def BUFFER_SIZE_def c_realloc_def)
  next
    case nz: False
    then have "(length u + 5) div 5 = (length u + 4) div 5" by presburger
    then show ?thesis
      using mem nz by (intro that [of mem]) (simp_all add: checkSize_def BUFFER_SIZE_def)
  qed
qed

lemma growing_put:
  assumes g: "growing m u"
  obtains m1 m2 where "checkSize True m (length u) = Inr m1"
    and "name_put m1 (length u) b = Inr m2" and "growing m2 (u @ [b])"
    and "b = 0 \<Longrightarrow> named m2 u"
proof -
  obtain mem where mem: "checkSize True m (length u) = Inr (Ptr mem)"
    "length mem = 5 * ((length u + 5) div 5)" "take (length u) mem = map Some u"
    using growing_checkSize [OF g] by blast
  have "length u < length mem" using mem(2) by presburger
  moreover then have "length (map Some (u @ [b]) @ drop (Suc (length u)) mem) = length mem" by simp
  ultimately show ?thesis
    using mem name_put_step [of u mem b]
    by (intro that [of "Ptr mem"]) (auto simp: growing_def named_def)
qed

lemma growing_free: "growing m u \<Longrightarrow> u \<noteq> [] \<Longrightarrow> free_ptr m = Inr Dangling"
  by (auto simp: growing_def)

lemma named_free: "named m u \<Longrightarrow> free_ptr m = Inr Dangling"
  by (auto simp: named_def)

lemma named_c_string:
  "named m u \<Longrightarrow> bind_res (deref m) c_string = Inr (takeWhile (\<lambda>c. c \<noteq> 0) u)"
  by (auto simp: named_def c_string_prefix)

lemma sublist_append_right: "sublist xs h \<Longrightarrow> sublist xs (h @ h')"
  unfolding sublist_def by (metis append_assoc)

section \<open>What the dissector has seen\<close>

text \<open>
  \<open>tracks h p\<close>: after the bytes \<open>h\<close>, the state of the dissector is what the last bytes of
  \<open>h\<close> say it is, and the memory it holds is allocated and initialised accordingly.
\<close>

definition eol :: "bool \<Rightarrow> byte list" where
  "eol cr = (if cr then [0x0D, 0x0A] else [0x0A])"

definition user_line :: "byte list \<Rightarrow> bool \<Rightarrow> byte list" where
  "user_line u cr = user_reserved_pop3_word @ u @ eol cr"

definition tracks :: "byte list \<Rightarrow> password_parser \<Rightarrow> bool" where
  "tracks h p \<longleftrightarrow>
     (case pp_current p of
        user_word_search \<Rightarrow>
          pp_current_index p < USER_L \<and> \<not> pp_last p
          \<and> suffix (take (pp_current_index p) user_reserved_pop3_word) h
      | user_read \<Rightarrow>
          (\<exists>u. length u = pp_current_index p \<and> pp_current_index p \<le> 255
             \<and> growing (pp_username p) u
             \<and> suffix (user_reserved_pop3_word @ u @ (if pp_last p then [0x0D] else [])) h)
      | pass_word_search \<Rightarrow>
          pp_current_index p < PASS_L \<and> \<not> pp_last p
          \<and> (\<exists>u cr. named (pp_username p) u
               \<and> suffix (user_line u cr @ take (pp_current_index p) pass_reserved_pop3_word) h)
      | pass_read \<Rightarrow>
          (\<exists>u cr w. named (pp_username p) u \<and> length w = pp_current_index p
             \<and> pp_current_index p \<le> 255 \<and> growing (pp_password p) w
             \<and> suffix (user_line u cr @ pass_reserved_pop3_word @ w
                       @ (if pp_last p then [0x0D] else [])) h))"

definition credential_in :: "byte list \<times> byte list \<Rightarrow> byte list \<Rightarrow> bool" where
  "credential_in c h \<longleftrightarrow>
     (\<exists>u cr w cr'. c = (takeWhile (\<lambda>c. c \<noteq> 0) u, takeWhile (\<lambda>c. c \<noteq> 0) w)
        \<and> sublist (user_line u cr @ pass_reserved_pop3_word @ w @ eol cr') h)"

lemma suffix_both_snoc: "suffix xs h \<Longrightarrow> suffix (xs @ [b]) (h @ [b])"
  by (auto simp: suffix_def)

lemma suffix_take_Suc:
  "suffix (xs @ take i w) h \<Longrightarrow> i < length w \<Longrightarrow> w ! i = b \<Longrightarrow>
   suffix (xs @ take (Suc i) w) (h @ [b])"
  by (auto simp: suffix_def take_Suc_conv_app_nth)

lemma credential_in_append: "credential_in c h \<Longrightarrow> credential_in c (h @ h')"
  unfolding credential_in_def
  by (elim exE conjE, intro exI conjI, assumption, erule sublist_append_right)

lemma tracks_user_readI:
  "length u = pp_current_index p \<Longrightarrow> pp_current_index p \<le> 255 \<Longrightarrow> growing (pp_username p) u \<Longrightarrow>
   suffix (user_reserved_pop3_word @ u @ (if pp_last p then [0x0D] else [])) h \<Longrightarrow>
   tracks h (p\<lparr>pp_current := user_read\<rparr>)"
  by (auto simp: tracks_def)

lemma tracks_pass_readI:
  "named (pp_username p) u \<Longrightarrow> length w = pp_current_index p \<Longrightarrow> pp_current_index p \<le> 255 \<Longrightarrow>
   growing (pp_password p) w \<Longrightarrow>
   suffix (user_line u cr @ pass_reserved_pop3_word @ w @ (if pp_last p then [0x0D] else [])) h \<Longrightarrow>
   tracks h (p\<lparr>pp_current := pass_read\<rparr>)"
  unfolding tracks_def by (simp split del: if_split) blast

text \<open>Every reset goes back to the search, with the first letter of \<open>user\<close> already counted.\<close>

definition restarted :: "byte \<Rightarrow> password_parser \<Rightarrow> bool" where
  "restarted b p \<longleftrightarrow> \<not> pp_last p
     \<and> pp_current_index p = (if hd user_reserved_pop3_word = b then 1 else 0)"

lemma restarted_tracks:
  "restarted b p \<Longrightarrow> tracks (h @ [b]) (p\<lparr>pp_current := user_word_search\<rparr>)"
  by (auto simp: restarted_def tracks_def pop3_defs suffix_def split: if_splits)

lemma user_read_reset_restarts:
  obtains p' where "user_read_reset p b = Inr (user_word_search, p')" and "restarted b p'"
  using that by (simp add: user_read_reset_def Let_def word_at_def pop3_defs restarted_def)

lemma pass_read_reset_restarts:
  assumes "free_ptr (pp_username p) = Inr Dangling"
    and "pp_current_index p \<noteq> 0 \<Longrightarrow> free_ptr (pp_password p) = Inr Dangling"
  obtains p' where "pass_read_reset p b = Inr (user_word_search, p')" and "restarted b p'"
proof -
  have "(if pp_current_index p \<noteq> 0 then free_ptr (pp_password p) else Inr (pp_password p))
      = Inr (if pp_current_index p \<noteq> 0 then Dangling else pp_password p)"
    using assms(2) by simp
  then show ?thesis
    using that assms(1)
    by (simp add: pass_read_reset_def Let_def word_at_def pop3_defs restarted_def)
qed

section \<open>Every byte keeps it\<close>

definition tracked_step ::
  "byte list \<Rightarrow> credential_log \<Rightarrow>
   (password_parser_state \<times> password_parser \<times> credential_log) res \<Rightarrow> bool" where
  "tracked_step h log r \<longleftrightarrow>
     (\<exists>st p' log'. r = Inr (st, p', log') \<and> tracks h (p'\<lparr>pp_current := st\<rparr>)
        \<and> (log' = log \<or> (\<exists>c. log' = log @ [c] \<and> credential_in c h)))"

lemma tracked_stepI:
  "tracks h (p'\<lparr>pp_current := st\<rparr>) \<Longrightarrow> tracked_step h log (Inr (st, p', log))"
  by (auto simp: tracked_step_def)

lemma user_word_search_tracked:
  assumes "tracks h p" and "pp_current p = user_word_search"
  shows "tracked_step (h @ [b]) log (password_parser_feed ok (p, log) b)"
proof -
  let ?i = "pp_current_index p" and ?w = user_reserved_pop3_word
  have i: "?i < USER_L" "\<not> pp_last p" "suffix (take ?i ?w) h"
    using assms by (simp_all add: tracks_def)
  have len: "length ?w = USER_L" by (simp add: pop3_defs)
  have word: "word_at ?w ?i = Inr (?w ! ?i)" "word_at ?w 0 = Inr (?w ! 0)"
    using i(1) len by (simp_all add: word_at_def pop3_defs)
  show ?thesis
  proof (cases "?w ! ?i = b")
    case True
    have s: "suffix (take (Suc ?i) ?w) (h @ [b])"
      using suffix_take_Suc [of "[]" ?i ?w h b] i len True by simp
    show ?thesis
    proof (cases "Suc ?i = USER_L")
      case True
      then have "suffix ?w (h @ [b])" using s len by simp
      then show ?thesis
        using assms(2) word \<open>?w ! ?i = b\<close> True i
        by (simp add: password_parser_feed_def user_word_search_handler_def Let_def)
          (rule tracked_stepI, simp add: tracks_def growing_def)
    next
      case False
      then show ?thesis
        using assms(2) word \<open>?w ! ?i = b\<close> i s
        by (simp add: password_parser_feed_def user_word_search_handler_def Let_def)
          (rule tracked_stepI, simp add: tracks_def)
    qed
  next
    case False
    have "restarted b (p\<lparr>pp_current_index := if ?w ! 0 = b then 1 else 0\<rparr>)"
      using i by (simp add: restarted_def pop3_defs)
    then show ?thesis
      using restarted_tracks [of b "p\<lparr>pp_current_index := if ?w ! 0 = b then 1 else 0\<rparr>" h]
        assms(2) word False
      by (auto simp: password_parser_feed_def user_word_search_handler_def Let_def
          intro!: tracked_stepI)
  qed
qed

lemma user_read_tracked:
  assumes "tracks h p" and "pp_current p = user_read"
  shows "tracked_step (h @ [b]) log (password_parser_feed True (p, log) b)"
proof -
  obtain u where u: "length u = pp_current_index p" "pp_current_index p \<le> 255"
    "growing (pp_username p) u"
    "suffix (user_reserved_pop3_word @ u @ (if pp_last p then [0x0D] else [])) h"
    using assms by (auto simp: tracks_def)
  obtain r where r: "user_read_reset p b = Inr (user_word_search, r)" "restarted b r"
    using user_read_reset_restarts by blast
  obtain m1 m2 where m: "checkSize True (pp_username p) (length u) = Inr m1"
    "name_put m1 (length u) b = Inr m2" "growing m2 (u @ [b])"
    using growing_put [OF u(3), of b] by blast
  obtain n1 n2 where n: "checkSize True (pp_username p) (length u) = Inr n1"
    "name_put n1 (length u) 0 = Inr n2" "named n2 u"
    using growing_put [OF u(3), of 0] by blast
  have feed: "password_parser_feed True (p, log) b =
     Inr (if pp_current_index p \<ge> 255 \<or> pp_last p \<and> b \<noteq> 0x0A then (user_word_search, r, log)
          else if b = 0x0D then (user_read, p\<lparr>pp_last := True\<rparr>, log)
          else if b = 0x0A then
            (pass_word_search, p\<lparr>pp_username := n2, pp_current_index := 0, pp_last := False\<rparr>, log)
          else if isascii b then
            (user_read, p\<lparr>pp_username := m2, pp_current_index := pp_current_index p + 1\<rparr>, log)
          else (user_word_search, r, log))"
    using r(1) m n u(1) by (auto simp: password_parser_feed_def user_read_handler_def assms(2))
  let ?bad = "pp_current_index p \<ge> 255 \<or> pp_last p \<and> b \<noteq> 0x0A"
  consider (reset) "?bad \<or> b \<noteq> 0x0D \<and> b \<noteq> 0x0A \<and> \<not> isascii b"
    | (cr) "\<not> ?bad" "b = 0x0D" | (lf) "\<not> ?bad" "b = 0x0A"
    | (name) "\<not> ?bad" "b \<noteq> 0x0D" "b \<noteq> 0x0A" "isascii b" by blast
  then show ?thesis
  proof cases
    case reset
    then have "password_parser_feed True (p, log) b = Inr (user_word_search, r, log)"
      unfolding feed by auto
    then show ?thesis using r(2) by (simp add: tracked_stepI restarted_tracks)
  next
    case cr
    then have f: "password_parser_feed True (p, log) b = Inr (user_read, p\<lparr>pp_last := True\<rparr>, log)"
      unfolding feed by simp
    show ?thesis
      unfolding f
      using u cr suffix_both_snoc [of "user_reserved_pop3_word @ u" h b]
      by (intro tracked_stepI) (auto simp: tracks_def)
  next
    case lf
    then have f: "password_parser_feed True (p, log) b = Inr (pass_word_search,
        p\<lparr>pp_username := n2, pp_current_index := 0, pp_last := False\<rparr>, log)"
      unfolding feed by simp
    have "suffix (user_line u (pp_last p)) (h @ [b])"
      using suffix_both_snoc [OF u(4), of b] lf(2) by (simp add: user_line_def eol_def split: if_splits)
    then show ?thesis
      unfolding f using n(3) by (intro tracked_stepI) (auto simp: tracks_def PASS_L_def)
  next
    case name
    then have f: "password_parser_feed True (p, log) b = Inr (user_read,
        p\<lparr>pp_username := m2, pp_current_index := pp_current_index p + 1\<rparr>, log)"
      unfolding feed by auto
    have "suffix ((user_reserved_pop3_word @ u) @ [b]) (h @ [b])"
      using u(4) name by (intro suffix_both_snoc) auto
    then show ?thesis
      unfolding f
      using name m(3) u(1)
      by (intro tracked_stepI tracks_user_readI [of "u @ [b]"]) (auto simp del: Sublist.suffix_snoc)
  qed
qed

lemma pass_word_search_tracked:
  assumes "tracks h p" and "pp_current p = pass_word_search"
  shows "tracked_step (h @ [b]) log (password_parser_feed ok (p, log) b)"
proof -
  let ?i = "pp_current_index p" and ?w = pass_reserved_pop3_word
  obtain u cr where i: "?i < PASS_L" "\<not> pp_last p" "named (pp_username p) u"
    "suffix (user_line u cr @ take ?i ?w) h"
    using assms by (auto simp: tracks_def)
  have len: "length ?w = PASS_L" by (simp add: pop3_defs)
  have word: "word_at ?w ?i = Inr (?w ! ?i)"
    "word_at user_reserved_pop3_word 0 = Inr (user_reserved_pop3_word ! 0)"
    using i(1) len by (simp_all add: word_at_def pop3_defs)
  show ?thesis
  proof (cases "?w ! ?i = b")
    case True
    have s: "suffix (user_line u cr @ take (Suc ?i) ?w) (h @ [b])"
      using suffix_take_Suc [OF i(4)] i len True by simp
    show ?thesis
    proof (cases "Suc ?i = PASS_L")
      case full: True
      then have "suffix (user_line u cr @ ?w) (h @ [b])" using s len by simp
      moreover have "password_parser_feed ok (p, log) b =
          Inr (pass_read, p\<lparr>pp_current_index := 0\<rparr>, log)"
        using assms(2) word True full
        by (simp add: password_parser_feed_def pass_word_search_handler_def Let_def)
      ultimately show ?thesis
        using i by (simp only:, intro tracked_stepI) (auto simp: tracks_def growing_def)
    next
      case False
      have "password_parser_feed ok (p, log) b =
          Inr (pass_word_search, p\<lparr>pp_current_index := Suc ?i\<rparr>, log)"
        using assms(2) word True False
        by (simp add: password_parser_feed_def pass_word_search_handler_def Let_def)
      then show ?thesis
        using i s False by (simp only:, intro tracked_stepI) (auto simp: tracks_def)
    qed
  next
    case False
    define p' where "p' = p\<lparr>pp_username := Dangling, pp_last := False,
      pp_current_index := if user_reserved_pop3_word ! 0 = b then 1 else 0\<rparr>"
    have "password_parser_feed ok (p, log) b = Inr (user_word_search, p', log)"
      using assms(2) word False named_free [OF i(3)]
      by (cases p) (simp add: password_parser_feed_def pass_word_search_handler_def Let_def p'_def)
    moreover have "restarted b p'"
      by (simp add: restarted_def pop3_defs p'_def)
    ultimately show ?thesis by (simp add: tracked_stepI restarted_tracks)
  qed
qed

lemma pass_read_tracked:
  assumes "tracks h p" and "pp_current p = pass_read"
  shows "tracked_step (h @ [b]) log (password_parser_feed True (p, log) b)"
proof -
  obtain u cr w where u: "named (pp_username p) u" "length w = pp_current_index p"
    "pp_current_index p \<le> 255" "growing (pp_password p) w"
    "suffix (user_line u cr @ pass_reserved_pop3_word @ w @ (if pp_last p then [0x0D] else [])) h"
    using assms by (auto simp: tracks_def)
  obtain r where r: "user_read_reset p b = Inr (user_word_search, r)" "restarted b r"
    using user_read_reset_restarts by blast
  have "pp_current_index p \<noteq> 0 \<Longrightarrow> free_ptr (pp_password p) = Inr Dangling"
    using growing_free [OF u(4)] u(2) by (cases w) simp_all
  then obtain q where q: "pass_read_reset p b = Inr (user_word_search, q)" "restarted b q"
    by (rule pass_read_reset_restarts [OF named_free [OF u(1)]])
  obtain m1 m2 where m: "checkSize True (pp_password p) (length w) = Inr m1"
    "name_put m1 (length w) b = Inr m2" "growing m2 (w @ [b])"
    using growing_put [OF u(4), of b] by blast
  obtain n1 n2 where n: "checkSize True (pp_password p) (length w) = Inr n1"
    "name_put n1 (length w) 0 = Inr n2" "named n2 w" "growing n2 (w @ [0])"
    using growing_put [OF u(4), of 0] by blast
  let ?p1 = "p\<lparr>pp_password := n2\<rparr>"
  let ?c = "(takeWhile (\<lambda>c. c \<noteq> 0) u, takeWhile (\<lambda>c. c \<noteq> 0) w)"
  have print: "print_credential ?p1 = Inr ?c"
    using named_c_string [OF u(1)] named_c_string [OF n(3)] by (simp add: print_credential_def)
  obtain s where s: "pass_read_reset ?p1 b = Inr (user_word_search, s)" "restarted b s"
    by (rule pass_read_reset_restarts [of ?p1 b])
      (simp_all add: named_free [OF u(1)] named_free [OF n(3)])
  note step = password_parser_feed_def pass_read_handler_def assms(2) Let_def
  let ?bad = "pp_current_index p \<ge> 255 \<or> pp_last p \<and> b \<noteq> 0x0A"
  consider (free) "?bad" | (reset) "\<not> ?bad" "b \<noteq> 0x0D" "b \<noteq> 0x0A" "\<not> isascii b"
    | (cr) "\<not> ?bad" "b = 0x0D" | (lf) "\<not> ?bad" "b = 0x0A"
    | (name) "\<not> ?bad" "b \<noteq> 0x0D" "b \<noteq> 0x0A" "isascii b" by blast
  then show ?thesis
  proof cases
    case free
    then have f: "password_parser_feed True (p, log) b = Inr (user_word_search, q, log)"
      using q(1) by (auto simp: step)
    show ?thesis using q(2) unfolding f by (simp add: tracked_stepI restarted_tracks)
  next
    case reset
    then have f: "password_parser_feed True (p, log) b = Inr (user_word_search, r, log)"
      using r(1) by (simp add: step)
    show ?thesis using r(2) unfolding f by (simp add: tracked_stepI restarted_tracks)
  next
    case cr
    then have f: "password_parser_feed True (p, log) b = Inr (pass_read, p\<lparr>pp_last := True\<rparr>, log)"
      by (simp add: step)
    have "suffix ((user_line u cr @ pass_reserved_pop3_word @ w) @ [b]) (h @ [b])"
      using u(5) cr by (intro suffix_both_snoc) auto
    then show ?thesis
      unfolding f using u cr(2)
      by (intro tracked_stepI tracks_pass_readI) (simp_all del: Sublist.suffix_snoc)
  next
    case lf
    then have f: "password_parser_feed True (p, log) b = Inr (user_word_search, s, log @ [?c])"
      using n u(2) print s(1) by (simp add: step)
    have "suffix (user_line u cr @ pass_reserved_pop3_word @ w @ eol (pp_last p)) (h @ [b])"
      using suffix_both_snoc [OF u(5), of b] lf(2) by (simp add: eol_def split: if_splits)
    then have "credential_in ?c (h @ [b])"
      unfolding credential_in_def by - (intro exI conjI, rule refl, erule suffix_imp_sublist)
    then show ?thesis
      unfolding f tracked_step_def using restarted_tracks [OF s(2)] by blast
  next
    case name
    then have f: "password_parser_feed True (p, log) b = Inr (pass_read,
        p\<lparr>pp_password := m2, pp_current_index := pp_current_index p + 1\<rparr>, log)"
      using m u(2) by (simp add: step)
    have "suffix ((user_line u cr @ pass_reserved_pop3_word @ w) @ [b]) (h @ [b])"
      using u(5) name by (intro suffix_both_snoc) auto
    then show ?thesis
      unfolding f
      using name m(3) u(1,2)
      by (intro tracked_stepI tracks_pass_readI [of _ u "w @ [b]"])
        (auto simp del: Sublist.suffix_snoc)
  qed
qed

lemma password_feed_tracked:
  "tracks h p \<Longrightarrow> tracked_step (h @ [b]) log (password_parser_feed True (p, log) b)"
  by (cases "pp_current p")
    (auto intro: user_word_search_tracked user_read_tracked pass_word_search_tracked
       pass_read_tracked)

lemma tracks_init: "tracks [] (password_parser_init p)"
  by (simp add: tracks_def password_parser_init_def USER_L_def)

lemma password_consume_tracked:
  assumes "tracks h p" and "\<forall>c \<in> set log. credential_in c h"
  shows "\<exists>p' log'. password_consume True bs (p, log) = Inr (p', log')
    \<and> tracks (h @ bs) p' \<and> (\<forall>c \<in> set log'. credential_in c (h @ bs))"
  using assms
proof (induction bs arbitrary: h p log)
  case Nil
  then show ?case by simp
next
  case (Cons b bs)
  obtain st q log1 where s: "password_parser_feed True (p, log) b = Inr (st, q, log1)"
    "tracks (h @ [b]) (q\<lparr>pp_current := st\<rparr>)"
    "log1 = log \<or> (\<exists>c. log1 = log @ [c] \<and> credential_in c (h @ [b]))"
    using password_feed_tracked [OF Cons.prems(1), of b log] by (auto simp: tracked_step_def)
  have "\<forall>c \<in> set log1. credential_in c (h @ [b])"
    using s(3) Cons.prems(2) credential_in_append by auto
  from Cons.IH [OF s(2) this] show ?case using s(1) by simp
qed

section \<open>A credential that goes by is found\<close>

definition pop3_name :: "byte list \<Rightarrow> bool" where
  "pop3_name u \<longleftrightarrow> length u < 255 \<and> (\<forall>b \<in> set u. isascii b \<and> b \<notin> {0, 0x0A, 0x0D})"

lemma run_user_word:
  assumes "pp_current p = user_word_search" and "pp_current_index p < USER_L"
  shows "password_consume ok user_reserved_pop3_word (p, log)
       = Inr (p\<lparr>pp_current := user_read, pp_current_index := 0\<rparr>, log)"
proof -
  have "pp_current_index p \<in> {0, 1, 2, 3, 4}" using assms(2) by (auto simp: USER_L_def)
  then show ?thesis
    using assms(1)
    by (cases p)
      (auto simp: user_reserved_pop3_word_def password_parser_feed_def user_word_search_handler_def
        word_at_def Let_def USER_L_def)
qed

lemma run_pass_word:
  assumes "pp_current p = pass_word_search" and "pp_current_index p = 0"
  shows "password_consume ok pass_reserved_pop3_word (p, log)
       = Inr (p\<lparr>pp_current := pass_read, pp_current_index := 0\<rparr>, log)"
  using assms
  by (cases p)
    (simp add: pass_reserved_pop3_word_def password_parser_feed_def pass_word_search_handler_def
      word_at_def Let_def PASS_L_def)

lemma run_user_name:
  assumes "pp_current p = user_read" and "\<not> pp_last p" and "growing (pp_username p) v"
    and "pp_current_index p = length v" and "length (v @ u) \<le> 255"
    and "\<forall>b \<in> set u. isascii b \<and> b \<notin> {0x0A, 0x0D}"
  shows "\<exists>m. growing m (v @ u) \<and> password_consume True u (p, log)
       = Inr (p\<lparr>pp_username := m, pp_current_index := length (v @ u)\<rparr>, log)"
  using assms
proof (induction u arbitrary: v p)
  case Nil
  then show ?case by (intro exI [of _ "pp_username p"]) (cases p, simp)
next
  case (Cons b u)
  obtain m1 m2 where m: "checkSize True (pp_username p) (length v) = Inr m1"
    "name_put m1 (length v) b = Inr m2" "growing m2 (v @ [b])"
    using growing_put [OF Cons.prems(3), of b] by blast
  let ?p = "p\<lparr>pp_username := m2, pp_current_index := Suc (length v), pp_current := user_read\<rparr>"
  have step: "password_consume True (b # u) (p, log) = password_consume True u (?p, log)"
    using Cons.prems m by (simp add: password_parser_feed_def user_read_handler_def)
  obtain m where "growing m ((v @ [b]) @ u)" "password_consume True u (?p, log)
      = Inr (?p\<lparr>pp_username := m, pp_current_index := length ((v @ [b]) @ u)\<rparr>, log)"
    using Cons.IH [of ?p "v @ [b]"] Cons.prems m(3) by auto
  then show ?case
    unfolding step using Cons.prems(1) by (intro exI [of _ m]) (cases p, simp)
qed

lemma run_pass_name:
  assumes "pp_current p = pass_read" and "\<not> pp_last p" and "growing (pp_password p) v"
    and "pp_current_index p = length v" and "length (v @ u) \<le> 255"
    and "\<forall>b \<in> set u. isascii b \<and> b \<notin> {0x0A, 0x0D}"
  shows "\<exists>m. growing m (v @ u) \<and> password_consume True u (p, log)
       = Inr (p\<lparr>pp_password := m, pp_current_index := length (v @ u)\<rparr>, log)"
  using assms
proof (induction u arbitrary: v p)
  case Nil
  then show ?case by (intro exI [of _ "pp_password p"]) (cases p, simp)
next
  case (Cons b u)
  obtain m1 m2 where m: "checkSize True (pp_password p) (length v) = Inr m1"
    "name_put m1 (length v) b = Inr m2" "growing m2 (v @ [b])"
    using growing_put [OF Cons.prems(3), of b] by blast
  let ?p = "p\<lparr>pp_password := m2, pp_current_index := Suc (length v), pp_current := pass_read\<rparr>"
  have step: "password_consume True (b # u) (p, log) = password_consume True u (?p, log)"
    using Cons.prems m by (simp add: password_parser_feed_def pass_read_handler_def Let_def)
  obtain m where "growing m ((v @ [b]) @ u)" "password_consume True u (?p, log)
      = Inr (?p\<lparr>pp_password := m, pp_current_index := length ((v @ [b]) @ u)\<rparr>, log)"
    using Cons.IH [of ?p "v @ [b]"] Cons.prems m(3) by auto
  then show ?case
    unfolding step using Cons.prems(1) by (intro exI [of _ m]) (cases p, simp)
qed

lemma run_user_eol:
  assumes "pp_current p = user_read" and "\<not> pp_last p" and "growing (pp_username p) u"
    and "pp_current_index p = length u" and "length u < 255"
  shows "\<exists>m. named m u \<and> password_consume True (eol cr) (p, log)
       = Inr (p\<lparr>pp_current := pass_word_search, pp_username := m, pp_current_index := 0\<rparr>, log)"
proof -
  obtain m1 m where m: "checkSize True (pp_username p) (length u) = Inr m1"
    "name_put m1 (length u) 0 = Inr m" "named m u"
    using growing_put [OF assms(3), of 0] by blast
  show ?thesis
    using assms m by (intro exI [of _ m])
      (cases p, simp add: eol_def password_parser_feed_def user_read_handler_def)
qed

lemma run_pass_eol:
  assumes "pp_current p = pass_read" and "\<not> pp_last p" and "growing (pp_password p) w"
    and "pp_current_index p = length w" and "length w < 255" and "named (pp_username p) u"
  shows "\<exists>p'. pp_current p' = user_word_search \<and> pp_current_index p' = 0 \<and>
       password_consume True (eol cr) (p, log)
       = Inr (p', log @ [(takeWhile (\<lambda>c. c \<noteq> 0) u, takeWhile (\<lambda>c. c \<noteq> 0) w)])"
proof -
  obtain m1 m where m: "checkSize True (pp_password p) (length w) = Inr m1"
    "name_put m1 (length w) 0 = Inr m" "named m w"
    using growing_put [OF assms(3), of 0] by blast
  have print: "print_credential (p\<lparr>pp_password := m\<rparr>)
      = Inr (takeWhile (\<lambda>c. c \<noteq> 0) u, takeWhile (\<lambda>c. c \<noteq> 0) w)"
    "print_credential (p\<lparr>pp_last := True, pp_current := pass_read, pp_password := m\<rparr>)
      = Inr (takeWhile (\<lambda>c. c \<noteq> 0) u, takeWhile (\<lambda>c. c \<noteq> 0) w)"
    using named_c_string [OF assms(6)] named_c_string [OF m(3)]
    by (simp_all add: print_credential_def)
  note free = named_free [OF assms(6)] named_free [OF m(3)]
  show ?thesis
    using assms(1,2,4,5) m print free
    by (cases "w = []"; cases cr)
      (simp_all add: eol_def password_parser_feed_def pass_read_handler_def Let_def
        pass_read_reset_def word_at_def user_reserved_pop3_word_def)
qed

lemma run_credential:
  assumes search: "pp_current p = user_word_search" "pp_current_index p < USER_L" "\<not> pp_last p"
    and u: "pop3_name u" and w: "pop3_name w"
  shows "\<exists>p'. pp_current p' = user_word_search \<and>
       password_consume True (user_line u cr @ pass_reserved_pop3_word @ w @ eol cr') (p, log)
       = Inr (p', log @ [(u, w)])"
proof -
  have plain: "takeWhile (\<lambda>c. c \<noteq> 0) u = u" "takeWhile (\<lambda>c. c \<noteq> 0) w = w"
    using u w by (auto simp: pop3_name_def takeWhile_eq_all_conv)
  let ?p1 = "p\<lparr>pp_current := user_read, pp_current_index := 0\<rparr>"
  obtain m1 where m1: "growing m1 u" "password_consume True u (?p1, log)
      = Inr (?p1\<lparr>pp_username := m1, pp_current_index := length u\<rparr>, log)"
    using run_user_name [of ?p1 "[]" u log] search u by (auto simp: growing_def pop3_name_def)
  let ?p2 = "?p1\<lparr>pp_username := m1, pp_current_index := length u\<rparr>"
  obtain m2 where m2: "named m2 u" "password_consume True (eol cr) (?p2, log)
      = Inr (?p2\<lparr>pp_current := pass_word_search, pp_username := m2, pp_current_index := 0\<rparr>, log)"
    using run_user_eol [of ?p2 u cr log] search u m1(1) by (auto simp: pop3_name_def)
  let ?p3 = "?p2\<lparr>pp_current := pass_word_search, pp_username := m2, pp_current_index := 0\<rparr>"
  let ?p4 = "?p3\<lparr>pp_current := pass_read, pp_current_index := 0\<rparr>"
  obtain m3 where m3: "growing m3 w" "password_consume True w (?p4, log)
      = Inr (?p4\<lparr>pp_password := m3, pp_current_index := length w\<rparr>, log)"
    using run_pass_name [of ?p4 "[]" w log] search w by (auto simp: growing_def pop3_name_def)
  let ?p5 = "?p4\<lparr>pp_password := m3, pp_current_index := length w\<rparr>"
  obtain p' where p': "pp_current p' = user_word_search"
    "password_consume True (eol cr') (?p5, log) = Inr (p', log @ [(u, w)])"
    using run_pass_eol [of ?p5 w u cr' log] search w m2(1) m3(1) plain
    by (auto simp: pop3_name_def)
  have "password_consume True (user_line u cr @ pass_reserved_pop3_word @ w @ eol cr') (p, log)
      = Inr (p', log @ [(u, w)])"
    using run_user_word [OF search(1,2), of True log] m1(2) m2(2)
      run_pass_word [of ?p3 True log] m3(2) p'(2)
    by (simp add: password_consume_append user_line_def)
  then show ?thesis using p'(1) by blast
qed

section \<open>Properties of the dissector\<close>

definition demo_garbage :: password_parser where
  "demo_garbage = \<lparr>pp_current = pass_read, pp_current_index = 77,
     pp_last = True, pp_username = Dangling, pp_password = Null\<rparr>"

definition demo_password_parser :: password_parser where
  "demo_password_parser = password_parser_init demo_garbage"



text \<open>
  \<open>C35\<close> The dissector misses no plain credential: whatever was relayed before, if it is searching
  for a user line when a well-formed exchange goes by (names of fewer than 255 ASCII characters
  without line ends), that exchange adds exactly its user name and password to the report, and
  the dissector is searching again afterwards.
\<close>

theorem dissector_complete:
  assumes "tracks h p" and "pp_current p = user_word_search" and "pop3_name u" and "pop3_name w"
  shows "\<exists>p'. pp_current p' = user_word_search \<and>
       password_consume True (user_line u cr @ pass_reserved_pop3_word @ w @ eol cr') (p, log)
       = Inr (p', log @ [(u, w)])"
  using assms run_credential [of p u w cr cr' log] by (auto simp: tracks_def)

lemma dissector_complete_witness:
  "\<exists>p'. password_consume True (user_line [0x61] True @ pass_reserved_pop3_word @ [0x62] @ eol False)
      (demo_password_parser, []) = Inr (p', [([0x61], [0x62])])"
  using dissector_complete [OF tracks_init, of demo_garbage "[0x61]" "[0x62]" True False "[]"]
  unfolding demo_password_parser_def
  by (auto simp: pop3_name_def isascii_def password_parser_init_def)

end
