(* ===== verification/Server.thy ===== *)
theory Server
  imports Stm Selector Users Hello_Parser New_Parser Request_Parser Password_Parser
begin

text \<open>
  The state every handler of the server works on: \<open>struct socks5\<close> of \<open>include/socks5nio.h\<close> with
  the per-state structs of \<open>include/states.h\<close>, the selector, the connections by address, the two
  pools, the globals, and what the kernel and \<open>malloc\<close> answer. A handler receives the
  \<open>selector_key\<close> (the descriptor and the connection) in the same record, and returns the next
  state of the connection's machine.

  The pointers \<open>rb\<close> and \<open>wb\<close> of the handshake structs always point at the connection's own
  \<open>read_buffer\<close> and \<open>write_buffer\<close>, and are left out; those of \<open>copy_st\<close> differ between the two
  ends and are kept. A member of the unions is read only as the member last written, or as zero
  bytes after the \<open>memset\<close> of a new connection.
\<close>

section \<open>The kernel and the allocator\<close>

datatype errno =
    E_none | EINPROGRESS | ECONNREFUSED | EHOSTUNREACH | ENETUNREACH | ETIMEDOUT | E_other

datatype sockaddr = Sa_zero | Sa_in sockaddr_in | Sa_in6 sockaddr_in6

datatype ai_family = AF_INET | AF_INET6 | AF_OTHER

record addrinfo =
  ai_family :: ai_family
  ai_addr :: sockaddr

text \<open>
  What the calls of one handler return: \<open>recv\<close> (\<open>None\<close> is -1, the empty list end of file),
  \<open>send\<close> (how many bytes it takes), the n-th \<open>malloc\<close>, the bytes of fresh memory, and so on.
\<close>

record io =
  io_recv :: "byte list option"
  io_send :: "nat option"
  io_malloc :: "nat \<Rightarrow> bool"
  io_request :: request
  io_substate :: parser_substate
  io_request_parser :: request_parser
  io_socket :: "nat option"
  io_set_nio :: bool
  io_connect :: errno
  io_so_error :: "errno option"
  io_accept :: "(nat \<times> sockaddr) option"
  io_pthread_create :: int
  io_register :: bool

datatype event =
    Sent nat "byte list"
  | Shut_rd int
  | Shut_wr int
  | Closed int
  | Spawned nat nat
  | Access_log nat sockaddr sockaddr byte

section \<open>Connections\<close>

record hello_st =
  hs_parser :: "hello_parser ptr"
  hs_method :: byte
  hs_ok :: bool

record userpass_st =
  us_parser :: "parser ptr"
  us_ok :: bool

record request_st =
  rs_parser :: "request_parser ptr"
  rs_addr_family :: byte
  rs_status :: byte

record mng_request_st =
  ms_parser :: "parser ptr"
  ms_status :: byte
  ms_index :: byte

datatype side = Client_side | Orig_side

datatype buffer_ref = Read_buffer | Write_buffer

record copy_st =
  cp_fd :: int
  cp_rb :: buffer_ref
  cp_wb :: buffer_ref
  cp_interest :: fd_interest
  cp_other :: side

record connecting =
  cn_client_fd :: int
  cn_origin_fd :: int
  cn_status :: byte

datatype client_union =
    Cl_zero | Cl_hello hello_st | Cl_userpass userpass_st | Cl_request request_st
  | Cl_mng mng_request_st | Cl_copy copy_st

datatype orig_union = Or_zero | Or_conn connecting | Or_copy copy_st

record socks5 =
  client_addr :: sockaddr
  client_fd :: int
  origin_resolution :: "addrinfo list ptr"
  origin_resolution_current :: "addrinfo list ptr"
  origin_addr :: sockaddr
  origin_addr_len :: nat
  origin_domain :: ai_family
  origin_fd :: int
  conn_current :: "nat option"
  error_state :: nat
  done_state :: nat
  isSocks :: bool
  client :: client_union
  orig :: orig_union
  read_buffer :: buffer
  write_buffer :: buffer
  references :: u32
  authentication :: byte
  userIndex :: nat
  password_parser :: password_parser

section \<open>The state of a handler\<close>

datatype handler_name = Socks5_handler | Mng_handler | Socks5_passive | Mng_passive

type_synonym fd_selector = "(handler_name, nat) fdselector"

record world =
  conns :: "nat \<Rightarrow> socks5 option"
  next_conn :: nat
  pool :: "nat list"
  pool_size :: nat
  mng_pool :: "nat list"
  mng_pool_size :: nat
  globs :: globals
  credentials_seen :: credential_log
  events :: "event list"
  io_script :: "nat \<Rightarrow> io"
  io_step :: nat

record ctx =
  key_fd :: nat
  key_data :: nat
  c_io :: io
  c_sel :: fd_selector
  c_world :: world

type_synonym state_fun = "ctx \<Rightarrow> (nat \<times> ctx) res"

definition conn :: "ctx \<Rightarrow> socks5 res" where
  "conn c = (case conns (c_world c) (key_data c) of None \<Rightarrow> Inl Undefined | Some d \<Rightarrow> Inr d)"

definition put_conn :: "socks5 \<Rightarrow> ctx \<Rightarrow> ctx" where
  "put_conn d c = c\<lparr>c_world := (c_world c)\<lparr>conns := (conns (c_world c))(key_data c \<mapsto> d)\<rparr>\<rparr>"

definition glob :: "ctx \<Rightarrow> globals" where
  "glob c = globs (c_world c)"

definition put_glob :: "globals \<Rightarrow> ctx \<Rightarrow> ctx" where
  "put_glob g c = c\<lparr>c_world := (c_world c)\<lparr>globs := g\<rparr>\<rparr>"

definition emit :: "event \<Rightarrow> ctx \<Rightarrow> ctx" where
  "emit e c = c\<lparr>c_world := (c_world c)\<lparr>events := events (c_world c) @ [e]\<rparr>\<rparr>"

definition set_interest_key :: "fd_interest \<Rightarrow> ctx \<Rightarrow> (selector_status \<times> ctx) res" where
  "set_interest_key i c =
     bind_res (selector_set_interest_key (c_sel c) (Some (int (key_fd c))) i)
       (\<lambda>(st, s). Inr (st, c\<lparr>c_sel := s\<rparr>))"

definition set_interest_fd :: "int \<Rightarrow> fd_interest \<Rightarrow> ctx \<Rightarrow> (selector_status \<times> ctx) res" where
  "set_interest_fd fd i c =
     bind_res (selector_set_interest (c_sel c) fd i) (\<lambda>(st, s). Inr (st, c\<lparr>c_sel := s\<rparr>))"

text \<open>
  \<open>recv\<close> into a buffer: its bytes are stored from the write pointer on, never more than the count
  it is given. \<open>None\<close> is a result of zero or -1.
\<close>

definition recv_bytes :: "io \<Rightarrow> nat \<Rightarrow> byte list option" where
  "recv_bytes i count =
     (case io_recv i of
        None \<Rightarrow> None
      | Some bs \<Rightarrow> if take count bs = [] then None else Some (take count bs))"

text \<open>\<open>send\<close> of the readable bytes of a buffer; \<open>None\<close> is -1.\<close>

definition send_bytes :: "io \<Rightarrow> byte list \<Rightarrow> byte list option" where
  "send_bytes i bs = (case io_send i of None \<Rightarrow> None | Some n \<Rightarrow> Some (take n bs))"

section \<open>Reading and writing the state of a connection\<close>

lemma conn_put_conn [simp]: "conn (put_conn d c) = Inr d"
  by (simp add: conn_def put_conn_def)

lemma put_conn_put_conn [simp]: "put_conn d (put_conn d' c) = put_conn d c"
  by (cases c; cases "c_world c") (simp add: put_conn_def)

lemma put_conn_same: "conn c = Inr d \<Longrightarrow> put_conn d c = c"
  by (cases c; cases "c_world c") (auto simp: put_conn_def conn_def fun_upd_idem split: option.splits)

lemma put_conn_simps [simp]:
  "key_fd (put_conn d c) = key_fd c" "key_data (put_conn d c) = key_data c"
  "c_io (put_conn d c) = c_io c" "c_sel (put_conn d c) = c_sel c"
  "glob (put_conn d c) = glob c"
  "events (c_world (put_conn d c)) = events (c_world c)"
  "credentials_seen (c_world (put_conn d c)) = credentials_seen (c_world c)"
  "(put_conn d c)\<lparr>c_sel := s\<rparr> = put_conn d (c\<lparr>c_sel := s\<rparr>)"
  by (simp_all add: put_conn_def glob_def)

lemma conn_simps [simp]:
  "conn (c\<lparr>c_sel := s\<rparr>) = conn c" "conn (put_glob g c) = conn c" "conn (emit e c) = conn c"
  by (simp_all add: conn_def put_glob_def emit_def)

lemma put_glob_simps [simp]:
  "glob (put_glob g c) = g" "key_fd (put_glob g c) = key_fd c"
  "key_data (put_glob g c) = key_data c" "c_io (put_glob g c) = c_io c"
  "c_sel (put_glob g c) = c_sel c" "events (c_world (put_glob g c)) = events (c_world c)"
  by (simp_all add: put_glob_def glob_def)

lemma emit_simps [simp]:
  "glob (emit e c) = glob c" "key_fd (emit e c) = key_fd c" "key_data (emit e c) = key_data c"
  "c_io (emit e c) = c_io c" "c_sel (emit e c) = c_sel c"
  "events (c_world (emit e c)) = events (c_world c) @ [e]"
  by (simp_all add: emit_def glob_def)

lemma c_sel_update_simps [simp]:
  "glob (c\<lparr>c_sel := s\<rparr>) = glob c" "(c\<lparr>c_sel := s\<rparr>)\<lparr>c_sel := s'\<rparr> = c\<lparr>c_sel := s'\<rparr>"
  by (simp_all add: glob_def)

text \<open>
  What the two calls on the selector keep, whatever they return: the selector's invariant and
  everything else.
\<close>

lemma set_interest_fd_Inr:
  assumes "selector_inv (c_sel c)" and "set_interest_fd fd i c = Inr (st, c')"
  shows "\<exists>s. c' = c\<lparr>c_sel := s\<rparr> \<and> selector_inv s \<and> fd_size s = fd_size (c_sel c) \<and>
    resolution_jobs s = resolution_jobs (c_sel c) \<and>
    registered s = (registered (c_sel c))(nat fd := registered s (nat fd)) \<and>
    (st = SELECTOR_SUCCESS \<and> 0 \<le> fd \<and> (\<exists>it. registered (c_sel c) (nat fd) = Some it \<and>
        registered s (nat fd) = Some (it\<lparr>it_interest := i\<rparr>))
     \<or> st = SELECTOR_IARGS \<and> s = c_sel c)"
proof -
  obtain s where s: "selector_set_interest (c_sel c) fd i = Inr (st, s)" "c' = c\<lparr>c_sel := s\<rparr>"
    using assms(2) by (auto simp: set_interest_fd_def)
  show ?thesis
  proof (cases "INVALID_FD fd \<or> registered (c_sel c) (nat fd) = None")
    case True
    then have "st = SELECTOR_IARGS \<and> s = c_sel c"
      using s(1) registered_def [of "c_sel c" "nat fd"]
      by (auto simp: selector_set_interest_def item_at_def split: if_splits ptr.splits)
    then show ?thesis using s(2) assms(1) by auto
  next
    case False
    then obtain it where it: "registered (c_sel c) (nat fd) = Some it" and fd: "0 \<le> fd"
      by (auto simp: INVALID_FD_def)
    obtain s' where "selector_set_interest (c_sel c) (int (nat fd)) i = Inr (SELECTOR_SUCCESS, s')"
      "selector_inv s'" "registered s' = (registered (c_sel c))(nat fd \<mapsto> it\<lparr>it_interest := i\<rparr>)"
      "resolution_jobs s' = resolution_jobs (c_sel c)" "fd_size s' = fd_size (c_sel c)"
      using assms(1) it by (rule selector_set_interest_spec)
    then show ?thesis using s fd it by auto
  qed
qed

lemma set_interest_key_fd:
  "set_interest_key i c = set_interest_fd (int (key_fd c)) i c"
  by (simp add: set_interest_key_def set_interest_fd_def selector_set_interest_key_def
      selector_set_interest_def)

end
