(* ===== verification/Handshake.thy ===== *)
theory Handshake
  imports Server
begin

text \<open>
  The states that every connection goes through first, SOCKS and management alike: the second
  half of \<open>src/hello.c\<close> and \<open>src/authentication.c\<close>. The handlers of both machines are the same
  functions, because the two enumerations give these states the same numbers.
\<close>

section \<open>The states\<close>

abbreviation (input) HELLO_READ :: nat where "HELLO_READ \<equiv> 0"
abbreviation (input) HELLO_WRITE :: nat where "HELLO_WRITE \<equiv> 1"
abbreviation (input) USERPASS_READ :: nat where "USERPASS_READ \<equiv> 2"
abbreviation (input) USERPASS_WRITE :: nat where "USERPASS_WRITE \<equiv> 3"
abbreviation (input) REQUEST_READ :: nat where "REQUEST_READ \<equiv> 4"
abbreviation (input) REQUEST_RESOLV :: nat where "REQUEST_RESOLV \<equiv> 5"
abbreviation (input) REQUEST_CONNECTING :: nat where "REQUEST_CONNECTING \<equiv> 6"
abbreviation (input) REQUEST_WRITE :: nat where "REQUEST_WRITE \<equiv> 7"
abbreviation (input) COPY :: nat where "COPY \<equiv> 8"
abbreviation (input) DONE :: nat where "DONE \<equiv> 9"
abbreviation (input) ERROR :: nat where "ERROR \<equiv> 10"

abbreviation (input) MNG_REQUEST_READ_INDEX :: nat where "MNG_REQUEST_READ_INDEX \<equiv> 4"
abbreviation (input) MNG_REQUEST_READ :: nat where "MNG_REQUEST_READ \<equiv> 5"
abbreviation (input) MNG_REQUEST_WRITE :: nat where "MNG_REQUEST_WRITE \<equiv> 6"
abbreviation (input) MNG_DONE :: nat where "MNG_DONE \<equiv> 7"
abbreviation (input) MNG_ERROR :: nat where "MNG_ERROR \<equiv> 8"

section \<open>Hello\<close>

text \<open>The members of the union as each state's handlers see them.\<close>

definition as_hello :: "client_union \<Rightarrow> hello_st res" where
  "as_hello u = (case u of Cl_hello h \<Rightarrow> Inr h | _ \<Rightarrow> Inl Undefined)"

definition as_userpass :: "client_union \<Rightarrow> userpass_st res" where
  "as_userpass u = (case u of Cl_userpass h \<Rightarrow> Inr h | _ \<Rightarrow> Inl Undefined)"

definition hello_read_init :: "nat \<Rightarrow> ctx \<Rightarrow> ctx res" where
  "hello_read_init st c =
     bind_res (conn c)
       (\<lambda>d. Inr (put_conn
          (d\<lparr>client := Cl_hello
             (if io_malloc (c_io c) 0 then
                \<lparr>hs_parser = Ptr (hello_parser_init
                   \<lparr>hp_on_authentication_method = Some On_hello_method,
                    hp_version = (if isSocks d then SOCKS_VERSION else MNG_VERSION),
                    hp_method = (if isSocks d then auth_method (glob c) else MNG_AUTH_METHOD),
                    hp_state = hello_version, hp_remaining = 0\<rparr>),
                 hs_method = 0xFF, hs_ok = True\<rparr>
              else \<lparr>hs_parser = Null, hs_method = 0xFF, hs_ok = False\<rparr>)\<rparr>) c))"

definition hello_process :: "byte \<Rightarrow> byte \<Rightarrow> buffer \<Rightarrow> (int \<times> buffer) res" where
  "hello_process m version wb =
     bind_res (hello_marshal wb m version)
       (\<lambda>(r, wb'). Inr (if r = -1 then -1 else int HELLO_WRITE, wb'))"

text \<open>The buffer after a \<open>recv\<close> of \<open>bs\<close> at its write pointer.\<close>

definition fill :: "buffer \<Rightarrow> byte list \<Rightarrow> buffer res" where
  "fill b bs = bind_res (buffer_poke b bs) (\<lambda>b'. buffer_write_adv b' (int (length bs)))"

definition hello_read :: state_fun where
  "hello_read c =
     bind_res (conn c)
       (\<lambda>d. bind_res (as_hello (client d))
         (\<lambda>h. if \<not> hs_ok h then Inr (error_state d, c)
           else bind_res (buffer_write_ptr (read_buffer d))
             (\<lambda>(ptr, count).
               case recv_bytes (c_io c) count of
                 None \<Rightarrow> Inr (error_state d, c)
               | Some bs \<Rightarrow>
                   bind_res (fill (read_buffer d) bs)
                     (\<lambda>rb. bind_res (deref (hs_parser h))
                       (\<lambda>p. bind_res (hello_consume rb (p, hs_method h) False)
                         (\<lambda>(rb', (p', m), st, err).
                           let d1 = d\<lparr>read_buffer := rb', client := Cl_hello
                                 (h\<lparr>hs_parser := Ptr p', hs_method := m\<rparr>)\<rparr>;
                               c1 = put_conn d1 c
                           in bind_res
                             (if fst (hello_is_done st False) then
                                bind_res (set_interest_key OP_WRITE c1)
                                  (\<lambda>(s, c2).
                                    if s = SELECTOR_SUCCESS then
                                      bind_res (hello_process m
                                          (if isSocks d1 then SOCKS_VERSION else MNG_VERSION)
                                          (write_buffer d1))
                                        (\<lambda>(r, wb).
                                          Inr (if r = -1 then error_state d else nat r,
                                               put_conn (d1\<lparr>write_buffer := wb\<rparr>) c2))
                                    else Inr (error_state d, c2))
                              else Inr (HELLO_READ, c1))
                             (\<lambda>(ret, c3). Inr (if err then error_state d else ret, c3))))))))"

definition hello_read_close :: "nat \<Rightarrow> ctx \<Rightarrow> ctx res" where
  "hello_read_close st c =
     bind_res (conn c)
       (\<lambda>d. bind_res (as_hello (client d))
         (\<lambda>h. if hs_parser h = Null then Inr c
           else bind_res (free_ptr (hs_parser h))
             (\<lambda>p. Inr (put_conn (d\<lparr>client := Cl_hello (h\<lparr>hs_parser := p\<rparr>)\<rparr>) c))))"

definition hello_write_init :: "nat \<Rightarrow> ctx \<Rightarrow> ctx res" where
  "hello_write_init st c = Inr c"

definition hello_write_close :: "nat \<Rightarrow> ctx \<Rightarrow> ctx res" where
  "hello_write_close st c = Inr c"

text \<open>
  \<open>send\<close> of what a buffer holds: the bytes taken by the kernel, and the buffer after
  \<open>buffer_read_adv\<close>; \<open>None\<close> when \<open>send\<close> fails.
\<close>

definition drain :: "ctx \<Rightarrow> buffer \<Rightarrow> (byte list \<times> buffer) option res" where
  "drain c b =
     bind_res (buffer_read_ptr b)
       (\<lambda>(ptr, count). bind_res (mem_load ptr count (buf_data b))
         (\<lambda>bs. case send_bytes (c_io c) bs of
            None \<Rightarrow> Inr None
          | Some sent \<Rightarrow>
              bind_res (buffer_read_adv b (int (length sent))) (\<lambda>b'. Inr (Some (sent, b')))))"

definition hello_write :: state_fun where
  "hello_write c =
     bind_res (conn c)
       (\<lambda>d. bind_res (as_hello (client d))
         (\<lambda>h. bind_res (drain c (write_buffer d))
           (\<lambda>r. case r of
              None \<Rightarrow> Inr (error_state d, c)
            | Some (sent, wb) \<Rightarrow>
                let c1 = emit (Sent (key_fd c) sent) (put_conn (d\<lparr>write_buffer := wb\<rparr>) c)
                in if buffer_can_read wb then Inr (HELLO_WRITE, c1)
                   else if hs_method h = METHOD_NO_ACCEPTABLE_METHODS then Inr (done_state d, c1)
                   else bind_res (set_interest_key OP_READ c1)
                     (\<lambda>(s, c2).
                       Inr (if s = SELECTOR_SUCCESS then
                              (if hs_method h = METHOD_USERNAME_PASSWORD then USERPASS_READ
                               else if hs_method h = METHOD_NO_AUTHENTICATION_REQUIRED
                                    then REQUEST_READ
                               else HELLO_WRITE)
                            else error_state d, c2)))))"

section \<open>Username and password\<close>

definition VERSION_ERROR :: byte where "VERSION_ERROR = 32"

definition checkVersion :: check where
  "checkVersion r n err =
     (if n \<noteq> 1 then Inr (False, VERSION_ERROR)
      else bind_res (first_byte r)
        (\<lambda>v. Inr (if v \<noteq> 0x01 then (False, VERSION_ERROR) else (True, err))))"

text \<open>
  The sub-states the \<open>*_init\<close> functions build, each in a fresh block of memory: one byte, checked
  or not, with its \<open>result\<close> allocated at once (and its second byte written, in the option
  requests); a length; and the field that follows it.
\<close>

datatype field = Byte_field "check option" "byte option" | Length_field | Long_field

definition byte_field :: "check option \<Rightarrow> byte option \<Rightarrow> parser_substate \<Rightarrow> parser_substate" where
  "byte_field chk nul m = m\<lparr>ps_state := long_read, ps_remaining := 1, ps_size := 1,
     ps_result := Ptr [None, nul], ps_check_function := chk\<rparr>"

definition length_field :: "parser_substate \<Rightarrow> parser_substate" where
  "length_field m = m\<lparr>ps_state := read_N\<rparr>"

definition long_field :: "parser_substate \<Rightarrow> parser_substate" where
  "long_field m = m\<lparr>ps_state := long_read, ps_result := Null, ps_check_function := None\<rparr>"

text \<open>
  \<open>substates_new ok m k fs\<close>: \<open>ok\<close> numbers the allocations, the next is \<open>k\<close>. Where one fails the
  code returns, and the rest of the array is whatever was in that memory.
\<close>

fun substates_new ::
  "(nat \<Rightarrow> bool) \<Rightarrow> parser_substate \<Rightarrow> nat \<Rightarrow> field list \<Rightarrow> parser_substate ptr list \<times> bool" where
  "substates_new ok m k [] = ([], True)"
| "substates_new ok m k (f # fs) =
     (if \<not> ok k then (Null # replicate (length fs) Dangling, False)
      else
        case f of
          Byte_field chk nul \<Rightarrow>
            (if \<not> ok (k + 1) then
               (Ptr (m\<lparr>ps_state := long_read, ps_remaining := 1, ps_size := 1, ps_result := Null\<rparr>)
                # replicate (length fs) Dangling, False)
             else (let (arr, b) = substates_new ok m (k + 2) fs in (Ptr (byte_field chk nul m) # arr, b)))
        | Length_field \<Rightarrow>
            (let (arr, b) = substates_new ok m (k + 1) fs in (Ptr (length_field m) # arr, b))
        | Long_field \<Rightarrow>
            (let (arr, b) = substates_new ok m (k + 1) fs in (Ptr (long_field m) # arr, b)))"

text \<open>The parser, its array, its sub-states, and then \<open>parser_init\<close>. The flag is the status.\<close>

definition parser_block :: "nat \<Rightarrow> parser_substate ptr list ptr \<Rightarrow> parser" where
  "parser_block n arr =
     \<lparr>pa_index = 0, pa_size = of_nat n, pa_current = error_read, pa_states = arr, pa_error = 0\<rparr>"

definition parser_new ::
  "(nat \<Rightarrow> bool) \<Rightarrow> parser_substate \<Rightarrow> field list \<Rightarrow> (parser ptr \<times> bool) res" where
  "parser_new ok m fs =
     (if \<not> ok 0 then Inr (Null, False)
      else if \<not> ok 1 then Inr (Ptr (parser_block (length fs) Null), False)
      else
        let (arr, good) = substates_new ok m 2 fs; p = parser_block (length fs) (Ptr arr)
        in if good then bind_res (parser_init p) (\<lambda>p'. Inr (Ptr p', True))
           else Inr (Ptr p, False))"

text \<open>
  The loop over the array that \<open>auth_read_close\<close>, \<open>mng_request_index_close\<close> and
  \<open>mng_request_close\<close> have in common.
\<close>

fun close_substates :: "parser_substate ptr list \<Rightarrow> nat list \<Rightarrow> unit res" where
  "close_substates arr [] = Inr ()"
| "close_substates arr (i # is) =
     (if i < length arr then
        bind_res
          (case arr ! i of
             Null \<Rightarrow> Inr ()
           | Dangling \<Rightarrow> Inl Undefined
           | Ptr s \<Rightarrow>
               if ps_state s = long_read \<and> ps_result s \<noteq> Null
               then bind_res (free_ptr (ps_result s)) (\<lambda>_. Inr ()) else Inr ())
          (\<lambda>_. close_substates arr is)
      else Inl Undefined)"

definition parser_close :: "parser ptr \<Rightarrow> parser ptr res" where
  "parser_close p =
     (case p of
        Null \<Rightarrow> Inr Null
      | Dangling \<Rightarrow> Inl Undefined
      | Ptr q \<Rightarrow>
          bind_res
            (case pa_states q of
               Null \<Rightarrow> Inr ()
             | Dangling \<Rightarrow> Inl Undefined
             | Ptr arr \<Rightarrow> close_substates arr [0..<unat (pa_size q)])
            (\<lambda>_. Inr Dangling))"

definition auth_fields :: "field list" where
  "auth_fields =
     [Byte_field (Some checkVersion) None, Length_field, Long_field, Length_field, Long_field]"

definition auth_read_init :: "nat \<Rightarrow> ctx \<Rightarrow> ctx res" where
  "auth_read_init st c =
     bind_res (conn c)
       (\<lambda>d. bind_res (parser_new (io_malloc (c_io c)) (io_substate (c_io c)) auth_fields)
         (\<lambda>(p, ok). Inr (put_conn (d\<lparr>client := Cl_userpass \<lparr>us_parser = p, us_ok = ok\<rparr>\<rparr>) c)))"

text \<open>\<open>d->parser->states[i]->result\<close>.\<close>

definition parser_result :: "parser \<Rightarrow> nat \<Rightarrow> byte option list ptr res" where
  "parser_result p i = bind_res (substate_at p i) (\<lambda>s. Inr (ps_result s))"

definition auth_process :: "userpass_st \<Rightarrow> ctx \<Rightarrow> (nat \<times> ctx) res" where
  "auth_process h c =
     bind_res (conn c)
       (\<lambda>d. bind_res (deref (us_parser h))
         (\<lambda>p. bind_res (parser_result p 2)
           (\<lambda>name. bind_res (parser_result p 4)
             (\<lambda>pass. bind_res
               (if isSocks d then
                  bind_res (checkCredentials (glob c) name pass)
                    (\<lambda>(r, i). Inr (d\<lparr>authentication := r,
                        userIndex := (case i of None \<Rightarrow> userIndex d | Some k \<Rightarrow> k)\<rparr>))
                else
                  bind_res (checkMngCredentials (glob c) name pass)
                    (\<lambda>r. Inr (d\<lparr>authentication := r\<rparr>)))
               (\<lambda>d1. let g = glob c
                    in Inr (USERPASS_WRITE,
                         put_conn d1 (put_glob (g\<lparr>metrics_historic_auth_attempts :=
                           metrics_historic_auth_attempts g + 1\<rparr>) c)))))))"

definition auth_read :: state_fun where
  "auth_read c =
     bind_res (conn c)
       (\<lambda>d. bind_res (as_userpass (client d))
         (\<lambda>h. if \<not> us_ok h then Inr (error_state d, c)
           else bind_res (buffer_write_ptr (read_buffer d))
             (\<lambda>(ptr, count).
               case recv_bytes (c_io c) count of
                 None \<Rightarrow> Inr (error_state d, c)
               | Some bs \<Rightarrow>
                   bind_res (fill (read_buffer d) bs)
                     (\<lambda>rb. bind_res (deref (us_parser h))
                       (\<lambda>p. bind_res (consume (io_malloc (c_io c) 0) rb p False)
                         (\<lambda>(rb', p', st, err).
                           let h1 = h\<lparr>us_parser := Ptr p'\<rparr>;
                               c1 = put_conn (d\<lparr>read_buffer := rb', client := Cl_userpass h1\<rparr>) c
                           in bind_res
                             (if fst (is_done st False) then
                                bind_res (set_interest_key OP_WRITE c1)
                                  (\<lambda>(s, c2). if s = SELECTOR_SUCCESS then auth_process h1 c2
                                     else Inr (error_state d, c2))
                              else Inr (USERPASS_READ, c1))
                             (\<lambda>(ret, c3). Inr (if err then error_state d else ret, c3))))))))"

definition auth_read_close :: "nat \<Rightarrow> ctx \<Rightarrow> ctx res" where
  "auth_read_close st c =
     bind_res (conn c)
       (\<lambda>d. bind_res (as_userpass (client d))
         (\<lambda>h. bind_res (parser_close (us_parser h))
           (\<lambda>p. Inr (put_conn (d\<lparr>client := Cl_userpass (h\<lparr>us_parser := p\<rparr>)\<rparr>) c))))"

definition auth_write_init :: "nat \<Rightarrow> ctx \<Rightarrow> ctx res" where
  "auth_write_init st c = Inr c"

definition auth_write_close :: "nat \<Rightarrow> ctx \<Rightarrow> ctx res" where
  "auth_write_close st c = Inr c"

definition auth_write :: state_fun where
  "auth_write c =
     bind_res (conn c)
       (\<lambda>d. bind_res (auth_reply (write_buffer d) (authentication d))
         (\<lambda>(_, wb0). bind_res (drain c wb0)
           (\<lambda>r. case r of
              None \<Rightarrow> Inr (error_state d, put_conn (d\<lparr>write_buffer := wb0\<rparr>) c)
            | Some (sent, wb) \<Rightarrow>
                let c1 = emit (Sent (key_fd c) sent) (put_conn (d\<lparr>write_buffer := wb\<rparr>) c)
                in if buffer_can_read wb then Inr (USERPASS_WRITE, c1)
                   else if authentication d \<noteq> 0x00 then Inr (done_state d, c1)
                   else bind_res (set_interest_key OP_READ c1)
                     (\<lambda>(s, c2). Inr (if s = SELECTOR_SUCCESS then REQUEST_READ
                                     else error_state d, c2)))))"

end
