(* ===== verification/Mng_Request.thy ===== *)
theory Mng_Request
  imports Handshake
begin

text \<open>
  \<open>src/management_request.c\<close>: the request states of a management connection, one byte that names
  the request and, for the requests that change the server, their arguments.
\<close>

section \<open>The code\<close>

definition mng_status_succeeded :: byte where "mng_status_succeeded = 0x00"
definition mng_status_server_error :: byte where "mng_status_server_error = 0x01"
definition mng_status_index_not_supported :: byte where "mng_status_index_not_supported = 0x02"
definition mng_status_max_users_reached :: byte where "mng_status_max_users_reached = 0x03"

lemmas mng_status_defs =
  mng_status_succeeded_def mng_status_server_error_def mng_status_index_not_supported_def
  mng_status_max_users_reached_def

definition as_mng :: "client_union \<Rightarrow> mng_request_st res" where
  "as_mng u = (case u of Cl_mng h \<Rightarrow> Inr h | _ \<Rightarrow> Inl Undefined)"

definition checkIndex :: check where
  "checkIndex r n err =
     bind_res (first_byte r)
       (\<lambda>i. Inr (if unat i \<le> 0x0D then (True, err) else (False, mng_status_index_not_supported)))"

definition store_mng :: "mng_request_st \<Rightarrow> ctx \<Rightarrow> ctx res" where
  "store_mng h c = bind_res (conn c) (\<lambda>d. Inr (put_conn (d\<lparr>client := Cl_mng h\<rparr>) c))"

text \<open>\<open>ms_index\<close> is not initialised here; it is written before it is read.\<close>

definition mng_request_index_init :: "nat \<Rightarrow> ctx \<Rightarrow> ctx res" where
  "mng_request_index_init st c =
     bind_res (parser_new (io_malloc (c_io c)) (io_substate (c_io c))
         [Byte_field (Some checkIndex) None])
       (\<lambda>(p, ok). store_mng \<lparr>ms_parser = p,
          ms_status = (if ok then mng_status_succeeded else mng_status_server_error),
          ms_index = 0\<rparr> c)"

definition write_status :: "byte \<Rightarrow> ctx \<Rightarrow> ctx res" where
  "write_status st c =
     bind_res (conn c)
       (\<lambda>d. bind_res (status_mng_marshal st (write_buffer d))
         (\<lambda>wb. Inr (put_conn (d\<lparr>write_buffer := wb\<rparr>) c)))"

definition interest_or_error :: "fd_interest \<Rightarrow> nat \<Rightarrow> state_fun" where
  "interest_or_error i ret c =
     bind_res (set_interest_key i c)
       (\<lambda>(s, c'). Inr (if s \<noteq> SELECTOR_SUCCESS then MNG_ERROR else ret, c'))"

definition reply_status :: "byte \<Rightarrow> state_fun" where
  "reply_status st c =
     bind_res (write_status st c) (interest_or_error OP_WRITE MNG_REQUEST_WRITE)"

definition index_reply :: "byte \<Rightarrow> globals \<Rightarrow> (buffer \<Rightarrow> buffer res) option" where
  "index_reply i g =
     (if i = 0x00 then Some supported_indexes_mng_request_marshall
      else if i = 0x01 then Some (list_users_mng_request_marshall g)
      else if i = 0x02 then Some (uint_mng_request_marshall (ucast (metrics_historic_connections g)))
      else if i = 0x03 then Some (uint_mng_request_marshall (ucast (metrics_concurrent_connections g)))
      else if i = 0x04
        then Some (uint_mng_request_marshall (ucast (metrics_max_concurrent_connections g)))
      else if i = 0x05 then Some (uint_mng_request_marshall (ucast (metrics_historic_byte_transfer g)))
      else if i = 0x06 then Some (uint_mng_request_marshall (ucast (metrics_historic_auth_attempts g)))
      else if i = 0x07
        then Some (uint_mng_request_marshall (ucast (metrics_historic_connections_attempts g)))
      else if i = 0x08
        then Some (uint_mng_request_marshall (ucast (metrics_average_bytes_per_read g)))
      else if i = 0x09
        then Some (uint_mng_request_marshall (ucast (metrics_average_bytes_per_write g)))
      else None)"

definition process_mng_index :: "byte \<Rightarrow> state_fun" where
  "process_mng_index i c =
     (case index_reply i (glob c) of
        Some f \<Rightarrow>
          bind_res (conn c)
            (\<lambda>d. bind_res (f (write_buffer d))
              (\<lambda>wb. Inr (MNG_REQUEST_WRITE, put_conn (d\<lparr>write_buffer := wb\<rparr>) c)))
      | None \<Rightarrow>
          Inr (if i = 0x0A \<or> i = 0x0B \<or> i = 0x0C \<or> i = 0x0D then MNG_REQUEST_READ
               else MNG_ERROR, c))"

definition mng_request_index_read :: state_fun where
  "mng_request_index_read c =
     bind_res (conn c)
       (\<lambda>d. bind_res (as_mng (client d))
         (\<lambda>h. if ms_status h \<noteq> mng_status_succeeded then reply_status (ms_status h) c
           else bind_res (buffer_write_ptr (read_buffer d))
             (\<lambda>(ptr, count).
               if count \<le> 0 then
                 bind_res (store_mng (h\<lparr>ms_status := mng_status_server_error\<rparr>) c)
                   (reply_status mng_status_server_error)
               else
                 case recv_bytes (c_io c) 1 of
                   None \<Rightarrow> Inr (MNG_ERROR, c)
                 | Some bs \<Rightarrow>
                     bind_res (fill (read_buffer d) bs)
                       (\<lambda>rb. bind_res (deref (ms_parser h))
                         (\<lambda>p. bind_res (consume (io_malloc (c_io c) 0) rb p False)
                           (\<lambda>(rb', p', st, err).
                             let h1 = h\<lparr>ms_parser := Ptr p'\<rparr>;
                                 c1 = put_conn (d\<lparr>read_buffer := rb', client := Cl_mng h1\<rparr>) c
                             in if \<not> fst (is_done st False) then Inr (MNG_REQUEST_READ_INDEX, c1)
                                else if err then
                                  bind_res (store_mng
                                      (h1\<lparr>ms_status := mng_status_index_not_supported\<rparr>) c1)
                                    (reply_status mng_status_index_not_supported)
                                else
                                  bind_res (bind_res (parser_result p' 0) first_byte)
                                    (\<lambda>i. bind_res (store_mng (h1\<lparr>ms_index := i\<rparr>) c1)
                                      (\<lambda>c2. bind_res (process_mng_index i c2)
                                        (\<lambda>(ret, c3).
                                          if ret = MNG_REQUEST_WRITE
                                          then interest_or_error OP_WRITE ret c3
                                          else if ret = MNG_REQUEST_READ
                                          then interest_or_error OP_READ ret c3
                                          else Inr (ret, c3))))))))))"

text \<open>Both close functions are this one.\<close>

definition mng_request_close :: "nat \<Rightarrow> ctx \<Rightarrow> ctx res" where
  "mng_request_close st c =
     bind_res (conn c)
       (\<lambda>d. bind_res (as_mng (client d))
         (\<lambda>h. bind_res (parser_close (ms_parser h))
           (\<lambda>p. Inr (put_conn (d\<lparr>client := Cl_mng (h\<lparr>ms_parser := p\<rparr>)\<rparr>) c))))"

definition mng_request_index_close :: "nat \<Rightarrow> ctx \<Rightarrow> ctx res" where
  "mng_request_index_close = mng_request_close"

definition mng_request_index_add_user_parser_init ::
  "(nat \<Rightarrow> bool) \<Rightarrow> parser_substate \<Rightarrow> (parser ptr \<times> bool) res" where
  "mng_request_index_add_user_parser_init ok m =
     parser_new ok m [Length_field, Long_field, Length_field, Long_field]"

definition mng_request_index_delete_user_parser_init ::
  "(nat \<Rightarrow> bool) \<Rightarrow> parser_substate \<Rightarrow> (parser ptr \<times> bool) res" where
  "mng_request_index_delete_user_parser_init ok m = parser_new ok m [Length_field, Long_field]"

definition mng_request_index_yes_no_value ::
  "(nat \<Rightarrow> bool) \<Rightarrow> parser_substate \<Rightarrow> (parser ptr \<times> bool) res" where
  "mng_request_index_yes_no_value ok m = parser_new ok m [Byte_field None (Some 0)]"

definition mng_request_init :: "nat \<Rightarrow> ctx \<Rightarrow> ctx res" where
  "mng_request_init st c =
     bind_res (conn c)
       (\<lambda>d. bind_res (as_mng (client d))
         (\<lambda>h. bind_res
           (let ok = io_malloc (c_io c); m = io_substate (c_io c); i = ms_index h
            in if i = 0x0A then mng_request_index_add_user_parser_init ok m
               else if i = 0x0B then mng_request_index_delete_user_parser_init ok m
               else if i = 0x0C \<or> i = 0x0D then mng_request_index_yes_no_value ok m
               else Inl Aborted)
           (\<lambda>(p, ok). store_mng (h\<lparr>ms_parser := p,
              ms_status := (if ok then mng_status_succeeded else mng_status_server_error)\<rparr>) c)))"

text \<open>The fields of the parser of each index, and the initialization in terms of them.\<close>

definition mng_request_fields :: "byte \<Rightarrow> field list option" where
  "mng_request_fields i =
     (if i = 0x0A then Some [Length_field, Long_field, Length_field, Long_field]
      else if i = 0x0B then Some [Length_field, Long_field]
      else if i = 0x0C \<or> i = 0x0D then Some [Byte_field None (Some 0)]
      else None)"

lemma mng_request_init_fields:
  "mng_request_init st c =
     bind_res (conn c)
       (\<lambda>d. bind_res (as_mng (client d))
         (\<lambda>h. case mng_request_fields (ms_index h) of
            None \<Rightarrow> Inl Aborted
          | Some fs \<Rightarrow>
              bind_res (parser_new (io_malloc (c_io c)) (io_substate (c_io c)) fs)
                (\<lambda>(p, ok). store_mng (h\<lparr>ms_parser := p,
                   ms_status := (if ok then mng_status_succeeded else mng_status_server_error)\<rparr>) c)))"
  unfolding mng_request_init_def
  by (intro arg_cong2 [of _ _ _ _ bind_res] refl ext)
    (simp add: mng_request_fields_def mng_request_index_add_user_parser_init_def
      mng_request_index_delete_user_parser_init_def mng_request_index_yes_no_value_def Let_def)

definition process_mng_params_request :: "byte \<Rightarrow> parser \<Rightarrow> ctx \<Rightarrow> ctx res" where
  "process_mng_params_request i p c =
     (if i = 0x0A then
        (if nusers (glob c) = MAX_USERS then write_status mng_status_max_users_reached c
         else bind_res (parser_result p 1)
           (\<lambda>name. bind_res (parser_result p 3)
             (\<lambda>pass. bind_res (addUser (io_malloc (c_io c) 1) (io_malloc (c_io c) 2) (glob c) name pass)
               (\<lambda>g. write_status mng_status_succeeded (put_glob g c)))))
      else if i = 0x0B then
        bind_res (parser_result p 1)
          (\<lambda>name. bind_res (deleteUser (glob c) name)
            (\<lambda>g. write_status mng_status_succeeded (put_glob g c)))
      else if i = 0x0C then
        bind_res (parser_result p 0)
          (\<lambda>opt. bind_res (disableAuth (glob c) opt)
            (\<lambda>g. write_status mng_status_succeeded (put_glob g c)))
      else if i = 0x0D then
        bind_res (parser_result p 0)
          (\<lambda>opt. bind_res (disablePasswordDissectors (glob c) opt)
            (\<lambda>g. write_status mng_status_succeeded (put_glob g c)))
      else write_status mng_status_server_error c)"

definition mng_request_read :: state_fun where
  "mng_request_read c =
     bind_res (conn c)
       (\<lambda>d. bind_res (as_mng (client d))
         (\<lambda>h. if ms_status h \<noteq> mng_status_succeeded then reply_status (ms_status h) c
           else bind_res (buffer_write_ptr (read_buffer d))
             (\<lambda>(ptr, count).
               case recv_bytes (c_io c) count of
                 None \<Rightarrow> Inr (MNG_ERROR, c)
               | Some bs \<Rightarrow>
                   bind_res (fill (read_buffer d) bs)
                     (\<lambda>rb. bind_res (deref (ms_parser h))
                       (\<lambda>p. bind_res (consume (io_malloc (c_io c) 0) rb p False)
                         (\<lambda>(rb', p', st, err).
                           let c1 = put_conn (d\<lparr>read_buffer := rb',
                                 client := Cl_mng (h\<lparr>ms_parser := Ptr p'\<rparr>)\<rparr>) c
                           in if \<not> fst (is_done st False) then Inr (MNG_REQUEST_READ, c1)
                              else bind_res (set_interest_key OP_WRITE c1)
                                (\<lambda>(s, c2).
                                  if s \<noteq> SELECTOR_SUCCESS \<or> err then Inr (MNG_ERROR, c2)
                                  else bind_res (process_mng_params_request (ms_index h) p' c2)
                                    (\<lambda>c3. Inr (MNG_REQUEST_WRITE, c3)))))))))"

definition mng_request_write_init :: "nat \<Rightarrow> ctx \<Rightarrow> ctx res" where
  "mng_request_write_init st c = Inr c"

definition mng_request_write_close :: "nat \<Rightarrow> ctx \<Rightarrow> ctx res" where
  "mng_request_write_close st c = Inr c"

definition mng_request_write :: state_fun where
  "mng_request_write c =
     bind_res (conn c)
       (\<lambda>d. bind_res (as_mng (client d))
         (\<lambda>h. bind_res (drain c (write_buffer d))
           (\<lambda>r. case r of
              None \<Rightarrow> Inr (MNG_ERROR, c)
            | Some (sent, wb) \<Rightarrow>
                let c1 = emit (Sent (key_fd c) sent) (put_conn (d\<lparr>write_buffer := wb\<rparr>) c)
                in Inr (if buffer_can_read wb then MNG_REQUEST_WRITE else MNG_DONE, c1))))"

end
