(* ===== verification/Client.thy ===== *)
theory Client
  imports Mng_Request
begin

text \<open>
  \<open>src/client.c\<close> and \<open>src/client_utils.c\<close>: the management client. It connects, negotiates, logs in,
  sends one request read from its standard input, prints the reply and ends.

  A local array is a list of cells, \<open>None\<close> where nothing was written yet; reading such a cell, or any
  cell outside the array, is undefined. What the outside does is in the state: the bytes still on the
  standard input, the results of the calls of \<open>recv\<close> and of \<open>send\<close> to come. A line printed is recorded
  without its line end. A number written to the file of option \<open>-f\<close> is recorded too.
\<close>

section \<open>State\<close>

datatype line =
    Out string
  | Err string
  | Out_number string u32
  | Out_index int
  | Out_user "byte list"

record client_io =
  ci_stdin :: "byte list"
  ci_replies :: "byte list option list"
  ci_sends :: "int list"
  ci_sent :: "byte list list"
  ci_out :: "line list"
  ci_append :: "u32 list option"

text \<open>\<open>struct user\<close>: it comes from \<open>malloc\<close>, so without option \<open>-u\<close> its fields are indeterminate.\<close>

record cl_user =
  cu_username :: "byte list ptr"
  cu_password :: "byte list ptr"
  cu_credentials :: "bool option"

definition say :: "line \<Rightarrow> client_io \<Rightarrow> client_io" where
  "say l w = w\<lparr>ci_out := ci_out w @ [l]\<rparr>"

definition load_init :: "nat \<Rightarrow> nat \<Rightarrow> byte option list \<Rightarrow> byte list res" where
  "load_init off n mem =
     bind_res (mem_load off n mem)
       (\<lambda>cells. if None \<in> set cells then Inl Undefined else Inr (map the cells))"

definition load_byte :: "nat \<Rightarrow> byte option list \<Rightarrow> byte res" where
  "load_byte off mem = bind_res (load_init off 1 mem) (\<lambda>bs. Inr (hd bs))"

definition store_bytes :: "nat \<Rightarrow> byte list \<Rightarrow> byte option list \<Rightarrow> byte option list res" where
  "store_bytes off bs = mem_store off (map Some bs)"

definition strcpy :: "nat \<Rightarrow> byte list \<Rightarrow> byte option list \<Rightarrow> byte option list res" where
  "strcpy off s = store_bytes off (s @ [0])"

section \<open>The library\<close>

text \<open>\<open>send\<close> of \<open>n\<close> bytes of an array: the next result, -1 when none is left.\<close>

definition sock_send :: "byte option list \<Rightarrow> nat \<Rightarrow> client_io \<Rightarrow> (int \<times> client_io) res" where
  "sock_send mem n w =
     bind_res (load_init 0 n mem)
       (\<lambda>bs. Inr (case ci_sends w of
            [] \<Rightarrow> (-1, w\<lparr>ci_sent := ci_sent w @ [bs]\<rparr>)
          | r # rs \<Rightarrow> (r, w\<lparr>ci_sent := ci_sent w @ [bs], ci_sends := rs\<rparr>)))"

text \<open>
  \<open>recv\<close> of at most \<open>n\<close> bytes: an error, or bytes of the stream (what does not fit is left for the next
  call), or 0 when the peer has closed.
\<close>

definition sock_recv :: "byte option list \<Rightarrow> nat \<Rightarrow> client_io \<Rightarrow> (int \<times> byte option list \<times> client_io) res" where
  "sock_recv mem n w =
     (case ci_replies w of
        [] \<Rightarrow> Inr (0, mem, w)
      | None # rs \<Rightarrow> Inr (-1, mem, w\<lparr>ci_replies := rs\<rparr>)
      | Some bs # rs \<Rightarrow>
          bind_res (store_bytes 0 (take n bs) mem)
            (\<lambda>mem'. Inr (int (length (take n bs)), mem',
               w\<lparr>ci_replies := (if length bs \<le> n then rs else Some (drop n bs) # rs)\<rparr>)))"

definition isspace :: "byte \<Rightarrow> bool" where
  "isspace c \<longleftrightarrow> c = 0x20 \<or> 0x09 \<le> c \<and> c \<le> 0x0D"

definition isdigit :: "byte \<Rightarrow> bool" where
  "isdigit c \<longleftrightarrow> 0x30 \<le> c \<and> c \<le> 0x39"

text \<open>The C locale: every byte above 127 is left alone.\<close>

definition tolower :: "byte \<Rightarrow> byte" where
  "tolower c = (if 0x41 \<le> c \<and> c \<le> 0x5A then c + 0x20 else c)"

text \<open>\<open>scanf("%s", mem)\<close>: at the end of the input nothing is stored.\<close>

definition scan_word :: "byte option list \<Rightarrow> client_io \<Rightarrow> (byte option list \<times> client_io) res" where
  "scan_word mem w =
     (let s = dropWhile isspace (ci_stdin w); u = takeWhile (\<lambda>c. \<not> isspace c) s;
          w' = w\<lparr>ci_stdin := drop (length u) s\<rparr>
      in if u = [] then Inr (mem, w') else bind_res (strcpy 0 u mem) (\<lambda>mem'. Inr (mem', w')))"

text \<open>
  \<open>scanf("%d", p)\<close>: \<open>None\<close> when \<open>*p\<close> is not assigned; a number that no \<open>int\<close> can hold is undefined.
\<close>

fun digits_value :: "int \<Rightarrow> byte list \<Rightarrow> int" where
  "digits_value n [] = n"
| "digits_value n (c # cs) = digits_value (10 * n + (uint c - 0x30)) cs"

definition scan_int :: "client_io \<Rightarrow> (int option \<times> client_io) res" where
  "scan_int w =
     (let s = dropWhile isspace (ci_stdin w);
          neg = (s \<noteq> [] \<and> hd s = 0x2D);
          s1 = (if s \<noteq> [] \<and> (hd s = 0x2D \<or> hd s = 0x2B) then tl s else s);
          ds = takeWhile isdigit s1;
          v = (if neg then - digits_value 0 ds else digits_value 0 ds)
      in if ds = [] then Inr (None, w\<lparr>ci_stdin := s1\<rparr>)
         else if v < - (2 ^ 31) \<or> 2 ^ 31 \<le> v then Inl Undefined
         else Inr (Some v, w\<lparr>ci_stdin := drop (length ds) s1\<rparr>))"

text \<open>\<open>strncpy\<close>: the \<open>n\<close> bytes it stores.\<close>

fun strncpy_bytes :: "nat \<Rightarrow> byte option list \<Rightarrow> byte list res" where
  "strncpy_bytes 0 mem = Inr []"
| "strncpy_bytes (Suc n) [] = Inl Undefined"
| "strncpy_bytes (Suc n) (None # mem) = Inl Undefined"
| "strncpy_bytes (Suc n) (Some c # mem) =
     (if c = 0 then Inr (replicate (Suc n) 0)
      else bind_res (strncpy_bytes n mem) (\<lambda>bs. Inr (c # bs)))"

section \<open>Negotiation and credentials\<close>

definition handshake :: "cl_user \<Rightarrow> client_io \<Rightarrow> (int \<times> client_io) res" where
  "handshake u w =
     (case cu_credentials u of
        None \<Rightarrow> Inl Undefined
      | Some True \<Rightarrow>
          bind_res (store_bytes 0 [0x01, 0x02, 0x00, 0x02] (replicate 4 None))
            (\<lambda>mem. sock_send mem 4 w)
      | Some False \<Rightarrow>
          bind_res (store_bytes 0 [0x01, 0x01, 0x00] (replicate 4 None))
            (\<lambda>mem. sock_send mem 3 w))"

text \<open>Both answers are read alike: the second byte of two, 255 when two did not come.\<close>

definition two_byte_response :: "string \<Rightarrow> client_io \<Rightarrow> (byte \<times> client_io) res" where
  "two_byte_response msg w =
     bind_res (sock_recv (replicate 2 None) 2 w)
       (\<lambda>(n, mem, w'). if n \<noteq> 2 then Inr (0xFF, say (Err msg) w')
          else bind_res (load_byte 1 mem) (\<lambda>b. Inr (b, w')))"

definition handshake_response :: "client_io \<Rightarrow> (byte \<times> client_io) res" where
  "handshake_response = two_byte_response ''Error: handshake_response failed''"

definition credentials_response :: "client_io \<Rightarrow> (byte \<times> client_io) res" where
  "credentials_response = two_byte_response ''Error: credentials_response failed''"

definition send_credentials :: "cl_user \<Rightarrow> client_io \<Rightarrow> (int \<times> client_io) res" where
  "send_credentials u w =
     bind_res (deref (cu_username u))
       (\<lambda>name. bind_res (deref (cu_password u))
         (\<lambda>pass.
           let userlen = length name; passlen = length pass
           in bind_res (store_bytes 0 [0x01, of_nat userlen] (replicate 510 None))
             (\<lambda>m1. bind_res (strcpy 2 name m1)
               (\<lambda>m2. bind_res (store_bytes (2 + userlen) [of_nat passlen] m2)
                 (\<lambda>m3. bind_res (strcpy (3 + userlen) pass m3)
                   (\<lambda>m4. sock_send m4 (userlen + passlen + 3) w))))))"

section \<open>Requests\<close>

text \<open>
  The builders work on the array of \<open>send_request\<close>, and return the number of bytes to send and the
  array.
\<close>

definition add_user :: "byte option list \<Rightarrow> client_io \<Rightarrow> (int \<times> byte option list \<times> client_io) res" where
  "add_user buf w =
     bind_res (scan_word (replicate 255 None) (say (Out ''Enter new username: '') w))
       (\<lambda>(umem, w1). bind_res (c_string umem)
         (\<lambda>u. bind_res (scan_word (replicate 255 None) (say (Out ''Enter new password: '') w1))
           (\<lambda>(pmem, w2). bind_res (c_string pmem)
             (\<lambda>p. let nusername = length u; npassword = length p
               in bind_res (store_bytes 1 [of_nat nusername] buf)
                 (\<lambda>b1. bind_res (strcpy 2 u b1)
                   (\<lambda>b2. bind_res (store_bytes (nusername + 2) [of_nat npassword] b2)
                     (\<lambda>b3. bind_res (strcpy (nusername + 3) p b3)
                       (\<lambda>b4. Inr (int (nusername + npassword + 3), b4, w2)))))))))"

definition delete_user :: "byte option list \<Rightarrow> client_io \<Rightarrow> (int \<times> byte option list \<times> client_io) res" where
  "delete_user buf w =
     bind_res (scan_word (replicate 255 None) (say (Out ''Enter username to delete: '') w))
       (\<lambda>(umem, w1). bind_res (c_string umem)
         (\<lambda>u. bind_res (store_bytes 1 [of_nat (length u)] buf)
           (\<lambda>b1. bind_res (strcpy 2 u b1)
             (\<lambda>b2. Inr (int (length u + 2), b2, w1)))))"

definition disable_enable ::
  "byte option list \<Rightarrow> string \<Rightarrow> client_io \<Rightarrow> (int \<times> byte option list \<times> client_io) res" where
  "disable_enable buf msg w =
     bind_res (scan_word (replicate 50 None) (say (Out msg) w))
       (\<lambda>(mem, w1). bind_res (c_string mem)
         (\<lambda>s. let t = List.map tolower s
           in if t = bytes_of ''on'' then
                bind_res (store_bytes 1 [0x00] buf) (\<lambda>b. Inr (2, b, w1))
              else if t = bytes_of ''off'' then
                bind_res (store_bytes 1 [0x01] buf) (\<lambda>b. Inr (2, b, w1))
              else Inr (-1, buf, say (Err ''Invalid option'') w1)))"

definition build_request :: "int \<Rightarrow> client_io \<Rightarrow> (int \<times> byte option list \<times> client_io) res" where
  "build_request i w =
     bind_res (store_bytes 0 [if 0 \<le> i \<and> i \<le> 13 then of_int i else 0xFF] (replicate 512 None))
       (\<lambda>buf. if i = 10 then add_user buf w
          else if i = 11 then delete_user buf w
          else if i = 12 then disable_enable buf ''Turn on/off authentication: '' w
          else if i = 13 then disable_enable buf ''Turn on/off password dissectors: '' w
          else Inr (1, buf, w))"

text \<open>The result of the request, and the index in \<open>*index\<close>.\<close>

definition send_request :: "client_io \<Rightarrow> (int \<times> int \<times> client_io) res" where
  "send_request w =
     bind_res (scan_int (say (Out ''Enter index request: '') w))
       (\<lambda>(index, w1). case index of
          None \<Rightarrow> Inl Undefined
        | Some i \<Rightarrow>
            bind_res (build_request i w1)
              (\<lambda>(n, buf, w2). if n < 0 then Inr (-1, i, w2)
                 else bind_res (sock_send buf (nat n) w2) (\<lambda>(r, w3). Inr (r, i, w3))))"

section \<open>Replies\<close>

fun supported_from :: "byte option list \<Rightarrow> nat list \<Rightarrow> client_io \<Rightarrow> client_io res" where
  "supported_from buf [] w = Inr w"
| "supported_from buf (i # is) w =
     bind_res (load_byte (2 + i) buf) (\<lambda>b. supported_from buf is (say (Out_index (sint b)) w))"

definition supported_indexes :: "byte option list \<Rightarrow> client_io \<Rightarrow> client_io res" where
  "supported_indexes buf w =
     bind_res (load_byte 1 buf) (\<lambda>b. supported_from buf [0..<unat b] w)"

text \<open>\<open>n\<close> users still to print, at \<open>index\<close>; \<open>aux\<close> is the array they are copied to.\<close>

fun list_from :: "byte option list \<Rightarrow> nat \<Rightarrow> nat \<Rightarrow> byte option list \<Rightarrow> client_io \<Rightarrow> client_io res" where
  "list_from buf 0 index aux w = Inr w"
| "list_from buf (Suc n) index aux w =
     bind_res (load_byte index buf)
       (\<lambda>len. let user_len = unat len in
         bind_res (strncpy_bytes user_len (drop (index + 1) buf))
           (\<lambda>bs. bind_res (store_bytes 0 (bs @ [0]) aux)
             (\<lambda>aux'. bind_res (c_string aux')
               (\<lambda>u. list_from buf n (index + 1 + user_len) aux' (say (Out_user u) w)))))"

definition list_users :: "byte option list \<Rightarrow> client_io \<Rightarrow> client_io res" where
  "list_users buf w =
     bind_res (load_byte 1 buf) (\<lambda>b. list_from buf (unat b) 2 (replicate 256 None) w)"

definition cast_uint32 :: "byte option list \<Rightarrow> u32 res" where
  "cast_uint32 buf =
     bind_res (load_init 1 4 buf)
       (\<lambda>v4. Inr (ucast (v4 ! 0) OR push_bit 8 (ucast (v4 ! 1)) OR push_bit 16 (ucast (v4 ! 2))
          OR push_bit 24 (ucast (v4 ! 3))))"

definition number_text :: "int \<Rightarrow> string" where
  "number_text i =
     (if i = 2 then ''Amount of historic connections to the server: ''
      else if i = 3 then ''Amount of actual concurrent connections to the server: ''
      else if i = 4 then ''Max concurrent connections to the server: ''
      else if i = 5 then ''Amount of historic byte transferred by the server: ''
      else if i = 6 then ''Amount of historic authentication attempts to the server: ''
      else if i = 7 then ''Amount of historic connections attempts to the server: ''
      else if i = 8 then ''Average bytes per single server read: ''
      else ''Average bytes per single server write: '')"

definition done_text :: "int \<Rightarrow> string" where
  "done_text i =
     (if i = 10 then ''Added user successfully''
      else if i = 11 then ''Deleted user successfully''
      else if i = 12 then ''Disabled/enabled server authentication successfully''
      else ''Disabled/enabled password dissectors successfully'')"

definition say_failure :: "byte \<Rightarrow> client_io \<Rightarrow> client_io" where
  "say_failure status w =
     (if status = mng_status_index_not_supported then say (Err ''Index not supported'') w
      else if status = mng_status_server_error then say (Err ''Server error'') w
      else if status = mng_status_max_users_reached then say (Err ''Max users reached'') w
      else w)"

text \<open>The switch on the index: the state after printing, and \<open>stats\<close> when it was assigned.\<close>

definition print_reply :: "int \<Rightarrow> byte option list \<Rightarrow> client_io \<Rightarrow> (u32 option \<times> client_io) res option" where
  "print_reply i buf w =
     (if i = 0 then Some (bind_res (supported_indexes buf w) (\<lambda>w'. Inr (None, w')))
      else if i = 1 then
        Some (bind_res (list_users buf (say (Out ''List of active users on the server'') w))
          (\<lambda>w'. Inr (None, w')))
      else if 2 \<le> i \<and> i \<le> 9 then
        Some (bind_res (cast_uint32 buf) (\<lambda>v. Inr (Some v, say (Out_number (number_text i) v) w)))
      else if 10 \<le> i \<and> i \<le> 13 then Some (Inr (None, say (Out (done_text i)) w))
      else None)"

definition request_response :: "int \<Rightarrow> client_io \<Rightarrow> (int \<times> client_io) res" where
  "request_response req_index w =
     bind_res (sock_recv (replicate 500 None) 500 w)
       (\<lambda>(_, buf, w1). bind_res (load_byte 0 buf)
         (\<lambda>status. if status \<noteq> 0x00 then Inr (-1, say_failure status w1)
            else case print_reply req_index buf w1 of
              None \<Rightarrow> Inr (-1, w1)
            | Some r \<Rightarrow> bind_res r
                (\<lambda>(stats, w2). case ci_append w2 of
                   None \<Rightarrow> Inr (0, w2)
                 | Some out \<Rightarrow>
                     (case stats of
                        None \<Rightarrow> Inl Undefined
                      | Some v \<Rightarrow> Inr (0, w2\<lparr>ci_append := Some (out @ [v])\<rparr>)))))"

section \<open>A session\<close>

text \<open>
  \<open>main\<close> once the arguments are parsed, the file of option \<open>-f\<close> is open and the socket exists:
  \<open>connected\<close> is the outcome of \<open>connect\<close>. Every way out ends in \<open>return 0\<close>.
\<close>

definition client_session :: "cl_user \<Rightarrow> bool \<Rightarrow> client_io \<Rightarrow> client_io res" where
  "client_session u connected w =
     (if \<not> connected then Inr w
      else bind_res (handshake u w)
        (\<lambda>(ret, w1). if ret < 0 then Inr (say (Out ''Error in sending handshake'') w1)
          else bind_res (handshake_response w1)
            (\<lambda>(response, w2). if response = 0xFF then Inr (say (Out ''Error in handshake response'') w2)
              else bind_res (if response = 0x02 then send_credentials u w2 else Inr (0, w2))
                (\<lambda>(sent, w3). if sent < 0 then Inr (say (Out ''Error sending credentials'') w3)
                  else bind_res (credentials_response w3)
                    (\<lambda>(r, w4). if r \<noteq> 0x00 then Inr (say (Out ''Error on user authentication.'') w4)
                      else bind_res (send_request w4)
                        (\<lambda>(n, i, w5). if n < 0 then Inr w5
                          else bind_res (request_response i w5) (\<lambda>(_, w6). Inr w6)))))))"

end
