(* ===== verification/Connect.thy ===== *)
theory Connect
  imports Handshake
begin

text \<open>
  From the SOCKS request to the established connection: the handlers of \<open>src/request.c\<close>,
  \<open>src/resolv.c\<close> and \<open>src/connecting.c\<close>, with the reference counting of \<open>src/socks5nio.c\<close> and
  \<open>src/management.c\<close> that closing a descriptor goes through. \<open>request_resolv_blocking\<close> runs in a
  thread of its own while the connection rests in \<open>REQUEST_RESOLV\<close>; here it is a step of its own,
  and \<open>getaddrinfo\<close> a function from a name and a port to addresses.
\<close>

section \<open>References\<close>

definition max_pool :: nat where "max_pool = 50"

definition socks5_destroy :: "nat option \<Rightarrow> world \<Rightarrow> world res" where
  "socks5_destroy s w =
     (case s of
        None \<Rightarrow> Inr w
      | Some i \<Rightarrow>
          (case conns w i of
             None \<Rightarrow> Inl Undefined
           | Some d \<Rightarrow>
               Inr (if references d = 1 then
                      (if pool_size w < max_pool
                       then w\<lparr>pool := i # pool w, pool_size := pool_size w + 1\<rparr>
                       else w\<lparr>conns := (conns w)(i := None)\<rparr>)
                    else w\<lparr>conns := (conns w)(i \<mapsto> d\<lparr>references := references d - 1\<rparr>)\<rparr>)))"

definition mng_destroy :: "nat option \<Rightarrow> world \<Rightarrow> world res" where
  "mng_destroy s w =
     (case s of
        None \<Rightarrow> Inr w
      | Some i \<Rightarrow>
          (case conns w i of
             None \<Rightarrow> Inl Undefined
           | Some d \<Rightarrow>
               Inr (if references d = 1 then
                      (if mng_pool_size w < max_pool
                       then w\<lparr>mng_pool := i # mng_pool w, mng_pool_size := mng_pool_size w + 1\<rparr>
                       else w\<lparr>conns := (conns w)(i := None)\<rparr>)
                    else w\<lparr>conns := (conns w)(i \<mapsto> d\<lparr>references := references d - 1\<rparr>)\<rparr>)))"

definition socksv5_close :: "(handler_name, nat, world) hook" where
  "socksv5_close fd data = (\<lambda>(s, w). bind_res (socks5_destroy data w) (\<lambda>w'. Inr (s, w')))"

definition mng_close :: "(handler_name, nat, world) hook" where
  "mng_close fd data = (\<lambda>(s, w). bind_res (mng_destroy data w) (\<lambda>w'. Inr (s, w')))"

text \<open>The \<open>handle_close\<close> members of the program's four handler tables, all unregistering needs.\<close>

definition closers :: "handler_name \<Rightarrow> (handler_name, nat, world) fd_handler" where
  "closers h = \<lparr>handle_read = None, handle_write = None, handle_block = None,
     handle_close = (case h of Socks5_handler \<Rightarrow> Some socksv5_close
       | Mng_handler \<Rightarrow> Some mng_close | Socks5_passive \<Rightarrow> None | Mng_passive \<Rightarrow> None)\<rparr>"

definition unregister :: "int \<Rightarrow> ctx \<Rightarrow> (selector_status \<times> ctx) res" where
  "unregister fd c =
     bind_res (selector_unregister_fd closers (c_sel c, c_world c) fd)
       (\<lambda>(st, s, w). Inr (st, c\<lparr>c_sel := s, c_world := w\<rparr>))"

section \<open>The request\<close>

definition status_succeeded :: byte where "status_succeeded = 0x00"
definition status_general_socks_server_failure :: byte where
  "status_general_socks_server_failure = 0x01"
definition status_network_unreachable :: byte where "status_network_unreachable = 0x03"
definition status_host_unreachable :: byte where "status_host_unreachable = 0x04"
definition status_connection_refused :: byte where "status_connection_refused = 0x05"
definition status_ttl_expired :: byte where "status_ttl_expired = 0x06"
definition status_command_not_supported :: byte where "status_command_not_supported = 0x07"
definition status_address_type_not_supported :: byte where
  "status_address_type_not_supported = 0x08"

lemmas status_defs =
  status_succeeded_def status_general_socks_server_failure_def status_network_unreachable_def
  status_host_unreachable_def status_connection_refused_def status_ttl_expired_def
  status_command_not_supported_def status_address_type_not_supported_def

definition as_request :: "client_union \<Rightarrow> request_st res" where
  "as_request u = (case u of Cl_request h \<Rightarrow> Inr h | _ \<Rightarrow> Inl Undefined)"

definition as_conn :: "orig_union \<Rightarrow> connecting res" where
  "as_conn u =
     (case u of
        Or_zero \<Rightarrow> Inr \<lparr>cn_client_fd = 0, cn_origin_fd = 0, cn_status = 0\<rparr>
      | Or_conn h \<Rightarrow> Inr h
      | Or_copy _ \<Rightarrow> Inl Undefined)"

definition set_conn_status :: "byte \<Rightarrow> ctx \<Rightarrow> ctx res" where
  "set_conn_status st c =
     bind_res (conn c)
       (\<lambda>d. bind_res (as_conn (orig d))
         (\<lambda>o'. Inr (put_conn (d\<lparr>orig := Or_conn (o'\<lparr>cn_status := st\<rparr>)\<rparr>) c)))"

definition set_request_status :: "byte \<Rightarrow> ctx \<Rightarrow> ctx res" where
  "set_request_status st c =
     bind_res (conn c)
       (\<lambda>d. bind_res (as_request (client d))
         (\<lambda>h. Inr (put_conn (d\<lparr>client := Cl_request (h\<lparr>rs_status := st\<rparr>)\<rparr>) c)))"

definition reply :: "byte \<Rightarrow> ctx \<Rightarrow> ctx res" where
  "reply status c =
     bind_res (conn c)
       (\<lambda>d. bind_res (request_marshall status (write_buffer d))
         (\<lambda>(_, wb). Inr (put_conn (d\<lparr>write_buffer := wb\<rparr>) c)))"

definition error_handler :: "byte \<Rightarrow> state_fun" where
  "error_handler status c =
     bind_res (reply status c)
       (\<lambda>c1. bind_res (set_interest_key OP_WRITE c1) (\<lambda>(_, c2). Inr (REQUEST_WRITE, c2)))"

definition error_handler_to_client :: "byte \<Rightarrow> state_fun" where
  "error_handler_to_client status c =
     bind_res (reply status c)
       (\<lambda>c1. bind_res (conn c1)
         (\<lambda>d. bind_res (set_interest_fd (client_fd d) OP_WRITE c1)
           (\<lambda>(_, c2). bind_res
             (if origin_fd d \<noteq> -1 then set_interest_fd (origin_fd d) OP_NOOP c2
              else Inr (SELECTOR_SUCCESS, c2))
             (\<lambda>(_, c3). Inr (REQUEST_WRITE, c3)))))"

definition store_request :: "request_st \<Rightarrow> ctx \<Rightarrow> ctx res" where
  "store_request h c = bind_res (conn c) (\<lambda>d. Inr (put_conn (d\<lparr>client := Cl_request h\<rparr>) c))"

text \<open>
  \<open>request_init\<close>: an allocation that fails is reported with \<open>error_handler\<close> and the function goes
  on, through the null pointer when it is the parser that could not be allocated. The request is
  allocated twice, and the first block lost. \<open>rs_addr_family\<close> is not initialised; it is written
  before it is read.
\<close>

definition request_init :: "nat \<Rightarrow> ctx \<Rightarrow> ctx res" where
  "request_init st c =
     (let ok = io_malloc (c_io c); mem = io_request (c_io c) in
      if \<not> ok 0 then Inl Undefined
      else
        let (r1, p1) = request_parser_init (if ok 1 then Ptr mem else Null)
              (io_request_parser (c_io c));
            s1 = (if r1 < 0 then status_general_socks_server_failure else status_succeeded)
        in bind_res (store_request \<lparr>rs_parser = Ptr p1, rs_addr_family = 0, rs_status = s1\<rparr> c)
          (\<lambda>c1. bind_res (if r1 < 0 then bind_res (error_handler s1 c1) (\<lambda>(_, c'). Inr c')
                          else Inr c1)
            (\<lambda>c2.
              let p2 = p1\<lparr>rp_request := (if ok 2 then Ptr mem else Null)\<rparr>;
                  s2 = (if ok 2 then s1 else status_general_socks_server_failure)
              in bind_res
                (store_request \<lparr>rs_parser = Ptr p2, rs_addr_family = 0, rs_status = s2\<rparr> c2)
                (\<lambda>c3. if ok 2 then Inr c3
                  else bind_res (error_handler s2 c3) (\<lambda>(_, c'). Inr c')))))"

definition request_close :: "nat \<Rightarrow> ctx \<Rightarrow> ctx res" where
  "request_close st c =
     bind_res (conn c)
       (\<lambda>d. bind_res (as_request (client d))
         (\<lambda>h. bind_res (deref (rs_parser h))
           (\<lambda>p. bind_res (deref (rp_request p))
             (\<lambda>r. if rq_dest_addr_type r \<noteq> socks_req_addrtype_domain then
                 bind_res (request_parser_close p)
                   (\<lambda>_. Inr (put_conn (d\<lparr>client := Cl_request (h\<lparr>rs_parser := Null\<rparr>)\<rparr>) c))
               else Inr c))))"

text \<open>\<open>pthread_create\<close> returns an error number; the code compares it with -1.\<close>

definition request_process :: state_fun where
  "request_process c =
     bind_res (conn c)
       (\<lambda>d. bind_res (as_request (client d))
         (\<lambda>h. bind_res (deref (rs_parser h))
           (\<lambda>p. bind_res (deref (rp_request p))
             (\<lambda>r.
               let fail = (\<lambda>s. bind_res (set_request_status s c) (error_handler s));
                   family = (\<lambda>f. Cl_request (h\<lparr>rs_addr_family := f\<rparr>))
               in if rq_cmd r \<noteq> socks_req_cmd_connect then fail status_command_not_supported
                  else if rq_dest_addr_type r = socks_req_addrtype_ipv4 then
                    (case rq_dest r of
                       Dest_in a \<Rightarrow>
                         Inr (REQUEST_CONNECTING,
                           put_conn (d\<lparr>client := family socks_req_addrtype_ipv4,
                             origin_domain := AF_INET, origin_addr_len := 16,
                             origin_addr := Sa_in a\<rparr>) c)
                     | _ \<Rightarrow> Inl Undefined)
                  else if rq_dest_addr_type r = socks_req_addrtype_ipv6 then
                    (case rq_dest r of
                       Dest_in6 a \<Rightarrow>
                         Inr (REQUEST_CONNECTING,
                           put_conn (d\<lparr>client := family socks_req_addrtype_ipv6,
                             origin_domain := AF_INET6, origin_addr_len := 28,
                             origin_addr := Sa_in6 a\<rparr>) c)
                     | _ \<Rightarrow> Inl Undefined)
                  else if rq_dest_addr_type r = socks_req_addrtype_domain then
                    (let c1 = put_conn (d\<lparr>client := family socks_req_addrtype_domain\<rparr>) c;
                         fail1 = (\<lambda>s. bind_res (set_request_status s c1) (error_handler s))
                     in if \<not> io_malloc (c_io c) 0 then fail1 status_general_socks_server_failure
                        else if io_pthread_create (c_io c) = -1
                        then fail1 status_general_socks_server_failure
                        else
                          let c2 = (if io_pthread_create (c_io c) = 0
                                    then emit (Spawned (key_fd c) (key_data c)) c1 else c1)
                          in bind_res (set_interest_key OP_NOOP c2)
                               (\<lambda>(_, c3). Inr (REQUEST_RESOLV, c3)))
                  else fail status_address_type_not_supported))))"

definition request_read :: state_fun where
  "request_read c =
     bind_res (conn c)
       (\<lambda>d. bind_res (as_request (client d))
         (\<lambda>h. if rs_status h \<noteq> status_succeeded then Inr (REQUEST_WRITE, c)
           else bind_res (buffer_write_ptr (read_buffer d))
             (\<lambda>(ptr, count).
               case recv_bytes (c_io c) count of
                 None \<Rightarrow> Inr (ERROR, c)
               | Some bs \<Rightarrow>
                   bind_res (fill (read_buffer d) bs)
                     (\<lambda>rb. bind_res (deref (rs_parser h))
                       (\<lambda>p. bind_res (request_consume rb p False)
                         (\<lambda>(rb', p', st, err).
                           let c1 = put_conn (d\<lparr>read_buffer := rb',
                                 client := Cl_request (h\<lparr>rs_parser := Ptr p'\<rparr>)\<rparr>) c
                           in bind_res
                             (if fst (request_is_done st err) then request_process c1
                              else Inr (REQUEST_READ, c1))
                             (\<lambda>(ret, c2). Inr (if err then ERROR else ret, c2))))))))"

definition request_write :: state_fun where
  "request_write c =
     bind_res (conn c)
       (\<lambda>d. bind_res (as_request (client d))
         (\<lambda>_. bind_res (drain c (write_buffer d))
           (\<lambda>r. case r of
              None \<Rightarrow> Inr (ERROR, c)
            | Some (sent, wb) \<Rightarrow>
                let c1 = emit (Sent (key_fd c) sent) (put_conn (d\<lparr>write_buffer := wb\<rparr>) c)
                in if buffer_can_read wb then Inr (REQUEST_WRITE, c1)
                   else bind_res (as_conn (orig d))
                     (\<lambda>o'. if cn_status o' = status_succeeded then
                         bind_res (set_interest_fd (client_fd d) OP_READ c1)
                           (\<lambda>(_, c2). bind_res (set_interest_fd (origin_fd d) OP_READ c2)
                             (\<lambda>(_, c3). Inr (COPY, c3)))
                       else
                         bind_res (set_interest_fd (client_fd d) OP_NOOP c1)
                           (\<lambda>(_, c2). bind_res
                             (if origin_fd d = -1 then set_interest_fd (origin_fd d) OP_NOOP c2
                              else Inr (SELECTOR_SUCCESS, c2))
                             (\<lambda>(_, c3). Inr (DONE, c3)))))))"

section \<open>Resolution\<close>

definition port_number :: "byte list \<Rightarrow> nat" where
  "port_number p = (case p of [hi, lo] \<Rightarrow> 256 * unat hi + unat lo | _ \<Rightarrow> 0)"

definition request_resolv_blocking ::
  "(byte list \<Rightarrow> nat \<Rightarrow> addrinfo list) \<Rightarrow> ctx \<Rightarrow> ctx res" where
  "request_resolv_blocking getaddrinfo c =
     bind_res (conn c)
       (\<lambda>d. bind_res (as_request (client d))
         (\<lambda>h. bind_res (deref (rs_parser h))
           (\<lambda>p. bind_res (deref (rp_request p))
             (\<lambda>r. case rq_dest r of
                Dest_fqdn f \<Rightarrow>
                  if \<not> io_malloc (c_io c) 0 then Inl Undefined
                  else bind_res (mem_load 0 (nat (fqdn_size f)) (fqdn_host f))
                    (\<lambda>name. bind_res (c_string (name @ [Some 0]))
                      (\<lambda>s.
                        let res = getaddrinfo s (port_number (rq_dest_port r));
                            c1 = put_conn (d\<lparr>origin_resolution :=
                                   (if res = [] then Null else Ptr res)\<rparr>) c
                        in Inr (c1\<lparr>c_sel := snd (selector_notify_block (io_malloc (c_io c) 1)
                                    (c_sel c1) (key_fd c1))\<rparr>)))
              | _ \<Rightarrow> Inl Undefined))))"

definition request_resolv_done :: state_fun where
  "request_resolv_done c =
     bind_res (conn c)
       (\<lambda>d. case origin_resolution d of
          Null \<Rightarrow>
            bind_res (set_conn_status status_general_socks_server_failure c)
              (\<lambda>c1. bind_res (set_request_status status_general_socks_server_failure c1)
                (error_handler status_general_socks_server_failure))
        | Dangling \<Rightarrow> Inl Undefined
        | Ptr [] \<Rightarrow> Inl Undefined
        | Ptr (a # as) \<Rightarrow>
            let d1 = d\<lparr>origin_resolution_current := Ptr (a # as)\<rparr>
            in Inr (REQUEST_CONNECTING,
                 put_conn
                   (case ai_family a of
                      AF_INET \<Rightarrow> d1\<lparr>origin_domain := AF_INET, origin_addr_len := 16,
                                    origin_addr := ai_addr a\<rparr>
                    | AF_INET6 \<Rightarrow> d1\<lparr>origin_domain := AF_INET6, origin_addr_len := 28,
                                     origin_addr := ai_addr a\<rparr>
                    | AF_OTHER \<Rightarrow> d1) c))"

section \<open>Connecting\<close>

definition errno_to_socks :: "errno \<Rightarrow> byte" where
  "errno_to_socks e =
     (case e of
        E_none \<Rightarrow> status_succeeded
      | ECONNREFUSED \<Rightarrow> status_connection_refused
      | EHOSTUNREACH \<Rightarrow> status_host_unreachable
      | ENETUNREACH \<Rightarrow> status_network_unreachable
      | ETIMEDOUT \<Rightarrow> status_ttl_expired
      | _ \<Rightarrow> status_general_socks_server_failure)"

definition add_reference :: "ctx \<Rightarrow> ctx res" where
  "add_reference c =
     bind_res (conn c) (\<lambda>d. Inr (put_conn (d\<lparr>references := references d + 1\<rparr>) c))"

text \<open>The error paths of \<open>connection\<close>: the status, the reply, and the status read back.\<close>

definition connection_failed :: "byte \<Rightarrow> ctx \<Rightarrow> (byte \<times> ctx) res" where
  "connection_failed st c =
     bind_res (set_conn_status st c)
       (\<lambda>c1. bind_res (error_handler_to_client st c1) (\<lambda>(_, c2). Inr (st, c2)))"

definition register_origin :: "fd_interest \<Rightarrow> ctx \<Rightarrow> (selector_status \<times> ctx) res" where
  "register_origin i c =
     bind_res (conn c)
       (\<lambda>d. bind_res (selector_register (io_register (c_io c)) (c_sel c) (origin_fd d)
             (Some Socks5_handler) i (Some (key_data c)))
         (\<lambda>(st, s). Inr (st, c\<lparr>c_sel := s\<rparr>)))"

definition connection :: "ctx \<Rightarrow> (byte \<times> ctx) res" where
  "connection c0 =
     (let g = glob c0;
          c = put_glob (g\<lparr>metrics_historic_connections_attempts :=
                metrics_historic_connections_attempts g + 1\<rparr>) c0;
          e = io_connect (c_io c)
      in if e \<noteq> E_none \<and> e \<noteq> EINPROGRESS then
           bind_res (set_request_status (errno_to_socks e) c) (connection_failed (errno_to_socks e))
         else if e \<noteq> E_none then
           bind_res (set_interest_key OP_NOOP c)
             (\<lambda>(st, c1). if st \<noteq> SELECTOR_SUCCESS
                then connection_failed status_general_socks_server_failure c1
                else bind_res (register_origin OP_WRITE c1)
                  (\<lambda>(st, c2). if st \<noteq> SELECTOR_SUCCESS
                     then bind_res (connection_failed status_general_socks_server_failure c2)
                       (\<lambda>(r, c3). bind_res (conn c3)
                         (\<lambda>d. Inr (r, put_conn (d\<lparr>origin_fd := -1\<rparr>)
                                      (emit (Closed (origin_fd d)) c3))))
                     else bind_res (add_reference c2) (\<lambda>c3. Inr (status_succeeded, c3))))
         else
           bind_res (add_reference c)
             (\<lambda>c1. bind_res (set_interest_key OP_READ c1)
               (\<lambda>(st, c2). if st \<noteq> SELECTOR_SUCCESS
                  then connection_failed status_general_socks_server_failure c2
                  else bind_res (register_origin OP_READ c2)
                    (\<lambda>(st, c3). if st \<noteq> SELECTOR_SUCCESS
                       then connection_failed status_general_socks_server_failure c3
                       else Inr (status_succeeded, c3)))))"

definition connecting_init :: "nat \<Rightarrow> ctx \<Rightarrow> ctx res" where
  "connecting_init st c =
     bind_res (conn c)
       (\<lambda>d. let fd = (case io_socket (c_io c) of None \<Rightarrow> -1 | Some n \<Rightarrow> int n);
               c1 = put_conn (d\<lparr>orig := Or_conn \<lparr>cn_client_fd = client_fd d, cn_origin_fd = -1,
                      cn_status = status_succeeded\<rparr>, origin_fd := fd\<rparr>) c
           in if fd < 0 \<or> \<not> io_set_nio (c_io c) then
                bind_res (connection_failed status_general_socks_server_failure c1)
                  (\<lambda>(_, c2). Inr c2)
              else bind_res (connection c1) (\<lambda>(r, c2). set_conn_status r c2))"

definition access_log :: "ctx \<Rightarrow> ctx res" where
  "access_log c =
     bind_res (conn c)
       (\<lambda>d. bind_res (as_conn (orig d))
         (\<lambda>o'. Inr (emit (Access_log (userIndex d) (origin_addr d) (client_addr d) (cn_status o')) c)))"

text \<open>
  Moving on to the next address the name resolved to, when there is one. Only the address is
  replaced: the socket keeps the domain of the first one, and stays registered.
\<close>

definition next_address :: "ctx \<Rightarrow> ctx option res" where
  "next_address c =
     bind_res (conn c)
       (\<lambda>d. case origin_resolution_current d of
          Null \<Rightarrow> Inr None
        | Dangling \<Rightarrow> Inl Undefined
        | Ptr (_ # a # as) \<Rightarrow>
            Inr (Some (put_conn
              (d\<lparr>origin_resolution_current := Ptr (a # as),
                 origin_addr := (case ai_family a of AF_OTHER \<Rightarrow> origin_addr d | _ \<Rightarrow> ai_addr a)\<rparr>) c))
        | Ptr _ \<Rightarrow> Inr None)"

definition free_resolution :: "ctx \<Rightarrow> ctx res" where
  "free_resolution c =
     bind_res (conn c)
       (\<lambda>d. bind_res (as_request (client d))
         (\<lambda>h. if rs_addr_family h = socks_req_addrtype_domain then
             bind_res (free_ptr (origin_resolution d))
               (\<lambda>p. Inr (put_conn (d\<lparr>origin_resolution := p, origin_resolution_current :=
                   (if origin_resolution_current d = Null then Null else Dangling)\<rparr>) c))
           else Inr c))"

definition connecting_error :: "errno \<Rightarrow> state_fun" where
  "connecting_error e c =
     bind_res (conn c)
       (\<lambda>d. if origin_resolution_current d = Null then
           bind_res (set_conn_status (errno_to_socks e) c)
             (\<lambda>c1. bind_res (access_log c1) (error_handler_to_client (errno_to_socks e)))
         else
           bind_res (set_conn_status (errno_to_socks e) c)
             (\<lambda>c1. bind_res (next_address c1)
               (\<lambda>r. case r of
                  Some c2 \<Rightarrow>
                    bind_res (connection c2) (\<lambda>(_, c3). Inr (REQUEST_CONNECTING, c3))
                | None \<Rightarrow>
                    bind_res (access_log c1)
                      (\<lambda>c2. bind_res (free_resolution c2)
                        (error_handler_to_client (errno_to_socks e))))))"

definition connecting_success :: state_fun where
  "connecting_success c =
     (let g = glob c; n = metrics_concurrent_connections g + 1;
          c1 = put_glob (g\<lparr>metrics_historic_connections := metrics_historic_connections g + 1,
                 metrics_concurrent_connections := n,
                 metrics_max_concurrent_connections :=
                   (if n > metrics_max_concurrent_connections g then n
                    else metrics_max_concurrent_connections g)\<rparr>) c
      in bind_res (access_log c1)
        (\<lambda>c2. bind_res (free_resolution c2)
          (\<lambda>c3. bind_res (set_conn_status status_succeeded c3)
            (\<lambda>c4. bind_res (conn c4)
              (\<lambda>d. bind_res (as_conn (orig d))
                (\<lambda>o'. bind_res (request_marshall (cn_status o') (write_buffer d))
                  (\<lambda>(r, wb).
                    let c5 = put_conn (d\<lparr>write_buffer := wb, orig := Or_conn
                               (o'\<lparr>cn_origin_fd := int (key_fd c4)\<rparr>)\<rparr>) c4
                    in if r = -1 then Inr (ERROR, c5)
                       else bind_res (set_interest_fd (cn_client_fd o') OP_WRITE c5)
                         (\<lambda>(s1, c6). bind_res (set_interest_key OP_NOOP c6)
                           (\<lambda>(s2, c7). Inr
                             (if s1 = SELECTOR_SUCCESS \<and> s2 = SELECTOR_SUCCESS
                              then REQUEST_WRITE else ERROR, c7))))))))))"

definition connecting_write :: state_fun where
  "connecting_write c =
     bind_res (conn c)
       (\<lambda>d. bind_res (as_conn (orig d))
         (\<lambda>o'. if cn_status o' \<noteq> status_succeeded then
             bind_res (next_address c)
               (\<lambda>r. case r of
                  Some c1 \<Rightarrow> bind_res (connection c1) (\<lambda>(_, c2). Inr (REQUEST_CONNECTING, c2))
                | None \<Rightarrow>
                    bind_res (unregister (origin_fd d) c)
                      (\<lambda>(_, c1). bind_res (conn c1)
                        (\<lambda>d1. error_handler_to_client (cn_status o')
                           (put_conn (d1\<lparr>origin_fd := -1\<rparr>) (emit (Closed (origin_fd d)) c1)))))
           else
             case io_so_error (c_io c) of
               None \<Rightarrow>
                 bind_res (set_conn_status status_general_socks_server_failure c)
                   (\<lambda>c1. bind_res (access_log c1)
                     (error_handler_to_client status_general_socks_server_failure))
             | Some e \<Rightarrow> if e = E_none then connecting_success c else connecting_error e c))"

definition connecting_close :: "nat \<Rightarrow> ctx \<Rightarrow> ctx res" where
  "connecting_close st c =
     bind_res (conn c)
       (\<lambda>d. bind_res (as_request (client d))
         (\<lambda>h. case rs_parser h of
            Null \<Rightarrow> Inr c
          | Dangling \<Rightarrow> Inl Undefined
          | Ptr p \<Rightarrow>
              bind_res (request_parser_close p)
                (\<lambda>_. Inr (put_conn (d\<lparr>client := Cl_request (h\<lparr>rs_parser := Dangling\<rparr>)\<rparr>) c))))"

end
