(* ===== verification/Copy.thy ===== *)
theory Copy
  imports Connect
begin

text \<open>
  \<open>src/copy.c\<close>: relaying. The two ends of the connection share its two buffers, crosswise: what
  \<open>recv\<close> takes from one end goes through one buffer to \<open>send\<close> on the other. The interests of both
  ends are recomputed after each step from what each end still wants and from the buffers.
\<close>

section \<open>The code\<close>

definition as_client_copy :: "client_union \<Rightarrow> copy_st res" where
  "as_client_copy u = (case u of Cl_copy h \<Rightarrow> Inr h | _ \<Rightarrow> Inl Undefined)"

definition as_orig_copy :: "orig_union \<Rightarrow> copy_st res" where
  "as_orig_copy u = (case u of Or_copy h \<Rightarrow> Inr h | _ \<Rightarrow> Inl Undefined)"

definition copy_of :: "socks5 \<Rightarrow> side \<Rightarrow> copy_st res" where
  "copy_of d s = (case s of Client_side \<Rightarrow> as_client_copy (client d)
     | Orig_side \<Rightarrow> as_orig_copy (orig d))"

definition put_copy :: "side \<Rightarrow> copy_st \<Rightarrow> socks5 \<Rightarrow> socks5" where
  "put_copy s h d = (case s of Client_side \<Rightarrow> d\<lparr>client := Cl_copy h\<rparr>
     | Orig_side \<Rightarrow> d\<lparr>orig := Or_copy h\<rparr>)"

definition buf_of :: "socks5 \<Rightarrow> buffer_ref \<Rightarrow> buffer" where
  "buf_of d r = (case r of Read_buffer \<Rightarrow> read_buffer d | Write_buffer \<Rightarrow> write_buffer d)"

definition put_buf :: "buffer_ref \<Rightarrow> buffer \<Rightarrow> socks5 \<Rightarrow> socks5" where
  "put_buf r b d = (case r of Read_buffer \<Rightarrow> d\<lparr>read_buffer := b\<rparr>
     | Write_buffer \<Rightarrow> d\<lparr>write_buffer := b\<rparr>)"

definition copy_interest :: "socks5 \<Rightarrow> copy_st \<Rightarrow> fd_interest" where
  "copy_interest d h =
     (let i = (if wants (cp_interest h) OP_READ \<and> buffer_can_write (buf_of d (cp_rb h))
               then OP_NOOP OR OP_READ else OP_NOOP)
      in if wants (cp_interest h) OP_WRITE \<and> buffer_can_read (buf_of d (cp_wb h))
         then i OR OP_WRITE else i)"

definition copy_compute_interests :: "side \<Rightarrow> ctx \<Rightarrow> ctx res" where
  "copy_compute_interests s c =
     bind_res (conn c)
       (\<lambda>d. bind_res (copy_of d s)
         (\<lambda>h. if cp_fd h \<noteq> -1 then
             bind_res (set_interest_fd (cp_fd h) (copy_interest d h) c)
               (\<lambda>(st, c'). if st = SELECTOR_SUCCESS then Inr c' else Inl Aborted)
           else Inr c))"

definition copy_init :: "nat \<Rightarrow> ctx \<Rightarrow> ctx res" where
  "copy_init st c =
     bind_res (conn c)
       (\<lambda>d. let d1 = d\<lparr>
               client := Cl_copy \<lparr>cp_fd = client_fd d, cp_rb = Read_buffer, cp_wb = Write_buffer,
                 cp_interest = OP_READ OR OP_WRITE, cp_other = Orig_side\<rparr>,
               orig := Or_copy \<lparr>cp_fd = origin_fd d, cp_rb = Write_buffer, cp_wb = Read_buffer,
                 cp_interest = OP_READ OR OP_WRITE, cp_other = Client_side\<rparr>\<rparr>
           in bind_res (copy_compute_interests Orig_side (put_conn d1 c))
                (copy_compute_interests Client_side))"

definition copy_ptr :: "socks5 \<Rightarrow> nat \<Rightarrow> side option" where
  "copy_ptr d fd = (if int fd = origin_fd d then Some Orig_side
     else if int fd = client_fd d then Some Client_side else None)"

text \<open>The two running averages, over \<open>size_t\<close>.\<close>

definition count_read :: "u64 \<Rightarrow> globals \<Rightarrow> globals" where
  "count_read n g =
     (if total_reads g = 0 then g\<lparr>metrics_average_bytes_per_read := n, total_reads := total_reads g + 1\<rparr>
      else g\<lparr>metrics_average_bytes_per_read :=
               (metrics_average_bytes_per_read g * total_reads g + n) div (total_reads g + 1),
             total_reads := total_reads g + 1\<rparr>)"

definition count_write :: "u64 \<Rightarrow> globals \<Rightarrow> globals" where
  "count_write n g =
     (if total_writes g = 0
      then g\<lparr>metrics_average_bytes_per_write := n, total_writes := total_writes g + 1\<rparr>
      else g\<lparr>metrics_average_bytes_per_write :=
               (metrics_average_bytes_per_write g * total_writes g + n) div (total_writes g + 1),
             total_writes := total_writes g + 1\<rparr>)"

definition add_bytes_transferred :: "u64 \<Rightarrow> globals \<Rightarrow> globals" where
  "add_bytes_transferred n g =
     g\<lparr>metrics_historic_byte_transfer := metrics_historic_byte_transfer g + n\<rparr>"

text \<open>
  The end of both handlers: the interests of \<open>d\<close> and then of the other end, and the end of the
  connection when \<open>d\<close> has nothing left to do.
\<close>

definition copy_finish :: "side \<Rightarrow> ctx \<Rightarrow> (nat \<times> ctx) res" where
  "copy_finish s c =
     bind_res (conn c)
       (\<lambda>d. bind_res (copy_of d s)
         (\<lambda>h. bind_res (copy_compute_interests s c)
           (\<lambda>c1. bind_res (copy_compute_interests (cp_other h) c1)
             (\<lambda>c2. let g = glob c2 in Inr
               (if cp_interest h = OP_NOOP then
                  (DONE, put_glob (g\<lparr>metrics_concurrent_connections :=
                     metrics_concurrent_connections g - 1\<rparr>) c2)
                else (COPY, c2))))))"

text \<open>One half of the channel closed: this end stops \<open>mine\<close>, the other end stops \<open>theirs\<close>.\<close>

definition copy_shut :: "side \<Rightarrow> (int \<Rightarrow> event) \<Rightarrow> fd_interest \<Rightarrow> (int \<Rightarrow> event) \<Rightarrow> fd_interest \<Rightarrow>
    ctx \<Rightarrow> ctx res" where
  "copy_shut s ev mine ev' theirs c =
     bind_res (conn c)
       (\<lambda>d. bind_res (copy_of d s)
         (\<lambda>h.
           let h1 = h\<lparr>cp_interest := INTEREST_OFF (cp_interest h) mine\<rparr>;
               d1 = put_copy s h1 d; c1 = emit (ev (cp_fd h)) (put_conn d1 c)
           in bind_res (copy_of d1 (cp_other h))
             (\<lambda>o'. if cp_fd o' \<noteq> -1 then
                 Inr (emit (ev' (cp_fd o')) (put_conn (put_copy (cp_other h)
                   (o'\<lparr>cp_interest := INTEREST_OFF (cp_interest o') theirs\<rparr>) d1) c1))
               else Inr c1)))"

definition copy_read :: state_fun where
  "copy_read c =
     bind_res (conn c)
       (\<lambda>d. case copy_ptr d (key_fd c) of
          None \<Rightarrow> Inl Exited
        | Some s \<Rightarrow>
            bind_res (copy_of d s)
              (\<lambda>h. if cp_fd h \<noteq> int (key_fd c) then Inl Aborted
                else
                  let b = buf_of d (cp_rb h) in
                  bind_res (buffer_write_ptr b)
                    (\<lambda>(ptr, size). bind_res
                      (case recv_bytes (c_io c) size of
                         None \<Rightarrow> copy_shut s Shut_rd OP_READ Shut_wr OP_WRITE c
                       | Some bs \<Rightarrow>
                           bind_res (buffer_poke b bs)
                             (\<lambda>b1. bind_res
                               (if password_dissectors (glob c) = 0x00 then
                                  password_consume (io_malloc (c_io c) 0) bs
                                    (password_parser d, credentials_seen (c_world c))
                                else Inr (password_parser d, credentials_seen (c_world c)))
                               (\<lambda>(pp, log).
                                 let n = of_nat (length bs);
                                     g = add_bytes_transferred n (count_read n (glob c));
                                     c1 = put_glob g c;
                                     c2 = c1\<lparr>c_world := (c_world c1)\<lparr>credentials_seen := log\<rparr>\<rparr>
                                 in bind_res (buffer_write_adv b1 (int (length bs)))
                                      (\<lambda>b2. Inr (put_conn
                                        (put_buf (cp_rb h) b2 (d\<lparr>password_parser := pp\<rparr>)) c2)))))
                      (copy_finish s))))"

definition copy_write :: state_fun where
  "copy_write c =
     bind_res (conn c)
       (\<lambda>d. case copy_ptr d (key_fd c) of
          None \<Rightarrow> Inl Undefined
        | Some s \<Rightarrow>
            bind_res (copy_of d s)
              (\<lambda>h. if cp_fd h \<noteq> int (key_fd c) then Inl Aborted
                else bind_res (drain c (buf_of d (cp_wb h)))
                  (\<lambda>r. bind_res
                    (case r of
                       None \<Rightarrow> copy_shut s Shut_wr OP_WRITE Shut_rd OP_READ c
                     | Some (sent, b') \<Rightarrow>
                         let n = of_nat (length sent);
                             g = count_write n (add_bytes_transferred n (glob c))
                         in Inr (emit (Sent (key_fd c) sent)
                              (put_conn (put_buf (cp_wb h) b' d) (put_glob g c))))
                    (copy_finish s))))"

end
