(* ===== verification/Socks5.thy ===== *)
theory Socks5
  imports Copy Mng_Request
begin

text \<open>
  \<open>src/socks5nio.c\<close> and \<open>src/management.c\<close>: the two state tables, the pools, the handlers the
  selector calls for a connection and for the two listening sockets. \<open>stm.current\<close> is kept in the
  connection; the rest of its \<open>struct state_machine\<close> is constant and is put back around each
  call of the engine.
\<close>

section \<open>The state tables\<close>

definition state ::
  "nat \<Rightarrow> (nat \<Rightarrow> ctx \<Rightarrow> ctx res) option \<Rightarrow> (nat \<Rightarrow> ctx \<Rightarrow> ctx res) option \<Rightarrow>
   state_fun option \<Rightarrow> state_fun option \<Rightarrow> state_fun option \<Rightarrow> ctx state_definition" where
  "state n arrival departure rd wr blk =
     \<lparr>sd_state = n, on_arrival = arrival, on_departure = departure, on_read_ready = rd,
      on_write_ready = wr, on_block_ready = blk\<rparr>"

definition client_statbl :: "ctx state_definition list" where
  "client_statbl =
     [state HELLO_READ (Some hello_read_init) (Some hello_read_close) (Some hello_read) None None,
      state HELLO_WRITE (Some hello_write_init) (Some hello_write_close) None (Some hello_write) None,
      state USERPASS_READ (Some auth_read_init) (Some auth_read_close) (Some auth_read) None None,
      state USERPASS_WRITE (Some auth_write_init) (Some auth_write_close) None (Some auth_write) None,
      state REQUEST_READ (Some request_init) (Some request_close) (Some request_read) None None,
      state REQUEST_RESOLV None None None None (Some request_resolv_done),
      state REQUEST_CONNECTING (Some connecting_init) (Some connecting_close) None
        (Some connecting_write) None,
      state REQUEST_WRITE None None None (Some request_write) None,
      state COPY (Some copy_init) None (Some copy_read) (Some copy_write) None,
      state DONE None None None None None,
      state ERROR None None None None None]"

definition client_mng :: "ctx state_definition list" where
  "client_mng =
     [state HELLO_READ (Some hello_read_init) (Some hello_read_close) (Some hello_read) None None,
      state HELLO_WRITE (Some hello_write_init) (Some hello_write_close) None (Some hello_write) None,
      state USERPASS_READ (Some auth_read_init) (Some auth_read_close) (Some auth_read) None None,
      state USERPASS_WRITE (Some auth_write_init) (Some auth_write_close) None (Some auth_write) None,
      state MNG_REQUEST_READ_INDEX (Some mng_request_index_init) (Some mng_request_index_close)
        (Some mng_request_index_read) None None,
      state MNG_REQUEST_READ (Some mng_request_init) (Some mng_request_close)
        (Some mng_request_read) None None,
      state MNG_REQUEST_WRITE (Some mng_request_write_init) (Some mng_request_write_close) None
        (Some mng_request_write) None,
      state MNG_DONE None None None None None,
      state MNG_ERROR None None None None None]"

definition socks5_stm :: "nat option \<Rightarrow> ctx state_machine" where
  "socks5_stm cur = \<lparr>stm_initial = HELLO_READ, stm_max_state = ERROR, stm_states = client_statbl,
     stm_current = cur\<rparr>"

definition mng_stm :: "nat option \<Rightarrow> ctx state_machine" where
  "mng_stm cur = \<lparr>stm_initial = HELLO_READ, stm_max_state = MNG_ERROR, stm_states = client_mng,
     stm_current = cur\<rparr>"

section \<open>New connections\<close>

definition raw_buffer :: buffer where
  "raw_buffer = buffer_init \<lparr>buf_data = [], buf_limit = 0, buf_read = 0, buf_write = 0\<rparr> 2048
     (replicate 2048 0)"

text \<open>The struct after \<open>memset\<close> and the assignments that follow it.\<close>

definition fresh_conn :: "bool \<Rightarrow> int \<Rightarrow> nat option \<Rightarrow> nat \<Rightarrow> nat \<Rightarrow> socks5" where
  "fresh_conn socks fd cur er dn =
     \<lparr>client_addr = Sa_zero, client_fd = fd, origin_resolution = Null,
      origin_resolution_current = Null, origin_addr = Sa_zero, origin_addr_len = 0,
      origin_domain = AF_OTHER, origin_fd = -1, conn_current = cur, error_state = er,
      done_state = dn, isSocks = socks, client = Cl_zero, orig = Or_zero,
      read_buffer = raw_buffer, write_buffer = raw_buffer, references = 1, authentication = 0,
      userIndex = 0,
      password_parser = password_parser_init \<lparr>pp_current = user_word_search, pp_current_index = 0,
        pp_last = False, pp_username = Null, pp_password = Null\<rparr>\<rparr>"

definition socks5_new :: "bool \<Rightarrow> int \<Rightarrow> world \<Rightarrow> (nat option \<times> world) res" where
  "socks5_new ok fd w =
     bind_res (stm_init (socks5_stm (Some 0)))
       (\<lambda>m. let d = fresh_conn True fd (stm_current m) ERROR DONE in
         case pool w of
           [] \<Rightarrow>
             Inr (if ok then (Some (next_conn w),
                    w\<lparr>conns := (conns w)(next_conn w \<mapsto> d), next_conn := next_conn w + 1\<rparr>)
                  else (None, w))
         | i # is \<Rightarrow> Inr (Some i, w\<lparr>pool := is, conns := (conns w)(i \<mapsto> d)\<rparr>))"

definition mng_new :: "bool \<Rightarrow> int \<Rightarrow> world \<Rightarrow> (nat option \<times> world) res" where
  "mng_new ok fd w =
     bind_res (stm_init (mng_stm (Some 0)))
       (\<lambda>m. let d = fresh_conn False fd (stm_current m) MNG_ERROR MNG_DONE in
         case mng_pool w of
           [] \<Rightarrow>
             Inr (if ok then (Some (next_conn w),
                    w\<lparr>conns := (conns w)(next_conn w \<mapsto> d), next_conn := next_conn w + 1\<rparr>)
                  else (None, w))
         | i # is \<Rightarrow> Inr (Some i, w\<lparr>mng_pool := is, conns := (conns w)(i \<mapsto> d)\<rparr>))"

definition close_fd :: "int \<Rightarrow> world \<Rightarrow> world" where
  "close_fd fd w = w\<lparr>events := events w @ [Closed fd]\<rparr>"

text \<open>What the kernel answers to this handler, from the script.\<close>

definition next_io :: "world \<Rightarrow> io \<times> world" where
  "next_io w = (io_script w (io_step w), w\<lparr>io_step := io_step w + 1\<rparr>)"

text \<open>
  The two accept handlers differ in the constructor, the destructor and the handler table they
  register the new connection with.
\<close>

definition accept_with ::
  "(bool \<Rightarrow> int \<Rightarrow> world \<Rightarrow> (nat option \<times> world) res) \<Rightarrow> (nat option \<Rightarrow> world \<Rightarrow> world res) \<Rightarrow>
   handler_name \<Rightarrow> (handler_name, nat, world) hook" where
  "accept_with new destroy h fd data = (\<lambda>(s, w0).
     let (i, w) = next_io w0 in
     case io_accept i of
       None \<Rightarrow> bind_res (destroy None w) (\<lambda>w'. Inr (s, w'))
     | Some (newfd, addr) \<Rightarrow>
         (let fail = (\<lambda>st (s', w'). bind_res (destroy st (close_fd (int newfd) w'))
                        (\<lambda>w''. Inr (s', w'')))
          in if \<not> io_set_nio i then fail None (s, w)
             else bind_res (new (io_malloc i 0) (int newfd) w)
               (\<lambda>(st, w1). case st of
                  None \<Rightarrow> fail None (s, w1)
                | Some k \<Rightarrow>
                    (case conns w1 k of
                       None \<Rightarrow> Inl Undefined
                     | Some d \<Rightarrow>
                         let w2 = w1\<lparr>conns := (conns w1)(k \<mapsto> d\<lparr>client_addr := addr\<rparr>)\<rparr>
                         in bind_res (selector_register (io_register i) s (int newfd) (Some h)
                               OP_READ (Some k))
                           (\<lambda>(ss, s1). if ss \<noteq> SELECTOR_SUCCESS then fail (Some k) (s1, w2)
                              else Inr (s1, w2))))))"

definition socksv5_passive_accept :: "(handler_name, nat, world) hook" where
  "socksv5_passive_accept = accept_with socks5_new socks5_destroy Socks5_handler"

definition mng_passive_accept :: "(handler_name, nat, world) hook" where
  "mng_passive_accept = accept_with mng_new mng_destroy Mng_handler"

section \<open>The handlers of a connection\<close>

fun close_all :: "int list \<Rightarrow> ctx \<Rightarrow> ctx res" where
  "close_all [] c = Inr c"
| "close_all (fd # rest) c =
     (if fd \<noteq> -1 then
        bind_res (unregister fd c)
          (\<lambda>(st, c1). if st \<noteq> SELECTOR_SUCCESS then Inl Aborted
             else close_all rest (emit (Closed fd) c1))
      else close_all rest c)"

definition socksv5_done :: "ctx \<Rightarrow> ctx res" where
  "socksv5_done c = bind_res (conn c) (\<lambda>d. close_all [client_fd d, origin_fd d] c)"

definition mng_done :: "ctx \<Rightarrow> ctx res" where
  "mng_done c = bind_res (conn c) (\<lambda>d. close_all [client_fd d] c)"

text \<open>One event of a connection: the engine runs, and the connection ends in a terminal state.\<close>

definition dispatch ::
  "(nat option \<Rightarrow> ctx state_machine) \<Rightarrow> nat set \<Rightarrow> (ctx \<Rightarrow> ctx res) \<Rightarrow>
   (ctx state_machine \<Rightarrow> ctx \<Rightarrow> (nat \<times> ctx state_machine \<times> ctx) res) \<Rightarrow>
   (handler_name, nat, world) hook" where
  "dispatch stm final finish run fd data = (\<lambda>(s, w0).
     case data of
       None \<Rightarrow> Inl Undefined
     | Some k \<Rightarrow>
         (let (i, w) = next_io w0;
              c = \<lparr>key_fd = fd, key_data = k, c_io = i, c_sel = s, c_world = w\<rparr>
          in bind_res (conn c)
            (\<lambda>d. bind_res (run (stm (conn_current d)) c)
              (\<lambda>(ret, m, c1). bind_res (conn c1)
                (\<lambda>d1. let c2 = put_conn (d1\<lparr>conn_current := stm_current m\<rparr>) c1 in
                  bind_res (if ret \<in> final then finish c2 else Inr c2)
                    (\<lambda>c3. Inr (c_sel c3, c_world c3)))))))"

definition socksv5_read :: "(handler_name, nat, world) hook" where
  "socksv5_read = dispatch socks5_stm {ERROR, DONE} socksv5_done stm_handler_read"

definition socksv5_write :: "(handler_name, nat, world) hook" where
  "socksv5_write = dispatch socks5_stm {ERROR, DONE} socksv5_done stm_handler_write"

definition socksv5_block :: "(handler_name, nat, world) hook" where
  "socksv5_block = dispatch socks5_stm {ERROR, DONE} socksv5_done stm_handler_block"

definition mng_read :: "(handler_name, nat, world) hook" where
  "mng_read = dispatch mng_stm {MNG_ERROR, MNG_DONE} mng_done stm_handler_read"

definition mng_write :: "(handler_name, nat, world) hook" where
  "mng_write = dispatch mng_stm {MNG_ERROR, MNG_DONE} mng_done stm_handler_write"

definition mng_block :: "(handler_name, nat, world) hook" where
  "mng_block = dispatch mng_stm {MNG_ERROR, MNG_DONE} mng_done stm_handler_block"

text \<open>The four \<open>fd_handler\<close> tables of the program; \<open>handle_block\<close> of the passive ones is zero.\<close>

definition handlers :: "handler_name \<Rightarrow> (handler_name, nat, world) fd_handler" where
  "handlers h =
     (case h of
        Socks5_handler \<Rightarrow> \<lparr>handle_read = Some socksv5_read, handle_write = Some socksv5_write,
          handle_block = Some socksv5_block, handle_close = Some socksv5_close\<rparr>
      | Mng_handler \<Rightarrow> \<lparr>handle_read = Some mng_read, handle_write = Some mng_write,
          handle_block = Some mng_block, handle_close = Some mng_close\<rparr>
      | Socks5_passive \<Rightarrow> \<lparr>handle_read = Some socksv5_passive_accept, handle_write = None,
          handle_block = None, handle_close = None\<rparr>
      | Mng_passive \<Rightarrow> \<lparr>handle_read = Some mng_passive_accept, handle_write = None,
          handle_block = None, handle_close = None\<rparr>)"

text \<open>One turn of the main loop of \<open>src/main.c\<close>.\<close>

definition serve :: "pselect_result \<Rightarrow> fd_selector \<times> world \<Rightarrow>
   (selector_status \<times> fd_selector \<times> world) res" where
  "serve = selector_select handlers"

lemma closers_handlers:
  "selector_unregister_fd closers = selector_unregister_fd handlers"
proof -
  have "close_hook closers it sw = close_hook handlers it sw" for it sw
    by (cases "it_handler it"; cases "the (it_handler it)")
      (simp_all add: close_hook_def item_hooks_def closers_def handlers_def)
  then have eq: "close_hook closers = close_hook handlers" by (intro ext)
  show ?thesis unfolding selector_unregister_fd_def eq ..
qed

end
