(* ===== verification/Invariant.thy ===== *)
theory Invariant
  imports Socks5
begin

text \<open>
  The invariant of the running server. \<open>world_ok\<close> ties the selector to the connections: the
  selector is consistent, every registered descriptor has the data its handlers expect, a
  connection is not released before its last descriptor is unregistered, and what is in a pool is
  not in use. \<open>keeps\<close> and \<open>moves\<close> say what one step of a handler does to it, for the context the
  handler works on; the rules for them are what the proofs about the handlers are made of.
\<close>

section \<open>The invariant\<close>

definition sel_ok :: "fd_selector \<Rightarrow> bool" where
  "sel_ok s \<longleftrightarrow> selector_inv s \<and> fd_size s = Suc ITEMS_MAX_SIZE"

definition held :: "fd_selector \<Rightarrow> nat \<Rightarrow> nat set" where
  "held s k = {i. \<exists>it. registered s i = Some it \<and> it_data it = Some k}"

definition handler_for :: "socks5 \<Rightarrow> handler_name" where
  "handler_for d = (if isSocks d then Socks5_handler else Mng_handler)"

definition item_kind :: "world \<Rightarrow> (handler_name, nat) item \<Rightarrow> bool" where
  "item_kind w it \<longleftrightarrow>
     (case it_data it of
        None \<Rightarrow> it_handler it = Some Socks5_passive \<or> it_handler it = Some Mng_passive
      | Some k \<Rightarrow> \<exists>d. conns w k = Some d \<and>
          it_handler it = Some (handler_for d))"

text \<open>No reference counter exceeds \<open>n\<close>, a bound that grows with the number of events.\<close>

definition refs_counted :: "nat \<Rightarrow> fd_selector \<Rightarrow> world \<Rightarrow> bool" where
  "refs_counted n s w \<longleftrightarrow> (\<forall>k d. conns w k = Some d \<longrightarrow>
     card (held s k) \<le> unat (references d) \<and> unat (references d) \<le> n)"

definition pools_ok :: "fd_selector \<Rightarrow> world \<Rightarrow> bool" where
  "pools_ok s w \<longleftrightarrow>
     (\<forall>k \<in> set (pool w) \<union> set (mng_pool w). held s k = {} \<and> conns w k \<noteq> None) \<and>
     distinct (pool w @ mng_pool w) \<and> (\<forall>k \<ge> next_conn w. conns w k = None)"

definition world_ok :: "nat \<Rightarrow> fd_selector \<Rightarrow> world \<Rightarrow> bool" where
  "world_ok n s w \<longleftrightarrow>
     sel_ok s \<and> (\<forall>i it. registered s i = Some it \<longrightarrow> item_kind w it) \<and> refs_counted n s w \<and>
     pools_ok s w"

lemma finite_held: "sel_ok s \<Longrightarrow> finite (held s k)"
proof (rule finite_subset)
  show "held s k \<subseteq> {..<ITEMS_MAX_SIZE}" if "sel_ok s"
    using that registered_bounds [of s] by (auto simp: held_def sel_ok_def)
qed simp

lemma held_conn:
  "world_ok n s w \<Longrightarrow> i \<in> held s k \<Longrightarrow> conns w k \<noteq> None \<and> k \<notin> set (pool w) \<union> set (mng_pool w)"
proof
  assume ok: "world_ok n s w" and i: "i \<in> held s k"
  then obtain it where it: "item_kind w it" "it_data it = Some k"
    by (auto simp: world_ok_def held_def)
  then show "conns w k \<noteq> None"
    by (auto simp: item_kind_def)
  show "k \<notin> set (pool w) \<union> set (mng_pool w)"
    using ok i by (auto simp: world_ok_def pools_ok_def)
qed

section \<open>Changes of the world\<close>

text \<open>Storing a connection that keeps its kind and its reference count.\<close>

definition same_conn :: "socks5 \<Rightarrow> socks5 \<Rightarrow> bool" where
  "same_conn d d' \<longleftrightarrow> error_state d' = error_state d \<and> done_state d' = done_state d \<and>
     isSocks d' = isSocks d"

lemma same_conn_refl [simp]: "same_conn d d"
  by (simp add: same_conn_def)

lemma same_conn_trans: "same_conn d d1 \<Longrightarrow> same_conn d1 d2 \<Longrightarrow> same_conn d d2"
  by (simp add: same_conn_def)

definition only_refs :: "socks5 \<Rightarrow> socks5 \<Rightarrow> bool" where
  "only_refs d d' \<longleftrightarrow> (\<exists>r. d' = d\<lparr>references := r\<rparr>)"

lemma only_refs_simps [simp]: "only_refs d d" "only_refs d (d\<lparr>references := r\<rparr>)"
proof -
  have "d = d\<lparr>references := references d\<rparr>" by simp
  then show "only_refs d d" unfolding only_refs_def by (rule exI)
qed (auto simp: only_refs_def)

lemma only_refs_trans: "only_refs d d1 \<Longrightarrow> only_refs d1 d2 \<Longrightarrow> only_refs d d2"
  by (auto simp: only_refs_def)

lemma only_refs_same: "only_refs d d' \<Longrightarrow> same_conn d d'"
  by (auto simp: only_refs_def same_conn_def)

lemma item_kind_conns:
  assumes "item_kind w it"
    and "\<And>k d. it_data it = Some k \<Longrightarrow> conns w k = Some d \<Longrightarrow>
      \<exists>d'. conns w' k = Some d' \<and> isSocks d' = isSocks d"
  shows "item_kind w' it"
proof (cases "it_data it")
  case None
  then show ?thesis using assms(1) by (simp add: item_kind_def)
next
  case (Some k)
  then obtain d where d: "conns w k = Some d"
    "it_handler it = Some (handler_for d)"
    using assms(1) by (auto simp: item_kind_def)
  obtain d' where "conns w' k = Some d'" "isSocks d' = isSocks d"
    using assms(2) [OF Some d(1)] by blast
  then show ?thesis using Some d(2) by (simp add: item_kind_def handler_for_def)
qed

lemma world_ok_update:
  assumes ok: "world_ok n s w" and at: "conns w k = Some d" and kind: "isSocks d' = isSocks d"
    and count: "unat (references d) \<le> unat (references d')" "unat (references d') \<le> m" and le: "n \<le> m"
  shows "world_ok m s (w\<lparr>conns := (conns w)(k \<mapsto> d')\<rparr>)"
proof -
  have "item_kind (w\<lparr>conns := (conns w)(k \<mapsto> d')\<rparr>) it" if "registered s i = Some it" for i it
  proof (rule item_kind_conns)
    show "item_kind w it" using ok that by (simp add: world_ok_def)
    show "\<exists>e'. conns (w\<lparr>conns := (conns w)(k \<mapsto> d')\<rparr>) j = Some e' \<and> isSocks e' = isSocks e"
      if "conns w j = Some e" for j e
      using that at kind by (cases "j = k") simp_all
  qed
  moreover have "refs_counted m s (w\<lparr>conns := (conns w)(k \<mapsto> d')\<rparr>)"
    unfolding refs_counted_def
  proof (intro allI impI)
    fix j e assume j: "conns (w\<lparr>conns := (conns w)(k \<mapsto> d')\<rparr>) j = Some e"
    have old: "card (held s i) \<le> unat (references x) \<and> unat (references x) \<le> n"
      if "conns w i = Some x" for i x
      using ok that by (simp add: world_ok_def refs_counted_def)
    show "card (held s j) \<le> unat (references e) \<and> unat (references e) \<le> m"
    proof (cases "j = k")
      case True
      then show ?thesis using j old [OF at] count by simp
    next
      case False
      then show ?thesis using j old [of j e] le by simp
    qed
  qed
  moreover have "pools_ok s (w\<lparr>conns := (conns w)(k \<mapsto> d')\<rparr>)"
    using ok at unfolding world_ok_def pools_ok_def by (auto simp: not_le)
  ultimately show ?thesis using ok by (simp add: world_ok_def)
qed

lemma world_ok_more: "world_ok n s w \<Longrightarrow> n \<le> m \<Longrightarrow> world_ok m s w"
  unfolding world_ok_def refs_counted_def by (meson order_trans)

lemma world_ok_world [simp]:
  "world_ok n s (w\<lparr>globs := g\<rparr>) = world_ok n s w"
  "world_ok n s (w\<lparr>events := es\<rparr>) = world_ok n s w"
  "world_ok n s (w\<lparr>credentials_seen := l\<rparr>) = world_ok n s w"
  "world_ok n s (w\<lparr>io_step := m\<rparr>) = world_ok n s w"
  by (simp_all add: world_ok_def refs_counted_def pools_ok_def item_kind_def cong: option.case_cong)

lemma world_ok_sel [simp]:
  "world_ok n (s\<lparr>slave_r := r\<rparr>) w = world_ok n s w"
  "world_ok n (s\<lparr>slave_w := r\<rparr>) w = world_ok n s w"
  "world_ok n (s\<lparr>resolution_jobs := js\<rparr>) w = world_ok n s w"
  by (simp_all add: world_ok_def refs_counted_def pools_ok_def sel_ok_def held_def)

text \<open>A selector with the same registrations but for the interests.\<close>

lemma world_ok_interest:
  assumes ok: "world_ok n s w" and s': "sel_ok s'"
    and same: "\<And>i. registered s' i = registered s i \<or> (\<exists>it x. registered s i = Some it \<and>
      registered s' i = Some (it\<lparr>it_interest := x\<rparr>))"
  shows "world_ok n s' w"
proof -
  have data: "(\<exists>it. registered s' i = Some it \<and> it_data it = Some k) \<longleftrightarrow>
      (\<exists>it. registered s i = Some it \<and> it_data it = Some k)" for i k
    by (rule disjE [OF same [of i]]) auto
  have held: "held s' = held s" using data by (auto simp: held_def)
  have "item_kind w it" if "registered s' i = Some it" for i it
  proof -
    from same [of i] that obtain it0 where it0: "registered s i = Some it0"
      "it_data it = it_data it0" "it_handler it = it_handler it0"
      by (metis (no_types, lifting) item.select_convs item.surjective item.update_convs(2) option.inject)
    then have "item_kind w it0" using ok by (simp add: world_ok_def)
    then show ?thesis using it0 by (simp add: item_kind_def split: option.splits)
  qed
  then show ?thesis using ok s' held by (simp add: world_ok_def refs_counted_def pools_ok_def)
qed

section \<open>Changes of the selector\<close>

lemma register_sel:
  assumes ok: "sel_ok s" and run: "selector_register m s fd (Some h) i k = Inr (st, s')"
  shows "sel_ok s' \<and>
    (st \<noteq> SELECTOR_SUCCESS \<and> registered s' = registered s \<or>
     st = SELECTOR_SUCCESS \<and> 0 \<le> fd \<and> registered s (nat fd) = None \<and>
       registered s' = (registered s)(nat fd \<mapsto>
         \<lparr>it_fd = fd, it_interest = i, it_handler = Some h, it_data = k\<rparr>))"
proof (cases "INVALID_FD fd")
  case True
  then show ?thesis using assms by (simp add: selector_register_def)
next
  case False
  then obtain n where n: "fd = int n" "n < ITEMS_MAX_SIZE" "n \<noteq> fd_size s"
    using ok by (cases fd) (auto simp: INVALID_FD_def sel_ok_def)
  have inv: "selector_inv s" using ok by (simp add: sel_ok_def)
  show ?thesis
  proof (rule selector_register_spec [OF inv n(2,3), of m h i k])
    fix st1 s1
    assume r: "selector_register m s (int n) (Some h) i k = Inr (st1, s1)" "selector_inv s1"
      "fd_size s \<le> fd_size s1"
      "st1 = SELECTOR_SUCCESS \<and> registered s n = None \<and> registered s1 = (registered s)(n \<mapsto>
         \<lparr>it_fd = int n, it_interest = i, it_handler = Some h, it_data = k\<rparr>)
       \<or> st1 = SELECTOR_FDINUSE \<and> registered s n \<noteq> None \<and> registered s1 = registered s
       \<or> st1 = SELECTOR_ENOMEM \<and> \<not> m \<and> s1 = s"
    then have "st1 = st" "s1 = s'" using run n(1) by simp_all
    moreover have "fd_size s1 = Suc ITEMS_MAX_SIZE"
      using r(2,3) ok by (simp add: sel_ok_def selector_inv_def)
    ultimately show ?thesis using r(2,4) n(1) ok by (auto simp: sel_ok_def)
  qed
qed

lemma world_ok_register:
  assumes ok: "world_ok n s w" and at: "conns w k = Some d"
    and out: "k \<notin> set (pool w) \<union> set (mng_pool w)"
    and room: "card (held s k) < unat (references d)" and s': "sel_ok s'"
    and new: "registered s i = None" "registered s' = (registered s)(i \<mapsto> it)"
    and it: "it_handler it = Some (handler_for d)" "it_data it = Some k"
  shows "world_ok n s' w"
proof -
  have held: "held s' j = (if j = k then insert i (held s k) else held s j)" for j
    using new it(2) by (auto simp: held_def)
  have fin: "finite (held s k)" using ok by (simp add: world_ok_def finite_held)
  have old: "card (held s j) \<le> unat (references e) \<and> unat (references e) \<le> n"
    if "conns w j = Some e" for j e
    using ok that by (simp add: world_ok_def refs_counted_def)
  have "card (held s' j) \<le> unat (references e) \<and> unat (references e) \<le> n"
    if "conns w j = Some e" for j e
    using old [OF that] room at that card_insert_le_m1 [of "Suc (card (held s k))" "held s k" i]
    by (auto simp: held card_insert_if [OF fin])
  then have "refs_counted n s' w" by (simp add: refs_counted_def)
  moreover have "item_kind w it'" if "registered s' j = Some it'" for j it'
    using that new(2) it at ok by (auto simp: item_kind_def world_ok_def split: if_splits)
  moreover have "pools_ok s' w"
    using ok out held by (auto simp: world_ok_def pools_ok_def)
  ultimately show ?thesis using s' by (simp add: world_ok_def)
qed

text \<open>
  The close handlers drop one reference of the connection of the item, and release it when that
  was the last. The selector is not theirs to change.
\<close>

definition drop_reference :: "nat \<Rightarrow> world \<Rightarrow> world res" where
  "drop_reference k w = (case conns w k of None \<Rightarrow> Inl Undefined
     | Some d \<Rightarrow> (if isSocks d then socks5_destroy (Some k) w else mng_destroy (Some k) w))"

lemma close_hook_world:
  assumes "item_kind w it"
  shows "close_hook closers it (s, w) =
    (case it_data it of None \<Rightarrow> Inr (s, w)
     | Some k \<Rightarrow> bind_res (drop_reference k w) (\<lambda>w'. Inr (s, w')))"
  using assms
  by (auto simp: item_kind_def close_hook_def item_hooks_def closers_def handler_for_def
      socksv5_close_def mng_close_def drop_reference_def split: option.splits)

lemma drop_reference_cases:
  assumes "drop_reference k w = Inr w'" and "conns w k = Some d"
  shows "(references d = 1 \<and>
      (w' = w\<lparr>pool := k # pool w, pool_size := pool_size w + 1\<rparr> \<or>
       w' = w\<lparr>mng_pool := k # mng_pool w, mng_pool_size := mng_pool_size w + 1\<rparr> \<or>
       w' = w\<lparr>conns := (conns w)(k := None)\<rparr>)) \<or>
    (references d \<noteq> 1 \<and> w' = w\<lparr>conns := (conns w)(k \<mapsto> d\<lparr>references := references d - 1\<rparr>)\<rparr>)"
  using assms by (auto simp: drop_reference_def socks5_destroy_def mng_destroy_def split: if_splits)

lemma item_kind_None:
  "item_kind w it \<Longrightarrow> it_data it \<noteq> Some k \<Longrightarrow> item_kind (w\<lparr>conns := (conns w)(k := x)\<rparr>) it"
  by (auto simp: item_kind_def split: option.splits)

text \<open>The last reference: the connection goes to the pool or is freed.\<close>

lemma world_ok_release:
  assumes ok: "world_ok n s w" and d: "conns w k = Some d" "references d = 1"
    and out: "k \<notin> set (pool w) \<union> set (mng_pool w)" and free: "held s k = {}"
    and drop: "drop_reference k w = Inr w'"
  shows "world_ok n s w'"
proof -
  have pool: "world_ok n s (w\<lparr>pool := k # pool w, pool_size := pool_size w + 1\<rparr>)"
    "world_ok n s (w\<lparr>mng_pool := k # mng_pool w, mng_pool_size := mng_pool_size w + 1\<rparr>)"
    using ok free d out
    by (simp_all add: world_ok_def refs_counted_def pools_ok_def item_kind_def cong: option.case_cong)
  have "world_ok n s (w\<lparr>conns := (conns w)(k := None)\<rparr>)"
  proof -
    let ?w = "w\<lparr>conns := (conns w)(k := None)\<rparr>"
    have "item_kind ?w it" if "registered s j = Some it" for j it
      using ok that free by (intro item_kind_None) (auto simp: held_def world_ok_def)
    moreover have "refs_counted n s ?w" using ok by (simp add: world_ok_def refs_counted_def)
    moreover have "pools_ok s ?w" using ok out by (auto simp: world_ok_def pools_ok_def)
    ultimately show ?thesis using ok by (simp add: world_ok_def)
  qed
  then show ?thesis
    using pool drop_reference_cases [OF drop d(1)] d(2) by (elim disjE conjE) simp_all
qed

lemma world_ok_drop:
  assumes ok: "world_ok n s w" and it: "registered s i = Some it" "it_data it = Some k"
    and drop: "drop_reference k w = Inr w'"
    and s': "sel_ok s'" "registered s' = (registered s)(i := None)"
  shows "world_ok n s' w'"
proof -
  have i: "i \<in> held s k" using it by (simp add: held_def)
  from held_conn [OF ok this] obtain d where d: "conns w k = Some d"
    and out: "k \<notin> set (pool w) \<union> set (mng_pool w)" by auto
  have fin: "finite (held s k)" using ok by (simp add: world_ok_def finite_held)
  have held: "held s' j = (if j = k then held s k - {i} else held s j)" for j
    using it s'(2) by (auto simp: held_def)
  have old: "card (held s j) \<le> unat (references e) \<and> unat (references e) \<le> n"
    if "conns w j = Some e" for j e
    using ok that by (simp add: world_ok_def refs_counted_def)
  have card: "card (held s' k) = card (held s k) - 1" "0 < card (held s k)"
    using i fin held by (auto simp: card_gt_0_iff)
  have le: "card (held s' j) \<le> card (held s j)" for j
    using card by (cases "j = k") (simp_all add: held)
  have items: "item_kind w it'" "registered s j = Some it'" if "registered s' j = Some it'" for j it'
    using that s'(2) ok by (auto simp: world_ok_def split: if_splits)
  have cnt: "refs_counted n s' w"
    using old le unfolding refs_counted_def by (meson order_trans)
  have pools: "pools_ok s' w" using ok held by (auto simp: world_ok_def pools_ok_def)
  have w: "world_ok n s' w" using s'(1) items cnt pools by (simp add: world_ok_def)
  show ?thesis
  proof (cases "references d = 1")
    case True
    have "card (held s' k) = 0" using old [OF d] True card(1) by simp
    moreover have "finite (held s' k)" using fin held by simp
    ultimately show ?thesis using world_ok_release [OF w d True out _ drop] by simp
  next
    case False
    then have w': "w' = w\<lparr>conns := (conns w)(k \<mapsto> d\<lparr>references := references d - 1\<rparr>)\<rparr>"
      using drop_reference_cases [OF drop d] by blast
    have "references d \<noteq> 0" using old [OF d] card(2) by auto
    then have u: "unat (references d - 1) = unat (references d) - 1"
      by (rule unat_minus_one_word)
    have "item_kind w' it'" if "registered s' j = Some it'" for j it'
      using d unfolding w'
      by (intro item_kind_conns [OF items(1) [OF that]]) auto
    moreover have "refs_counted n s' w'"
      using old le card u d unfolding w' refs_counted_def
      by (auto split: if_splits) (meson order_trans diff_le_mono diff_le_self)+
    moreover have "pools_ok s' w'" using pools d w' by (auto simp: pools_ok_def)
    ultimately show ?thesis using s'(1) by (simp add: world_ok_def)
  qed
qed

text \<open>A new connection, which no descriptor refers to yet.\<close>

lemma world_ok_new:
  assumes ok: "world_ok n s w" and n: "0 < n" and d: "references d = 1" and free: "held s k = {}"
    and w': "conns w' = (conns w)(k \<mapsto> d)" "set (pool w') \<subseteq> set (pool w)"
      "set (mng_pool w') \<subseteq> set (mng_pool w)" "distinct (pool w' @ mng_pool w')"
      "next_conn w \<le> next_conn w'" "k < next_conn w'"
  shows "world_ok n s w'"
proof -
  have "item_kind w' it" if it: "registered s i = Some it" for i it
  proof (rule item_kind_conns)
    show "item_kind w it" using ok it by (simp add: world_ok_def)
    show "\<exists>e'. conns w' j = Some e' \<and> isSocks e' = isSocks e"
      if "it_data it = Some j" "conns w j = Some e" for j e
      using that it free w'(1) by (auto simp: held_def)
  qed
  moreover have "refs_counted n s w'"
    using ok n d free w'(1) by (auto simp: world_ok_def refs_counted_def)
  moreover have "pools_ok s w'"
    using ok w' unfolding world_ok_def pools_ok_def by (auto dest!: subsetD)
  ultimately show ?thesis using ok by (simp add: world_ok_def)
qed

lemma unregister_sel:
  assumes ok: "sel_ok s" and kinds: "\<forall>i it. registered s i = Some it \<longrightarrow> item_kind w it"
    and run: "selector_unregister_fd closers (s, w) fd = Inr (st, s', w')"
  shows "(st = SELECTOR_IARGS \<and> s' = s \<and> w' = w \<and> (fd < 0 \<or> registered s (nat fd) = None)) \<or>
    (\<exists>it. st = SELECTOR_SUCCESS \<and> 0 \<le> fd \<and> registered s (nat fd) = Some it \<and> sel_ok s' \<and>
      resolution_jobs s' = resolution_jobs s \<and> registered s' = (registered s)(nat fd := None) \<and>
      (case it_data it of None \<Rightarrow> w' = w | Some k \<Rightarrow> drop_reference k w = Inr w'))"
proof -
  have inv: "selector_inv s" using ok by (simp add: sel_ok_def)
  consider (bad) "INVALID_FD fd" | (free) n where "fd = int n" "n < fd_size s" "registered s n = None"
    | (used) n it where "fd = int n" "n < ITEMS_MAX_SIZE" "registered s n = Some it"
  proof (cases "INVALID_FD fd")
    case False
    then obtain m where "fd = int m" "m < ITEMS_MAX_SIZE" by (cases fd) (auto simp: INVALID_FD_def)
    then show ?thesis
      using that(2,3) [of m] ok by (cases "registered s m") (auto simp: sel_ok_def)
  qed
  then show ?thesis
  proof cases
    case bad
    then have "fd < 0 \<or> registered s (nat fd) = None"
      using registered_bounds [OF inv, of "nat fd"]
      by (cases "registered s (nat fd)") (auto simp: INVALID_FD_def)
    then show ?thesis using run bad by (simp add: selector_unregister_fd_def)
  next
    case free
    then show ?thesis using selector_unregister_unused [OF inv free(2,3), of closers w] run by simp
  next
    case used
    obtain w1 where hook: "close_hook closers it (s, w) = Inr (s, w1)"
      and w1: "case it_data it of None \<Rightarrow> w1 = w | Some k \<Rightarrow> drop_reference k w = Inr w1"
      using run used item_at_registered [OF used(3)] registered_bounds [OF inv used(3)]
        close_hook_world [of w it s] kinds
      by (cases "it_data it") (auto simp: selector_unregister_fd_def Let_def INVALID_FD_def)
    from selector_unregister_spec [OF inv used(3) hook] obtain s1 where s1:
      "selector_unregister_fd closers (s, w) (int n) = Inr (SELECTOR_SUCCESS, s1, w1)"
      "selector_inv s1" "registered s1 = (registered s)(n := None)"
      "resolution_jobs s1 = resolution_jobs s" "fd_size s1 = fd_size s" by blast
    then have "s' = s1" "w' = w1" "st = SELECTOR_SUCCESS" using run used(1) by simp_all
    then show ?thesis using s1 w1 used ok by (intro disjI2) (simp add: sel_ok_def split: option.splits)
  qed
qed

lemma world_ok_unregister:
  assumes ok: "world_ok n s w"
    and run: "selector_unregister_fd closers (s, w) fd = Inr (st, s', w')"
  shows "world_ok n s' w'"
proof -
  have kinds: "\<forall>i it. registered s i = Some it \<longrightarrow> item_kind w it" and s: "sel_ok s"
    using ok by (simp_all add: world_ok_def)
  consider "s' = s" "w' = w" | (gone) it where "registered s (nat fd) = Some it" "sel_ok s'"
      "registered s' = (registered s)(nat fd := None)"
      "case it_data it of None \<Rightarrow> w' = w | Some k \<Rightarrow> drop_reference k w = Inr w'"
    using unregister_sel [OF s kinds run] by blast
  then show ?thesis
  proof cases
    case 1
    then show ?thesis using ok by simp
  next
    case it: gone
    show ?thesis
    proof (cases "it_data it")
      case None
      then have "w' = w" using it(4) by simp
      moreover have "held s' = held s"
        using None it(1,3) by (auto simp: held_def fun_eq_iff)
      moreover have "registered s' i = Some x \<Longrightarrow> registered s i = Some x" for i x
        using it(3) by (auto split: if_splits)
      ultimately show ?thesis using ok it(2) kinds
        unfolding world_ok_def refs_counted_def pools_ok_def by metis
    next
      case (Some k)
      then show ?thesis using world_ok_drop [OF ok it(1)] it(2-4) by simp
    qed
  qed
qed

section \<open>The members of the unions\<close>

text \<open>
  What the two unions of a connection hold while its machine rests in a state: the member that
  the handlers of that state read.
\<close>

definition socks_shape :: "nat \<Rightarrow> socks5 \<Rightarrow> bool" where
  "socks_shape i d \<longleftrightarrow>
     (i \<le> HELLO_WRITE \<longrightarrow> no_fault (as_hello (client d))) \<and>
     (USERPASS_READ \<le> i \<and> i \<le> USERPASS_WRITE \<longrightarrow> no_fault (as_userpass (client d))) \<and>
     (REQUEST_READ \<le> i \<and> i \<le> REQUEST_WRITE \<longrightarrow> no_fault (as_request (client d))) \<and>
     (i \<le> REQUEST_WRITE \<longrightarrow> no_fault (as_conn (orig d))) \<and>
     (i = COPY \<longrightarrow> no_fault (as_client_copy (client d)) \<and> no_fault (as_orig_copy (orig d)))"

definition mng_shape :: "nat \<Rightarrow> socks5 \<Rightarrow> bool" where
  "mng_shape i d \<longleftrightarrow>
     (i \<le> HELLO_WRITE \<longrightarrow> no_fault (as_hello (client d))) \<and>
     (USERPASS_READ \<le> i \<and> i \<le> USERPASS_WRITE \<longrightarrow> no_fault (as_userpass (client d))) \<and>
     (MNG_REQUEST_READ_INDEX \<le> i \<and> i \<le> MNG_REQUEST_WRITE \<longrightarrow> no_fault (as_mng (client d)))"

lemma union_simps [simp]:
  "no_fault (as_hello (Cl_hello h))" "no_fault (as_userpass (Cl_userpass u))"
  "no_fault (as_request (Cl_request r))" "no_fault (as_mng (Cl_mng m))"
  "no_fault (as_client_copy (Cl_copy x))" "no_fault (as_orig_copy (Or_copy x))"
  "no_fault (as_conn (Or_conn y))" "no_fault (as_conn Or_zero)"
  by (simp_all add: as_hello_def as_userpass_def as_request_def as_mng_def as_client_copy_def
      as_orig_copy_def as_conn_def)

lemma as_union_Inr [simp]:
  "as_hello u = Inr h \<longleftrightarrow> u = Cl_hello h" "as_userpass u = Inr p \<longleftrightarrow> u = Cl_userpass p"
  "as_request u = Inr r \<longleftrightarrow> u = Cl_request r" "as_mng u = Inr m \<longleftrightarrow> u = Cl_mng m"
  "as_client_copy u = Inr x \<longleftrightarrow> u = Cl_copy x" "as_orig_copy v = Inr x \<longleftrightarrow> v = Or_copy x"
  by (auto simp: as_hello_def as_userpass_def as_request_def as_mng_def as_client_copy_def
      as_orig_copy_def split: client_union.splits orig_union.splits)

definition conn_ok :: "socks5 \<Rightarrow> bool" where
  "conn_ok d \<longleftrightarrow>
     (if isSocks d then
        error_state d = ERROR \<and> done_state d = DONE \<and>
        (case conn_current d of None \<Rightarrow> no_fault (as_conn (orig d))
           | Some i \<Rightarrow> i \<le> ERROR \<and> socks_shape i d)
      else
        error_state d = MNG_ERROR \<and> done_state d = MNG_DONE \<and>
        (case conn_current d of None \<Rightarrow> True | Some i \<Rightarrow> i \<le> MNG_ERROR \<and> mng_shape i d))"

lemma conn_ok_references [simp]: "conn_ok (d\<lparr>references := r\<rparr>) = conn_ok d"
  by (simp add: conn_ok_def socks_shape_def mng_shape_def cong: option.case_cong)

section \<open>Steps of a handler\<close>

text \<open>
  \<open>moved c c'\<close>: what a handler may do to the rest of the program on its way from \<open>c\<close> to \<open>c'\<close>.
  Other connections only lose references; a descriptor that is newly registered belongs to the
  connection of the handler, which keeps its kind and its two constants.
\<close>

definition moved :: "ctx \<Rightarrow> ctx \<Rightarrow> bool" where
  "moved c c' \<longleftrightarrow>
     key_fd c' = key_fd c \<and> key_data c' = key_data c \<and> c_io c' = c_io c \<and>
     io_step (c_world c') = io_step (c_world c) \<and>
     (\<forall>k d'. conns (c_world c') k = Some d' \<longrightarrow> (\<exists>d. conns (c_world c) k = Some d \<and>
        same_conn d d' \<and> (k \<noteq> key_data c \<longrightarrow> only_refs d d'))) \<and>
     (\<forall>i it'. registered (c_sel c') i = Some it' \<longrightarrow> it_data it' = Some (key_data c) \<or>
        (\<exists>it. registered (c_sel c) i = Some it \<and> it_data it' = it_data it))"

definition sound :: "nat \<Rightarrow> ctx \<Rightarrow> bool" where
  "sound n c \<longleftrightarrow> world_ok n (c_sel c) (c_world c)"

definition live :: "ctx \<Rightarrow> bool" where
  "live c \<longleftrightarrow> key_data c \<notin> set (pool (c_world c)) \<union> set (mng_pool (c_world c))"

text \<open>The connection of the handler has a reference that no registered descriptor accounts for.\<close>

definition spare_reference :: "ctx \<Rightarrow> bool" where
  "spare_reference c \<longleftrightarrow>
     (\<exists>d. conn c = Inr d \<and> card (held (c_sel c) (key_data c)) < unat (references d))"

text \<open>Most steps neither register, nor unregister, nor count: they keep everything.\<close>

definition keeps :: "ctx \<Rightarrow> ctx \<Rightarrow> bool" where
  "keeps c c' \<longleftrightarrow>
     moved c c' \<and> (\<forall>n. sound n c \<longrightarrow> sound n c') \<and> live c' = live c \<and>
     (spare_reference c \<longrightarrow> spare_reference c')"

lemma moved_refl [simp]: "moved c c"
  by (auto simp: moved_def)

lemma moved_trans:
  assumes a: "moved c c1" and b: "moved c1 c2"
  shows "moved c c2"
  unfolding moved_def
proof (intro conjI allI impI)
  show "key_fd c2 = key_fd c" "key_data c2 = key_data c" "c_io c2 = c_io c"
    "io_step (c_world c2) = io_step (c_world c)"
    using a b by (simp_all add: moved_def)
  show "\<exists>d. conns (c_world c) k = Some d \<and> same_conn d d2 \<and>
      (k \<noteq> key_data c \<longrightarrow> only_refs d d2)"
    if at: "conns (c_world c2) k = Some d2" for k d2
  proof -
    obtain d1 where d1: "conns (c_world c1) k = Some d1" "same_conn d1 d2"
      "k \<noteq> key_data c \<longrightarrow> only_refs d1 d2"
      using a b at unfolding moved_def by metis
    obtain d where d: "conns (c_world c) k = Some d" "same_conn d d1"
      "k \<noteq> key_data c \<longrightarrow> only_refs d d1"
      using a d1(1) unfolding moved_def by metis
    show ?thesis using d d1 same_conn_trans only_refs_trans by blast
  qed
  show "it_data it2 = Some (key_data c) \<or>
      (\<exists>it. registered (c_sel c) i = Some it \<and> it_data it2 = it_data it)"
    if "registered (c_sel c2) i = Some it2" for i it2
    using a b that unfolding moved_def by metis
qed

lemma keeps_refl [simp]: "keeps c c"
  by (simp add: keeps_def)

lemma keeps_trans: "keeps c c1 \<Longrightarrow> keeps c1 c2 \<Longrightarrow> keeps c c2"
  unfolding keeps_def using moved_trans by blast

lemma keeps_moved: "keeps c c' \<Longrightarrow> moved c c'"
  by (simp add: keeps_def)

lemma conn_world: "conn c = Inr d \<longleftrightarrow> conns (c_world c) (key_data c) = Some d"
  by (simp add: conn_def split: option.splits)

lemma keeps_put:
  assumes at: "conn c = Inr d" and same: "same_conn d d'" "references d' = references d"
  shows "keeps c (put_conn d' c)"
proof -
  have kind: "isSocks d' = isSocks d" using same(1) by (simp add: same_conn_def)
  have "sound n (put_conn d' c)" if "sound n c" for n
  proof -
    have "unat (references d) \<le> n"
      using that at by (simp add: sound_def world_ok_def refs_counted_def conn_world)
    then show ?thesis
      using world_ok_update [of n "c_sel c" "c_world c" "key_data c" d d' n] that at kind same(2)
      by (simp add: sound_def put_conn_def conn_world)
  qed
  moreover have "moved c (put_conn d' c)"
    using at same(1) by (auto simp: moved_def put_conn_def conn_world)
  moreover have "live (put_conn d' c) = live c" by (simp add: live_def put_conn_def)
  moreover have "spare_reference c \<longrightarrow> spare_reference (put_conn d' c)"
    using at same(2) by (simp add: spare_reference_def)
  ultimately show ?thesis by (simp add: keeps_def)
qed

lemma keeps_glob: "keeps c (put_glob g c)"
  and keeps_emit: "keeps c (emit e c)"
  and keeps_log: "keeps c (c\<lparr>c_world := (c_world c)\<lparr>credentials_seen := l\<rparr>\<rparr>)"
  and keeps_jobs: "keeps c (c\<lparr>c_sel := (c_sel c)\<lparr>resolution_jobs := js\<rparr>\<rparr>)"
  by (auto simp: keeps_def moved_def sound_def live_def put_glob_def emit_def spare_reference_def conn_def
      held_def)

lemma set_interest_registered:
  fixes s :: fd_selector
  assumes "selector_set_interest s fd i = Inr (st, s')"
  shows "registered s' j = registered s j \<or>
    (\<exists>it x. registered s j = Some it \<and> registered s' j = Some (it\<lparr>it_interest := x\<rparr>))"
proof -
  have upd: "registered s2 = registered s1" if "items_update_fdset_for_fd s1 it = Inr s2"
    for s1 s2 :: fd_selector and it
    using that by (auto simp: items_update_fdset_for_fd_def Let_def split: if_splits)
  have put: "registered s1 j = registered s j \<or>
      (\<exists>it x. registered s j = Some it \<and> registered s1 j = Some (it\<lparr>it_interest := x\<rparr>))"
    if "item_at s n = Inr it" "item_used it" "item_put s n (it\<lparr>it_interest := i\<rparr>) = Inr s1" for n it s1
    using that
    by (auto simp: item_at_def item_put_def registered_def item_used_def nth_list_update
        split: if_splits) blast
  have "s' = s \<or> (\<exists>n it s1. item_at s n = Inr it \<and> item_used it \<and>
      item_put s n (it\<lparr>it_interest := i\<rparr>) = Inr s1 \<and>
      items_update_fdset_for_fd s1 (it\<lparr>it_interest := i\<rparr>) = Inr s')"
    using assms by (simp add: selector_set_interest_def bind_res_eq_Inr split: if_splits) blast+
  then show ?thesis
  proof (elim disjE exE conjE)
    fix n it s1 assume "item_at s n = Inr it" "item_used it"
      "item_put s n (it\<lparr>it_interest := i\<rparr>) = Inr s1"
      "items_update_fdset_for_fd s1 (it\<lparr>it_interest := i\<rparr>) = Inr s'"
    then show ?thesis using put [of n it s1] upd [of s1 _ s'] by simp
  qed simp
qed

lemma keeps_interest:
  assumes run: "set_interest_fd fd i c = Inr (st, c')"
  shows "keeps c c' \<and> conn c' = conn c \<and> glob c' = glob c"
proof -
  obtain s where s: "selector_set_interest (c_sel c) fd i = Inr (st, s)" "c' = c\<lparr>c_sel := s\<rparr>"
    using run by (auto simp: set_interest_fd_def)
  note same = set_interest_registered [OF s(1)]
  have data: "(\<exists>it. registered s j = Some it \<and> it_data it = k) \<longleftrightarrow>
      (\<exists>it. registered (c_sel c) j = Some it \<and> it_data it = k)" for j k
    by (rule disjE [OF same [of j]]) auto
  have data_of: "\<exists>it. registered (c_sel c) j = Some it \<and> it_data it' = it_data it"
    if "registered s j = Some it'" for j it'
    using data [of j "it_data it'"] that by auto
  have "sound n c'" if "sound n c" for n
  proof -
    have "sel_ok (c_sel c')"
      using set_interest_fd_Inr [OF _ run] that by (auto simp: sound_def world_ok_def sel_ok_def)
    then show ?thesis using world_ok_interest [OF _ _ same] that s(2) by (simp add: sound_def)
  qed
  moreover have "moved c c'"
    using data_of s(2) by (simp add: moved_def)
  moreover have "held s = held (c_sel c)"
    using data by (auto simp: held_def)
  ultimately show ?thesis using s(2) by (simp add: keeps_def live_def spare_reference_def)
qed

lemma world_ok_registered:
  "world_ok n s w \<Longrightarrow> sel_ok s' \<Longrightarrow> registered s' = registered s \<Longrightarrow> world_ok n s' w"
  by (rule world_ok_interest, assumption+, rule disjI1) (rule fun_cong)

lemma unregister_moved:
  assumes run: "unregister fd c = Inr (st, c')" and ok: "sound n c"
  shows "moved c c' \<and> sound n c' \<and> glob c' = glob c \<and>
    (\<forall>d'. conn c' = Inr d' \<longrightarrow> (\<exists>d. conn c = Inr d \<and> only_refs d d'))"
proof -
  obtain s w where u: "selector_unregister_fd closers (c_sel c, c_world c) fd = Inr (st, s, w)"
    and c': "c' = c\<lparr>c_sel := s, c_world := w\<rparr>"
    using run by (auto simp: unregister_def)
  have wok: "world_ok n (c_sel c) (c_world c)" using ok by (simp add: sound_def)
  have kinds: "\<forall>i it. registered (c_sel c) i = Some it \<longrightarrow> item_kind (c_world c) it"
    and sel: "sel_ok (c_sel c)" using wok by (simp_all add: world_ok_def)
  have cases: "s = c_sel c \<and> w = c_world c \<or>
    (\<exists>i it. registered (c_sel c) i = Some it \<and> registered s = (registered (c_sel c))(i := None) \<and>
      (case it_data it of None \<Rightarrow> w = c_world c
         | Some k \<Rightarrow> drop_reference k (c_world c) = Inr w))"
    using unregister_sel [OF sel kinds u] by blast
  have dropped: "globs w = globs (c_world c) \<and> io_step w = io_step (c_world c) \<and>
      (\<forall>k d'. conns w k = Some d' \<longrightarrow> (\<exists>d. conns (c_world c) k = Some d \<and>
        only_refs d d'))"
    if drop: "drop_reference k (c_world c) = Inr w" for k
  proof -
    obtain d0 where d0: "conns (c_world c) k = Some d0"
      using drop by (auto simp: drop_reference_def split: option.splits)
    from drop_reference_cases [OF drop d0] show ?thesis
      by (elim disjE conjE) (simp_all add: d0)
  qed
  have w: "globs w = globs (c_world c) \<and> io_step w = io_step (c_world c) \<and>
      (\<forall>k d'. conns w k = Some d' \<longrightarrow> (\<exists>d. conns (c_world c) k = Some d \<and>
        only_refs d d'))"
    using cases dropped by (auto split: option.splits)
  moreover have "registered s i = Some it' \<Longrightarrow> registered (c_sel c) i = Some it'" for i it'
    using cases by (auto split: if_splits)
  ultimately have "moved c c'" unfolding moved_def c' by simp (blast intro: only_refs_same)
  moreover have "\<forall>d'. conn c' = Inr d' \<longrightarrow> (\<exists>d. conn c = Inr d \<and> only_refs d d')"
    using w c' by (simp add: conn_world)
  moreover have "sound n c'" using world_ok_unregister [OF wok u] c' by (simp add: sound_def)
  moreover have "glob c' = glob c" using w c' by (simp add: glob_def)
  ultimately show ?thesis by blast
qed

text \<open>
  The two steps of opening a connection. A registration of the origin's descriptor needs a
  reference that is still unaccounted for, which \<open>add_reference\<close> provides, before it or after it.
\<close>

lemma add_reference_steps:
  assumes run: "add_reference c = Inr c'" and ok: "sound n c" and n: "Suc n < 2 ^ 32"
  obtains d where "conn c = Inr d" and "c' = put_conn (d\<lparr>references := references d + 1\<rparr>) c"
    and "moved c c'" and "sound (Suc n) c'" and "spare_reference c'" and "live c' = live c"
proof -
  obtain d where d: "conn c = Inr d" "c' = put_conn (d\<lparr>references := references d + 1\<rparr>) c"
    using run by (auto simp: add_reference_def)
  have at: "conns (c_world c) (key_data c) = Some d" using d(1) by (simp add: conn_world)
  have count: "card (held (c_sel c) (key_data c)) \<le> unat (references d)" "unat (references d) \<le> n"
    using ok at by (auto simp: sound_def world_ok_def refs_counted_def)
  then have up: "unat (references d + 1) = Suc (unat (references d))"
    using n by (intro unat_Suc_word) simp
  have "sound (Suc n) c'"
    using world_ok_update [of n "c_sel c" "c_world c" "key_data c" d
        "d\<lparr>references := references d + 1\<rparr>" "Suc n"] ok at up count(2) d(2)
    by (simp add: sound_def put_conn_def)
  moreover have "moved c c'"
    using at d(2) by (auto simp: moved_def put_conn_def same_conn_def)
  moreover have "spare_reference c'" using up count(1) d(2) by (simp add: spare_reference_def)
  ultimately show ?thesis using that [OF d] d(2) by (simp add: live_def put_conn_def)
qed

lemma register_origin_steps:
  assumes run: "register_origin i c = Inr (st, c')" and d: "conn c = Inr d" "isSocks d"
    and ok: "sound n c" and live: "live c" and spare: "st = SELECTOR_SUCCESS \<longrightarrow> spare_reference c"
  shows "moved c c' \<and> sound n c' \<and> live c' \<and> conn c' = conn c \<and> glob c' = glob c"
proof -
  obtain s where r: "selector_register (io_register (c_io c)) (c_sel c) (origin_fd d)
      (Some Socks5_handler) i (Some (key_data c)) = Inr (st, s)" and c': "c' = c\<lparr>c_sel := s\<rparr>"
    using run d(1) by (auto simp: register_origin_def)
  have wok: "world_ok n (c_sel c) (c_world c)" using ok by (simp add: sound_def)
  then have "sel_ok (c_sel c)" by (simp add: world_ok_def)
  note reg = register_sel [OF this r]
  have "moved c c'" using reg c' by (auto simp: moved_def split: if_splits)
  moreover have "sound n c'"
  proof (cases "st = SELECTOR_SUCCESS")
    case True
    let ?it = "\<lparr>it_fd = origin_fd d, it_interest = i, it_handler = Some Socks5_handler,
      it_data = Some (key_data c)\<rparr>"
    have "card (held (c_sel c) (key_data c)) < unat (references d)"
      using spare True d(1) by (auto simp: spare_reference_def)
    then have "world_ok n s (c_world c)"
      using reg True d live
      by (intro world_ok_register [OF wok, of "key_data c" d s "nat (origin_fd d)" ?it])
        (auto simp: conn_world live_def handler_for_def)
    then show ?thesis using c' by (simp add: sound_def)
  next
    case False
    then show ?thesis using world_ok_registered [OF wok] reg c' by (simp add: sound_def)
  qed
  ultimately show ?thesis using live c' by (simp add: live_def)
qed

lemma register_then_add:
  assumes run: "register_origin i c = Inr (SELECTOR_SUCCESS, c1)" "add_reference c1 = Inr c2"
    and d: "conn c = Inr d" "isSocks d" and ok: "sound n c" "Suc n < 2 ^ 32" and live: "live c"
  shows "moved c c2 \<and> sound (Suc n) c2 \<and> live c2 \<and>
    conn c2 = Inr (d\<lparr>references := references d + 1\<rparr>)"
proof -
  let ?d = "d\<lparr>references := references d + 1\<rparr>"
  obtain s where s: "selector_register (io_register (c_io c)) (c_sel c) (origin_fd d)
      (Some Socks5_handler) i (Some (key_data c)) = Inr (SELECTOR_SUCCESS, s)" "c1 = c\<lparr>c_sel := s\<rparr>"
    using run(1) d(1) by (auto simp: register_origin_def)
  have c2: "c2 = put_conn ?d (c\<lparr>c_sel := s\<rparr>)" using run(2) s(2) d(1) by (simp add: add_reference_def)
  have "add_reference c = Inr (put_conn ?d c)" using d(1) by (simp add: add_reference_def)
  then obtain e where e: "conn c = Inr e" "moved c (put_conn ?d c)" "sound (Suc n) (put_conn ?d c)"
    "spare_reference (put_conn ?d c)" "live (put_conn ?d c) = live c"
    using ok by (rule add_reference_steps) (use d in auto)
  have "register_origin i (put_conn ?d c) = Inr (SELECTOR_SUCCESS, c2)"
    using s(1) c2 by (simp add: register_origin_def)
  from register_origin_steps [OF this, of ?d "Suc n"] e d(2) live
  have "moved (put_conn ?d c) c2 \<and> sound (Suc n) c2 \<and> live c2 \<and> conn c2 = Inr ?d" by simp
  then show ?thesis using moved_trans [OF e(2)] by blast
qed

end
