(* ===== verification/Session.thy ===== *)
theory Session
  imports Invariant
begin

text \<open>
  What every handler of the server keeps, whatever the peers send and the kernel answers.
\<close>

section \<open>Small steps\<close>

definition keeps_to :: "ctx \<Rightarrow> ctx \<Rightarrow> (socks5 \<Rightarrow> bool) \<Rightarrow> bool" where
  "keeps_to c c' P \<longleftrightarrow> keeps c c' \<and> (\<exists>d'. conn c' = Inr d' \<and> P d')"

definition fits :: "ctx \<Rightarrow> socks5 \<Rightarrow> bool" where
  "fits c d' \<longleftrightarrow> (\<exists>d. conn c = Inr d \<and> same_conn d d' \<and> references d' = references d)"

lemma fits_conn [simp]:
  "conn c = Inr d \<Longrightarrow> fits c d' \<longleftrightarrow> error_state d' = error_state d \<and>
     done_state d' = done_state d \<and> isSocks d' = isSocks d \<and> references d' = references d"
  by (auto simp: fits_def same_conn_def)

lemma keeps_put_intro [intro!]: "keeps c0 c \<and> fits c d' \<Longrightarrow> keeps c0 (put_conn d' c)"
  and keeps_emit_intro [intro!]: "keeps c0 c \<Longrightarrow> keeps c0 (emit e c)"
  and keeps_glob_intro [intro!]: "keeps c0 c \<Longrightarrow> keeps c0 (put_glob g c)"
  by (auto simp: fits_def intro: keeps_trans keeps_put keeps_emit keeps_glob)

lemma keeps_put_dest [dest!]: "keeps (put_conn d1 c) c' \<Longrightarrow> fits c d1 \<longrightarrow> keeps c c'"
  and keeps_emit_dest [dest!]: "keeps (emit e c) c' \<Longrightarrow> keeps c c'"
  and keeps_glob_dest [dest!]: "keeps (put_glob g c) c' \<Longrightarrow> keeps c c'"
  by (auto simp: fits_def intro: keeps_trans keeps_put keeps_emit keeps_glob)

lemma keeps_interest_fd [dest!]:
  "set_interest_fd fd i c = Inr (st, c') \<Longrightarrow> keeps c c' \<and> conn c' = conn c \<and> glob c' = glob c"
  by (rule keeps_interest)

lemma keeps_interest_key [dest!]:
  "set_interest_key i c = Inr (st, c') \<Longrightarrow> keeps c c' \<and> conn c' = conn c \<and> glob c' = glob c"
  unfolding set_interest_key_fd by (rule keeps_interest)

lemma keeps_to_conn [simp]: "conn c' = Inr d' \<Longrightarrow> keeps_to c c' P \<longleftrightarrow> keeps c c' \<and> P d'"
  by (auto simp: keeps_to_def)

lemma keeps_toE [elim!]:
  assumes "keeps_to c c' P"
  obtains d' where "conn c' = Inr d'" and "keeps c c'" and "P d'"
  using assms by (auto simp: keeps_to_def)

lemma keeps_join: "keeps c c1 \<Longrightarrow> keeps c1 c2 \<Longrightarrow> keeps c c2"
  by (rule keeps_trans)

definition same_unions :: "ctx \<Rightarrow> ctx \<Rightarrow> bool" where
  "same_unions c c' \<longleftrightarrow> keeps c c' \<and> (\<exists>d d'. conn c = Inr d \<and> conn c' = Inr d' \<and>
     client d' = client d \<and> orig d' = orig d)"

lemma same_unionsE [elim!]:
  assumes "same_unions c c'"
  obtains d d' where "conn c = Inr d" and "conn c' = Inr d'" and "keeps c c'"
    and "client d' = client d" and "orig d' = orig d"
  using assms by (auto simp: same_unions_def)

lemma same_unions_conn [simp]:
  "conn c = Inr d \<Longrightarrow> conn c' = Inr d' \<Longrightarrow>
   same_unions c c' \<longleftrightarrow> keeps c c' \<and> client d' = client d \<and> orig d' = orig d"
  by (auto simp: same_unions_def)

section \<open>The handshake\<close>

lemma hello_process_ret: "hello_process m v b = Inr (r, b') \<Longrightarrow> r = -1 \<or> r = 1"
  by (auto simp: hello_process_def split: if_splits)

lemma hello_read_init_steps:
  "hello_read_init i c = Inr c' \<Longrightarrow> conn c = Inr d \<Longrightarrow>
   keeps_to c c' (\<lambda>d'. no_fault (as_hello (client d')) \<and> orig d' = orig d)"
  by (auto simp: hello_read_init_def)

lemma hello_read_steps:
  assumes "hello_read c = Inr (j, c')" and "conn c = Inr d"
  shows "keeps_to c c' (\<lambda>d'. no_fault (as_hello (client d')) \<and> orig d' = orig d) \<and>
    (j = HELLO_READ \<or> j = HELLO_WRITE \<or> j = error_state d)"
  using assms
  by (auto simp: hello_read_def Let_def split: option.splits if_splits dest!: hello_process_ret)

lemma hello_read_close_steps:
  "hello_read_close i c = Inr c' \<Longrightarrow> conn c = Inr d \<Longrightarrow>
   keeps_to c c' (\<lambda>d'. no_fault (as_hello (client d')) \<and> orig d' = orig d)"
  by (auto simp: hello_read_close_def split: if_splits)

lemma hello_write_steps:
  assumes "hello_write c = Inr (j, c')" and "conn c = Inr d"
  shows "keeps_to c c' (\<lambda>d'. no_fault (as_hello (client d')) \<and> orig d' = orig d) \<and>
    (j = HELLO_WRITE \<or> j = done_state d \<or> j = error_state d \<or> j = USERPASS_READ \<or> j = REQUEST_READ)"
  using assms
  by (auto simp: hello_write_def Let_def split: option.splits if_splits)

lemma auth_read_init_steps:
  "auth_read_init i c = Inr c' \<Longrightarrow> conn c = Inr d \<Longrightarrow>
   keeps_to c c' (\<lambda>d'. no_fault (as_userpass (client d')) \<and> orig d' = orig d)"
  by (auto simp: auth_read_init_def)

lemma auth_process_steps:
  assumes "auth_process h c = Inr (j, c')"
  shows "same_unions c c' \<and> j = USERPASS_WRITE"
  using assms by (auto simp: auth_process_def Let_def split: if_splits)

lemma auth_read_steps:
  assumes "auth_read c = Inr (j, c')" and "conn c = Inr d"
  shows "keeps_to c c' (\<lambda>d'. no_fault (as_userpass (client d')) \<and> orig d' = orig d) \<and>
    (j = USERPASS_READ \<or> j = USERPASS_WRITE \<or> j = error_state d)"
  using assms
  by (auto simp: auth_read_def Let_def split: option.splits if_splits dest!: auth_process_steps) (meson keeps_trans)+

lemma auth_read_close_steps:
  "auth_read_close i c = Inr c' \<Longrightarrow> conn c = Inr d \<Longrightarrow>
   keeps_to c c' (\<lambda>d'. no_fault (as_userpass (client d')) \<and> orig d' = orig d)"
  by (auto simp: auth_read_close_def)

lemma auth_write_steps:
  assumes "auth_write c = Inr (j, c')" and "conn c = Inr d"
  shows "keeps_to c c' (\<lambda>d'. client d' = client d \<and> orig d' = orig d) \<and>
    (j = USERPASS_WRITE \<or> j = done_state d \<or> j = error_state d \<or> j = REQUEST_READ)"
  using assms
  by (auto simp: auth_write_def Let_def split: option.splits if_splits)

section \<open>The request\<close>

lemma set_conn_status_steps:
  "set_conn_status st c = Inr c' \<Longrightarrow> \<exists>d. conn c = Inr d \<and>
   keeps_to c c' (\<lambda>d'. client d' = client d \<and> (\<exists>x. orig d' = Or_conn x))"
  by (auto simp: set_conn_status_def)

lemma set_request_status_steps:
  "set_request_status st c = Inr c' \<Longrightarrow> \<exists>d. conn c = Inr d \<and>
   keeps_to c c' (\<lambda>d'. no_fault (as_request (client d')) \<and> orig d' = orig d)"
  by (auto simp: set_request_status_def)

lemma reply_steps: "reply st c = Inr c' \<Longrightarrow> same_unions c c'"
  by (auto simp: reply_def)

lemma error_handler_steps:
  "error_handler st c = Inr (j, c') \<Longrightarrow> same_unions c c' \<and> j = REQUEST_WRITE"
  by (auto simp: error_handler_def dest!: reply_steps) (meson keeps_trans)+

lemma error_handler_to_client_steps:
  "error_handler_to_client st c = Inr (j, c') \<Longrightarrow> same_unions c c' \<and> j = REQUEST_WRITE"
  by (auto simp: error_handler_to_client_def dest!: reply_steps split: if_splits) (meson keeps_trans)+

lemma store_request_steps:
  "store_request h c = Inr c' \<Longrightarrow> \<exists>d. conn c = Inr d \<and>
   keeps_to c c' (\<lambda>d'. client d' = Cl_request h \<and> orig d' = orig d)"
  by (auto simp: store_request_def)

lemma request_init_steps:
  "request_init i c = Inr c' \<Longrightarrow> conn c = Inr d \<Longrightarrow>
   keeps_to c c' (\<lambda>d'. no_fault (as_request (client d')) \<and> orig d' = orig d)"
  by (auto simp: request_init_def Let_def split: prod.splits if_splits
      dest!: store_request_steps error_handler_steps) (meson keeps_trans)+

lemma request_close_steps:
  "request_close i c = Inr c' \<Longrightarrow> conn c = Inr d \<Longrightarrow>
   keeps_to c c' (\<lambda>d'. no_fault (as_request (client d')) \<and> orig d' = orig d)"
  by (auto simp: request_close_def split: if_splits)

lemma request_process_steps:
  assumes "request_process c = Inr (j, c')"
  shows "\<exists>d. conn c = Inr d \<and>
    keeps_to c c' (\<lambda>d'. no_fault (as_request (client d')) \<and> orig d' = orig d) \<and>
    (j = REQUEST_WRITE \<or> j = REQUEST_RESOLV \<or> j = REQUEST_CONNECTING)"
  using assms
  by (auto simp: request_process_def Let_def split: if_splits dest_union.splits
      dest!: set_request_status_steps error_handler_steps) (meson keeps_trans)+

lemma request_read_steps:
  assumes "request_read c = Inr (j, c')" and "conn c = Inr d"
  shows "keeps_to c c' (\<lambda>d'. no_fault (as_request (client d')) \<and> orig d' = orig d) \<and>
    (j = REQUEST_READ \<or> j = REQUEST_WRITE \<or> j = REQUEST_RESOLV \<or> j = REQUEST_CONNECTING \<or> j = ERROR)"
  using assms
  by (auto simp: request_read_def Let_def split: option.splits if_splits
      dest!: request_process_steps)

lemma request_write_steps:
  assumes "request_write c = Inr (j, c')" and "conn c = Inr d"
  shows "same_unions c c' \<and> (j = REQUEST_WRITE \<or> j = COPY \<or> j = DONE \<or> j = ERROR)"
  using assms
  by (auto simp: request_write_def Let_def split: option.splits if_splits) (meson keeps_trans)+

lemma request_resolv_done_steps:
  assumes "request_resolv_done c = Inr (j, c')" and "conn c = Inr d"
    and "no_fault (as_request (client d))" and "no_fault (as_conn (orig d))"
  shows "keeps_to c c' (\<lambda>d'. no_fault (as_request (client d')) \<and> no_fault (as_conn (orig d'))) \<and>
    (j = REQUEST_WRITE \<or> j = REQUEST_CONNECTING)"
  using assms
  by (auto simp: request_resolv_done_def Let_def split: ptr.splits list.splits ai_family.splits
      dest!: set_conn_status_steps set_request_status_steps error_handler_steps) (meson keeps_trans)+

section \<open>Connecting\<close>

lemma connection_failed_steps:
  "connection_failed st c = Inr (r, c') \<Longrightarrow> \<exists>d. conn c = Inr d \<and>
   keeps_to c c' (\<lambda>d'. client d' = client d \<and> (\<exists>x. orig d' = Or_conn x))"
  by (auto simp: connection_failed_def dest!: set_conn_status_steps error_handler_to_client_steps)
    (meson keeps_trans)

lemma access_log_steps: "access_log c = Inr c' \<Longrightarrow> same_unions c c'"
  by (auto simp: access_log_def)

lemma free_resolution_steps: "free_resolution c = Inr c' \<Longrightarrow> same_unions c c'"
  by (auto simp: free_resolution_def split: if_splits)

lemma next_address_steps: "next_address c = Inr (Some c') \<Longrightarrow> same_unions c c'"
  by (auto simp: next_address_def split: ptr.splits list.splits)

text \<open>
  \<open>request_conn c\<close>: the unions hold what the states of the connection read. \<open>grown n c c'\<close>: from a
  sound context whose connection is in use, one more reference at most.
\<close>

definition request_conn :: "ctx \<Rightarrow> bool" where
  "request_conn c \<longleftrightarrow> (\<exists>d. conn c = Inr d \<and> isSocks d \<and> no_fault (as_request (client d)) \<and>
     no_fault (as_conn (orig d)))"

definition grown :: "nat \<Rightarrow> ctx \<Rightarrow> ctx \<Rightarrow> bool" where
  "grown n c c' \<longleftrightarrow> moved c c' \<and> sound (Suc n) c' \<and> live c' \<and> request_conn c'"

lemma sound_more: "sound n c \<Longrightarrow> n \<le> m \<Longrightarrow> sound m c"
  unfolding sound_def by (rule world_ok_more)

lemma keeps_kind: "keeps c c' \<Longrightarrow> conn c = Inr d \<Longrightarrow> conn c' = Inr d' \<Longrightarrow> same_conn d d'"
proof -
  assume k: "keeps c c'" and d: "conn c = Inr d" "conn c' = Inr d'"
  have key: "key_data c' = key_data c" and
    old: "\<And>i e'. conns (c_world c') i = Some e' \<Longrightarrow> \<exists>e. conns (c_world c) i = Some e \<and> same_conn e e'"
    using k unfolding keeps_def moved_def by blast+
  show ?thesis using old [of "key_data c" d'] d key by (simp add: conn_world)
qed

lemma keeps_sound: "keeps c c' \<Longrightarrow> sound n c \<Longrightarrow> sound n c'"
  and keeps_live: "keeps c c' \<Longrightarrow> live c' = live c"
  and keeps_spare: "keeps c c' \<Longrightarrow> spare_reference c \<Longrightarrow> spare_reference c'"
  by (simp_all add: keeps_def)

lemma request_conn_keeps:
  "keeps c c' \<Longrightarrow> request_conn c \<Longrightarrow> conn c' = Inr d' \<Longrightarrow> no_fault (as_request (client d')) \<Longrightarrow>
   no_fault (as_conn (orig d')) \<Longrightarrow> request_conn c'"
proof -
  assume k: "keeps c c'" "request_conn c" and d': "conn c' = Inr d'"
    "no_fault (as_request (client d'))" "no_fault (as_conn (orig d'))"
  then obtain d where "conn c = Inr d" "isSocks d" by (auto simp: request_conn_def)
  then have "isSocks d'" using keeps_kind [OF k(1) _ d'(1)] by (simp add: same_conn_def)
  then show ?thesis using d' by (simp add: request_conn_def)
qed

lemma grown_keeps:
  "sound n c \<Longrightarrow> live c \<Longrightarrow> keeps c c' \<Longrightarrow> request_conn c' \<Longrightarrow> grown n c c'"
  by (auto simp: grown_def keeps_sound keeps_live keeps_moved
      intro: sound_more [of n _ "Suc n"])

lemma grown_then_keeps: "grown n c c1 \<Longrightarrow> keeps c1 c2 \<Longrightarrow> request_conn c2 \<Longrightarrow> grown n c c2"
  by (auto simp: grown_def keeps_sound keeps_live intro: moved_trans keeps_moved)

lemma keeps_then_grown: "keeps c c1 \<Longrightarrow> grown n c1 c2 \<Longrightarrow> grown n c c2"
  by (auto simp: grown_def intro: moved_trans keeps_moved)

lemma connection_failed_keeps:
  assumes "connection_failed st c = Inr (r, c')" and "request_conn c"
  shows "keeps c c' \<and> request_conn c'"
proof -
  obtain d where d: "conn c = Inr d" "no_fault (as_request (client d))"
    using assms(2) by (auto simp: request_conn_def)
  from connection_failed_steps [OF assms(1)] d obtain d' x where "keeps c c'"
    "conn c' = Inr d'" "client d' = client d" "orig d' = Or_conn x" by auto
  then show ?thesis using request_conn_keeps [of c c' d'] assms(2) d(2) by simp
qed

lemma grown_failed:
  "grown n c c1 \<Longrightarrow> connection_failed st c1 = Inr (r, c') \<Longrightarrow> grown n c c'"
  using connection_failed_keeps grown_then_keeps by (blast dest: grown_def [THEN iffD1])

lemma request_conn_same: "request_conn c \<Longrightarrow> conn c' = conn c \<Longrightarrow> request_conn c'"
  by (simp add: request_conn_def)

lemma register_origin_grown:
  assumes run: "register_origin i c = Inr (st, c')" and rq: "request_conn c" and ok: "sound n c"
    and live: "live c" and spare: "st = SELECTOR_SUCCESS \<longrightarrow> spare_reference c"
  shows "moved c c' \<and> sound n c' \<and> live c' \<and> request_conn c'"
proof -
  obtain d where d: "conn c = Inr d" "isSocks d" using rq by (auto simp: request_conn_def)
  show ?thesis
    using register_origin_steps [OF run d ok live spare] request_conn_same [OF rq] by blast
qed

lemma connection_in_progress:
  assumes st: "request_conn c" "sound n c" "live c" and n: "Suc n < 2 ^ 32"
    and run: "bind_res (register_origin OP_WRITE c)
      (\<lambda>(st, c2). if st \<noteq> SELECTOR_SUCCESS
         then bind_res (connection_failed status_general_socks_server_failure c2)
           (\<lambda>(r, c3). bind_res (conn c3)
             (\<lambda>d. Inr (r, put_conn (d\<lparr>origin_fd := -1\<rparr>) (emit (Closed (origin_fd d)) c3))))
         else bind_res (add_reference c2) (\<lambda>c3. Inr (status_succeeded, c3))) = Inr (r, c')"
  shows "grown n c c'"
proof -
  obtain d where d: "conn c = Inr d" "isSocks d" "no_fault (as_request (client d))"
    "no_fault (as_conn (orig d))" using st(1) by (auto simp: request_conn_def)
  obtain s c2 where r: "register_origin OP_WRITE c = Inr (s, c2)" using run by auto
  show ?thesis
  proof (cases "s = SELECTOR_SUCCESS")
    case True
    then obtain c3 where "add_reference c2 = Inr c3" "c' = c3" using run r by auto
    then show ?thesis
      using register_then_add [of OP_WRITE c c2 c' d n] r True d st n
      by (simp add: grown_def request_conn_def)
  next
    case False
    then obtain c3 d3 where f: "connection_failed status_general_socks_server_failure c2 = Inr (r, c3)"
      "conn c3 = Inr d3" "c' = put_conn (d3\<lparr>origin_fd := -1\<rparr>) (emit (Closed (origin_fd d3)) c3)"
      using run r by auto
    have "grown n c c2"
      using register_origin_grown [OF r st(1,2,3)] False sound_more [of n c2 "Suc n"]
      by (simp add: grown_def)
    then have g: "grown n c c3" using f(1) by (rule grown_failed)
    then have "request_conn c'" using f(2,3) by (simp add: grown_def request_conn_def)
    moreover have "keeps c3 c'" using f(2,3) by auto
    ultimately show ?thesis using grown_then_keeps [OF g] by blast
  qed
qed

lemma connection_immediate:
  assumes st: "request_conn c" "sound n c" "live c" and n: "Suc n < 2 ^ 32"
    and run: "bind_res (add_reference c)
      (\<lambda>c1. bind_res (set_interest_key OP_READ c1)
        (\<lambda>(st, c2). if st \<noteq> SELECTOR_SUCCESS
           then connection_failed status_general_socks_server_failure c2
           else bind_res (register_origin OP_READ c2)
             (\<lambda>(st, c3). if st \<noteq> SELECTOR_SUCCESS
                then connection_failed status_general_socks_server_failure c3
                else Inr (status_succeeded, c3)))) = Inr (r, c')"
  shows "grown n c c'"
proof -
  obtain c1 s c2 where r: "add_reference c = Inr c1" "set_interest_key OP_READ c1 = Inr (s, c2)"
    using run by (auto del: keeps_interest_key)
  obtain d where d: "conn c = Inr d" "c1 = put_conn (d\<lparr>references := references d + 1\<rparr>) c"
    "moved c c1" "sound (Suc n) c1" "spare_reference c1" "live c1 = live c"
    using r(1) st(2) n by (rule add_reference_steps)
  have k: "keeps c1 c2" "conn c2 = conn c1" using keeps_interest_key [OF r(2)] by auto
  have "request_conn c1" using st(1) d(1,2) by (simp add: request_conn_def)
  then have g2: "grown n c c2" "spare_reference c2"
    using grown_then_keeps [of n c c1 c2] k d st(3) request_conn_same [of c1 c2] keeps_spare [OF k(1)]
    by (simp_all add: grown_def)
  show ?thesis
  proof (cases "s = SELECTOR_SUCCESS")
    case False
    then show ?thesis using run r grown_failed [OF g2(1)] by auto
  next
    case True
    then obtain s3 c3 where r3: "register_origin OP_READ c2 = Inr (s3, c3)" using run r by auto
    then have "grown n c c3"
      using register_origin_grown [of OP_READ c2 s3 c3 "Suc n"] g2 moved_trans [of c c2 c3]
      by (simp add: grown_def)
    then show ?thesis using run r r3 True grown_failed by (auto split: if_splits)
  qed
qed

lemma connection_steps:
  assumes run: "connection c0 = Inr (r, c')" and st: "request_conn c0" "sound n c0" "live c0"
    and n: "Suc n < 2 ^ 32"
  shows "grown n c0 c'"
proof -
  let ?g = "glob c0"
  define c where "c = put_glob (?g\<lparr>metrics_historic_connections_attempts :=
    metrics_historic_connections_attempts ?g + 1\<rparr>) c0"
  have k0: "keeps c0 c" unfolding c_def by (rule keeps_glob)
  have k: "keeps c0 c" "request_conn c" "sound n c" "live c"
    using k0 keeps_sound [OF k0 st(2)] keeps_live [OF k0] st(3)
    by (simp_all add: request_conn_same [OF st(1)] c_def)
  note step = keeps_then_grown [OF k(1)]
  show ?thesis
  proof (cases "io_connect (c_io c0) = E_none")
    case True
    then show ?thesis
      using step [OF connection_immediate [OF k(2,3,4) n]] run
      by (simp add: connection_def Let_def c_def [symmetric])
  next
    case e: False
    show ?thesis
    proof (cases "io_connect (c_io c0) = EINPROGRESS")
      case False
      then obtain c1 where r1: "set_request_status (errno_to_socks (io_connect (c_io c0))) c = Inr c1"
        "connection_failed (errno_to_socks (io_connect (c_io c0))) c1 = Inr (r, c')"
        using run e by (auto simp: connection_def Let_def c_def [symmetric])
      obtain d d1 where "conn c = Inr d" "conn c1 = Inr d1" "keeps c c1"
        "no_fault (as_request (client d1))" "orig d1 = orig d"
        using set_request_status_steps [OF r1(1)] by auto
      then have "request_conn c1" "keeps c c1"
        using request_conn_keeps [of c c1 d1] k(2) by (auto simp: request_conn_def)
      then show ?thesis
        using step grown_failed [OF grown_keeps r1(2)] k(3,4) by blast
    next
      case True
      then obtain s c1 where r1: "set_interest_key OP_NOOP c = Inr (s, c1)"
        using run True by (auto simp: connection_def Let_def c_def [symmetric] del: keeps_interest_key)
      have k1: "keeps c c1" "conn c1 = conn c" using keeps_interest_key [OF r1] by auto
      note c1 = request_conn_same [OF k(2) k1(2)] keeps_sound [OF k1(1) k(3)]
      have live: "live c1" using keeps_live [OF k1(1)] k(4) by simp
      show ?thesis
      proof (cases "s = SELECTOR_SUCCESS")
        case False
        then have "connection_failed status_general_socks_server_failure c1 = Inr (r, c')"
          using run True r1 by (simp add: connection_def Let_def c_def [symmetric])
        then show ?thesis using step grown_failed [OF grown_keeps [OF k(3,4) k1(1) c1(1)]] by blast
      next
        case s: True
        then show ?thesis
          using connection_in_progress [OF c1 live n] run True r1 step keeps_then_grown [OF k1(1)]
          by (simp add: connection_def Let_def c_def [symmetric])
      qed
    qed
  qed
qed

lemma same_unions_request:
  assumes "same_unions c c'" and "request_conn c"
  shows "keeps c c' \<and> request_conn c'"
proof -
  obtain d d' where "conn c = Inr d" "conn c' = Inr d'" "keeps c c'" "client d' = client d"
    "orig d' = orig d" using assms(1) by auto
  then show ?thesis
    using assms(2) request_conn_keeps [of c c' d'] by (auto simp: request_conn_def)
qed

lemma set_conn_status_request:
  assumes "set_conn_status st c = Inr c'" and "request_conn c"
  shows "keeps c c' \<and> request_conn c'"
proof -
  from set_conn_status_steps [OF assms(1)] obtain d d' x where "conn c = Inr d" "keeps c c'"
    "conn c' = Inr d'" "client d' = client d" "orig d' = Or_conn x" by auto
  then show ?thesis
    using assms(2) request_conn_keeps [of c c' d'] by (auto simp: request_conn_def)
qed

lemma connecting_init_steps:
  assumes run: "connecting_init i c = Inr c'" and st: "request_conn c" "sound n c" "live c"
    and n: "Suc n < 2 ^ 32"
  shows "grown n c c'"
proof -
  obtain d where d: "conn c = Inr d" "isSocks d" "no_fault (as_request (client d))"
    using st(1) by (auto simp: request_conn_def)
  define fd where "fd = (case io_socket (c_io c) of None \<Rightarrow> -1 | Some n \<Rightarrow> int n)"
  define c1 where "c1 = put_conn (d\<lparr>orig := Or_conn \<lparr>cn_client_fd = client_fd d,
    cn_origin_fd = -1, cn_status = status_succeeded\<rparr>, origin_fd := fd\<rparr>) c"
  have k0: "keeps c c1" using d(1) unfolding c1_def by auto
  have k: "request_conn c1" using d by (simp add: request_conn_def c1_def)
  note s1 = keeps_sound [OF k0 st(2)] and l1 = keeps_live [OF k0]
  show ?thesis
  proof (cases "fd < 0 \<or> \<not> io_set_nio (c_io c)")
    case True
    then obtain r where "connection_failed status_general_socks_server_failure c1 = Inr (r, c')"
      using run d(1) by (auto simp: connecting_init_def Let_def fd_def [symmetric] c1_def [symmetric])
    then show ?thesis using grown_failed [OF grown_keeps [OF st(2,3) k0 k]] by blast
  next
    case False
    then obtain r c2 where "connection c1 = Inr (r, c2)" and c': "set_conn_status r c2 = Inr c'"
      using run d(1) by (auto simp: connecting_init_def Let_def fd_def [symmetric] c1_def [symmetric])
    then have g: "grown n c1 c2" using connection_steps k s1 l1 st(3) n by blast
    then have "grown n c1 c'"
      using set_conn_status_request [OF c'] grown_then_keeps [OF g] by (simp add: grown_def)
    then show ?thesis by (rule keeps_then_grown [OF k0])
  qed
qed

lemma connecting_close_steps:
  "connecting_close i c = Inr c' \<Longrightarrow> conn c = Inr d \<Longrightarrow>
   keeps_to c c' (\<lambda>d'. no_fault (as_request (client d')) \<and> orig d' = orig d)"
  by (auto simp: connecting_close_def split: ptr.splits)

text \<open>Where the handler may have dropped its own last reference.\<close>

definition advanced :: "nat \<Rightarrow> ctx \<Rightarrow> ctx \<Rightarrow> nat \<Rightarrow> bool" where
  "advanced n c c' j \<longleftrightarrow> moved c c' \<and> sound (Suc n) c' \<and> request_conn c' \<and>
     (j = REQUEST_CONNECTING \<and> live c' \<or> j = REQUEST_WRITE \<or> j = ERROR)"

lemma advanced_keeps:
  "sound n c \<Longrightarrow> keeps c c' \<Longrightarrow> request_conn c' \<Longrightarrow> j = REQUEST_WRITE \<or> j = ERROR \<Longrightarrow>
   advanced n c c' j"
  using sound_more [of n c' "Suc n"] by (auto simp: advanced_def keeps_sound keeps_moved)

lemma connecting_success_steps:
  "connecting_success c = Inr (j, c') \<Longrightarrow> \<exists>d. conn c = Inr d \<and>
   keeps_to c c' (\<lambda>d'. client d' = client d \<and> (\<exists>x. orig d' = Or_conn x)) \<and>
   (j = REQUEST_WRITE \<or> j = ERROR)"
  by (auto simp: connecting_success_def Let_def split: if_splits
      dest!: access_log_steps free_resolution_steps set_conn_status_steps) (meson keeps_trans)+

lemma keeps_to_request:
  assumes "conn c = Inr d" and "keeps_to c c' (\<lambda>d'. client d' = client d \<and> (\<exists>x. orig d' = Or_conn x))"
    and "request_conn c"
  shows "keeps c c' \<and> request_conn c'"
proof -
  obtain d' x where "conn c' = Inr d'" "keeps c c'" "client d' = client d" "orig d' = Or_conn x"
    using assms(2) by auto
  then show ?thesis
    using assms(1,3) request_conn_keeps [of c c' d'] by (auto simp: request_conn_def)
qed

lemma error_to_client_request:
  "error_handler_to_client st c = Inr (j, c') \<Longrightarrow> request_conn c \<Longrightarrow>
   keeps c c' \<and> request_conn c' \<and> j = REQUEST_WRITE"
  using error_handler_to_client_steps same_unions_request by blast

lemma connecting_error_steps:
  assumes run: "connecting_error e c = Inr (j, c')" and st: "request_conn c" "sound n c" "live c"
    and n: "Suc n < 2 ^ 32"
  shows "advanced n c c' j"
proof -
  obtain d where d: "conn c = Inr d" using st(1) by (auto simp: request_conn_def)
  obtain c1 where c1: "set_conn_status (errno_to_socks e) c = Inr c1"
    using run d by (auto simp: connecting_error_def split: if_splits)
  have k1: "keeps c c1" "request_conn c1" using set_conn_status_request [OF c1 st(1)] by auto
  consider (last) c2 c3 where "same_unions c1 c2" "same_unions c2 c3"
      "error_handler_to_client (errno_to_socks e) c3 = Inr (j, c')"
    | (more) c2 r where "same_unions c1 c2" "connection c2 = Inr (r, c')" "j = REQUEST_CONNECTING"
  proof (cases "origin_resolution_current d = Null")
    case True
    then obtain c2 where a: "access_log c1 = Inr c2"
        "error_handler_to_client (errno_to_socks e) c2 = Inr (j, c')"
      using run d c1 by (auto simp: connecting_error_def)
    have s: "same_unions c1 c2" using access_log_steps [OF a(1)] .
    then have "same_unions c2 c2" by (auto simp: same_unions_def)
    then show ?thesis by (rule last [OF s _ a(2)])
  next
    case False
    obtain r where r: "next_address c1 = Inr r"
      using run d c1 False by (auto simp: connecting_error_def)
    show ?thesis
    proof (cases r)
      case None
      then obtain c2 c3 where "access_log c1 = Inr c2" "free_resolution c2 = Inr c3"
          "error_handler_to_client (errno_to_socks e) c3 = Inr (j, c')"
        using run d c1 False r by (auto simp: connecting_error_def)
      then show ?thesis using last [OF access_log_steps free_resolution_steps] by metis
    next
      case (Some c2)
      then show ?thesis
        using run d c1 False r more next_address_steps by (auto simp: connecting_error_def)
    qed
  qed
  then show ?thesis
  proof cases
    case last
    have "keeps c c'" "request_conn c'" "j = REQUEST_WRITE"
      using same_unions_request [OF last(1) k1(2)] same_unions_request [OF last(2)]
        error_to_client_request [OF last(3)] keeps_trans k1(1) by blast+
    then show ?thesis using advanced_keeps [OF st(2)] by blast
  next
    case more
    have k2: "keeps c c2" "request_conn c2"
      using same_unions_request [OF more(1) k1(2)] keeps_trans k1(1) by blast+
    then have "grown n c2 c'"
      using connection_steps [OF more(2)] keeps_sound [OF k2(1) st(2)] keeps_live [OF k2(1)] st(3) n
      by simp
    then show ?thesis
      using keeps_then_grown [OF k2(1)] more(3) by (simp add: grown_def advanced_def)
  qed
qed

lemma unregister_origin_steps:
  assumes run: "unregister fd c = Inr (s, c1)" "conn c1 = Inr d1"
      "error_handler_to_client st (put_conn (d1\<lparr>origin_fd := -1\<rparr>) (emit ev c1)) = Inr (j, c')"
    and st: "request_conn c" "sound n c"
  shows "advanced n c c' j"
proof -
  obtain d where d: "conn c = Inr d" "isSocks d" "no_fault (as_request (client d))"
    "no_fault (as_conn (orig d))" using st(1) by (auto simp: request_conn_def)
  have m: "moved c c1" "sound n c1" "only_refs d d1"
    using unregister_moved [OF run(1) st(2)] run(2) d(1) by auto
  let ?c2 = "put_conn (d1\<lparr>origin_fd := -1\<rparr>) (emit ev c1)"
  have "request_conn c1" using m(3) run(2) d by (auto simp: request_conn_def only_refs_def)
  then have rq: "request_conn ?c2" using run(2) by (simp add: request_conn_def)
  have k: "keeps c1 ?c2" using run(2) by auto
  have e: "keeps ?c2 c'" "request_conn c'" "j = REQUEST_WRITE"
    using error_to_client_request [OF run(3) rq] by auto
  have "advanced n c1 c' j" using advanced_keeps [OF m(2) keeps_trans [OF k e(1)] e(2)] e(3) by simp
  then show ?thesis using moved_trans [OF m(1)] by (simp add: advanced_def)
qed

lemma connecting_write_steps:
  assumes run: "connecting_write c = Inr (j, c')" and st: "request_conn c" "sound n c" "live c"
    and n: "Suc n < 2 ^ 32"
  shows "advanced n c c' j"
proof -
  obtain d x where d: "conn c = Inr d" "as_conn (orig d) = Inr x"
    using st(1) by (auto simp: request_conn_def no_fault_iff)
  show ?thesis
  proof (cases "cn_status x = status_succeeded")
    case True
    show ?thesis
    proof (cases "io_so_error (c_io c)")
      case None
      then obtain c1 c2 where c2: "set_conn_status status_general_socks_server_failure c = Inr c1"
        "access_log c1 = Inr c2"
        "error_handler_to_client status_general_socks_server_failure c2 = Inr (j, c')"
        using run True d by (auto simp: connecting_write_def)
      have k1: "keeps c c1" "request_conn c1" using set_conn_status_request [OF c2(1) st(1)] by auto
      have k2: "keeps c1 c2" "request_conn c2"
        using same_unions_request [OF access_log_steps [OF c2(2)] k1(2)] by auto
      have e: "keeps c2 c'" "request_conn c'" "j = REQUEST_WRITE"
        using error_to_client_request [OF c2(3) k2(2)] by auto
      show ?thesis
        using advanced_keeps [OF st(2) keeps_trans [OF keeps_trans [OF k1(1) k2(1)] e(1)] e(2)] e(3)
        by simp
    next
      case (Some e)
      show ?thesis
      proof (cases "e = E_none")
        case True
        then have "connecting_success c = Inr (j, c')"
          using run d Some \<open>cn_status x = status_succeeded\<close> by (simp add: connecting_write_def)
        from connecting_success_steps [OF this] show ?thesis
          using keeps_to_request [OF d(1)] st(1) advanced_keeps [OF st(2)] d(1) by auto
      next
        case False
        then have "connecting_error e c = Inr (j, c')"
          using run d Some True by (simp add: connecting_write_def)
        then show ?thesis using st n by (rule connecting_error_steps)
      qed
    qed
  next
    case False
    obtain r where r: "next_address c = Inr r" using run d False by (auto simp: connecting_write_def)
    show ?thesis
    proof (cases r)
      case None
      then obtain s c1 d1 where "unregister (origin_fd d) c = Inr (s, c1)" "conn c1 = Inr d1"
        "error_handler_to_client (cn_status x)
           (put_conn (d1\<lparr>origin_fd := -1\<rparr>) (emit (Closed (origin_fd d)) c1)) = Inr (j, c')"
        using run d False r by (auto simp: connecting_write_def)
      then show ?thesis using st(1,2) by (rule unregister_origin_steps)
    next
      case (Some c1)
      then obtain y where y: "connection c1 = Inr (y, c')" "j = REQUEST_CONNECTING"
        using run d False r by (auto simp: connecting_write_def)
      have "same_unions c c1" using next_address_steps r Some by simp
      then have k: "keeps c c1" "request_conn c1" using same_unions_request st(1) by auto
      then have "grown n c1 c'"
        using connection_steps [OF y(1)] keeps_sound [OF k(1) st(2)] keeps_live [OF k(1)] st(3) n
        by simp
      then show ?thesis
        using keeps_then_grown [OF k(1)] y(2) by (simp add: grown_def advanced_def)
    qed
  qed
qed

section \<open>Relaying\<close>

definition copying :: "socks5 \<Rightarrow> bool" where
  "copying d \<longleftrightarrow> no_fault (as_client_copy (client d)) \<and> no_fault (as_orig_copy (orig d))"

lemma put_copy_simps [simp]:
  "references (put_copy s h d) = references d" "isSocks (put_copy s h d) = isSocks d"
  "error_state (put_copy s h d) = error_state d" "done_state (put_copy s h d) = done_state d"
  by (simp_all add: put_copy_def split: side.splits)

lemma copying_put_copy [simp]: "copying d \<Longrightarrow> copying (put_copy s h d)"
  by (cases s) (simp_all add: put_copy_def copying_def)

lemma put_buf_simps [simp]:
  "references (put_buf r b d) = references d" "isSocks (put_buf r b d) = isSocks d"
  "error_state (put_buf r b d) = error_state d" "done_state (put_buf r b d) = done_state d"
  "client (put_buf r b d) = client d" "orig (put_buf r b d) = orig d"
  by (simp_all add: put_buf_def split: buffer_ref.splits)

lemma copying_put_buf [simp]: "copying (put_buf r b d) = copying d"
  by (simp add: copying_def)

lemma copying_password [simp]: "copying (d\<lparr>password_parser := p\<rparr>) = copying d"
  by (simp add: copying_def)

lemma copy_interests_steps: "copy_compute_interests s c = Inr c' \<Longrightarrow> same_unions c c'"
  by (auto simp: copy_compute_interests_def split: if_splits)

lemma copy_init_steps:
  "copy_init i c = Inr c' \<Longrightarrow> conn c = Inr d \<Longrightarrow> keeps_to c c' copying"
  by (auto simp: copy_init_def copying_def Let_def dest!: copy_interests_steps)
    (meson keeps_trans)+

lemma copy_finish_steps:
  "copy_finish s c = Inr (j, c') \<Longrightarrow> \<exists>d. conn c = Inr d \<and>
   keeps_to c c' (\<lambda>d'. copying d' = copying d) \<and> (j = COPY \<or> j = DONE)"
  by (auto simp: copy_finish_def copying_def Let_def split: if_splits dest!: copy_interests_steps)
    (meson keeps_trans)+

lemma copy_shut_steps:
  "copy_shut s ev m ev' th c = Inr c' \<Longrightarrow> \<exists>d. conn c = Inr d \<and>
   keeps_to c c' (\<lambda>d'. copying d \<longrightarrow> copying d')"
  by (auto simp: copy_shut_def Let_def split: if_splits)

lemma log_simps [simp]:
  "conn (c\<lparr>c_world := (c_world c)\<lparr>credentials_seen := l\<rparr>\<rparr>) = conn c"
  by (simp add: conn_def)

lemma keeps_log_intro [intro!]:
  "keeps c0 c \<Longrightarrow> keeps c0 (c\<lparr>c_world := (c_world c)\<lparr>credentials_seen := l\<rparr>\<rparr>)"
  by (blast intro: keeps_trans keeps_log)

lemma keeps_log_dest [dest!]:
  "keeps (c\<lparr>c_world := (c_world c)\<lparr>credentials_seen := l\<rparr>\<rparr>) c' \<Longrightarrow> keeps c c'"
  by (blast intro: keeps_trans keeps_log)

lemma copy_read_steps:
  assumes "copy_read c = Inr (j, c')" and "conn c = Inr d" and "copying d"
  shows "keeps_to c c' copying \<and> (j = COPY \<or> j = DONE)"
  using assms
  by (auto simp: copy_read_def Let_def split: option.splits if_splits
      dest!: copy_shut_steps copy_finish_steps) (meson keeps_trans)+

lemma copy_write_steps:
  assumes "copy_write c = Inr (j, c')" and "conn c = Inr d" and "copying d"
  shows "keeps_to c c' copying \<and> (j = COPY \<or> j = DONE)"
  using assms
  by (auto simp: copy_write_def Let_def split: option.splits if_splits
      dest!: copy_shut_steps copy_finish_steps) (meson keeps_trans)+

section \<open>The management requests\<close>

lemma store_mng_steps:
  "store_mng h c = Inr c' \<Longrightarrow> \<exists>d. conn c = Inr d \<and> keeps_to c c' (\<lambda>d'. client d' = Cl_mng h)"
  by (auto simp: store_mng_def)

lemma write_status_steps: "write_status st c = Inr c' \<Longrightarrow> same_unions c c'"
  by (auto simp: write_status_def)

lemma interest_or_error_steps:
  "interest_or_error i j c = Inr (j', c') \<Longrightarrow>
   keeps c c' \<and> conn c' = conn c \<and> (j' = j \<or> j' = MNG_ERROR)"
  by (auto simp: interest_or_error_def split: if_splits)

lemma reply_status_steps:
  "reply_status st c = Inr (j, c') \<Longrightarrow>
   same_unions c c' \<and> (j = MNG_REQUEST_WRITE \<or> j = MNG_ERROR)"
  by (auto simp: reply_status_def dest!: write_status_steps interest_or_error_steps)
    (meson keeps_trans)+

lemma mng_request_index_init_steps:
  "mng_request_index_init i c = Inr c' \<Longrightarrow>
   \<exists>d. conn c = Inr d \<and> keeps_to c c' (\<lambda>d'. no_fault (as_mng (client d')))"
  by (auto simp: mng_request_index_init_def dest!: store_mng_steps)

lemma mng_request_init_steps:
  "mng_request_init i c = Inr c' \<Longrightarrow>
   \<exists>d. conn c = Inr d \<and> keeps_to c c' (\<lambda>d'. no_fault (as_mng (client d')))"
  by (auto simp: mng_request_init_fields split: option.splits dest!: store_mng_steps)

lemma mng_request_close_steps:
  "mng_request_close i c = Inr c' \<Longrightarrow>
   \<exists>d. conn c = Inr d \<and> keeps_to c c' (\<lambda>d'. no_fault (as_mng (client d')))"
  by (auto simp: mng_request_close_def)

lemma process_mng_index_steps:
  "process_mng_index i c = Inr (j, c') \<Longrightarrow> keeps c c' \<and>
   (\<forall>d. conn c = Inr d \<longrightarrow> (\<exists>d'. conn c' = Inr d' \<and> client d' = client d)) \<and>
   (j = MNG_REQUEST_WRITE \<or> j = MNG_REQUEST_READ \<or> j = MNG_ERROR)"
  by (auto simp: process_mng_index_def split: option.splits if_splits)

lemma mng_request_index_read_steps:
  assumes "mng_request_index_read c = Inr (j, c')" and "conn c = Inr d"
  shows "keeps_to c c' (\<lambda>d'. no_fault (as_mng (client d'))) \<and>
    (j = MNG_REQUEST_READ_INDEX \<or> j = MNG_REQUEST_READ \<or> j = MNG_REQUEST_WRITE \<or> j = MNG_ERROR)"
  using assms
  by (auto simp: mng_request_index_read_def Let_def split: option.splits if_splits
      dest!: reply_status_steps store_mng_steps process_mng_index_steps interest_or_error_steps)
    (meson keeps_trans)+

lemma process_mng_params_request_steps:
  "process_mng_params_request i p c = Inr c' \<Longrightarrow> same_unions c c'"
  by (auto simp: process_mng_params_request_def split: if_splits dest!: write_status_steps)

lemma mng_request_read_steps:
  assumes "mng_request_read c = Inr (j, c')" and "conn c = Inr d"
  shows "keeps_to c c' (\<lambda>d'. no_fault (as_mng (client d'))) \<and>
    (j = MNG_REQUEST_READ \<or> j = MNG_REQUEST_WRITE \<or> j = MNG_ERROR)"
  using assms
  by (auto simp: mng_request_read_def Let_def split: option.splits if_splits
      dest!: reply_status_steps process_mng_params_request_steps) (meson keeps_trans)+

lemma mng_request_write_steps:
  assumes "mng_request_write c = Inr (j, c')" and "conn c = Inr d"
  shows "keeps_to c c' (\<lambda>d'. no_fault (as_mng (client d'))) \<and>
    (j = MNG_REQUEST_WRITE \<or> j = MNG_DONE \<or> j = MNG_ERROR)"
  using assms
  by (auto simp: mng_request_write_def Let_def split: option.splits if_splits)

end
