(* ===== verification/Contract.thy ===== *)
theory Contract
  imports Session
begin

text \<open>
  The contract \<open>stm_client\<close> of the engine, discharged for both state tables of the program: in
  every state the unions hold the member that the handlers of that state read, the invariant of
  the server is kept, and the budget of the engine pays for the references.
\<close>

section \<open>The SOCKS machine\<close>

text \<open>What a state may expect before its arrival action has stored its own member.\<close>

definition socks_entry_shape :: "nat \<Rightarrow> socks5 \<Rightarrow> bool" where
  "socks_entry_shape i d \<longleftrightarrow>
     (if i = HELLO_READ \<or> i = USERPASS_READ \<or> i = REQUEST_READ then no_fault (as_conn (orig d))
      else i = COPY \<or> socks_shape i d)"

definition socks_consts :: "socks5 \<Rightarrow> bool" where
  "socks_consts d \<longleftrightarrow> isSocks d \<and> error_state d = ERROR \<and> done_state d = DONE"

text \<open>
  \<open>holds_at P b c0 n c\<close>: on the way from \<open>c0\<close> the context is \<open>c\<close>, sound with budget \<open>n\<close>, in use if
  \<open>b\<close>, and its connection satisfies \<open>P\<close>. It says nothing once the budget is exhausted.
\<close>

definition holds_at :: "(socks5 \<Rightarrow> bool) \<Rightarrow> bool \<Rightarrow> ctx \<Rightarrow> nat \<Rightarrow> ctx \<Rightarrow> bool" where
  "holds_at P b c0 n c \<longleftrightarrow> (n < 2 ^ 32 \<longrightarrow>
     moved c0 c \<and> sound n c \<and> (b \<longrightarrow> live c) \<and> (\<exists>d. conn c = Inr d \<and> P d))"

definition socks_rest :: "ctx \<Rightarrow> nat \<Rightarrow> nat \<Rightarrow> ctx \<Rightarrow> bool" where
  "socks_rest c0 n i =
     holds_at (\<lambda>d. socks_consts d \<and> socks_shape i d) (i \<le> REQUEST_CONNECTING) c0 n"

definition socks_entry :: "ctx \<Rightarrow> nat \<Rightarrow> nat \<Rightarrow> ctx \<Rightarrow> bool" where
  "socks_entry c0 n i =
     holds_at (\<lambda>d. socks_consts d \<and> socks_entry_shape i d) (i \<le> REQUEST_CONNECTING) c0 n"

lemma holds_at_more: "holds_at P b c0 n c \<Longrightarrow> holds_at P b c0 (Suc n) c"
  using sound_more [of n c "Suc n"] by (auto simp: holds_at_def)

lemma holds_at_weaken:
  "holds_at P b c0 n c \<Longrightarrow> (\<And>d. P d \<Longrightarrow> Q d) \<Longrightarrow> (b' \<Longrightarrow> b) \<Longrightarrow> holds_at Q b' c0 n c"
  by (auto simp: holds_at_def)

lemma holds_at_keeps:
  assumes at: "holds_at P b c0 n c" and k: "\<And>d. conn c = Inr d \<Longrightarrow> P d \<Longrightarrow> keeps_to c c' (Q d)"
    and pq: "\<And>d d'. P d \<Longrightarrow> same_conn d d' \<Longrightarrow> Q d d' \<Longrightarrow> P' d'"
  shows "holds_at P' b c0 n c'"
  unfolding holds_at_def
proof
  assume n: "n < 2 ^ 32"
  then obtain d where d: "moved c0 c" "sound n c" "b \<longrightarrow> live c" "conn c = Inr d" "P d"
    using at by (auto simp: holds_at_def)
  from k [OF d(4,5)] obtain d' where d': "conn c' = Inr d'" "keeps c c'" "Q d d'" by auto
  have "P' d'" using pq d(5) keeps_kind [OF d'(2) d(4) d'(1)] d'(3) by blast
  then show "moved c0 c' \<and> sound n c' \<and> (b \<longrightarrow> live c') \<and> (\<exists>d. conn c' = Inr d \<and> P' d)"
    using d d' moved_trans [OF d(1) keeps_moved [OF d'(2)]] keeps_sound [OF d'(2) d(2)]
      keeps_live [OF d'(2)] by auto
qed

lemma socks_consts_same: "socks_consts d \<Longrightarrow> same_conn d d' \<Longrightarrow> socks_consts d'"
  by (simp add: socks_consts_def same_conn_def)

text \<open>The states a handler of each state may ask for.\<close>

definition socks_succ :: "nat \<Rightarrow> nat set" where
  "socks_succ i =
     [{HELLO_READ, HELLO_WRITE, ERROR},
      {HELLO_WRITE, USERPASS_READ, REQUEST_READ, DONE, ERROR},
      {USERPASS_READ, USERPASS_WRITE, ERROR},
      {USERPASS_WRITE, REQUEST_READ, DONE, ERROR},
      {REQUEST_READ, REQUEST_RESOLV, REQUEST_CONNECTING, REQUEST_WRITE, ERROR},
      {REQUEST_CONNECTING, REQUEST_WRITE},
      {REQUEST_CONNECTING, REQUEST_WRITE, ERROR},
      {REQUEST_WRITE, COPY, DONE, ERROR},
      {COPY, DONE}, {}, {}] ! i"

definition events_of :: "(ctx state_definition \<Rightarrow> state_fun option) \<Rightarrow> bool" where
  "events_of ready \<longleftrightarrow>
     ready = on_read_ready \<or> ready = on_write_ready \<or> ready = on_block_ready"

lemma le_10_cases:
  "i \<le> 10 \<Longrightarrow> i = 0 \<or> i = 1 \<or> i = 2 \<or> i = 3 \<or> i = 4 \<or> i = 5 \<or> i = 6 \<or> i = 7 \<or> i = 8 \<or> i = 9 \<or>
   i = (10 :: nat)"
  by presburger

lemma client_ready:
  assumes "i \<le> ERROR" and "events_of ready" and "ready (client_statbl ! i) = Some f"
  shows "i = HELLO_READ \<and> f = hello_read \<or> i = HELLO_WRITE \<and> f = hello_write \<or>
    i = USERPASS_READ \<and> f = auth_read \<or> i = USERPASS_WRITE \<and> f = auth_write \<or>
    i = REQUEST_READ \<and> f = request_read \<or> i = REQUEST_RESOLV \<and> f = request_resolv_done \<or>
    i = REQUEST_CONNECTING \<and> f = connecting_write \<or> i = REQUEST_WRITE \<and> f = request_write \<or>
    i = COPY \<and> (f = copy_read \<or> f = copy_write)"
  using le_10_cases [OF assms(1)] assms(2,3) unfolding events_of_def
  by (elim disjE) (simp_all add: client_statbl_def state_def)

definition socks_post :: "ctx \<Rightarrow> nat \<Rightarrow> nat \<Rightarrow> nat \<Rightarrow> ctx \<Rightarrow> bool" where
  "socks_post c0 n i j =
     holds_at (\<lambda>d. socks_consts d \<and> socks_shape i d \<and> j \<in> socks_succ i)
       (i \<le> REQUEST_RESOLV \<or> i = REQUEST_CONNECTING \<and> j = REQUEST_CONNECTING) c0 n"

lemma socks_post_keeps:
  assumes at: "socks_rest c0 n i c" and f: "f c = Inr (j, c')"
    and k: "\<And>d. conn c = Inr d \<Longrightarrow> socks_consts d \<Longrightarrow> socks_shape i d \<Longrightarrow>
      keeps_to c c' (socks_shape i) \<and> j \<in> socks_succ i"
  shows "socks_post c0 n i j c'"
proof -
  have "holds_at (\<lambda>d. socks_consts d \<and> socks_shape i d \<and> j \<in> socks_succ i)
      (i \<le> REQUEST_CONNECTING) c0 n c'"
  proof (rule holds_at_keeps [OF at [unfolded socks_rest_def]])
    show "keeps_to c c' (\<lambda>d'. socks_shape i d' \<and> j \<in> socks_succ i)"
      if "conn c = Inr d" "socks_consts d \<and> socks_shape i d" for d
      using k [of d] that by auto
    show "socks_consts d' \<and> socks_shape i d' \<and> j \<in> socks_succ i"
      if "socks_consts d \<and> socks_shape i d" "same_conn d d'" "socks_shape i d' \<and> j \<in> socks_succ i"
      for d d'
      using that socks_consts_same by blast
  qed
  then show ?thesis unfolding socks_post_def by (rule holds_at_weaken) auto
qed

lemma rest_request_conn:
  assumes "holds_at (\<lambda>d. socks_consts d \<and> P d) b c0 n c" and "n < 2 ^ 32"
    and "\<And>d. P d \<Longrightarrow> no_fault (as_request (client d)) \<and> no_fault (as_conn (orig d))"
  shows "request_conn c \<and> sound n c \<and> (b \<longrightarrow> live c) \<and> moved c0 c"
  using assms by (auto simp: holds_at_def request_conn_def socks_consts_def)

lemma request_conn_holds:
  assumes "moved c0 c" and "moved c c'" and "sound n c'" and "request_conn c'" and "b \<longrightarrow> live c'"
    and "conn c = Inr d" and "socks_consts d"
    and "\<And>d. no_fault (as_request (client d)) \<Longrightarrow> no_fault (as_conn (orig d)) \<Longrightarrow> P d"
  shows "holds_at (\<lambda>d. socks_consts d \<and> P d) b c0 n c'"
proof -
  obtain d' where d': "conn c' = Inr d'" "P d'" using assms(4,8) by (auto simp: request_conn_def)
  have "key_data c' = key_data c" using assms(2) by (simp add: moved_def)
  then have "same_conn d d'"
    using assms(2,6) d'(1) unfolding moved_def conn_world by fastforce
  then show ?thesis
    using d' assms moved_trans [OF assms(1,2)] socks_consts_same
    by (auto simp: holds_at_def)
qed

lemma socks_ready_connecting:
  assumes at: "socks_rest c0 n REQUEST_CONNECTING c" and run: "connecting_write c = Inr (j, c')"
  shows "socks_post c0 (Suc n) REQUEST_CONNECTING j c'"
proof (cases "Suc n < 2 ^ 32")
  case False
  then show ?thesis by (simp add: socks_post_def holds_at_def)
next
  case True
  then have n: "n < 2 ^ 32" by simp
  obtain d where d: "conn c = Inr d" "socks_consts d"
    using at n by (auto simp: socks_rest_def holds_at_def)
  have st: "request_conn c" "sound n c" "live c" "moved c0 c"
    using rest_request_conn [OF at [unfolded socks_rest_def] n] by (auto simp: socks_shape_def)
  have adv: "advanced n c c' j" using connecting_write_steps [OF run st(1-3) True] .
  then have "j \<in> socks_succ REQUEST_CONNECTING" by (auto simp: advanced_def socks_succ_def)
  then show ?thesis
    using adv unfolding socks_post_def advanced_def
    by (intro request_conn_holds [OF st(4) _ _ _ _ d]) (auto simp: socks_shape_def)
qed

lemma socks_ready:
  assumes i: "i \<le> ERROR" and ev: "events_of ready" and f: "ready (client_statbl ! i) = Some f"
    and at: "socks_rest c0 n i c" and run: "f c = Inr (j, c')"
  shows "socks_post c0 (Suc n) i j c'"
  using client_ready [OF i ev f]
proof (elim disjE conjE)
  have keep: "socks_post c0 (Suc n) i j c'"
    if "\<And>d. conn c = Inr d \<Longrightarrow> socks_consts d \<Longrightarrow> socks_shape i d \<Longrightarrow>
      keeps_to c c' (socks_shape i) \<and> j \<in> socks_succ i"
    using at that run unfolding socks_rest_def
    by (intro socks_post_keeps [of c0 "Suc n" i c f j c']) (auto simp: socks_rest_def intro: holds_at_more)
  show ?thesis if "i = REQUEST_CONNECTING" "f = connecting_write"
    using socks_ready_connecting at run that by blast
  show ?thesis if "i = HELLO_READ" "f = hello_read"
    using hello_read_steps [of c j c'] run that
    by (intro keep) (auto simp: socks_shape_def socks_succ_def socks_consts_def)
  show ?thesis if "i = HELLO_WRITE" "f = hello_write"
    using hello_write_steps [of c j c'] run that
    by (intro keep) (auto simp: socks_shape_def socks_succ_def socks_consts_def)
  show ?thesis if "i = USERPASS_READ" "f = auth_read"
    using auth_read_steps [of c j c'] run that
    by (intro keep) (auto simp: socks_shape_def socks_succ_def socks_consts_def)
  show ?thesis if "i = USERPASS_WRITE" "f = auth_write"
    using auth_write_steps [of c j c'] run that
    by (intro keep) (auto simp: socks_shape_def socks_succ_def socks_consts_def)
  show ?thesis if "i = REQUEST_READ" "f = request_read"
    using request_read_steps [of c j c'] run that
    by (intro keep) (auto simp: socks_shape_def socks_succ_def socks_consts_def)
  show ?thesis if "i = REQUEST_RESOLV" "f = request_resolv_done"
    using request_resolv_done_steps [of c j c'] run that
    by (intro keep) (auto simp: socks_shape_def socks_succ_def socks_consts_def)
  show ?thesis if "i = REQUEST_WRITE" "f = request_write"
    using request_write_steps [of c j c'] run that
    by (intro keep) (auto simp: socks_shape_def socks_succ_def socks_consts_def)
  show ?thesis if "i = COPY" "f = copy_read"
    using copy_read_steps [of c j c'] run that
    by (intro keep) (auto simp: socks_shape_def socks_succ_def socks_consts_def copying_def)
  show ?thesis if "i = COPY" "f = copy_write"
    using copy_write_steps [of c j c'] run that
    by (intro keep) (auto simp: socks_shape_def socks_succ_def socks_consts_def copying_def)
qed

lemma socks_departure:
  assumes i: "i \<le> ERROR" and run: "run_action (on_departure (client_statbl ! i)) i c = Inr c'"
    and d: "conn c = Inr d" "socks_shape i d"
  shows "keeps_to c c' (socks_shape i)"
  using le_10_cases [OF i] run d
    hello_read_close_steps [of 0 c c' d] auth_read_close_steps [of 2 c c' d]
    request_close_steps [of 4 c c' d] connecting_close_steps [of 6 c c' d]
  by (elim disjE)
    (auto simp: client_statbl_def state_def run_action_def socks_shape_def hello_write_close_def
      auth_write_close_def)

lemma socks_leave:
  assumes i: "i \<le> ERROR" and post: "socks_post c0 n i j c" and ne: "i \<noteq> j"
    and run: "run_action (on_departure (client_statbl ! i)) i c = Inr c'"
  shows "socks_entry c0 n j c'"
proof -
  have keep: "keeps_to c c' (\<lambda>d'. socks_shape i d')" if "conn c = Inr d" "socks_shape i d" for d
    using socks_departure [OF i run that] .
  have "holds_at (\<lambda>d. socks_consts d \<and> socks_shape i d \<and> j \<in> socks_succ i)
      (i \<le> REQUEST_RESOLV \<or> i = REQUEST_CONNECTING \<and> j = REQUEST_CONNECTING) c0 n c'"
  proof (rule holds_at_keeps [OF post [unfolded socks_post_def]])
    show "keeps_to c c' (\<lambda>d'. socks_shape i d' \<and> j \<in> socks_succ i)"
      if "conn c = Inr d" "socks_consts d \<and> socks_shape i d \<and> j \<in> socks_succ i" for d
      using keep [of d] that by auto
    show "socks_consts d' \<and> socks_shape i d' \<and> j \<in> socks_succ i"
      if "socks_consts d \<and> socks_shape i d \<and> j \<in> socks_succ i" "same_conn d d'"
        "socks_shape i d' \<and> j \<in> socks_succ i" for d d'
      using that socks_consts_same by blast
  qed
  moreover have "socks_entry_shape j d \<and> (j \<le> REQUEST_CONNECTING \<longrightarrow> i \<le> REQUEST_RESOLV)"
    if "socks_shape i d" "j \<in> socks_succ i" for d
    using le_10_cases [OF i] ne that
    by (elim disjE) (auto simp: socks_shape_def socks_entry_shape_def socks_succ_def)
  ultimately show ?thesis
    unfolding socks_entry_def holds_at_def by blast
qed

lemma socks_arrival_keeps:
  assumes i: "i \<le> ERROR" "i \<noteq> REQUEST_CONNECTING"
    and run: "run_action (on_arrival (client_statbl ! i)) i c = Inr c'"
    and d: "conn c = Inr d" "socks_entry_shape i d"
  shows "keeps_to c c' (socks_shape i)"
  using le_10_cases [OF i(1)] i(2) run d
    hello_read_init_steps [of 0 c c' d] auth_read_init_steps [of 2 c c' d]
    request_init_steps [of 4 c c' d] copy_init_steps [of 8 c c' d]
  by (elim disjE)
    (auto simp: client_statbl_def state_def run_action_def socks_shape_def socks_entry_shape_def
      hello_write_init_def auth_write_init_def copying_def)

lemma socks_arrive:
  assumes i: "i \<le> ERROR" and at: "socks_entry c0 n i c"
    and run: "run_action (on_arrival (client_statbl ! i)) i c = Inr c'"
  shows "socks_rest c0 (Suc n) i c'"
proof (cases "i = REQUEST_CONNECTING")
  case False
  have "holds_at (\<lambda>d. socks_consts d \<and> socks_shape i d) (i \<le> REQUEST_CONNECTING) c0 n c'"
  proof (rule holds_at_keeps [OF at [unfolded socks_entry_def]])
    show "keeps_to c c' (socks_shape i)"
      if "conn c = Inr d" "socks_consts d \<and> socks_entry_shape i d" for d
      using socks_arrival_keeps [OF i False run] that by blast
    show "socks_consts d' \<and> socks_shape i d'"
      if "socks_consts d \<and> socks_entry_shape i d" "same_conn d d'" "socks_shape i d'" for d d'
      using that socks_consts_same by blast
  qed
  then show ?thesis unfolding socks_rest_def by (rule holds_at_more)
next
  case True
  show ?thesis
  proof (cases "Suc n < 2 ^ 32")
    case False
    then show ?thesis by (simp add: socks_rest_def holds_at_def)
  next
    case n: True
    then have n': "n < 2 ^ 32" by simp
    obtain d where d: "conn c = Inr d" "socks_consts d"
      using at n' by (auto simp: socks_entry_def holds_at_def)
    have st: "request_conn c" "sound n c" "live c" "moved c0 c"
      using rest_request_conn [OF at [unfolded socks_entry_def] n'] True
      by (auto simp: socks_entry_shape_def socks_shape_def)
    have "connecting_init i c = Inr c'"
      using run True by (simp add: run_action_def client_statbl_def state_def)
    then have "grown n c c'" using connecting_init_steps st n by blast
    then show ?thesis
      unfolding socks_rest_def grown_def
      by (intro request_conn_holds [OF st(4) _ _ _ _ d]) (auto simp: socks_shape_def True)
  qed
qed

lemma socks5_stm_wf: "stm_wf (socks5_stm None)"
  by (auto simp: stm_wf_def socks5_stm_def client_statbl_def state_def dest!: le_10_cases)

lemma socks_post_stay: "socks_post c0 n i i c \<Longrightarrow> socks_rest c0 n i c"
  unfolding socks_post_def socks_rest_def by (erule holds_at_weaken) (blast, presburger)

interpretation socks: stm_client "socks5_stm None" "socks_entry c0" "socks_rest c0" events_of for c0
proof
  show "stm_wf (socks5_stm None)" by (rule socks5_stm_wf)
  fix i n s s'
  assume i: "i \<le> stm_max_state (socks5_stm None)"
  then have le: "i \<le> ERROR" by (simp add: socks5_stm_def)
  show "socks_rest c0 (Suc n) i s'" if "socks_entry c0 n i s"
    "run_action (on_arrival (stm_states (socks5_stm None) ! i)) i s = Inr s'"
    using that socks_arrive [OF le] by (simp add: socks5_stm_def)
  fix ready f
  show "socks_rest c0 (Suc n) i s'" if "socks_rest c0 n i s" "events_of ready"
    "ready (stm_states (socks5_stm None) ! i) = Some f" "f s = Inr (i, s')"
    using that socks_ready [OF le, of ready f c0 n s i s'] socks_post_stay
    by (simp add: socks5_stm_def)
  fix j s''
  show "socks_entry c0 (Suc n) j s''" if "socks_rest c0 n i s" "events_of ready"
    "ready (stm_states (socks5_stm None) ! i) = Some f" "f s = Inr (j, s')" "i \<noteq> j"
    "j \<le> stm_max_state (socks5_stm None)"
    "run_action (on_departure (stm_states (socks5_stm None) ! i)) i s' = Inr s''"
    using that socks_ready [OF le, of ready f c0 n s j s'] socks_leave [OF le, of c0 "Suc n" j s' s'']
    by (simp add: socks5_stm_def)
next
  show "socks_rest c0 (Suc n) i s" if "socks_rest c0 n i s" for n i s
    using that unfolding socks_rest_def by (rule holds_at_more)
qed

section \<open>The management machine\<close>

definition mng_entry_shape :: "nat \<Rightarrow> socks5 \<Rightarrow> bool" where
  "mng_entry_shape i d \<longleftrightarrow>
     i = HELLO_READ \<or> i = USERPASS_READ \<or> i = MNG_REQUEST_READ_INDEX \<or> mng_shape i d"

definition mng_consts :: "socks5 \<Rightarrow> bool" where
  "mng_consts d \<longleftrightarrow> \<not> isSocks d \<and> error_state d = MNG_ERROR \<and> done_state d = MNG_DONE"

definition mng_rest :: "ctx \<Rightarrow> nat \<Rightarrow> nat \<Rightarrow> ctx \<Rightarrow> bool" where
  "mng_rest c0 n i = holds_at (\<lambda>d. mng_consts d \<and> mng_shape i d) False c0 n"

definition mng_entry :: "ctx \<Rightarrow> nat \<Rightarrow> nat \<Rightarrow> ctx \<Rightarrow> bool" where
  "mng_entry c0 n i = holds_at (\<lambda>d. mng_consts d \<and> mng_entry_shape i d) False c0 n"

definition mng_succ :: "nat \<Rightarrow> nat set" where
  "mng_succ i =
     [{HELLO_READ, HELLO_WRITE, MNG_ERROR},
      {HELLO_WRITE, USERPASS_READ, MNG_REQUEST_READ_INDEX, MNG_DONE, MNG_ERROR},
      {USERPASS_READ, USERPASS_WRITE, MNG_ERROR},
      {USERPASS_WRITE, MNG_REQUEST_READ_INDEX, MNG_DONE, MNG_ERROR},
      {MNG_REQUEST_READ_INDEX, MNG_REQUEST_READ, MNG_REQUEST_WRITE, MNG_ERROR},
      {MNG_REQUEST_READ, MNG_REQUEST_WRITE, MNG_ERROR},
      {MNG_REQUEST_WRITE, MNG_DONE, MNG_ERROR}, {}, {}] ! i"

lemma mng_consts_same: "mng_consts d \<Longrightarrow> same_conn d d' \<Longrightarrow> mng_consts d'"
  by (simp add: mng_consts_def same_conn_def)

lemma le_8_cases:
  "i \<le> 8 \<Longrightarrow> i = 0 \<or> i = 1 \<or> i = 2 \<or> i = 3 \<or> i = 4 \<or> i = 5 \<or> i = 6 \<or> i = 7 \<or> i = (8 :: nat)"
  by presburger

lemma mng_ready_cases:
  assumes "i \<le> MNG_ERROR" and "events_of ready" and "ready (client_mng ! i) = Some f"
  shows "i = HELLO_READ \<and> f = hello_read \<or> i = HELLO_WRITE \<and> f = hello_write \<or>
    i = USERPASS_READ \<and> f = auth_read \<or> i = USERPASS_WRITE \<and> f = auth_write \<or>
    i = MNG_REQUEST_READ_INDEX \<and> f = mng_request_index_read \<or>
    i = MNG_REQUEST_READ \<and> f = mng_request_read \<or> i = MNG_REQUEST_WRITE \<and> f = mng_request_write"
  using le_8_cases [OF assms(1)] assms(2,3) unfolding events_of_def
  by (elim disjE) (simp_all add: client_mng_def state_def)

lemma mng_keeps:
  assumes at: "holds_at (\<lambda>d. mng_consts d \<and> P d) b c0 n c"
    and k: "\<And>d. conn c = Inr d \<Longrightarrow> mng_consts d \<Longrightarrow> P d \<Longrightarrow> keeps_to c c' Q"
  shows "holds_at (\<lambda>d. mng_consts d \<and> Q d) b c0 n c'"
  using at
proof (rule holds_at_keeps)
  show "keeps_to c c' Q" if "conn c = Inr d" "mng_consts d \<and> P d" for d using k that by blast
  show "mng_consts d' \<and> Q d'" if "mng_consts d \<and> P d" "same_conn d d'" "Q d'" for d d'
    using that mng_consts_same by blast
qed

lemma mng_ready:
  assumes i: "i \<le> MNG_ERROR" and ev: "events_of ready" and f: "ready (client_mng ! i) = Some f"
    and at: "mng_rest c0 n i c" and run: "f c = Inr (j, c')"
  shows "holds_at (\<lambda>d. mng_consts d \<and> (mng_shape i d \<and> j \<in> mng_succ i)) False c0 n c'"
proof (rule mng_keeps [OF at [unfolded mng_rest_def]])
  fix d assume d: "conn c = Inr d" "mng_consts d" "mng_shape i d"
  show "keeps_to c c' (\<lambda>d. mng_shape i d \<and> j \<in> mng_succ i)"
    using mng_ready_cases [OF i ev f] d run hello_read_steps [of c j c' d]
      hello_write_steps [of c j c' d] auth_read_steps [of c j c' d] auth_write_steps [of c j c' d]
      mng_request_index_read_steps [of c j c' d] mng_request_read_steps [of c j c' d]
      mng_request_write_steps [of c j c' d]
    by (elim disjE conjE) (auto simp: mng_shape_def mng_succ_def mng_consts_def)
qed

lemma mng_leave:
  assumes i: "i \<le> MNG_ERROR" and ne: "i \<noteq> j"
    and at: "holds_at (\<lambda>d. mng_consts d \<and> (mng_shape i d \<and> j \<in> mng_succ i)) False c0 n c"
    and run: "run_action (on_departure (client_mng ! i)) i c = Inr c'"
  shows "mng_entry c0 n j c'"
  unfolding mng_entry_def
proof (rule mng_keeps [OF at])
  fix d assume d: "conn c = Inr d" "mng_consts d" "mng_shape i d \<and> j \<in> mng_succ i"
  show "keeps_to c c' (mng_entry_shape j)"
    using le_8_cases [OF i] ne d run
      hello_read_close_steps [of 0 c c' d] auth_read_close_steps [of 2 c c' d]
      mng_request_close_steps [of 4 c c'] mng_request_close_steps [of 5 c c']
    by (elim disjE)
      (auto simp: client_mng_def state_def run_action_def mng_shape_def mng_entry_shape_def
        mng_succ_def hello_write_close_def auth_write_close_def mng_request_index_close_def
        mng_request_write_close_def)
qed

lemma mng_arrive:
  assumes i: "i \<le> MNG_ERROR" and at: "mng_entry c0 n i c"
    and run: "run_action (on_arrival (client_mng ! i)) i c = Inr c'"
  shows "mng_rest c0 (Suc n) i c'"
  unfolding mng_rest_def
proof (rule holds_at_more, rule mng_keeps [OF at [unfolded mng_entry_def]])
  fix d assume d: "conn c = Inr d" "mng_consts d" "mng_entry_shape i d"
  show "keeps_to c c' (mng_shape i)"
    using le_8_cases [OF i] d run
      hello_read_init_steps [of 0 c c' d] auth_read_init_steps [of 2 c c' d]
      mng_request_index_init_steps [of 4 c c'] mng_request_init_steps [of 5 c c']
    by (elim disjE)
      (auto simp: client_mng_def state_def run_action_def mng_shape_def mng_entry_shape_def
        hello_write_init_def auth_write_init_def mng_request_write_init_def)
qed

lemma mng_stm_wf: "stm_wf (mng_stm None)"
  by (auto simp: stm_wf_def mng_stm_def client_mng_def state_def dest!: le_8_cases)

interpretation mng: stm_client "mng_stm None" "mng_entry c0" "mng_rest c0" events_of for c0
proof
  show "stm_wf (mng_stm None)" by (rule mng_stm_wf)
  fix i n s s'
  assume i: "i \<le> stm_max_state (mng_stm None)"
  then have le: "i \<le> MNG_ERROR" by (simp add: mng_stm_def)
  show "mng_rest c0 (Suc n) i s'" if "mng_entry c0 n i s"
    "run_action (on_arrival (stm_states (mng_stm None) ! i)) i s = Inr s'"
    using that mng_arrive [OF le] by (simp add: mng_stm_def)
  fix ready f j
  have post: "holds_at (\<lambda>d. mng_consts d \<and> (mng_shape i d \<and> j \<in> mng_succ i)) False c0 (Suc n) s'"
    if "mng_rest c0 n i s" "events_of ready" "ready (stm_states (mng_stm None) ! i) = Some f"
      "f s = Inr (j, s')" for j
    using mng_ready [OF le, of ready f c0 n s j s'] that holds_at_more by (simp add: mng_stm_def)
  show "mng_rest c0 (Suc n) i s'" if "mng_rest c0 n i s" "events_of ready"
    "ready (stm_states (mng_stm None) ! i) = Some f" "f s = Inr (i, s')"
    using post [OF that] unfolding mng_rest_def by (rule holds_at_weaken) auto
  show "mng_entry c0 (Suc n) j s''" if "mng_rest c0 n i s" "events_of ready"
    "ready (stm_states (mng_stm None) ! i) = Some f" "f s = Inr (j, s')" "i \<noteq> j"
    "j \<le> stm_max_state (mng_stm None)"
    "run_action (on_departure (stm_states (mng_stm None) ! i)) i s' = Inr s''" for s''
    using mng_leave [OF le that(5) post [OF that(1-4)]] that(7) by (simp add: mng_stm_def)
next
  show "mng_rest c0 (Suc n) i s" if "mng_rest c0 n i s" for n i s
    using that unfolding mng_rest_def by (rule holds_at_more)
qed

end
