(* ===== verification/Serving.thy ===== *)
theory Serving
  imports Contract
begin

text \<open>
  The running server: the turns of the main loop of \<open>src/main.c\<close>, and what they keep.
\<close>

section \<open>The contract between the selector and its handlers\<close>

text \<open>
  \<open>J n\<close> is what the program keeps between two calls of handlers; \<open>n\<close> is a budget of which each
  call uses \<open>cost\<close>. A write handler may be called with the data that was read from the item
  before the read handler ran. \<open>turn_calls\<close> bounds the calls of one turn: a read and a write for
  each descriptor, and one for each finished job.
\<close>

lemma used_registered: "item_at s i = Inr it \<Longrightarrow> item_used it \<Longrightarrow> registered s i = Some it"
  by (auto simp: item_at_def registered_def split: if_splits)

definition turn_calls ::
  "('h \<Rightarrow> ('h, 'd, 'w) fd_handler) \<Rightarrow> pselect_result \<Rightarrow> ('h, 'd) fdselector \<times> 'w \<Rightarrow> nat" where
  "turn_calls tbl res = (\<lambda>(s, w).
     case res of
       Failed \<Rightarrow> 0
     | Interrupted \<Rightarrow> length (resolution_jobs s)
     | Ready r wr \<Rightarrow>
         2 * Suc (max_fd s) +
         (case handle_iteration tbl (s\<lparr>slave_r := master_r s \<inter> r, slave_w := master_w s \<inter> wr\<rparr>, w) of
            Inl _ \<Rightarrow> 0 | Inr (s1, _) \<Rightarrow> length (resolution_jobs s1)))"

locale selector_hooks =
  fixes tbl :: "'h \<Rightarrow> ('h, 'd, 'w) fd_handler"
    and J :: "nat \<Rightarrow> ('h, 'd) fdselector \<times> 'w \<Rightarrow> bool"
    and cost :: nat
  assumes spend: "J n sw \<Longrightarrow> n \<le> m \<Longrightarrow> J m sw"
    and marks: "J n (s, w) \<Longrightarrow> J n (s\<lparr>slave_r := a, slave_w := b\<rparr>, w)"
    and jobs: "J n (s, w) \<Longrightarrow> J n (s\<lparr>resolution_jobs := js\<rparr>, w)"
    and called: "J n (s, w) \<Longrightarrow> registered s i = Some it \<Longrightarrow> it_handler it = Some h \<Longrightarrow>
      handle_read (tbl h) = Some f \<or> handle_write (tbl h) = Some f \<or> handle_block (tbl h) = Some f \<Longrightarrow>
      f fd (it_data it) (s, w) = Inr sw' \<Longrightarrow> J (n + cost) sw'"
    and write_after_read: "J n (s, w) \<Longrightarrow> registered s i = Some it \<Longrightarrow> it_handler it = Some h \<Longrightarrow>
      handle_read (tbl h) = Some f \<Longrightarrow> f fd (it_data it) (s, w) = Inr (s1, w1) \<Longrightarrow>
      item_at s1 i = Inr it1 \<Longrightarrow> it_handler it1 = Some h1 \<Longrightarrow>
      handle_write (tbl h1) = Some g \<Longrightarrow> g fd (it_data it) (s1, w1) = Inr sw' \<Longrightarrow>
      J (n + cost + cost) sw'"
begin

lemma hooks_Inr: "item_hooks tbl it = Inr x \<Longrightarrow> \<exists>h. it_handler it = Some h \<and> x = tbl h"
  by (auto simp: item_hooks_def split: option.splits)

text \<open>The second half of \<open>handle_item\<close>, after the read handler.\<close>

lemma write_handled:
  assumes J: "J m (s1, w1)" and le: "m \<le> k" and fd: "fd_size s1 = fd_size s \<or> i \<notin> slave_w s1"
    and hook: "\<And>it1 h1 g. item_at s1 i = Inr it1 \<Longrightarrow> it_handler it1 = Some h1 \<Longrightarrow>
      handle_write (tbl h1) = Some g \<Longrightarrow> g fd data (s1, w1) = Inr sw' \<Longrightarrow> J k sw'"
    and run: "(if i \<notin> slave_w s1 then Inr (s1, w1)
      else bind_res (item_at s1 i)
        (\<lambda>it1. if wants OP_WRITE (it_interest it1) then
            bind_res (item_hooks tbl it1)
              (\<lambda>h. case handle_write h of None \<Rightarrow> Inl Aborted | Some f \<Rightarrow> f fd data (s1, w1))
          else Inr (s1, w1))) = Inr sw'"
  shows "J k sw'"
  using run spend [OF J le]
  by (auto split: if_splits option.splits dest!: hooks_Inr) (rule hook)

lemma item_handled:
  assumes J: "J n (s, w)" and run: "handle_item tbl (s, w) i = Inr sw'"
  shows "J (n + 2 * cost) sw'"
proof -
  obtain it where it: "item_at s i = Inr it"
    using run by (auto simp: handle_item_def)
  show ?thesis
  proof (cases "item_used it")
    case False
    then show ?thesis using J run it spend [of n] by (auto simp: handle_item_def)
  next
    case True
    then have reg: "registered s i = Some it" using used_registered [OF it] by simp
    let ?fd = "nat (it_fd it)"
    show ?thesis
    proof (cases "?fd \<in> slave_r s \<and> wants OP_READ (it_interest it)")
      case rd: True
      then obtain h f s1 w1 where h: "it_handler it = Some h" "handle_read (tbl h) = Some f"
        "f ?fd (it_data it) (s, w) = Inr (s1, w1)"
        using run it True
        by (auto simp: handle_item_def Let_def split: option.splits dest!: hooks_Inr)
      have J1: "J (n + cost) (s1, w1)" using called [OF J reg h(1), of f] h(2,3) by simp
      show ?thesis
      proof (rule write_handled [OF J1])
        show "fd_size s1 = fd_size s1 \<or> i \<notin> slave_w s1" by simp
        show "J (n + 2 * cost) sw'" if "item_at s1 i = Inr it1" "it_handler it1 = Some h1"
          "handle_write (tbl h1) = Some g" "g ?fd (it_data it) (s1, w1) = Inr sw'" for it1 h1 g
          using write_after_read [OF J reg h that] by (simp add: mult_2 add.assoc)
        show "(if i \<notin> slave_w s1 then Inr (s1, w1)
          else bind_res (item_at s1 i)
            (\<lambda>it1. if wants OP_WRITE (it_interest it1) then
                bind_res (item_hooks tbl it1)
                  (\<lambda>h. case handle_write h of None \<Rightarrow> Inl Aborted
                     | Some f \<Rightarrow> f ?fd (it_data it) (s1, w1))
              else Inr (s1, w1))) = Inr sw'"
          using run it True rd h by (simp add: handle_item_def Let_def item_hooks_def split: if_splits)
      qed simp
    next
      case rd: False
      show ?thesis
      proof (rule write_handled [OF J])
        show "fd_size s = fd_size s \<or> i \<notin> slave_w s" by simp
        show "J (n + 2 * cost) sw'" if "item_at s i = Inr it1" "it_handler it1 = Some h1"
          "handle_write (tbl h1) = Some g" "g ?fd (it_data it) (s, w) = Inr sw'" for it1 h1 g
          using called [OF J reg, of h1 g ?fd sw'] that it spend [of "n + cost" sw' "n + 2 * cost"]
          by simp
        show "(if i \<notin> slave_w s then Inr (s, w)
          else bind_res (item_at s i)
            (\<lambda>it1. if wants OP_WRITE (it_interest it1) then
                bind_res (item_hooks tbl it1)
                  (\<lambda>h. case handle_write h of None \<Rightarrow> Inl Aborted
                     | Some f \<Rightarrow> f ?fd (it_data it) (s, w))
              else Inr (s, w))) = Inr sw'"
          using run it True rd by (auto simp: handle_item_def Let_def split: if_splits)
      qed simp
    qed
  qed
qed

lemma items_handled:
  "J n sw \<Longrightarrow> handle_items tbl is sw = Inr sw' \<Longrightarrow> J (n + 2 * cost * length is) sw'"
proof (induction "is" arbitrary: n sw)
  case Nil
  then show ?case by simp
next
  case (Cons i "is")
  then obtain sw1 where sw1: "handle_item tbl sw i = Inr sw1" "handle_items tbl is sw1 = Inr sw'"
    by auto
  have "J (n + 2 * cost) sw1" using item_handled [of n "fst sw" "snd sw" i sw1] Cons.prems(1) sw1(1) by simp
  from Cons.IH [OF this sw1(2)] show ?case by (simp add: algebra_simps)
qed

lemma jobs_handled:
  "J n sw \<Longrightarrow> handle_jobs tbl js sw = Inr sw' \<Longrightarrow> J (n + cost * length js) sw'"
proof (induction js arbitrary: n sw)
  case Nil
  then show ?case by simp
next
  case (Cons j js)
  then obtain it sw1 where it: "item_at (fst sw) j = Inr it"
    and sw1: "(if item_used it then
        bind_res (item_hooks tbl it)
          (\<lambda>h. case handle_block h of None \<Rightarrow> Inl Undefined
             | Some f \<Rightarrow> f (nat (it_fd it)) (it_data it) sw)
      else Inr sw) = Inr sw1" "handle_jobs tbl js sw1 = Inr sw'"
    by auto
  have "J (n + cost) sw1"
  proof (cases "item_used it")
    case True
    then obtain h f where "it_handler it = Some h" "handle_block (tbl h) = Some f"
      "f (nat (it_fd it)) (it_data it) (fst sw, snd sw) = Inr sw1"
      using sw1(1) by (auto split: option.splits dest!: hooks_Inr)
    then show ?thesis
      using called [of n "fst sw" "snd sw" j it h f] used_registered [OF it True] Cons.prems(1) by simp
  next
    case False
    then show ?thesis using sw1(1) spend [OF Cons.prems(1)] by simp
  qed
  from Cons.IH [OF this sw1(2)] show ?case by (simp add: algebra_simps)
qed

lemma notifications_handled:
  assumes "J n (s, w)" and "handle_block_notifications tbl (s, w) = Inr sw'"
  shows "J (n + cost * length (resolution_jobs s)) sw'"
proof -
  obtain s1 w1 where "handle_jobs tbl (resolution_jobs s) (s, w) = Inr (s1, w1)"
    "sw' = (s1\<lparr>resolution_jobs := []\<rparr>, w1)"
    using assms(2) by (auto simp: handle_block_notifications_def)
  then show ?thesis using jobs jobs_handled [OF assms(1)] by blast
qed

lemma turn_keeps:
  assumes J: "J n (s, w)" and run: "selector_select tbl res (s, w) = Inr (st, sw')"
  shows "J (n + cost * turn_calls tbl res (s, w)) sw'"
proof (cases res)
  case Failed
  then show ?thesis
    using run marks [OF J] by (auto simp: selector_select_def turn_calls_def)
next
  case Interrupted
  then have "handle_block_notifications tbl (s\<lparr>slave_r := master_r s, slave_w := master_w s\<rparr>, w) = Inr sw'"
    using run by (auto simp: selector_select_def)
  from notifications_handled [OF marks [OF J] this] show ?thesis
    using Interrupted by (simp add: turn_calls_def)
next
  case (Ready r wr)
  let ?s = "s\<lparr>slave_r := master_r s \<inter> r, slave_w := master_w s \<inter> wr\<rparr>"
  obtain s1 w1 where it: "handle_iteration tbl (?s, w) = Inr (s1, w1)"
    "handle_block_notifications tbl (s1, w1) = Inr sw'"
    using run Ready by (auto simp: selector_select_def)
  have "J (n + 2 * cost * length [0..<Suc (max_fd s)]) (s1, w1)"
    by (rule items_handled [OF marks [OF J]])
      (use it(1) in \<open>simp add: handle_iteration_def del: upt_Suc\<close>)
  from notifications_handled [OF this it(2)] show ?thesis
    using Ready it(1) by (simp add: turn_calls_def algebra_simps del: upt_Suc)
qed

end

section \<open>One event of a connection\<close>

definition server_ok :: "nat \<Rightarrow> fd_selector \<times> world \<Rightarrow> bool" where
  "server_ok n = (\<lambda>(s, w). world_ok n s w \<and> (\<forall>k d. conns w k = Some d \<longrightarrow> conn_ok d))"

text \<open>What an event may do to the table: only descriptors of \<open>k\<close> are new.\<close>

definition table_moved :: "nat option \<Rightarrow> fd_selector \<Rightarrow> fd_selector \<Rightarrow> bool" where
  "table_moved k s s' \<longleftrightarrow>
     (\<forall>i it'. registered s' i = Some it' \<longrightarrow>
        (k \<noteq> None \<and> it_data it' = k) \<or> (\<exists>it. registered s i = Some it \<and> it_data it' = it_data it))"

lemma close_all_steps:
  "close_all fs c = Inr c' \<Longrightarrow> sound n c \<Longrightarrow> moved c c' \<and> sound n c' \<and>
   (\<forall>d'. conn c' = Inr d' \<longrightarrow> (\<exists>d. conn c = Inr d \<and> only_refs d d'))"
proof (induction fs arbitrary: c)
  case Nil
  then show ?case by auto
next
  case (Cons fd fs)
  show ?case
  proof (cases "fd = -1")
    case True
    then show ?thesis using Cons by simp
  next
    case False
    then obtain st c1 where u: "unregister fd c = Inr (st, c1)"
      "close_all fs (emit (Closed fd) c1) = Inr c'"
      using Cons.prems(1) by (auto split: if_splits)
    note m = unregister_moved [OF u(1) Cons.prems(2)]
    have e: "keeps c1 (emit (Closed fd) c1)" by (rule keeps_emit)
    have "sound n (emit (Closed fd) c1)" using m keeps_sound [OF e] by blast
    from Cons.IH [OF u(2) this] show ?thesis
      using m moved_trans [of c c1 "emit (Closed fd) c1"] keeps_moved [OF e]
        moved_trans [of c "emit (Closed fd) c1" c'] only_refs_trans by fastforce
  qed
qed

definition start_ctx :: "nat \<Rightarrow> nat \<Rightarrow> fd_selector \<Rightarrow> world \<Rightarrow> ctx" where
  "start_ctx fd k s w = \<lparr>key_fd = fd, key_data = k, c_io = io_script w (io_step w), c_sel = s,
     c_world = w\<lparr>io_step := io_step w + 1\<rparr>\<rparr>"

lemma dispatch_start:
  "dispatch stm final finish run fd (Some k) (s, w) =
   bind_res (conn (start_ctx fd k s w))
     (\<lambda>d. bind_res (run (stm (conn_current d)) (start_ctx fd k s w))
       (\<lambda>(ret, m, c1). bind_res (conn c1)
         (\<lambda>d1. bind_res
           (if ret \<in> final then finish (put_conn (d1\<lparr>conn_current := stm_current m\<rparr>) c1)
            else Inr (put_conn (d1\<lparr>conn_current := stm_current m\<rparr>) c1))
           (\<lambda>c3. Inr (c_sel c3, c_world c3)))))"
  by (simp add: dispatch_def next_io_def start_ctx_def Let_def)

text \<open>The other connections keep everything but their counters.\<close>

definition others_kept :: "nat \<Rightarrow> world \<Rightarrow> world \<Rightarrow> bool" where
  "others_kept k w w' \<longleftrightarrow> (\<forall>j e. j \<noteq> k \<longrightarrow> conns w' j = Some e \<longrightarrow> (\<exists>e0. conns w j = Some e0 \<and> only_refs e0 e))"

text \<open>The context an event of the connection \<open>k\<close> starts in, and the machine it runs.\<close>

definition event_ran :: "nat \<Rightarrow> fd_selector \<Rightarrow> world \<Rightarrow> (nat option \<Rightarrow> ctx state_machine) \<Rightarrow>
    (ctx state_machine \<Rightarrow> ctx \<Rightarrow> (nat \<times> ctx state_machine \<times> ctx) res) \<Rightarrow>
    ctx \<Rightarrow> socks5 \<Rightarrow> nat \<Rightarrow> ctx state_machine \<Rightarrow> ctx \<Rightarrow> bool" where
  "event_ran k s w stm run c0 d ret m c1 \<longleftrightarrow> c_sel c0 = s \<and> c_world c0 = w\<lparr>io_step := io_step w + 1\<rparr> \<and> key_data c0 = k \<and>
     conn c0 = Inr d \<and> run (stm (conn_current d)) c0 = Inr (ret, m, c1)"

lemma dispatch_ok:
  assumes ok: "server_ok n (s, w0)" and at: "i \<in> held s k" and n: "n + 3 < 2 ^ 32"
    and step: "\<And>c0 d ret m c1. event_ran k s w0 stm run c0 d ret m c1 \<Longrightarrow>
      holds_at (\<lambda>d. conn_ok (d\<lparr>conn_current := stm_current m\<rparr>)) False c0 (n + 3) c1"
    and fin: "\<And>c c'. finish c = Inr c' \<Longrightarrow> sound (n + 3) c \<Longrightarrow> moved c c' \<and> sound (n + 3) c' \<and>
      (\<forall>d'. conn c' = Inr d' \<longrightarrow> (\<exists>d. conn c = Inr d \<and> only_refs d d'))"
    and go: "dispatch stm final finish run fd (Some k) (s, w0) = Inr (s', w')"
  shows "server_ok (n + 3) (s', w') \<and> table_moved (Some k) s s'"
    and "others_kept k w0 w'"
    and "conns w' k = Some e \<Longrightarrow> \<exists>c0 d ret m c1. event_ran k s w0 stm run c0 d ret m c1 \<and> conn_current e = stm_current m"
proof -
  define c0 where "c0 = start_ctx fd k s w0"
  obtain d ret m c1 d1 c3 where d: "conn c0 = Inr d"
    and r: "run (stm (conn_current d)) c0 = Inr (ret, m, c1)" and d1: "conn c1 = Inr d1"
    and f: "(if ret \<in> final then finish (put_conn (d1\<lparr>conn_current := stm_current m\<rparr>) c1)
      else Inr (put_conn (d1\<lparr>conn_current := stm_current m\<rparr>) c1)) = Inr c3"
    and out: "s' = c_sel c3" "w' = c_world c3"
    using go unfolding dispatch_start c0_def [symmetric] by auto
  have s0: "c_sel c0 = s" "c_world c0 = w0\<lparr>io_step := io_step w0 + 1\<rparr>" "key_data c0 = k"
    by (simp_all add: c0_def start_ctx_def)
  have ran: "event_ran k s w0 stm run c0 d ret m c1" using s0 d r by (simp add: event_ran_def)
  let ?d2 = "d1\<lparr>conn_current := stm_current m\<rparr>" and ?c2 = "put_conn (d1\<lparr>conn_current := stm_current m\<rparr>) c1"
  have h: "moved c0 c1" "sound (n + 3) c1" "conn_ok ?d2"
    using step [OF ran] n d1 by (auto simp: holds_at_def)
  have k: "keeps c1 ?c2" using d1 by auto
  have c2: "moved c0 ?c2" "sound (n + 3) ?c2"
    using moved_trans [OF h(1) keeps_moved [OF k]] keeps_sound [OF k h(2)] by auto
  have c3: "moved c0 c3" "sound (n + 3) c3" "conn c3 = Inr d3 \<Longrightarrow> only_refs ?d2 d3" for d3
    using f fin [of ?c2 c3] c2 moved_trans [OF c2(1)] by (auto split: if_splits)
  have at_k: "conns w' k = Some e \<Longrightarrow> only_refs ?d2 e" for e
    using out(2) c3(1) c3(3) [of e] by (simp add: conn_world moved_def s0)
  show others: "others_kept k w0 w'"
    using out(2) c3(1) by (fastforce simp: moved_def s0 others_kept_def)
  have "conn_ok e" if e: "conns w' j = Some e" for j e
  proof (cases "j = k")
    case True
    then show ?thesis using at_k [of e] e h(3) by (auto simp: only_refs_def)
  next
    case False
    then show ?thesis using others e ok by (fastforce simp: server_ok_def only_refs_def others_kept_def)
  qed
  moreover have "world_ok (n + 3) s' w'" using c3(2) out by (simp add: sound_def)
  moreover have "table_moved (Some k) s s'"
    using c3(1) out(1) by (auto simp: moved_def table_moved_def s0)
  ultimately show "server_ok (n + 3) (s', w') \<and> table_moved (Some k) s s'" by (simp add: server_ok_def)
  show "\<exists>c0 d ret m c1. event_ran k s w0 stm run c0 d ret m c1 \<and> conn_current e = stm_current m" if "conns w' k = Some e"
  proof -
    have "conn_current e = stm_current m" using at_k [OF that] by (auto simp: only_refs_def)
    then show ?thesis using ran by blast
  qed
qed

lemma held_kind:
  assumes "world_ok n s w" and "registered s i = Some it" and "it_handler it = Some h"
  shows "(h = Socks5_handler \<longleftrightarrow> (\<exists>k d. it_data it = Some k \<and> conns w k = Some d \<and> isSocks d)) \<and>
    (h = Mng_handler \<longleftrightarrow> (\<exists>k d. it_data it = Some k \<and> conns w k = Some d \<and> \<not> isSocks d))"
proof -
  have "item_kind w it" using assms by (simp add: world_ok_def)
  then show ?thesis
    using assms(3) by (auto simp: item_kind_def handler_for_def split: option.splits if_splits)
qed

lemma handler_current:
  assumes "stm_wf m" and "stm_handler ready m c = Inr (ret, m', c')"
  shows "stm_current m' = Some ret \<and> ret \<le> stm_max_state m"
  using stm_handler_wf [OF assms] by simp

lemma socks_step:
  assumes ok: "server_ok n (s, w)" and it: "registered s i = Some it" "it_handler it = Some Socks5_handler" "it_data it = Some k"
    and n: "n + 3 < 2 ^ 32" and ev: "events_of ready" and ran: "event_ran k s w socks5_stm (stm_handler ready) c0 d ret m c1"
  shows "holds_at (\<lambda>d. conn_ok (d\<lparr>conn_current := stm_current m\<rparr>)) False c0 (n + 3) c1"
    and "conns w k = Some d" and "stm_current m = Some ret"
    and "ret \<in> socks_succ (case conn_current d of None \<Rightarrow> HELLO_READ | Some j \<Rightarrow> j)"
proof -
  have c0: "c_sel c0 = s" "c_world c0 = w\<lparr>io_step := io_step w + 1\<rparr>" "key_data c0 = k" "conn c0 = Inr d"
    and run: "stm_handler ready (socks5_stm (conn_current d)) c0 = Inr (ret, m, c1)"
    using ran by (simp_all add: event_ran_def)
  have wok: "world_ok n s w" using ok by (simp add: server_ok_def)
  show d0: "conns w k = Some d" using c0 by (simp add: conn_world)
  have d: "conn_ok d" "isSocks d" using held_kind [OF wok it(1,2)] it(3) d0 ok by (auto simp: server_ok_def)
  have at: "i \<in> held s k" using it(1,3) by (simp add: held_def)
  have snd: "sound n c0" using wok c0 by (simp add: sound_def)
  have live: "live c0" using held_conn [OF wok at] c0 by (simp add: live_def)
  have cst: "socks_consts d" using d by (simp add: conn_ok_def socks_consts_def)
  have same: "stm_same (socks5_stm None) (socks5_stm cur)" for cur
    by (simp add: stm_same_def socks5_stm_def)
  have wf: "stm_wf (socks5_stm (conn_current d))"
    using socks5_stm_wf d by (auto simp: stm_wf_def socks5_stm_def conn_ok_def split: option.splits)
  have rests: "socks.rests c0 n (socks5_stm (conn_current d)) c0"
    unfolding socks.rests_def
    using same wf snd live cst c0(4) d
    by (auto simp: socks5_stm_def socks_rest_def socks_entry_def holds_at_def conn_ok_def
        socks_entry_shape_def split: option.splits)
  from socks.handler_rests [OF this ev run] have r: "socks.rests c0 (n + 3) m c1" .
  have cur: "stm_current m = Some ret" "ret \<le> ERROR"
    using handler_current [OF wf run] by (simp_all add: socks5_stm_def)
  show "stm_current m = Some ret" by (rule cur(1))
  have "socks_rest c0 (n + 3) ret c1" using r cur by (simp add: socks.rests_def)
  then show "holds_at (\<lambda>d. conn_ok (d\<lparr>conn_current := stm_current m\<rparr>)) False c0 (n + 3) c1"
    unfolding socks_rest_def
    by (rule holds_at_weaken) (auto simp: cur conn_ok_def socks_consts_def socks_shape_def)
  obtain a f s1 s2 where a: "a = (case stm_current (socks5_stm (conn_current d)) of None \<Rightarrow> stm_initial (socks5_stm None) | Some c \<Rightarrow> c)"
    "a \<le> stm_max_state (socks5_stm None)" "socks_rest c0 (Suc n) a s1" "ready (stm_states (socks5_stm None) ! a) = Some f"
    "f s1 = Inr (ret, s2)" by (rule socks.handler_ran [OF rests run])
  have "a \<le> ERROR" "ready (client_statbl ! a) = Some f" using a(2,4) by (simp_all add: socks5_stm_def)
  from socks_ready [OF this(1) ev this(2) a(3,5)] have "ret \<in> socks_succ a"
    using n by (auto simp: holds_at_def socks_post_def)
  then show "ret \<in> socks_succ (case conn_current d of None \<Rightarrow> HELLO_READ | Some j \<Rightarrow> j)"
    using a(1) by (cases "conn_current d") (simp_all add: socks5_stm_def)
qed

lemma socks_finish:
  "socksv5_done c = Inr c' \<Longrightarrow> sound n c \<Longrightarrow> moved c c' \<and> sound n c' \<and>
   (\<forall>d'. conn c' = Inr d' \<longrightarrow> (\<exists>d. conn c = Inr d \<and> only_refs d d'))"
  using close_all_steps [of _ c c' n] by (auto simp: socksv5_done_def simp del: close_all.simps)

lemma socks_event_ok:
  assumes ok: "server_ok n (s, w)" and it: "registered s i = Some it"
    "it_handler it = Some Socks5_handler" and n: "n + 3 < 2 ^ 32" and ev: "events_of ready"
    and go: "dispatch socks5_stm fin_set socksv5_done (stm_handler ready) fd (it_data it) (s, w) = Inr (s', w')"
  shows "server_ok (n + 3) (s', w') \<and> table_moved (it_data it) s s'"
proof -
  have wok: "world_ok n s w" using ok by (simp add: server_ok_def)
  obtain k where k: "it_data it = Some k" using held_kind [OF wok it] by auto
  have at: "i \<in> held s k" using it(1) k by (simp add: held_def)
  show ?thesis
    using dispatch_ok(1) [OF ok at n socks_step(1) [OF ok it k n ev] socks_finish go [unfolded k]] k by simp
qed

lemma mng_step:
  assumes ok: "server_ok n (s, w)" and it: "registered s i = Some it" "it_handler it = Some Mng_handler" "it_data it = Some k"
    and n: "n + 3 < 2 ^ 32" and ev: "events_of ready" and ran: "event_ran k s w mng_stm (stm_handler ready) c0 d ret m c1"
  shows "holds_at (\<lambda>d. conn_ok (d\<lparr>conn_current := stm_current m\<rparr>)) False c0 (n + 3) c1"
    and "conns w k = Some d" and "stm_current m = Some ret"
    and "ret \<in> mng_succ (case conn_current d of None \<Rightarrow> HELLO_READ | Some j \<Rightarrow> j)"
proof -
  have c0: "c_sel c0 = s" "c_world c0 = w\<lparr>io_step := io_step w + 1\<rparr>" "key_data c0 = k" "conn c0 = Inr d"
    and run: "stm_handler ready (mng_stm (conn_current d)) c0 = Inr (ret, m, c1)"
    using ran by (simp_all add: event_ran_def)
  have wok: "world_ok n s w" using ok by (simp add: server_ok_def)
  show d0: "conns w k = Some d" using c0 by (simp add: conn_world)
  have d: "conn_ok d" "\<not> isSocks d" using held_kind [OF wok it(1,2)] it(3) d0 ok by (auto simp: server_ok_def)
  have at: "i \<in> held s k" using it(1,3) by (simp add: held_def)
  have snd: "sound n c0" using wok c0 by (simp add: sound_def)
  have live: "live c0" using held_conn [OF wok at] c0 by (simp add: live_def)
  have cst: "mng_consts d" using d by (simp add: conn_ok_def mng_consts_def)
  have same: "stm_same (mng_stm None) (mng_stm cur)" for cur
    by (simp add: stm_same_def mng_stm_def)
  have wf: "stm_wf (mng_stm (conn_current d))"
    using mng_stm_wf d by (auto simp: stm_wf_def mng_stm_def conn_ok_def split: option.splits)
  have rests: "mng.rests c0 n (mng_stm (conn_current d)) c0"
    unfolding mng.rests_def
    using same wf snd live cst c0(4) d
    by (auto simp: mng_stm_def mng_rest_def mng_entry_def holds_at_def conn_ok_def
        mng_entry_shape_def split: option.splits)
  from mng.handler_rests [OF this ev run] have r: "mng.rests c0 (n + 3) m c1" .
  have cur: "stm_current m = Some ret" "ret \<le> MNG_ERROR"
    using handler_current [OF wf run] by (simp_all add: mng_stm_def)
  show "stm_current m = Some ret" by (rule cur(1))
  have "mng_rest c0 (n + 3) ret c1" using r cur by (simp add: mng.rests_def)
  then show "holds_at (\<lambda>d. conn_ok (d\<lparr>conn_current := stm_current m\<rparr>)) False c0 (n + 3) c1"
    unfolding mng_rest_def
    by (rule holds_at_weaken) (auto simp: cur conn_ok_def mng_consts_def mng_shape_def)
  obtain a f s1 s2 where a: "a = (case stm_current (mng_stm (conn_current d)) of None \<Rightarrow> stm_initial (mng_stm None) | Some c \<Rightarrow> c)"
    "a \<le> stm_max_state (mng_stm None)" "mng_rest c0 (Suc n) a s1" "ready (stm_states (mng_stm None) ! a) = Some f"
    "f s1 = Inr (ret, s2)" by (rule mng.handler_ran [OF rests run])
  have "a \<le> MNG_ERROR" "ready (client_mng ! a) = Some f" using a(2,4) by (simp_all add: mng_stm_def)
  from mng_ready [OF this(1) ev this(2) a(3,5)] have "ret \<in> mng_succ a"
    using n by (auto simp: holds_at_def)
  then show "ret \<in> mng_succ (case conn_current d of None \<Rightarrow> HELLO_READ | Some j \<Rightarrow> j)"
    using a(1) by (cases "conn_current d") (simp_all add: mng_stm_def)
qed

lemma mng_finish:
  "mng_done c = Inr c' \<Longrightarrow> sound n c \<Longrightarrow> moved c c' \<and> sound n c' \<and>
   (\<forall>d'. conn c' = Inr d' \<longrightarrow> (\<exists>d. conn c = Inr d \<and> only_refs d d'))"
  using close_all_steps [of _ c c' n] by (auto simp: mng_done_def simp del: close_all.simps)

lemma mng_event_ok:
  assumes ok: "server_ok n (s, w)" and it: "registered s i = Some it"
    "it_handler it = Some Mng_handler" and n: "n + 3 < 2 ^ 32" and ev: "events_of ready"
    and go: "dispatch mng_stm fin_set mng_done (stm_handler ready) fd (it_data it) (s, w) = Inr (s', w')"
  shows "server_ok (n + 3) (s', w') \<and> table_moved (it_data it) s s'"
proof -
  have wok: "world_ok n s w" using ok by (simp add: server_ok_def)
  obtain k where k: "it_data it = Some k" using held_kind [OF wok it] by auto
  have at: "i \<in> held s k" using it(1) k by (simp add: held_def)
  show ?thesis
    using dispatch_ok(1) [OF ok at n mng_step(1) [OF ok it k n ev] mng_finish go [unfolded k]] k by simp
qed

section \<open>Accepting a connection\<close>

text \<open>What the two constructors have in common.\<close>

definition fresh_in :: "world \<Rightarrow> bool \<Rightarrow> nat option \<Rightarrow> world \<Rightarrow> bool" where
  "fresh_in w socks r w' \<longleftrightarrow>
     (case r of
        None \<Rightarrow> w' = w
      | Some k \<Rightarrow>
          (\<exists>d. references d = 1 \<and> conn_ok d \<and> isSocks d = socks \<and> conns w' = (conns w)(k \<mapsto> d)) \<and>
          set (pool w') \<subseteq> set (pool w) \<and> set (mng_pool w') \<subseteq> set (mng_pool w) \<and>
          k \<notin> set (pool w') \<union> set (mng_pool w') \<and> distinct (pool w' @ mng_pool w') \<and>
          next_conn w \<le> next_conn w' \<and> k < next_conn w' \<and>
          (k \<in> set (pool w) \<union> set (mng_pool w) \<or> k = next_conn w))"

lemma fresh_conn_ok:
  "conn_ok (fresh_conn True fd None ERROR DONE)" "conn_ok (fresh_conn False fd None MNG_ERROR MNG_DONE)"
  by (simp_all add: conn_ok_def fresh_conn_def)

lemma stm_init_tables:
  "stm_init (socks5_stm (Some 0)) = Inr (socks5_stm None)"
  "stm_init (mng_stm (Some 0)) = Inr (mng_stm None)"
  using socks5_stm_wf mng_stm_wf by (simp_all add: stm_init_wf) (simp_all add: socks5_stm_def mng_stm_def)

lemma pool_bounds:
  assumes "pools_ok s w"
  shows "distinct (pool w @ mng_pool w)" "k \<in> set (pool w) \<union> set (mng_pool w) \<Longrightarrow> k < next_conn w"
    "next_conn w \<notin> set (pool w) \<union> set (mng_pool w)"
proof -
  show "distinct (pool w @ mng_pool w)" using assms by (simp add: pools_ok_def)
  show lt: "k < next_conn w" if "k \<in> set (pool w) \<union> set (mng_pool w)" for k
    using assms that unfolding pools_ok_def by (meson not_le)
  show "next_conn w \<notin> set (pool w) \<union> set (mng_pool w)" using lt by blast
qed

lemma socks5_new_fresh:
  assumes "socks5_new m fd w = Inr (r, w')" and "pools_ok s w"
  shows "fresh_in w True r w'"
proof -
  have r: "references (fresh_conn True fd None ERROR DONE) = 1"
    "isSocks (fresh_conn True fd None ERROR DONE)" by (simp_all add: fresh_conn_def)
  have cur: "stm_current (socks5_stm None) = None" by (simp add: socks5_stm_def)
  show ?thesis
    using assms(1) pool_bounds [OF assms(2)] fresh_conn_ok(1) [of fd] r
    by (auto simp: socks5_new_def fresh_in_def stm_init_tables cur Let_def
        split: list.splits if_splits)
qed

lemma mng_new_fresh:
  assumes "mng_new m fd w = Inr (r, w')" and "pools_ok s w"
  shows "fresh_in w False r w'"
proof -
  have r: "references (fresh_conn False fd None MNG_ERROR MNG_DONE) = 1"
    "\<not> isSocks (fresh_conn False fd None MNG_ERROR MNG_DONE)" by (simp_all add: fresh_conn_def)
  have cur: "stm_current (mng_stm None) = None" by (simp add: mng_stm_def)
  show ?thesis
    using assms(1) pool_bounds [OF assms(2)] fresh_conn_ok(2) [of fd] r
    by (auto simp: mng_new_def fresh_in_def stm_init_tables cur Let_def
        split: list.splits if_splits)
qed

lemma fresh_world_ok:
  assumes ok: "server_ok n (s, w)" and n: "0 < n" and f: "fresh_in w socks (Some k) w'"
  shows "server_ok n (s, w') \<and> held s k = {} \<and> k \<notin> set (pool w') \<union> set (mng_pool w') \<and>
    (\<exists>d. conns w' k = Some d \<and> references d = 1 \<and> isSocks d = socks)"
proof -
  have wok: "world_ok n s w" and conns: "\<And>j d. conns w j = Some d \<Longrightarrow> conn_ok d"
    using ok by (auto simp: server_ok_def)
  obtain d where d: "references d = 1" "conn_ok d" "isSocks d = socks" "conns w' = (conns w)(k \<mapsto> d)"
    and p: "set (pool w') \<subseteq> set (pool w)" "set (mng_pool w') \<subseteq> set (mng_pool w)"
      "k \<notin> set (pool w') \<union> set (mng_pool w')" "distinct (pool w' @ mng_pool w')"
      "next_conn w \<le> next_conn w'" "k < next_conn w'"
      "k \<in> set (pool w) \<union> set (mng_pool w) \<or> k = next_conn w"
    using f by (auto simp: fresh_in_def)
  have free: "held s k = {}"
  proof (rule ccontr)
    assume "held s k \<noteq> {}"
    then obtain i where "i \<in> held s k" by blast
    from held_conn [OF wok this] have "conns w k \<noteq> None" "k \<notin> set (pool w) \<union> set (mng_pool w)" by auto
    then show False using p(7) wok by (auto simp: world_ok_def pools_ok_def)
  qed
  have "world_ok n s w'" using world_ok_new [OF wok n d(1) free d(4) p(1,2,4,5,6)] .
  then show ?thesis using free p(3) d conns by (auto simp: server_ok_def split: if_splits)
qed

lemma server_ok_world [simp]:
  "server_ok n (s, w\<lparr>io_step := m\<rparr>) = server_ok n (s, w)"
  "server_ok n (s, close_fd fd w) = server_ok n (s, w)"
  by (simp_all add: server_ok_def close_fd_def)

lemma conn_ok_client_addr [simp]: "conn_ok (d\<lparr>client_addr := a\<rparr>) = conn_ok d"
  by (simp add: conn_ok_def socks_shape_def mng_shape_def cong: option.case_cong)

text \<open>The registration that ends \<open>accept\<close>, and what undoes the constructor when it fails.\<close>

lemma accept_register:
  assumes ok: "server_ok n (s, w)" and k: "held s k = {}" "k \<notin> set (pool w) \<union> set (mng_pool w)"
      "conns w k = Some d" "references d = 1"
    and reg: "selector_register m s fd (Some (handler_for d)) OP_READ (Some k) = Inr (st, s1)"
    and out: "if st \<noteq> SELECTOR_SUCCESS then drop_reference k (close_fd fd w) = Inr w' else w' = w"
  shows "server_ok n (s1, w') \<and> (\<forall>i it. registered s i = Some it \<longrightarrow> registered s1 i = Some it)"
proof -
  have wok: "world_ok n s w" and conns: "\<And>j d. conns w j = Some d \<Longrightarrow> conn_ok d"
    using ok by (auto simp: server_ok_def)
  then have "sel_ok s" by (simp add: world_ok_def)
  note r = register_sel [OF this reg]
  show ?thesis
  proof (cases "st = SELECTOR_SUCCESS")
    case True
    let ?it = "\<lparr>it_fd = fd, it_interest = OP_READ, it_handler = Some (handler_for d), it_data = Some k\<rparr>"
    have "world_ok n s1 w"
      using r True k by (intro world_ok_register [OF wok k(3) k(2), of s1 "nat fd" ?it]) auto
    then show ?thesis using r True out conns by (auto simp: server_ok_def)
  next
    case False
    then have same: "registered s1 = registered s" and s1: "sel_ok s1" using r by auto
    let ?w = "close_fd fd w"
    have w1: "world_ok n s1 ?w"
      using world_ok_registered [OF wok s1 same] by (simp add: close_fd_def)
    have drop: "drop_reference k ?w = Inr w'" using out False by simp
    have at: "conns ?w k = Some d" using k(3) by (simp add: close_fd_def)
    have "world_ok n s1 w'"
      using world_ok_release [OF w1 at k(4) _ _ drop] k(1,2) same by (simp add: held_def close_fd_def)
    moreover have "conn_ok e" if "conns w' j = Some e" for j e
      using drop_reference_cases [OF drop at] k(4) that conns
      by (auto simp: close_fd_def split: if_splits)
    ultimately show ?thesis using same by (simp add: server_ok_def)
  qed
qed

lemma accept_ok:
  assumes ok: "server_ok n (s, w0)" and n: "0 < n"
    and new: "\<And>m fd w r w'. new m fd w = Inr (r, w') \<Longrightarrow> pools_ok s w \<Longrightarrow> fresh_in w socks r w'"
    and destroy: "\<And>w. destroy None w = Inr w"
      "\<And>k d w. conns w k = Some d \<Longrightarrow> isSocks d = socks \<Longrightarrow> destroy (Some k) w = drop_reference k w"
    and h: "\<And>d. isSocks d = socks \<Longrightarrow> h = handler_for d"
    and go: "accept_with new destroy h fd data (s, w0) = Inr (s', w')"
  shows "server_ok n (s', w') \<and> (\<forall>i it. registered s i = Some it \<longrightarrow> registered s' i = Some it)"
proof -
  define io w where "io = io_script w0 (io_step w0)" and "w = w0\<lparr>io_step := io_step w0 + 1\<rparr>"
  have ok1: "server_ok n (s, w)" using ok by (simp add: w_def)
  have pools: "pools_ok s w" using ok1 by (simp add: server_ok_def world_ok_def)
  have go1: "accept_with new destroy h fd data (s, w0) =
    (case io_accept io of
       None \<Rightarrow> Inr (s, w)
     | Some (newfd, addr) \<Rightarrow>
         if \<not> io_set_nio io then Inr (s, close_fd (int newfd) w)
         else bind_res (new (io_malloc io 0) (int newfd) w)
           (\<lambda>(st, w1). case st of
              None \<Rightarrow> Inr (s, close_fd (int newfd) w1)
            | Some k \<Rightarrow> (case conns w1 k of
                None \<Rightarrow> Inl Undefined
              | Some d \<Rightarrow>
                  bind_res (selector_register (io_register io) s (int newfd) (Some h) OP_READ (Some k))
                    (\<lambda>(ss, s1). if ss \<noteq> SELECTOR_SUCCESS
                       then bind_res (destroy (Some k) (close_fd (int newfd)
                           (w1\<lparr>conns := (conns w1)(k \<mapsto> d\<lparr>client_addr := addr\<rparr>)\<rparr>)))
                         (\<lambda>w2. Inr (s1, w2))
                       else Inr (s1, w1\<lparr>conns := (conns w1)(k \<mapsto> d\<lparr>client_addr := addr\<rparr>)\<rparr>)))))"
    unfolding io_def w_def
    by (simp add: accept_with_def next_io_def destroy(1) Let_def
        split: prod.split cong: option.case_cong if_cong)
  show ?thesis
  proof (cases "io_accept io")
    case None
    then show ?thesis using go go1 ok1 by simp
  next
    case (Some a)
    obtain newfd addr where a: "a = (newfd, addr)" by (cases a)
    show ?thesis
    proof (cases "io_set_nio io")
      case False
      then show ?thesis using go go1 ok1 Some a by auto
    next
      case nio: True
      then obtain r w1 where nw: "new (io_malloc io 0) (int newfd) w = Inr (r, w1)"
        using go go1 Some a by auto
      note fr = new [OF nw pools]
      show ?thesis
      proof (cases r)
        case None
        then show ?thesis using go go1 ok1 Some a nio nw fr by (auto simp: fresh_in_def)
      next
        case r: (Some k)
        from fresh_world_ok [OF ok1 n fr [unfolded r]] obtain d where w1: "server_ok n (s, w1)"
          "held s k = {}" "k \<notin> set (pool w1) \<union> set (mng_pool w1)" "conns w1 k = Some d"
          "references d = 1" "isSocks d = socks" by blast
        let ?d = "d\<lparr>client_addr := addr\<rparr>"
        let ?w2 = "w1\<lparr>conns := (conns w1)(k \<mapsto> ?d)\<rparr>"
        have dok: "conn_ok ?d"
          using w1(1,4) by (simp add: server_ok_def)
        have "world_ok n s ?w2"
          using w1(1,4,5) n by (intro world_ok_update [of n s w1 k d]) (auto simp: server_ok_def)
        then have ok2: "server_ok n (s, ?w2)" using dok w1(1) by (auto simp: server_ok_def)
        obtain ss s1 where reg: "selector_register (io_register io) s (int newfd) (Some h) OP_READ
            (Some k) = Inr (ss, s1)"
          and out: "if ss \<noteq> SELECTOR_SUCCESS then destroy (Some k) (close_fd (int newfd) ?w2) = Inr w'
            else w' = ?w2" and s': "s' = s1"
          using go go1 Some a nio nw r w1(4) by (auto split: if_splits)
        have "destroy (Some k) (close_fd (int newfd) ?w2) = drop_reference k (close_fd (int newfd) ?w2)"
          using w1(6) by (intro destroy(2) [of _ _ ?d]) (simp_all add: close_fd_def)
        moreover have hd: "h = handler_for ?d" using h [of ?d] w1(6) by simp
        ultimately have "server_ok n (s1, w') \<and>
            (\<forall>i it. registered s i = Some it \<longrightarrow> registered s1 i = Some it)"
          using out w1(3,5)
          by (intro accept_register [OF ok2 w1(2) _ _ _ reg [unfolded hd]]) (simp_all split: if_splits)
        then show ?thesis using s' by simp
      qed
    qed
  qed
qed

section \<open>The handlers of the program meet the contract\<close>

definition served :: "nat \<Rightarrow> fd_selector \<times> world \<Rightarrow> bool" where
  "served n sw \<longleftrightarrow> (n < 2 ^ 32 \<longrightarrow> 0 < n \<and> server_ok n sw)"

lemma handlers_hooks:
  assumes "handle_read (handlers h) = Some f \<or> handle_write (handlers h) = Some f \<or>
    handle_block (handlers h) = Some f"
  shows "(h = Socks5_handler \<and> (\<exists>ready. events_of ready \<and>
      f = dispatch socks5_stm {ERROR, DONE} socksv5_done (stm_handler ready))) \<or>
    (h = Mng_handler \<and> (\<exists>ready. events_of ready \<and>
      f = dispatch mng_stm {MNG_ERROR, MNG_DONE} mng_done (stm_handler ready))) \<or>
    (h = Socks5_passive \<and> f = accept_with socks5_new socks5_destroy Socks5_handler) \<or>
    (h = Mng_passive \<and> f = accept_with mng_new mng_destroy Mng_handler)"
  using assms
  by (cases h)
    (auto simp: handlers_def events_of_def socksv5_read_def socksv5_write_def socksv5_block_def
      mng_read_def mng_write_def mng_block_def socksv5_passive_accept_def mng_passive_accept_def
      stm_handler_read_def stm_handler_write_def stm_handler_block_def)

text \<open>One call of a handler, for an item that is registered.\<close>

lemma hook_ok:
  assumes ok: "server_ok n (s, w)" and n: "0 < n" "n + 3 < 2 ^ 32" and it: "registered s i = Some it"
    "it_handler it = Some h"
    and f: "handle_read (handlers h) = Some f \<or> handle_write (handlers h) = Some f \<or>
      handle_block (handlers h) = Some f"
    and go: "f fd (it_data it) (s, w) = Inr (s', w')"
  shows "server_ok (n + 3) (s', w') \<and>
    (if handle_write (handlers h) = None
     then \<forall>j jt. registered s j = Some jt \<longrightarrow> registered s' j = Some jt
     else table_moved (it_data it) s s')"
  using handlers_hooks [OF f]
proof (elim disjE conjE exE)
  fix ready assume h: "h = Socks5_handler" and ev: "events_of ready"
    and f: "f = dispatch socks5_stm {ERROR, DONE} socksv5_done (stm_handler ready)"
  show ?thesis
    using socks_event_ok [OF ok it(1) it(2) [unfolded h] n(2) ev go [unfolded f]] h
    by (simp add: handlers_def)
next
  fix ready assume h: "h = Mng_handler" and ev: "events_of ready"
    and f: "f = dispatch mng_stm {MNG_ERROR, MNG_DONE} mng_done (stm_handler ready)"
  show ?thesis
    using mng_event_ok [OF ok it(1) it(2) [unfolded h] n(2) ev go [unfolded f]] h
    by (simp add: handlers_def)
next
  have more: "server_ok n sw' \<Longrightarrow> server_ok (n + 3) sw'" for sw'
    by (auto simp: server_ok_def intro: world_ok_more [of n _ _ "n + 3"])
  show ?thesis if h: "h = Socks5_passive" and f: "f = accept_with socks5_new socks5_destroy Socks5_handler"
  proof -
    have "server_ok n (s', w') \<and> (\<forall>i it. registered s i = Some it \<longrightarrow> registered s' i = Some it)"
      by (rule accept_ok [OF ok n(1) socks5_new_fresh _ _ _ go [unfolded f]])
        (auto simp: socks5_destroy_def drop_reference_def handler_for_def)
    then show ?thesis using more h by (simp add: handlers_def)
  qed
  show ?thesis if h: "h = Mng_passive" and f: "f = accept_with mng_new mng_destroy Mng_handler"
  proof -
    have "server_ok n (s', w') \<and> (\<forall>i it. registered s i = Some it \<longrightarrow> registered s' i = Some it)"
      by (rule accept_ok [OF ok n(1) mng_new_fresh _ _ _ go [unfolded f]])
        (auto simp: mng_destroy_def drop_reference_def handler_for_def)
    then show ?thesis using more h by (simp add: handlers_def)
  qed
qed

lemma server_ok_sel [simp]:
  "server_ok n (s\<lparr>slave_r := a, slave_w := b\<rparr>, w) = server_ok n (s, w)"
  "server_ok n (s\<lparr>resolution_jobs := js\<rparr>, w) = server_ok n (s, w)"
  by (simp_all add: server_ok_def)

interpretation main_loop: selector_hooks handlers served 3
proof
  show "served m sw" if "served n sw" "n \<le> m" for n m sw
    using that by (cases sw) (auto simp: served_def server_ok_def intro: world_ok_more)
  show "served n (s\<lparr>slave_r := a, slave_w := b\<rparr>, w)" if "served n (s, w)" for n s w a b
    using that by (simp add: served_def)
  show "served n (s\<lparr>resolution_jobs := js\<rparr>, w)" if "served n (s, w)" for n s w js
    using that by (simp add: served_def)
next
  fix n s w i it h f fd sw'
  assume "served n (s, w)" "registered s i = Some it" "it_handler it = Some h"
    "handle_read (handlers h) = Some f \<or> handle_write (handlers h) = Some f \<or>
     handle_block (handlers h) = Some f" "f fd (it_data it) (s, w) = Inr sw'"
  then show "served (n + 3) sw'"
    using hook_ok [of n s w i it h f fd "fst sw'" "snd sw'"] by (auto simp: served_def)
next
  fix n s w i it h f fd s1 w1 it1 h1 g sw'
  assume J: "served n (s, w)" and it: "registered s i = Some it" "it_handler it = Some h"
    and f: "handle_read (handlers h) = Some f" "f fd (it_data it) (s, w) = Inr (s1, w1)"
    and it1: "item_at s1 i = Inr it1" "it_handler it1 = Some h1"
    and g: "handle_write (handlers h1) = Some g" "g fd (it_data it) (s1, w1) = Inr sw'"
  show "served (n + 3 + 3) sw'"
  proof (cases "n + 3 + 3 < 2 ^ 32")
    case True
    then have n: "0 < n" "n + 3 < 2 ^ 32" and ok: "server_ok n (s, w)"
      using J by (auto simp: served_def)
    have one: "server_ok (n + 3) (s1, w1) \<and>
      (if handle_write (handlers h) = None
       then \<forall>j jt. registered s j = Some jt \<longrightarrow> registered s1 j = Some jt
       else table_moved (it_data it) s s1)"
      using hook_ok [OF ok n it, of f fd s1 w1] f by blast
    have reg: "registered s1 i = Some it1"
    proof -
      have "selector_inv s1" using one by (simp add: server_ok_def world_ok_def sel_ok_def)
      then obtain items where "fds s1 = Ptr items" "tidy items" by (rule selector_inv_fds)
      then have "item_used it1" using it1 by (auto simp: item_at_def tidy_def split: if_splits)
      then show ?thesis using used_registered [OF it1(1)] by simp
    qed
    have "handle_write (handlers h) \<noteq> None"
      using one reg it(1,2) it1(2) g(1) by (auto split: if_splits)
    then have "it_data it1 = it_data it"
      using one reg it(1) unfolding table_moved_def by fastforce
    then have "server_ok (n + 3 + 3) (fst sw', snd sw')"
      using hook_ok [of "n + 3" s1 w1 i it1 h1 g fd "fst sw'" "snd sw'"] one n True reg it1(2) g by simp
    then show ?thesis using n by (simp add: served_def)
  qed (simp add: served_def)
qed

end
