(* ===== verification/Main_Loop.thy ===== *)
theory Main_Loop
  imports Serving
begin

text \<open>
  The end of \<open>main\<close> in \<open>src/main.c\<close>: the listening sockets are registered and the selector is
  served until it fails. What reaches the program from outside between two turns is the threads
  that resolve names; \<open>server_run\<close> interleaves them with the turns of the loop in every order.
\<close>

section \<open>The code\<close>

datatype family = Inet | Inet6 | Unspec

definition listeners :: "family \<Rightarrow> int \<Rightarrow> int \<Rightarrow> int list" where
  "listeners f v4 v6 = (case f of Unspec \<Rightarrow> [v6, v4] | Inet \<Rightarrow> [v4] | Inet6 \<Rightarrow> [v6])"

text \<open>\<open>ss |= selector_register(..)\<close> for each socket; the flag is \<open>ss == SELECTOR_SUCCESS\<close>.\<close>

fun register_all :: "bool \<Rightarrow> handler_name \<Rightarrow> int list \<Rightarrow> fd_selector \<Rightarrow> (bool \<times> fd_selector) res" where
  "register_all ok h [] s = Inr (True, s)"
| "register_all ok h (fd # rest) s =
     bind_res (selector_register ok s fd (Some h) OP_READ None)
       (\<lambda>(st, s1). bind_res (register_all ok h rest s1)
         (\<lambda>(good, s2). Inr (st = SELECTOR_SUCCESS \<and> good, s2)))"

definition SELECTOR_INITIAL_ELEMENTS :: nat where "SELECTOR_INITIAL_ELEMENTS = 1024"

definition boot_selector ::
  "bool \<Rightarrow> bool \<Rightarrow> bool \<Rightarrow> int list \<Rightarrow> int list \<Rightarrow> fd_selector option res" where
  "boot_selector ok_struct ok_table ok socks mng =
     bind_res (selector_new ok_struct ok_table SELECTOR_INITIAL_ELEMENTS)
       (\<lambda>r. case r of
          None \<Rightarrow> Inr None
        | Some s \<Rightarrow>
            bind_res (register_all ok Socks5_passive socks s)
              (\<lambda>(good, s1). if \<not> good then Inr None
                else bind_res (register_all ok Mng_passive mng s1)
                  (\<lambda>(good, s2). Inr (if good then Some s2 else None))))"

fun main_loop :: "pselect_result list \<Rightarrow> fd_selector \<times> world \<Rightarrow>
   (selector_status \<times> fd_selector \<times> world) res" where
  "main_loop [] sw = Inr (SELECTOR_SUCCESS, sw)"
| "main_loop (r # rs) sw =
     bind_res (serve r sw)
       (\<lambda>(st, sw1). if st \<noteq> SELECTOR_SUCCESS then Inr (st, sw1) else main_loop rs sw1)"

section \<open>Runs of the server\<close>

definition no_connections :: "world \<Rightarrow> bool" where
  "no_connections w \<longleftrightarrow> conns w = (\<lambda>_. None) \<and> pool w = [] \<and> mng_pool w = []"

text \<open>
  \<open>server_run n sw\<close>: the server has come to \<open>sw\<close> from its start, with at most \<open>n\<close> of budget used,
  one to begin with and three for each call of a handler.
\<close>

inductive server_run :: "nat \<Rightarrow> fd_selector \<times> world \<Rightarrow> bool" where
  boot: "boot_selector a b c (listeners f v4 v6) (listeners f' m4 m6) = Inr (Some s) \<Longrightarrow>
    no_connections w \<Longrightarrow> server_run 1 (s, w)"
| turn: "server_run n sw \<Longrightarrow> serve r sw = Inr (st, sw') \<Longrightarrow>
    server_run (n + 3 * turn_calls handlers r sw) sw'"
| resolver: "server_run n (c_sel c, c_world c) \<Longrightarrow> request_resolv_blocking getaddrinfo c = Inr c' \<Longrightarrow>
    server_run n (c_sel c', c_world c')"

lemma register_all_ok:
  assumes "h = Socks5_passive \<or> h = Mng_passive"
  shows "server_ok n (s, w) \<Longrightarrow> register_all ok h fs s = Inr (good, s') \<Longrightarrow> server_ok n (s', w)"
proof (induction fs arbitrary: s good)
  case Nil
  then show ?case by simp
next
  case (Cons fd fs)
  then obtain st s1 good1 where r: "selector_register ok s fd (Some h) OP_READ None = Inr (st, s1)"
    "register_all ok h fs s1 = Inr (good1, s')" by auto
  have wok: "world_ok n s w" using Cons.prems(1) by (simp add: server_ok_def)
  then have "sel_ok s" by (simp add: world_ok_def)
  note reg = register_sel [OF this r(1)]
  have "world_ok n s1 w"
  proof (cases "st = SELECTOR_SUCCESS")
    case False
    then show ?thesis using world_ok_registered [OF wok] reg by simp
  next
    case True
    have held: "held s1 = held s" using reg True by (auto simp: held_def fun_eq_iff)
    have "item_kind w it" if "registered s1 i = Some it" for i it
      using that reg True wok assms by (auto simp: world_ok_def item_kind_def split: if_splits)
    then show ?thesis
      using wok reg held by (simp add: world_ok_def refs_counted_def pools_ok_def)
  qed
  then have "server_ok n (s1, w)" using Cons.prems(1) by (simp add: server_ok_def)
  then show ?case using Cons.IH r(2) by blast
qed

lemma boot_ok:
  assumes "boot_selector a b c socks mng = Inr (Some s)" and "no_connections w"
  shows "server_ok 1 (s, w)"
proof -
  obtain s0 s1 g1 g2 where s0: "selector_new a b 1024 = Inr (Some s0)"
    and r: "register_all c Socks5_passive socks s0 = Inr (g1, s1)"
      "register_all c Mng_passive mng s1 = Inr (g2, s)"
    using assms(1) by (auto simp: boot_selector_def SELECTOR_INITIAL_ELEMENTS_def
        split: option.splits if_splits)
  have inv: "selector_inv s0" and none: "registered s0 = (\<lambda>_. None)" and "1024 < fd_size s0"
    using selector_new_spec [OF _ s0] by (simp_all add: ITEMS_MAX_SIZE_def)
  then have "fd_size s0 = Suc ITEMS_MAX_SIZE"
    by (simp add: selector_inv_def ITEMS_MAX_SIZE_def)
  then have "sel_ok s0" using inv by (simp add: sel_ok_def)
  then have "server_ok 1 (s0, w)"
    using assms(2) none
    by (simp add: server_ok_def world_ok_def refs_counted_def pools_ok_def no_connections_def)
  then have "server_ok 1 (s1, w)"
    using register_all_ok [of Socks5_passive 1 s0 w c socks g1 s1] r(1) by simp
  then show ?thesis
    using register_all_ok [of Mng_passive 1 s1 w c mng g2 s] r(2) by simp
qed

lemma conn_ok_resolution [simp]: "conn_ok (d\<lparr>origin_resolution := p\<rparr>) = conn_ok d"
  by (simp add: conn_ok_def socks_shape_def mng_shape_def cong: option.case_cong)

lemma notify_block: "\<exists>js. snd (selector_notify_block ok s fd) = s\<lparr>resolution_jobs := js\<rparr>"
proof (cases ok)
  case False
  then show ?thesis
    by (intro exI [of _ "resolution_jobs s"]) (simp add: selector_notify_block_def)
qed (auto simp: selector_notify_block_def)

lemma resolver_ok:
  assumes ok: "server_ok n (c_sel c, c_world c)" and run: "request_resolv_blocking g c = Inr c'"
  shows "server_ok n (c_sel c', c_world c')"
proof -
  obtain d p m where d: "conn c = Inr d" and c': "c' = (put_conn (d\<lparr>origin_resolution := p\<rparr>) c)
      \<lparr>c_sel := snd (selector_notify_block m (c_sel c) (key_fd c))\<rparr>"
    using run by (auto simp: request_resolv_blocking_def Let_def split: dest_union.splits if_splits)
  let ?c = "put_conn (d\<lparr>origin_resolution := p\<rparr>) c"
  obtain js where js: "snd (selector_notify_block m (c_sel c) (key_fd c)) = (c_sel c)\<lparr>resolution_jobs := js\<rparr>"
    using notify_block by blast
  have "keeps c ?c" using d by auto
  then have "world_ok n (c_sel c) (c_world ?c)"
    using keeps_sound [of c ?c n] ok by (simp add: sound_def server_ok_def)
  moreover have "conn_ok e" if "conns (c_world ?c) k = Some e" for k e
    using that ok d by (auto simp: put_conn_def server_ok_def conn_world split: if_splits)
  ultimately show ?thesis using c' js by (simp add: server_ok_def put_conn_def)
qed

lemma server_run_served: "server_run n sw \<Longrightarrow> served n sw"
proof (induction rule: server_run.induct)
  case (boot a b c f v4 v6 f' m4 m6 s w)
  then show ?case using boot_ok by (simp add: served_def)
next
  case (turn n sw r st sw')
  then show ?case
    using main_loop.turn_keeps [of n "fst sw" "snd sw" r st sw'] by (simp add: serve_def mult.commute)
next
  case (resolver n c g c')
  then show ?case using resolver_ok by (auto simp: served_def)
qed

section \<open>A run\<close>

text \<open>
  A run used by the witnesses: descriptor 3 listens, a client connects, and its connection gets
  descriptor 7.
\<close>

lemma idle_item:
  assumes "selector_inv s" and "i < fd_size s" and "i \<notin> slave_r s" and "i \<notin> slave_w s"
  shows "handle_item tbl (s, w) i = Inr (s, w)"
proof -
  obtain it where it: "item_at s i = Inr it" "registered s i = (if item_used it then Some it else None)"
    using assms(1,2) by (rule item_at_inv)
  show ?thesis
  proof (cases "item_used it")
    case True
    then have "it_fd it = int i" using registered_bounds [OF assms(1)] it(2) by simp
    then show ?thesis using it(1) True assms(3,4) by (simp add: handle_item_def Let_def)
  qed (simp add: handle_item_def it(1))
qed

lemma idle_items:
  assumes "selector_inv s"
  shows "\<forall>i \<in> set is. i < fd_size s \<and> i \<notin> slave_r s \<and> i \<notin> slave_w s \<Longrightarrow>
    handle_items tbl is (s, w) = Inr (s, w)"
  by (induction "is") (simp_all add: idle_item [OF assms])

lemma handle_items_append:
  "handle_items tbl (as @ bs) sw = bind_res (handle_items tbl as sw) (handle_items tbl bs)"
  by (induction as arbitrary: sw) (simp_all add: bind_res_def split: sum.splits)

lemma put_slaves:
  "item_put s i it = Inr s' \<Longrightarrow> slave_r s' = slave_r s \<and> slave_w s' = slave_w s"
  "items_update_fdset_for_fd s it = Inr s' \<Longrightarrow> slave_r s' = slave_r s \<and> slave_w s' = slave_w s"
  "ensure_capacity ok s n = Inr (st, s') \<Longrightarrow> slave_r s' = slave_r s \<and> slave_w s' = slave_w s"
  by (auto simp: item_put_def items_update_fdset_for_fd_def ensure_capacity_def Let_def
      split: if_splits ptr.splits)

lemma register_slaves:
  "selector_register ok s fd h i k = Inr (st, s') \<Longrightarrow> slave_r s' = slave_r s \<and> slave_w s' = slave_w s"
  by (auto simp: selector_register_def Let_def split: if_splits dest!: put_slaves)

lemma one_reader:
  assumes s: "sel_ok s" "resolution_jobs s = []" and it: "registered s i = Some it"
      "wants OP_READ (it_interest it)" "it_handler it = Some h" "handle_read (handlers h) = Some f"
    and f: "f i (it_data it) (s\<lparr>slave_r := {i}, slave_w := {}\<rparr>, w) = Inr (s', w')"
    and s': "sel_ok s'" "resolution_jobs s' = []" "slave_r s' = {i}" "slave_w s' = {}"
  shows "serve (Ready {i} {}) (s, w) = Inr (SELECTOR_SUCCESS, s'\<lparr>resolution_jobs := []\<rparr>, w') \<and>
    turn_calls handlers (Ready {i} {}) (s, w) \<le> 2050"
proof -
  let ?s = "s\<lparr>slave_r := {i}, slave_w := {}\<rparr>"
  have s0: "selector_inv s" "fd_size s = 1025" using s(1) by (simp_all add: sel_ok_def ITEMS_MAX_SIZE_def)
  have inv: "selector_inv ?s" "fd_size ?s = 1025" "i \<le> max_fd s"
    and it1: "it_fd it = int i" "item_used it"
    using s0 registered_bounds [OF s0(1) it(1)] by simp_all
  have "max_fd s < 1025" using s0 by (simp add: selector_inv_def)
  note inv = inv(1,2) this inv(3)
  have inv': "selector_inv s'" "fd_size s' = 1025"
    using s'(1) by (simp_all add: sel_ok_def ITEMS_MAX_SIZE_def)
  have sets: "master_r s \<inter> {i} = {i}" "master_w s \<inter> {} = {}"
    using inv(1) it(1,2) by (auto simp: selector_inv_def wanted_def wants_def and.commute)
  have at: "item_at ?s i = Inr it" using it(1) by (intro item_at_registered) simp
  have one: "handle_item handlers (?s, w) i = Inr (s', w')"
    using at it f s'(4) it1 by (simp add: handle_item_def item_hooks_def Let_def)
  have split: "[0..<Suc (max_fd s)] = [0..<i] @ i # [Suc i..<Suc (max_fd s)]"
    using inv(4) upt_add_eq_append [of 0 i "Suc (max_fd s) - i"] upt_conv_Cons [of i "Suc (max_fd s)"]
    by simp
  have "handle_items handlers [0..<Suc (max_fd s)] (?s, w) = Inr (s', w')"
  proof -
    have "handle_items handlers [0..<i] (?s, w) = Inr (?s, w)"
      by (rule idle_items [OF inv(1)]) (use inv in auto)
    moreover have "handle_items handlers [Suc i..<Suc (max_fd s)] (s', w') = Inr (s', w')"
      by (rule idle_items [OF inv'(1)]) (use inv s'(3,4) inv'(2) in \<open>auto simp del: upt_Suc\<close>)
    ultimately show ?thesis unfolding split handle_items_append by (simp add: one del: upt_Suc)
  qed
  then show ?thesis
    using sets s'(2) inv(3)
    by (simp add: serve_def selector_select_def handle_iteration_def handle_block_notifications_def
        turn_calls_def)
qed

text \<open>The script: a client is accepted, and then the first byte of its hello message arrives.\<close>

definition demo_io :: "byte list option \<Rightarrow> io" where
  "demo_io bs = \<lparr>io_recv = bs, io_send = None, io_malloc = (\<lambda>_. True), io_request = demo_request,
     io_substate = \<lparr>ps_state = long_read, ps_result = Null, ps_check_function = None,
       ps_size = 0, ps_remaining = 0\<rparr>,
     io_request_parser = demo_request_parser, io_socket = None, io_set_nio = True,
     io_connect = E_none, io_so_error = None, io_accept = Some (7, Sa_zero),
     io_pthread_create = 0, io_register = True\<rparr>"

definition demo_world :: world where
  "demo_world = \<lparr>conns = (\<lambda>_. None), next_conn = 0, pool = [], pool_size = 0, mng_pool = [],
     mng_pool_size = 0, globs = initial_globals, credentials_seen = [], events = [],
     io_script = (\<lambda>_. demo_io (Some [5])), io_step = 0\<rparr>"

lemma register_free:
  assumes "sel_ok s" and "registered s i = None" and "i < ITEMS_MAX_SIZE"
  obtains s1 where "selector_register True s (int i) (Some h) op d = Inr (SELECTOR_SUCCESS, s1)"
    and "sel_ok s1" and "resolution_jobs s1 = resolution_jobs s"
    and "slave_r s1 = slave_r s" and "slave_w s1 = slave_w s"
    and "registered s1 = (registered s)(i \<mapsto>
      \<lparr>it_fd = int i, it_interest = op, it_handler = Some h, it_data = d\<rparr>)"
proof -
  have inv: "selector_inv s" "i \<noteq> fd_size s" using assms by (simp_all add: sel_ok_def)
  obtain st s1 where s1: "selector_register True s (int i) (Some h) op d = Inr (st, s1)"
    "resolution_jobs s1 = resolution_jobs s" "st = SELECTOR_SUCCESS"
    by (rule selector_register_spec [OF inv(1) assms(3) inv(2), of True h op d])
      (auto simp: assms(2))
  then show ?thesis
    using that [of s1] register_sel [OF assms(1) s1(1)] register_slaves [OF s1(1)] by simp
qed

abbreviation (input) demo_listener :: "nat \<Rightarrow> handler_name \<Rightarrow> (handler_name, nat) item" where
  "demo_listener i h \<equiv> \<lparr>it_fd = int i, it_interest = OP_READ, it_handler = Some h, it_data = None\<rparr>"

lemma demo_boot:
  obtains s where "boot_selector True True True (listeners Inet 3 0) (listeners Inet 4 0) = Inr (Some s)"
    and "sel_ok s" and "resolution_jobs s = []"
    and "registered s = [3 \<mapsto> demo_listener 3 Socks5_passive, 4 \<mapsto> demo_listener 4 Mng_passive]"
proof -
  obtain s0 :: fd_selector where s0: "selector_new True True 1024 = Inr (Some s0)" "selector_inv s0"
    "registered s0 = (\<lambda>_. None)" "1024 < fd_size s0" by (rule selector_new_1024)
  have ok0: "sel_ok s0" using s0(2,4) by (simp add: sel_ok_def selector_inv_def ITEMS_MAX_SIZE_def)
  have jobs: "resolution_jobs s0 = []"
    using s0(1) by (auto simp: selector_new_def ensure_capacity_def split: if_splits)
  obtain s1 where s1: "selector_register True s0 (int 3) (Some Socks5_passive) OP_READ None =
      Inr (SELECTOR_SUCCESS, s1)" "sel_ok s1" "resolution_jobs s1 = resolution_jobs s0"
      "registered s1 = (registered s0)(3 \<mapsto> demo_listener 3 Socks5_passive)"
    by (rule register_free [OF ok0, of 3 Socks5_passive OP_READ None])
      (simp_all add: s0(3) ITEMS_MAX_SIZE_def)
  obtain s2 where s2: "selector_register True s1 (int 4) (Some Mng_passive) OP_READ None =
      Inr (SELECTOR_SUCCESS, s2)" "sel_ok s2" "resolution_jobs s2 = resolution_jobs s1"
      "registered s2 = (registered s1)(4 \<mapsto> demo_listener 4 Mng_passive)"
    by (rule register_free [OF s1(2), of 4 Mng_passive OP_READ None])
      (simp_all add: s0(3) s1(4) ITEMS_MAX_SIZE_def)
  show ?thesis
    using that [of s2] s0 jobs s1 s2
    by (simp add: boot_selector_def SELECTOR_INITIAL_ELEMENTS_def listeners_def)
qed

definition demo_conn :: socks5 where
  "demo_conn = fresh_conn True 7 None ERROR DONE\<lparr>client_addr := Sa_zero\<rparr>"

definition demo_accepted :: world where
  "demo_accepted = demo_world\<lparr>io_step := 1, conns := [0 \<mapsto> demo_conn], next_conn := 1\<rparr>"

lemma demo_accept:
  obtains n s it where "server_run n (s, demo_accepted)" and "n \<le> 6151" and "sel_ok s"
    and "registered s 7 = Some it" and "it_data it = Some 0" and "it_interest it = OP_READ"
    and "it_handler it = Some Socks5_handler" and "resolution_jobs s = []"
    and "{i. \<exists>it. registered s i = Some it \<and> it_data it = Some 0} = {7}"
proof -
  obtain s where s: "boot_selector True True True (listeners Inet 3 0) (listeners Inet 4 0) = Inr (Some s)"
    "sel_ok s" "resolution_jobs s = []"
    "registered s = [3 \<mapsto> demo_listener 3 Socks5_passive, 4 \<mapsto> demo_listener 4 Mng_passive]"
    by (rule demo_boot)
  have run0: "server_run 1 (s, demo_world)"
    using s(1) by (rule server_run.boot) (simp add: no_connections_def demo_world_def)
  let ?s = "s\<lparr>slave_r := {3}, slave_w := {}\<rparr>"
  have sok: "sel_ok ?s" using s(2) by (simp add: sel_ok_def)
  obtain s2 where s2: "selector_register True ?s (int 7) (Some Socks5_handler) OP_READ (Some 0) =
      Inr (SELECTOR_SUCCESS, s2)" "sel_ok s2" "resolution_jobs s2 = resolution_jobs ?s"
      "slave_r s2 = slave_r ?s" "slave_w s2 = slave_w ?s"
      "registered s2 = (registered ?s)(7 \<mapsto> \<lparr>it_fd = int 7, it_interest = OP_READ,
         it_handler = Some Socks5_handler, it_data = Some 0\<rparr>)"
    by (rule register_free [OF sok, of 7 Socks5_handler OP_READ "Some 0"])
      (simp_all add: s(4) ITEMS_MAX_SIZE_def)
  have accept: "socksv5_passive_accept 3 None (?s, demo_world) = Inr (s2, demo_accepted)"
    using s2 stm_init_tables
    by (simp add: socksv5_passive_accept_def accept_with_def next_io_def demo_world_def demo_io_def
        socks5_new_def Let_def socks5_stm_def demo_accepted_def demo_conn_def)
  have t: "serve (Ready {3} {}) (s, demo_world) =
      Inr (SELECTOR_SUCCESS, s2\<lparr>resolution_jobs := []\<rparr>, demo_accepted) \<and>
    turn_calls handlers (Ready {3} {}) (s, demo_world) \<le> 2050"
    using s(2-4) accept s2
    by (intro one_reader [where f = socksv5_passive_accept and h = Socks5_passive and
        it = "demo_listener 3 Socks5_passive"])
      (simp_all add: wants_def op_defs handlers_def)
  have "server_run (1 + 3 * turn_calls handlers (Ready {3} {}) (s, demo_world))
      (s2\<lparr>resolution_jobs := []\<rparr>, demo_accepted)"
    using run0 conjunct1 [OF t] by (rule server_run.turn)
  moreover have "{i. \<exists>it. registered s2 i = Some it \<and> it_data it = Some 0} = {7}"
    using s2 s(4) by auto
  ultimately show ?thesis using that [of _ "s2\<lparr>resolution_jobs := []\<rparr>"] t s2 by (simp add: sel_ok_def)
qed

definition hello_buffer :: buffer where
  "hello_buffer = raw_buffer\<lparr>buf_data := 5 # replicate 2047 0, buf_write := 1\<rparr>"

definition demo_reading :: socks5 where
  "demo_reading = demo_conn\<lparr>read_buffer := hello_buffer\<lparr>buf_read := 0, buf_write := 0\<rparr>,
     client := Cl_hello \<lparr>hs_parser = Ptr
       \<lparr>hp_on_authentication_method = Some On_hello_method, hp_version = 5, hp_method = 2,
        hp_state = hello_nmethods, hp_remaining = 0\<rparr>, hs_method = 0xFF, hs_ok = True\<rparr>,
     conn_current := Some HELLO_READ\<rparr>"

lemma demo_fill: "fill raw_buffer [5] = Inr hello_buffer"
  by (simp add: fill_def raw_buffer_def hello_buffer_def buffer_defs)

lemma demo_consume:
  assumes "hp_state p = hello_version" and "hp_version p = 5"
  shows "hello_consume hello_buffer (p, m) False =
    Inr (hello_buffer\<lparr>buf_read := 0, buf_write := 0\<rparr>, (p\<lparr>hp_state := hello_nmethods\<rparr>, m),
      hello_nmethods, False)"
proof -
  have "buffer_read hello_buffer = Inr (5, hello_buffer\<lparr>buf_read := 0, buf_write := 0\<rparr>)"
    "buffer_can_read hello_buffer"
    by (simp_all add: hello_buffer_def raw_buffer_def buffer_defs)
  moreover have "\<not> buffer_can_read (hello_buffer\<lparr>buf_read := 0, buf_write := 0\<rparr>)"
    by (simp add: buffer_can_read_def)
  ultimately show ?thesis
    using assms by (simp add: hello_consume_def hello_loop.simps hello_feed_version)
qed

lemma demo_hello_read:
  "socksv5_read 7 (Some 0) (s, demo_accepted) =
    Inr (s, demo_accepted\<lparr>io_step := 2, conns := [0 \<mapsto> demo_reading]\<rparr>)"
proof -
  define c where "c = start_ctx 7 0 s demo_accepted"
  have c: "conn c = Inr demo_conn" "c_io c = demo_io (Some [5])" "c_sel c = s"
    "c_world c = demo_accepted\<lparr>io_step := 2\<rparr>" "key_data c = 0"
    by (simp_all add: c_def start_ctx_def conn_def demo_accepted_def demo_world_def)
  have g: "auth_method (glob c) = 2"
    by (simp add: glob_def c(4) demo_accepted_def demo_world_def initial_globals_def)
  have recv: "recv_bytes (demo_io (Some [5])) n = (if n = 0 then None else Some [5])" for n
    by (cases n) (simp_all add: recv_bytes_def demo_io_def)
  have d: "isSocks demo_conn" "conn_current demo_conn = None" "read_buffer demo_conn = raw_buffer"
    by (simp_all add: demo_conn_def fresh_conn_def)
  have arrive: "hello_read_init HELLO_READ c = Inr (put_conn (demo_conn\<lparr>client := Cl_hello
      \<lparr>hs_parser = Ptr \<lparr>hp_on_authentication_method = Some On_hello_method, hp_version = 5,
         hp_method = 2, hp_state = hello_version, hp_remaining = 0\<rparr>, hs_method = 0xFF, hs_ok = True\<rparr>\<rparr>) c)"
    using c(1,2) g d
    by (simp add: hello_read_init_def demo_io_def hello_parser_init_def SOCKS_VERSION_def)
  have ptr: "buffer_write_ptr raw_buffer = Inr (0, 2048)"
    by (simp add: raw_buffer_def buffer_defs)
  have read: "hello_read (put_conn (demo_conn\<lparr>client := Cl_hello
      \<lparr>hs_parser = Ptr \<lparr>hp_on_authentication_method = Some On_hello_method, hp_version = 5,
         hp_method = 2, hp_state = hello_version, hp_remaining = 0\<rparr>, hs_method = 0xFF, hs_ok = True\<rparr>\<rparr>) c) =
    Inr (HELLO_READ, put_conn (demo_reading\<lparr>conn_current := None\<rparr>) c)"
    using c(2) d ptr
    by (simp add: hello_read_def as_hello_def recv demo_fill demo_consume demo_reading_def Let_def)
      (simp add: demo_conn_def fresh_conn_def)
  have "stm_handler_read (socks5_stm None) c =
    Inr (HELLO_READ, socks5_stm (Some HELLO_READ), put_conn (demo_reading\<lparr>conn_current := None\<rparr>) c)"
    by (simp add: stm_handler_read_def stm_handler_def handle_first_def socks5_stm_def stm_at_def
        client_statbl_def run_action_def arrive read jump_def state_def)
  moreover have "demo_reading\<lparr>conn_current := Some HELLO_READ\<rparr> = demo_reading"
    by (simp add: demo_reading_def)
  ultimately show ?thesis
    unfolding socksv5_read_def dispatch_start c_def [symmetric]
    by (simp add: c(1) d(2)) (simp add: socks5_stm_def put_conn_def demo_accepted_def c)
qed

text \<open>The run of the witnesses: the connection waits for the rest of the hello message.\<close>

lemma demo_run:
  obtains n s w it d h where "server_run n (s, w)" and "n < 2 ^ 32" and "registered s 7 = Some it"
    and "it_data it = Some 0" and "it_handler it = Some Socks5_handler" and "conns w 0 = Some d"
    and "isSocks d" and "conn_current d = Some HELLO_READ" and "client d = Cl_hello h"
proof -
  obtain n s it where r: "server_run n (s, demo_accepted)" "n \<le> 6151" "sel_ok s"
    "registered s 7 = Some it" "it_data it = Some 0" "it_interest it = OP_READ"
    "it_handler it = Some Socks5_handler" "resolution_jobs s = []"
    "{i. \<exists>it. registered s i = Some it \<and> it_data it = Some 0} = {7}" by (rule demo_accept)
  let ?s = "s\<lparr>slave_r := {7}, slave_w := {}\<rparr>"
  let ?w = "demo_accepted\<lparr>io_step := 2, conns := [0 \<mapsto> demo_reading]\<rparr>"
  have t: "serve (Ready {7} {}) (s, demo_accepted) =
      Inr (SELECTOR_SUCCESS, ?s\<lparr>resolution_jobs := []\<rparr>, ?w) \<and>
    turn_calls handlers (Ready {7} {}) (s, demo_accepted) \<le> 2050"
    using r(3-8) demo_hello_read [of ?s]
    by (intro one_reader [where f = socksv5_read and h = Socks5_handler and it = it])
      (simp_all add: wants_def op_defs handlers_def sel_ok_def)
  have "server_run (n + 3 * turn_calls handlers (Ready {7} {}) (s, demo_accepted))
      (?s\<lparr>resolution_jobs := []\<rparr>, ?w)"
    using r(1) conjunct1 [OF t] by (rule server_run.turn)
  then show ?thesis
    using that [of _ "?s\<lparr>resolution_jobs := []\<rparr>" ?w it demo_reading] t r
    by (simp add: demo_reading_def demo_conn_def fresh_conn_def)
qed

end
