(* ===== verification/Auth_Gate.thy ===== *)
theory Auth_Gate
  imports Main_Loop
begin

text \<open>
  What a connection must show before it is served: the sequence of events of one connection, and
  the proof that the states from \<open>REQUEST_READ\<close> on are closed to a client that has neither been
  offered the method without authentication nor presented the credentials of an account.
\<close>

section \<open>The life of one connection\<close>

text \<open>
  The two ways in. The method is fixed when the negotiation starts, which is in the first event of
  the connection; the credentials are those the parser of \<open>auth_read\<close> holds when it is done.
\<close>

definition no_auth_offered :: "ctx \<Rightarrow> socks5 \<Rightarrow> bool" where
  "no_auth_offered c d \<longleftrightarrow>
     conn_current d = None \<and> auth_method (glob c) = METHOD_NO_AUTHENTICATION_REQUIRED"

definition login_accepted :: "ctx \<Rightarrow> socks5 \<Rightarrow> bool" where
  "login_accepted c d \<longleftrightarrow> conn_current d = Some USERPASS_READ \<and>
     (\<exists>c1 d1 h p name pass k. auth_read c = Inr (USERPASS_WRITE, c1) \<and> conn c1 = Inr d1 \<and>
        client d1 = Cl_userpass h \<and> us_parser h = Ptr p \<and>
        parser_result p 2 = Inr name \<and> parser_result p 4 = Inr pass \<and>
        checkCredentials (glob c) name pass = Inr (0x00, k))"

text \<open>
  \<open>socks_session a d\<close>: a SOCKS connection can come to \<open>d\<close>, and \<open>a\<close> tells whether one of the two
  happened on the way. Between two of its events anything may happen to the rest of the program
  (the context of an event is arbitrary but for the connection), and its reference counter and the
  list of the resolver may change.
\<close>

inductive socks_session :: "bool \<Rightarrow> socks5 \<Rightarrow> bool" where
  accepted: "socks_session False (fresh_conn True fd None ERROR DONE\<lparr>client_addr := peer\<rparr>)"
| others: "socks_session a d \<Longrightarrow> socks_session a (d\<lparr>references := r, origin_resolution := p\<rparr>)"
| event: "socks_session a d \<Longrightarrow> conn c = Inr d \<Longrightarrow> events_of ready \<Longrightarrow>
    stm_handler ready (socks5_stm (conn_current d)) c = Inr (j, m, c') \<Longrightarrow> conn c' = Inr d' \<Longrightarrow>
    socks_session (a \<or> no_auth_offered c d \<or> login_accepted c d) (d'\<lparr>conn_current := stm_current m\<rparr>)"

section \<open>The gate\<close>

definition hello_shut :: "socks5 \<Rightarrow> bool" where
  "hello_shut d \<longleftrightarrow> (\<forall>h. client d = Cl_hello h \<longrightarrow>
     hs_method h \<noteq> 0 \<and> (\<forall>p. hs_parser h = Ptr p \<longrightarrow> hp_method p \<noteq> 0))"

definition shut :: "nat \<Rightarrow> socks5 \<Rightarrow> bool" where
  "shut i d \<longleftrightarrow> (i \<le> HELLO_WRITE \<longrightarrow> hello_shut d) \<and> (i = USERPASS_WRITE \<longrightarrow> authentication d \<noteq> 0) \<and>
     \<not> (REQUEST_READ \<le> i \<and> i \<le> COPY)"

definition same_consts :: "socks5 \<Rightarrow> socks5 \<Rightarrow> bool" where
  "same_consts d d' \<longleftrightarrow> isSocks d' = isSocks d \<and> error_state d' = error_state d \<and>
     done_state d' = done_state d"

lemma same_consts_refl [simp]: "same_consts d d" by (simp add: same_consts_def)

lemma keeps_same_consts: "keeps c c' \<Longrightarrow> conn c = Inr d \<Longrightarrow> conn c' = Inr d' \<Longrightarrow> same_consts d d'"
  using keeps_kind [of c c' d d'] by (simp add: same_conn_def same_consts_def)

text \<open>The negotiation stores no method but the wanted one.\<close>

lemma hello_loop_method:
  "hello_loop b pm st err = Inr (b', (p', m'), st', err') \<Longrightarrow>
   hp_method p' = hp_method (fst pm) \<and> (m' = snd pm \<or> m' = hp_method (fst pm))"
proof (induction b pm st err rule: hello_loop.induct)
  case (1 b pm st err)
  show ?case
  proof (cases "buffer_can_read b")
    case False
    then show ?thesis using 1(2) by (subst (asm) hello_loop.simps) auto
  next
    case True
    obtain x b1 st1 p1 m1 where f: "buffer_read b = Inr (x, b1)" "hello_parser_feed pm x = Inr (st1, p1, m1)"
      and rest: "(if fst (hello_is_done st1 err)
        then Inr (b1, (p1, m1), st1, snd (hello_is_done st1 err))
        else hello_loop b1 (p1, m1) st1 (snd (hello_is_done st1 err))) = Inr (b', (p', m'), st', err')"
      using 1(2) True by (subst (asm) hello_loop.simps) auto
    have one: "hp_method p1 = hp_method (fst pm) \<and> (m1 = snd pm \<or> m1 = hp_method (fst pm))"
      using hello_feed_cell [of "fst pm" "snd pm" x st1 p1 m1] f(2) by (simp add: hello_same_def)
    show ?thesis
    proof (cases "fst (hello_is_done st1 err)")
      case True
      then show ?thesis using rest one by simp
    next
      case False
      then have "hp_method p' = hp_method p1 \<and> (m' = m1 \<or> m' = hp_method p1)"
        using 1(1) [OF True f(1) refl f(2) refl False] rest by simp
      then show ?thesis using one by auto
    qed
  qed
qed

lemma hello_consume_method:
  "hello_consume b (p, m) err = Inr (b', (p', m'), st, err') \<Longrightarrow>
   hp_method p' = hp_method p \<and> (m' = m \<or> m' = hp_method p)"
  using hello_loop_method [of b "(p, m)"] by (simp add: hello_consume_def)

section \<open>One lemma for each handler before the gate\<close>

lemma hello_read_init_shut:
  assumes "hello_read_init i c = Inr c'" and "conn c = Inr d" and "isSocks d"
    and "auth_method (glob c) \<noteq> METHOD_NO_AUTHENTICATION_REQUIRED"
  shows "\<exists>d'. conn c' = Inr d' \<and> same_consts d d' \<and> hello_shut d'"
  using assms
  by (auto simp: hello_read_init_def hello_shut_def same_consts_def hello_parser_init_def hello_constants)

lemma hello_read_shut:
  assumes "hello_read c = Inr (j, c')" and "conn c = Inr d" and "hello_shut d"
  shows "(\<exists>d'. conn c' = Inr d' \<and> same_consts d d' \<and> hello_shut d') \<and>
    (j = HELLO_READ \<or> j = HELLO_WRITE \<or> j = error_state d)"
  using assms
  by (auto simp: hello_read_def hello_shut_def same_consts_def Let_def split: option.splits if_splits
      dest!: hello_process_ret hello_consume_method)

lemma hello_read_close_shut:
  assumes "hello_read_close i c = Inr c'" and "conn c = Inr d" and "hello_shut d"
  shows "\<exists>d'. conn c' = Inr d' \<and> same_consts d d' \<and> hello_shut d'"
  using assms
  by (auto simp: hello_read_close_def hello_shut_def same_consts_def free_ptr_def split: if_splits ptr.splits)

lemma hello_write_shut:
  assumes "hello_write c = Inr (j, c')" and "conn c = Inr d" and "hello_shut d"
  shows "(\<exists>d'. conn c' = Inr d' \<and> same_consts d d' \<and> hello_shut d') \<and>
    (j = HELLO_WRITE \<or> j = USERPASS_READ \<or> j = done_state d \<or> j = error_state d)"
  using assms
  by (auto simp: hello_write_def hello_shut_def same_consts_def Let_def hello_constants
      split: option.splits if_splits)

lemma auth_write_shut:
  assumes "auth_write c = Inr (j, c')" and "conn c = Inr d" and "authentication d \<noteq> 0"
  shows "(\<exists>d'. conn c' = Inr d' \<and> same_consts d d' \<and> authentication d' \<noteq> 0) \<and>
    (j = USERPASS_WRITE \<or> j = done_state d \<or> j = error_state d)"
  using assms
  by (auto simp: auth_write_def same_consts_def Let_def split: option.splits if_splits)

definition checked_login :: "ctx \<Rightarrow> socks5 \<Rightarrow> bool" where
  "checked_login c d \<longleftrightarrow> (\<exists>h p name pass k. client d = Cl_userpass h \<and> us_parser h = Ptr p \<and>
     parser_result p 2 = Inr name \<and> parser_result p 4 = Inr pass \<and>
     checkCredentials (glob c) name pass = Inr (authentication d, k))"

lemma auth_process_checked:
  assumes "auth_process h c = Inr (j, c')" and "conn c = Inr d" and "isSocks d"
    and "client d = Cl_userpass h"
  shows "j = USERPASS_WRITE \<and> (\<exists>d'. conn c' = Inr d' \<and> same_consts d d' \<and> checked_login c d')"
  using assms by (fastforce simp: auth_process_def same_consts_def checked_login_def Let_def)

lemma auth_read_checked:
  assumes run: "auth_read c = Inr (j, c')" and d: "conn c = Inr d" "isSocks d"
  shows "(j = USERPASS_READ \<or> j = USERPASS_WRITE \<or> j = error_state d) \<and>
    (\<exists>d'. conn c' = Inr d' \<and> same_consts d d' \<and>
      (j = USERPASS_WRITE \<longrightarrow> j \<noteq> error_state d \<longrightarrow> checked_login c d'))"
proof -
  obtain h where h: "client d = Cl_userpass h" using run d by (auto simp: auth_read_def)
  show ?thesis
  proof (cases "us_ok h \<and> (\<exists>bs. recv_bytes (c_io c) (buf_limit (read_buffer d) - buf_write (read_buffer d)) = Some bs)")
    case False
    then show ?thesis
      using run d h by (auto simp: auth_read_def buffer_write_ptr_def split: option.splits if_splits)
  next
    case True
    then obtain rb p rb' p' st err ret c1 where
      c1: "c1 = put_conn (d\<lparr>read_buffer := rb', client := Cl_userpass (h\<lparr>us_parser := Ptr p'\<rparr>)\<rparr>) c"
      and step: "(if fst (is_done st False) then
          bind_res (set_interest_key OP_WRITE c1)
            (\<lambda>(s, c2). if s = SELECTOR_SUCCESS then auth_process (h\<lparr>us_parser := Ptr p'\<rparr>) c2
               else Inr (error_state d, c2))
        else Inr (USERPASS_READ, c1)) = Inr (ret, c')"
      and j: "j = (if err then error_state d else ret)"
      using run d h
      by (auto simp: auth_read_def buffer_write_ptr_def Let_def split: option.splits if_splits)
    let ?h = "h\<lparr>us_parser := Ptr p'\<rparr>" and ?d = "d\<lparr>read_buffer := rb', client := Cl_userpass (h\<lparr>us_parser := Ptr p'\<rparr>)\<rparr>"
    have d1: "conn c1 = Inr ?d" "glob c1 = glob c" "same_consts d ?d"
      by (simp_all add: c1 same_consts_def)
    show ?thesis
    proof (cases "fst (is_done st False)")
      case False
      then show ?thesis using step j d1 by auto
    next
      case True
      then obtain s c2 where c2: "set_interest_key OP_WRITE c1 = Inr (s, c2)"
        and out: "if s = SELECTOR_SUCCESS then auth_process ?h c2 = Inr (ret, c')
          else ret = error_state d \<and> c' = c2"
        using step by (auto split: if_splits del: keeps_interest_key)
      have e: "conn c2 = Inr ?d" "glob c2 = glob c" using keeps_interest_key [OF c2] d1 by auto
      show ?thesis
      proof (cases "s = SELECTOR_SUCCESS")
        case True
        then have "ret = USERPASS_WRITE \<and> (\<exists>d'. conn c' = Inr d' \<and> same_consts ?d d' \<and> checked_login c2 d')"
          using auth_process_checked [of ?h c2 ret c' ?d] out e(1) d(2) by simp
        then show ?thesis using j e(2) by (auto simp: same_consts_def checked_login_def)
      next
        case False
        then show ?thesis using out j e(1) d1(3) by auto
      qed
    qed
  qed
qed

lemma auth_read_close_consts:
  assumes "auth_read_close i c = Inr c'" and "conn c = Inr d"
  shows "\<exists>d'. conn c' = Inr d' \<and> same_consts d d' \<and> authentication d' = authentication d"
  using assms by (auto simp: auth_read_close_def same_consts_def)

lemma auth_read_init_consts:
  assumes "auth_read_init i c = Inr c'" and "conn c = Inr d"
  shows "\<exists>d'. conn c' = Inr d' \<and> same_consts d d'"
  using assms by (auto simp: auth_read_init_def same_consts_def)

section \<open>The gate stays shut\<close>

definition gate :: "bool \<Rightarrow> socks5 \<Rightarrow> bool" where
  "gate a d \<longleftrightarrow> a \<or> isSocks d \<and> error_state d = ERROR \<and> done_state d = DONE \<and>
     (case conn_current d of None \<Rightarrow> True | Some i \<Rightarrow> i \<le> ERROR \<and> shut i d)"

text \<open>What the handler of a state leaves for the departure action, when the gate is shut.\<close>

definition handled :: "nat \<Rightarrow> nat \<Rightarrow> socks5 \<Rightarrow> bool" where
  "handled i j d \<longleftrightarrow> (i \<le> HELLO_WRITE \<longrightarrow> hello_shut d) \<and>
     (j = USERPASS_WRITE \<longrightarrow> authentication d \<noteq> 0 \<and> USERPASS_READ \<le> i) \<and> (j = HELLO_WRITE \<longrightarrow> i \<le> HELLO_WRITE) \<and>
     (j = HELLO_READ \<longrightarrow> i = HELLO_READ) \<and> \<not> (REQUEST_READ \<le> j \<and> j \<le> COPY)"

lemma shut_ready:
  assumes f: "ready (client_statbl ! i) = Some f" "events_of ready" "i \<le> ERROR"
    and run: "f c = Inr (j, c')" and d: "conn c = Inr d" "isSocks d" "error_state d = ERROR"
      "done_state d = DONE" "shut i d"
    and no: "\<not> (i = USERPASS_READ \<and> j = USERPASS_WRITE \<and> (\<exists>d'. conn c' = Inr d' \<and>
      checked_login c d' \<and> authentication d' = 0))"
  shows "\<exists>d'. conn c' = Inr d' \<and> same_consts d d' \<and> handled i j d'"
  using client_ready [OF f(3,2,1)]
proof (elim disjE conjE)
  show ?thesis if "i = HELLO_READ" "f = hello_read"
    using hello_read_shut [of c j c' d] run d that by (auto simp: shut_def handled_def)
  show ?thesis if "i = HELLO_WRITE" "f = hello_write"
    using hello_write_shut [of c j c' d] run d that by (auto simp: shut_def handled_def)
  show ?thesis if "i = USERPASS_READ" "f = auth_read"
    using auth_read_checked [of c j c' d] run d no that by (auto simp: handled_def)
  show ?thesis if "i = USERPASS_WRITE" "f = auth_write"
    using auth_write_shut [of c j c' d] run d that by (auto simp: shut_def handled_def)
qed (use d in \<open>simp_all add: shut_def\<close>)

lemma shut_jump:
  assumes d: "conn c = Inr d" "isSocks d" and h: "handled i j d" and le: "i \<le> ERROR" "j \<le> ERROR"
    and i: "i < REQUEST_READ"
    and dep: "run_action (on_departure (client_statbl ! i)) i c = Inr c1"
    and arr: "run_action (on_arrival (client_statbl ! j)) j c1 = Inr c'" and ne: "j \<noteq> i"
  shows "\<exists>d'. conn c' = Inr d' \<and> same_consts d d' \<and> shut j d'"
proof -
  have "\<exists>d1. conn c1 = Inr d1 \<and> same_consts d d1 \<and> handled i j d1"
    using dep i h d hello_read_close_shut [of i c c1 d] auth_read_close_consts [of i c c1 d]
    by (auto simp: client_statbl_def state_def run_action_def hello_write_close_def
        auth_write_close_def handled_def less_Suc_eq numeral_eq_Suc)
  then obtain d1 where d1: "conn c1 = Inr d1" "same_consts d d1" "handled i j d1" by blast
  have "j = HELLO_WRITE \<or> j = USERPASS_READ \<or> j = USERPASS_WRITE \<or> j = DONE \<or> j = ERROR"
    using le_10_cases [OF le(2)] d1(3) ne by (auto simp: handled_def)
  then show ?thesis
  proof (elim disjE)
    show ?thesis if "j = USERPASS_READ"
      using arr that auth_read_init_consts [of j c1 c' d1] d1(1,2)
      by (auto simp: client_statbl_def state_def run_action_def shut_def same_consts_def)
  qed (use arr d1 in \<open>auto simp: client_statbl_def state_def run_action_def hello_write_init_def
      auth_write_init_def shut_def handled_def\<close>)
qed

lemma shut_simps [simp]:
  "shut i (d\<lparr>conn_current := x\<rparr>) = shut i d"
  "shut i (d\<lparr>references := r, origin_resolution := p\<rparr>) = shut i d"
  by (simp_all add: shut_def hello_shut_def)

lemma gate_event:
  assumes gate: "gate False d" and d: "conn c = Inr d" and ev: "events_of ready"
    and run: "stm_handler ready (socks5_stm (conn_current d)) c = Inr (j, m, c')"
    and no: "\<not> no_auth_offered c d" "\<not> login_accepted c d" and d': "conn c' = Inr d'"
  shows "gate False (d'\<lparr>conn_current := stm_current m\<rparr>)"
proof -
  have k: "isSocks d" "error_state d = ERROR" "done_state d = DONE"
    and cur: "\<And>i. conn_current d = Some i \<Longrightarrow> i \<le> ERROR \<and> shut i d"
    using gate by (auto simp: gate_def)
  have wf: "stm_wf (socks5_stm (conn_current d))"
    using socks5_stm_wf cur by (auto simp: stm_wf_def socks5_stm_def split: option.splits)
  obtain i c1 f c2 where le: "i \<le> ERROR" "j \<le> ERROR" "stm_current m = Some j"
    and c1: "conn_current d = None \<and> i = HELLO_READ \<and> hello_read_init i c = Inr c1 \<or>
      conn_current d = Some i \<and> c1 = c"
    and f: "ready (client_statbl ! i) = Some f" "f c1 = Inr (j, c2)"
    and step: "j = i \<and> c' = c2 \<or> j \<noteq> i \<and>
      (\<exists>c3. run_action (on_departure (client_statbl ! i)) i c2 = Inr c3 \<and>
        run_action (on_arrival (client_statbl ! j)) j c3 = Inr c')"
    by (rule stm_handler_cases [OF wf run])
      (auto simp: socks5_stm_def client_statbl_def state_def run_action_def)
  have "\<exists>d1. conn c1 = Inr d1 \<and> same_consts d d1 \<and> shut i d1"
    using c1 hello_read_init_shut [of i c c1 d] d k no(1) cur
    by (auto simp: no_auth_offered_def shut_def)
  then obtain d1 where d1: "conn c1 = Inr d1" "same_consts d d1" "shut i d1" by blast
  have k1: "isSocks d1" "error_state d1 = ERROR" "done_state d1 = DONE"
    using d1(2) k by (simp_all add: same_consts_def)
  have checked: "\<not> (i = USERPASS_READ \<and> j = USERPASS_WRITE \<and>
      (\<exists>d2. conn c2 = Inr d2 \<and> checked_login c1 d2 \<and> authentication d2 = 0))"
  proof
    assume i: "i = USERPASS_READ \<and> j = USERPASS_WRITE \<and>
      (\<exists>d2. conn c2 = Inr d2 \<and> checked_login c1 d2 \<and> authentication d2 = 0)"
    then have "c1 = c" "conn_current d = Some USERPASS_READ" using c1 by auto
    moreover from this i f ev have "auth_read c = Inr (USERPASS_WRITE, c2)"
      using client_ready [OF le(1) ev f(1)] by auto
    ultimately show False using i no(2) unfolding login_accepted_def checked_login_def by metis
  qed
  from shut_ready [OF f(1) ev le(1) f(2) d1(1) k1 d1(3) checked]
  obtain d2 where d2: "conn c2 = Inr d2" "same_consts d1 d2" "handled i j d2" by blast
  have i: "i < REQUEST_READ"
    using client_ready [OF le(1) ev f(1)] d1(3) by (auto simp: shut_def)
  have "same_consts d d' \<and> shut j d'"
    using step
  proof (elim disjE conjE exE)
    assume "j = i" "c' = c2"
    then show ?thesis using d2 d1(2) d' i by (auto simp: same_consts_def shut_def handled_def)
  next
    fix c3
    assume ne: "j \<noteq> i" and dep: "run_action (on_departure (client_statbl ! i)) i c2 = Inr c3"
      and arr: "run_action (on_arrival (client_statbl ! j)) j c3 = Inr c'"
    have "isSocks d2" using d2(2) k1(1) by (simp add: same_consts_def)
    from shut_jump [OF d2(1) this d2(3) le(1,2) i dep arr ne] show ?thesis
      using d1(2) d2(2) d' by (auto simp: same_consts_def)
  qed
  then show ?thesis using k le by (simp add: gate_def same_consts_def)
qed

lemma session_gate: "socks_session a d \<Longrightarrow> gate a d"
proof (induction rule: socks_session.induct)
  case (accepted peer)
  then show ?case by (simp add: gate_def fresh_conn_def)
next
  case (others a d r p)
  then show ?case by (simp add: gate_def cong: option.case_cong)
next
  case (event a d c ready j m c' d')
  then show ?case using gate_event [of d c ready j m c' d'] by (cases a) (auto simp: gate_def)
qed

end
