(* ===== verification/Negotiation.thy ===== *)
theory Negotiation
  imports Contract
begin

text \<open>
  What the handlers of the handshake do with a whole message: the method negotiation and the
  username/password sub-negotiation, for both machines. The lemmas say what comes out of one call
  of a handler when the message arrives in one piece; segmentation is the subject of
  \<open>Hello_Parser\<close> and \<open>Stream_Parser\<close>.
\<close>

section \<open>Receiving, sending, interests\<close>

lemma fill_append: "fill = buffer_append"
  by (intro ext) (simp add: fill_def buffer_append_def)

lemma fill_spec:
  assumes "buffer_inv b" and "length bs \<le> buffer_space b"
  obtains b' where "fill b bs = Inr b'" and "buffer_inv b'"
    and "buffer_contents b' = buffer_contents b @ bs" and "buf_limit b' = buf_limit b"
    and "buffer_space b' = buffer_space b - length bs"
  using buffer_append_spec [OF assms] unfolding fill_append by metis

lemma recv_whole: "io_recv i = Some bs \<Longrightarrow> bs \<noteq> [] \<Longrightarrow> length bs \<le> n \<Longrightarrow> recv_bytes i n = Some bs"
  by (simp add: recv_bytes_def)

lemma drain_spec:
  assumes "buffer_inv b"
  shows "drain c b = (case io_send (c_io c) of None \<Rightarrow> Inr None
    | Some n \<Rightarrow> bind_res (buffer_read_adv b (int (length (take n (buffer_contents b)))))
        (\<lambda>b'. Inr (Some (take n (buffer_contents b), b'))))"
proof -
  have "buf_read b + (buf_write b - buf_read b) \<le> length (buf_data b)"
    using assms by (simp add: buffer_inv_def)
  then have "mem_load (buf_read b) (length (buffer_contents b)) (buf_data b) = Inr (buffer_contents b)"
    using assms by (simp add: mem_load_def buffer_contents_length) (simp add: buffer_contents_def)
  then show ?thesis
    using assms by (simp add: drain_def buffer_read_ptr_inv send_bytes_def split: option.splits)
qed

lemma drain_all:
  assumes "buffer_inv b" and "io_send (c_io c) = Some n" and "length (buffer_contents b) \<le> n"
  obtains b' where "drain c b = Inr (Some (buffer_contents b, b'))" and "buffer_inv b'"
    and "buffer_contents b' = []" and "\<not> buffer_can_read b'" and "buf_limit b' = buf_limit b"
proof -
  obtain b' where b': "buffer_read_adv b (int (length (buffer_contents b))) = Inr b'" "buffer_inv b'"
    "buffer_contents b' = []" "buf_limit b' = buf_limit b"
    using buffer_read_adv_spec [OF assms(1) le_refl] by auto
  then show ?thesis
    using that [of b'] assms by (simp add: drain_spec buffer_can_read_iff)
qed

lemma interest_key_ok:
  assumes "selector_inv (c_sel c)" and "registered (c_sel c) (key_fd c) = Some it"
  obtains s where "set_interest_key i c = Inr (SELECTOR_SUCCESS, c\<lparr>c_sel := s\<rparr>)" and "selector_inv s"
    and "registered s = (registered (c_sel c))(key_fd c \<mapsto> it\<lparr>it_interest := i\<rparr>)"
proof -
  obtain s where s: "selector_set_interest (c_sel c) (int (key_fd c)) i = Inr (SELECTOR_SUCCESS, s)"
    "selector_inv s" "registered s = (registered (c_sel c))(key_fd c \<mapsto> it\<lparr>it_interest := i\<rparr>)"
    using selector_set_interest_spec [OF assms] by metis
  then show ?thesis
    using that [of s] by (simp add: set_interest_key_fd set_interest_fd_def)
qed

lemma put_conn_emit: "put_conn d (emit e c) = emit e (put_conn d c)"
  by (simp add: put_conn_def emit_def)

text \<open>What the negotiation leaves of a connection.\<close>

definition same_session :: "socks5 \<Rightarrow> socks5 \<Rightarrow> bool" where
  "same_session d d' \<longleftrightarrow> isSocks d' = isSocks d \<and> client_addr d' = client_addr d \<and> client_fd d' = client_fd d \<and> origin_fd d' = origin_fd d \<and>
     error_state d' = error_state d \<and> done_state d' = done_state d \<and> references d' = references d \<and>
     orig d' = orig d \<and> origin_resolution_current d' = origin_resolution_current d \<and>
     buf_limit (read_buffer d') = buf_limit (read_buffer d) \<and> buf_limit (write_buffer d') = buf_limit (write_buffer d)"

lemma same_session_trans: "same_session d d1 \<Longrightarrow> same_session d1 d2 \<Longrightarrow> same_session d d2"
  by (simp add: same_session_def)

abbreviation empty_buffer :: "buffer \<Rightarrow> bool" where
  "empty_buffer b \<equiv> buffer_inv b \<and> buffer_contents b = []"

definition with_interest :: "(nat \<Rightarrow> ('h, 'd) item option) \<Rightarrow> nat \<Rightarrow> fd_interest \<Rightarrow> nat \<Rightarrow> ('h, 'd) item option" where
  "with_interest m i op = m(i := map_option (\<lambda>it. it\<lparr>it_interest := op\<rparr>) (m i))"

section \<open>The method negotiation\<close>

definition hello_message :: "bool \<Rightarrow> byte list \<Rightarrow> byte list" where
  "hello_message socks ms = (if socks then SOCKS_VERSION else MNG_VERSION) # of_nat (length ms) # ms"

text \<open>The method a connection gets when the client offers \<open>ms\<close>.\<close>

definition method_for :: "ctx \<Rightarrow> bool \<Rightarrow> byte list \<Rightarrow> byte" where
  "method_for c socks ms =
     (let m = (if socks then auth_method (glob c) else MNG_AUTH_METHOD)
      in if m \<in> set ms then m else METHOD_NO_ACCEPTABLE_METHODS)"

lemma hello_read_whole:
  assumes d: "conn c = Inr d" "conn_current d = None" and ok: "io_malloc (c_io c) 0"
    and buf: "buffer_inv (read_buffer d)" "buffer_contents (read_buffer d) = []"
      "buffer_inv (write_buffer d)" "buffer_contents (write_buffer d) = []" "2 \<le> buffer_space (write_buffer d)"
    and msg: "io_recv (c_io c) = Some (hello_message (isSocks d) ms)" "length ms < 256"
      "length ms + 2 \<le> buffer_space (read_buffer d)"
    and sel: "selector_inv (c_sel c)" "registered (c_sel c) (key_fd c) = Some it"
  obtains c0 c1 d1 h p s where "hello_read_init HELLO_READ c = Inr c0"
    and "hello_read c0 = Inr (HELLO_WRITE, c1)" and "c1 = put_conn d1 (c\<lparr>c_sel := s\<rparr>)"
    and "client d1 = Cl_hello h" and "hs_parser h = Ptr p" and "hs_method h = method_for c (isSocks d) ms"
    and "buffer_inv (write_buffer d1)" and "isSocks d1 = isSocks d" and "error_state d1 = error_state d"
    and "done_state d1 = done_state d"
    and "buffer_contents (write_buffer d1) =
      [if isSocks d then SOCKS_VERSION else MNG_VERSION, method_for c (isSocks d) ms]"
    and "registered s = (registered (c_sel c))(key_fd c \<mapsto> it\<lparr>it_interest := OP_WRITE\<rparr>)"
    and "selector_inv s" and "same_session d d1" and "empty_buffer (read_buffer d1)"
proof -
  define v where "v = (if isSocks d then SOCKS_VERSION else MNG_VERSION)"
  define p0 where "p0 = \<lparr>hp_on_authentication_method = Some On_hello_method,
    hp_version = v, hp_method = (if isSocks d then auth_method (glob c) else MNG_AUTH_METHOD),
    hp_state = hello_version, hp_remaining = 0\<rparr>"
  let ?h0 = "\<lparr>hs_parser = Ptr (hello_parser_init p0), hs_method = 0xFF, hs_ok = True\<rparr>"
  let ?d0 = "d\<lparr>client := Cl_hello ?h0\<rparr>"
  let ?c0 = "put_conn ?d0 c" and ?m = "method_for c (isSocks d) ms"
  have init: "hello_read_init HELLO_READ c = Inr ?c0"
    using d ok by (simp add: hello_read_init_def p0_def v_def)
  have recv: "recv_bytes (c_io c) (buffer_space (read_buffer d)) = Some (hello_message (isSocks d) ms)"
    using msg by (intro recv_whole) (simp_all add: hello_message_def)
  obtain rb where rb: "fill (read_buffer d) (hello_message (isSocks d) ms) = Inr rb" "buffer_inv rb"
    "buffer_contents rb = hello_message (isSocks d) ms" "buf_limit rb = buf_limit (read_buffer d)"
    using fill_spec [OF buf(1), of "hello_message (isSocks d) ms"] msg(3) buf(2)
    by (auto simp: hello_message_def)
  obtain p' where run: "hello_run (hello_parser_init p0, 0xFF) (buffer_contents rb) =
      Inr ((p', if hp_method p0 \<in> set ms then hp_method p0 else 0xFF), hello_done, False, [], True)"
    using hello_run_message [of p0 ms "0xFF" "[]"] msg(2) rb(3)
    by (auto simp: p0_def hello_message_def v_def)
  have m: "(if hp_method p0 \<in> set ms then hp_method p0 else 0xFF) = ?m"
    by (simp add: method_for_def p0_def METHOD_NO_ACCEPTABLE_METHODS_def Let_def)
  obtain rb' where loop: "hello_loop rb (hello_parser_init p0, 0xFF)
      (hp_state (fst (hello_parser_init p0, 0xFF :: byte))) False = Inr (rb', (p', ?m), hello_done, False)"
    "buffer_inv rb'" "buffer_contents rb' = []" "buf_limit rb' = buf_limit rb"
    using hello.loop_result [OF rb(2) run [unfolded hello_run_def m]] by metis
  then have rb': "hello_consume rb (hello_parser_init p0, 0xFF) False =
      Inr (rb', (p', ?m), hello_done, False)" unfolding hello_consume_def by simp
  let ?d1 = "d\<lparr>read_buffer := rb', client := Cl_hello (?h0\<lparr>hs_parser := Ptr p', hs_method := ?m\<rparr>)\<rparr>"
  let ?c1 = "put_conn ?d1 c"
  have sel1: "selector_inv (c_sel ?c1)" "registered (c_sel ?c1) (key_fd ?c1) = Some it" using sel by simp_all
  obtain s where s: "set_interest_key OP_WRITE ?c1 = Inr (SELECTOR_SUCCESS, ?c1\<lparr>c_sel := s\<rparr>)"
    "selector_inv s" "registered s = (registered (c_sel ?c1))(key_fd ?c1 \<mapsto> it\<lparr>it_interest := OP_WRITE\<rparr>)"
    by (rule interest_key_ok [OF sel1])
  obtain wb where wb: "hello_marshal (write_buffer d) ?m v = Inr (2, wb)" "buffer_inv wb"
    "buffer_contents wb = [v, ?m]" "buf_limit wb = buf_limit (write_buffer d)"
    using hello_marshal_spec [OF buf(3,5), of ?m v] buf(4) by auto
  have read: "hello_read ?c0 = Inr (HELLO_WRITE, put_conn (?d1\<lparr>write_buffer := wb\<rparr>) (c\<lparr>c_sel := s\<rparr>))"
    using recv rb rb' s(1) wb(1) buf(1)
    by (simp add: hello_read_def as_hello_def buffer_write_ptr_inv hello_process_def v_def Let_def)
  show ?thesis
    by (rule that [OF init read refl, of "?h0\<lparr>hs_parser := Ptr p', hs_method := ?m\<rparr>" p'])
      (use s wb loop rb(4) in \<open>simp_all add: v_def same_session_def\<close>)
qed

lemma hello_write_whole:
  assumes d: "conn c = Inr d" "client d = Cl_hello h"
    and wb: "buffer_inv (write_buffer d)" "io_send (c_io c) = Some n"
      "length (buffer_contents (write_buffer d)) \<le> n"
    and sel: "selector_inv (c_sel c)" "registered (c_sel c) (key_fd c) = Some it"
  obtains c1 wb' s where
    "hello_write c = Inr (if hs_method h = METHOD_NO_ACCEPTABLE_METHODS then done_state d
       else if hs_method h = METHOD_USERNAME_PASSWORD then USERPASS_READ
       else if hs_method h = METHOD_NO_AUTHENTICATION_REQUIRED then REQUEST_READ
       else HELLO_WRITE, c1)"
    and "c1 = emit (Sent (key_fd c) (buffer_contents (write_buffer d)))
      (put_conn (d\<lparr>write_buffer := wb'\<rparr>) (c\<lparr>c_sel := s\<rparr>))"
    and "buffer_contents wb' = []" and "buffer_inv wb'" and "buf_limit wb' = buf_limit (write_buffer d)"
    and "hs_method h \<noteq> METHOD_NO_ACCEPTABLE_METHODS \<longrightarrow>
      registered s = with_interest (registered (c_sel c)) (key_fd c) OP_READ"
proof -
  obtain wb' where wb': "drain c (write_buffer d) = Inr (Some (buffer_contents (write_buffer d), wb'))"
    "buffer_inv wb'" "buffer_contents wb' = []" "\<not> buffer_can_read wb'" "buf_limit wb' = buf_limit (write_buffer d)"
    by (rule drain_all [OF wb])
  let ?c1 = "emit (Sent (key_fd c) (buffer_contents (write_buffer d))) (put_conn (d\<lparr>write_buffer := wb'\<rparr>) c)"
  have sel1: "selector_inv (c_sel ?c1)" "registered (c_sel ?c1) (key_fd ?c1) = Some it" using sel by simp_all
  obtain s where s: "set_interest_key OP_READ ?c1 = Inr (SELECTOR_SUCCESS, ?c1\<lparr>c_sel := s\<rparr>)"
    "registered s = (registered (c_sel ?c1))(key_fd ?c1 \<mapsto> it\<lparr>it_interest := OP_READ\<rparr>)"
    using interest_key_ok [OF sel1, of OP_READ] by metis
  show ?thesis
  proof (cases "hs_method h = METHOD_NO_ACCEPTABLE_METHODS")
    case True
    then show ?thesis
      using d wb' by (intro that [of ?c1 wb' "c_sel c"]) (simp_all add: hello_write_def as_hello_def Let_def)
  next
    case False
    then show ?thesis
      using d wb' s
      by (intro that [of "?c1\<lparr>c_sel := s\<rparr>" wb' s])
        (simp_all add: hello_write_def as_hello_def Let_def emit_def put_conn_def with_interest_def sel)
  qed
qed

section \<open>The sub-negotiation\<close>

text \<open>A parser built by one of the \<open>*_init\<close> functions when every \<open>malloc\<close> succeeds.\<close>

definition substate_for :: "parser_substate \<Rightarrow> field \<Rightarrow> parser_substate" where
  "substate_for m f = (case f of Byte_field chk nul \<Rightarrow> byte_field chk nul m
     | Length_field \<Rightarrow> length_field m | Long_field \<Rightarrow> long_field m)"

lemma substates_new_all:
  "(\<And>k. ok k) \<Longrightarrow> substates_new ok m k fs = (map (\<lambda>f. Ptr (substate_for m f)) fs, True)"
  by (induction fs arbitrary: k) (simp_all add: substate_for_def Let_def split: field.splits)

lemma parser_new_all:
  assumes "\<And>k. ok k" and "fs \<noteq> []"
  shows "parser_new ok m fs = Inr (Ptr (parser_of (map (substate_for m) fs) 0
    (ps_state (substate_for m (hd fs))) 0), True)"
  using assms
  using substates_new_all [of ok m 2 fs] parser_of_def
  by (cases fs) (simp_all add: parser_new_def parser_init_def parser_block_def substate_at_def
      substate_ptr_def parser_of_def comp_def del: substates_new.simps)

definition user_message :: "byte list \<Rightarrow> byte list \<Rightarrow> byte list" where
  "user_message u w = encode_field u @ encode_field w"

definition auth_message :: "byte list \<Rightarrow> byte list \<Rightarrow> byte list" where
  "auth_message u w = 0x01 # user_message u w"

lemma checkVersion_bytes [simp]:
  "checkVersion (Ptr (Some v # rest)) 1 err = Inr (if v = 0x01 then (True, err) else (False, VERSION_ERROR))"
  by (simp add: checkVersion_def first_byte_def)

lemma auth_substates:
  "map (substate_for m) auth_fields =
    byte_field (Some checkVersion) None m # counted [(length_field m, long_field m), (length_field m, long_field m)]"
  "counted_ok [(length_field m, long_field m), (length_field m, long_field m)]"
  by (simp_all add: auth_fields_def substate_for_def counted_ok_def length_field_def long_field_def)

text \<open>The version byte, whatever the parser goes on with.\<close>

lemma version_step:
  fixes v :: byte and m :: parser_substate
  defines "ss \<equiv> map (substate_for m) auth_fields"
  shows "parser_feed ok (parser_of ss 0 long_read 0) v =
    (let ss' = ss[0 := field_of (ss ! 0) [v]] in
     if v = 0x01 then Inr (read_N, parser_of ss' 1 read_N 0)
     else Inr (error_read, parser_of ss' 0 error_read VERSION_ERROR))"
proof -
  have ss: "ss = [byte_field (Some checkVersion) None m, length_field m, long_field m, length_field m, long_field m]"
    by (simp add: ss_def auth_fields_def substate_for_def)
  have i: "0 < length ss" "length ss < 256" by (simp_all add: ss)
  have r: "reading (ss ! 0) [] 1" by (simp add: ss reading_def byte_field_def)
  have chk: "ps_check_function (ss ! 0) = Some checkVersion" by (simp add: ss byte_field_def)
  have adv: "parser_advance (parser_of (ss[0 := field_of (ss ! 0) [v]]) 0 long_read 0) =
      Inr (parser_of (ss[0 := field_of (ss ! 0) [v]]) 1 read_N 0)"
    using advance_after_field [OF i, of "[v]" long_read 0] by (simp add: after_field_def ss Let_def length_field_def)
  show ?thesis
    using feed_long_last [OF i r, of ok 0 v] chk adv
    by (cases "v = 0x01") (simp_all add: Let_def field_of_def)
qed

lemma auth_run:
  assumes "length u < 256" and "length w < 256"
  shows "run_parser (parser_feed True) is_done (parser_of (map (substate_for m) auth_fields) 0 long_read 0)
      st False (auth_message u w @ rest) =
    Inr (parser_of [field_of (byte_field (Some checkVersion) None m) [1], length_field m,
           field_of (long_field m) u, length_field m, field_of (long_field m) w] 5 done_read 0,
         done_read, False, rest, True)"
proof -
  let ?b = "field_of (byte_field (Some checkVersion) None m) [1]"
  let ?fs = "[(length_field m, long_field m), (length_field m, long_field m)]"
  have "run_parser (parser_feed True) is_done (parser_of ([?b] @ counted ?fs) (length [?b]) read_N 0) read_N
      False (concat (map encode_field [u, w]) @ rest) =
    Inr (parser_of ([?b] @ filled ?fs [u, w]) (length [?b] + 2 * length ?fs) done_read 0, done_read, False,
      rest, True)"
    using auth_substates(2) assms by (intro run_counted) auto
  then show ?thesis
    using version_step [of True m 1]
    by (simp add: auth_message_def user_message_def auth_substates(1) Let_def)
qed

lemma wrong_version_run:
  assumes "v \<noteq> 0x01"
  shows "run_parser (parser_feed ok) is_done (parser_of (map (substate_for m) auth_fields) 0 long_read 0)
      st False (v # rest) =
    Inr (parser_of ((map (substate_for m) auth_fields)[0 := field_of (byte_field (Some checkVersion) None m) [v]])
           0 error_read VERSION_ERROR, error_read, True, rest, True)"
  using version_step [of ok m v] assms by (simp add: auth_substates(1) Let_def)

text \<open>The parser \<open>auth_read_init\<close> leaves in a connection, and the memory it was built from.\<close>

definition fresh_login :: "parser_substate \<Rightarrow> userpass_st" where
  "fresh_login m = \<lparr>us_parser = Ptr (parser_of (map (substate_for m) auth_fields) 0 long_read 0), us_ok = True\<rparr>"

lemma auth_read_init_fresh:
  assumes "conn c = Inr d" and "\<And>k. io_malloc (c_io c) k"
  shows "auth_read_init st c =
    Inr (put_conn (d\<lparr>client := Cl_userpass (fresh_login (io_substate (c_io c)))\<rparr>) c)"
proof -
  have "parser_new (io_malloc (c_io c)) m auth_fields =
      Inr (Ptr (parser_of (map (substate_for m) auth_fields) 0 long_read 0), True)" for m
    using parser_new_all [of "io_malloc (c_io c)" auth_fields m] assms(2)
    by (simp add: auth_fields_def substate_for_def byte_field_def)
  then show ?thesis using assms(1) by (simp add: auth_read_init_def fresh_login_def)
qed

text \<open>\<open>consume\<close> on a fresh parser, from what the parser does with the bytes.\<close>

lemma consume_fresh:
  assumes "buffer_inv b" and ss: "ss \<noteq> []"
    and run: "run_parser (parser_feed True) is_done (parser_of ss i cur e) (ps_state (hd ss)) False
      (buffer_contents b) = Inr (p', st', err', rest, fin)"
  obtains b' where "consume True b (parser_of ss i cur e) False = Inr (b', p', st', err')"
    and "buffer_inv b'" and "buffer_contents b' = rest" and "buf_limit b' = buf_limit b"
proof -
  have "substate_at (parser_of ss i cur e) 0 = Inr (hd ss)"
    using ss by (simp add: hd_conv_nth)
  moreover obtain b' where "consume_loop True b (parser_of ss i cur e) (ps_state (hd ss)) False =
      Inr (b', p', st', err')" "buffer_inv b'" "buffer_contents b' = rest" "buf_limit b' = buf_limit b"
    using fields.loop_result [OF assms(1) run] by metis
  ultimately show ?thesis by (intro that [of b']) (simp_all add: consume_def)
qed

lemma text_of [simp]: "0 \<notin> set u \<Longrightarrow> c_text (Ptr (map Some u @ [Some 0])) u"
  by (simp add: c_text_def c_string_terminated)

text \<open>The verdict on a login, for either kind of connection.\<close>

definition verdict :: "ctx \<Rightarrow> socks5 \<Rightarrow> byte list \<Rightarrow> byte list \<Rightarrow> byte" where
  "verdict c d u w =
     (let as = (if isSocks d then map (\<lambda>i. account (users (glob c) ! i)) [0..<nusers (glob c)]
                else map (\<lambda>i. account (admins (glob c) ! i)) [0..<nadmins (glob c)])
      in if Inr (u, w) \<in> set as then 0x00 else 0x01)"

definition tables_ok :: "globals \<Rightarrow> bool" where
  "tables_ok g \<longleftrightarrow> (\<exists>as. holds (users g) (nusers g) as) \<and> (\<exists>as. holds (admins g) (nadmins g) as)"

lemma holds_accounts: "holds us n as \<Longrightarrow> map (\<lambda>i. account (us ! i)) [0..<n] = map Inr as"
  by (auto simp: holds_def intro!: nth_equalityI)

text \<open>The index of the account that logged in.\<close>

definition logged_as :: "globals \<Rightarrow> nat \<Rightarrow> byte list \<times> byte list \<Rightarrow> bool" where
  "logged_as g i a \<longleftrightarrow> i < nusers g \<and> account (users g ! i) = Inr a"

lemma holds_logged: "holds (users g) (nusers g) as \<Longrightarrow> i < nusers g \<Longrightarrow> as ! i = a \<Longrightarrow> logged_as g i a"
  by (auto simp: logged_as_def holds_def)

lemma auth_process_verdict:
  assumes d: "conn c = Inr d" and h: "us_parser h = Ptr p" "parser_result p 2 = Inr name"
      "parser_result p 4 = Inr pass" "c_text name u" "c_text pass w" and t: "tables_ok (glob c)"
  obtains d' g where "auth_process h c = Inr (USERPASS_WRITE, put_conn d' (put_glob g c))"
    and "authentication d' = verdict c d u w" and "same_conn d d'"
    and "write_buffer d' = write_buffer d" and "client d' = client d"
    and "verdict c d u w = 0 \<longrightarrow> isSocks d \<longrightarrow> logged_as (glob c) (userIndex d') (u, w)"
    and "same_session d d'" and "read_buffer d' = read_buffer d"
proof -
  let ?g = "(glob c)\<lparr>metrics_historic_auth_attempts := metrics_historic_auth_attempts (glob c) + 1\<rparr>"
  obtain as bs where as: "holds (users (glob c)) (nusers (glob c)) as"
    and bs: "holds (admins (glob c)) (nadmins (glob c)) bs"
    using t by (auto simp: tables_ok_def)
  have mem: "verdict c d u w = (if (u, w) \<in> set (if isSocks d then as else bs) then 0 else 1)"
    by (simp add: verdict_def holds_accounts [OF as] holds_accounts [OF bs] image_iff)
  show ?thesis
  proof (cases "isSocks d")
    case True
    obtain r where r0: "checkCredentials (glob c) name pass = Inr r"
      "if (u, w) \<in> set as then fst r = 0 \<and> (\<exists>i. snd r = Some i \<and> i < nusers (glob c) \<and> as ! i = (u, w))
       else r = (1, None)"
      using checkCredentials_accounts [OF as h(4,5)] by blast
    obtain v k where vk: "r = (v, k)" by (cases r)
    note r = r0 [unfolded vk]
    let ?d' = "d\<lparr>authentication := v, userIndex := (case k of None \<Rightarrow> userIndex d | Some i \<Rightarrow> i)\<rparr>"
    show ?thesis
      by (rule that [of ?d' ?g])
        (use d h(1-3) r True mem holds_logged [OF as] in \<open>auto simp: auth_process_def Let_def same_conn_def same_session_def split: if_splits\<close>)
  next
    case False
    show ?thesis
      by (rule that [of "d\<lparr>authentication := verdict c d u w\<rparr>" ?g])
        (use d h(1-3) checkMngCredentials_accounts [OF bs h(4,5)] False mem in
          \<open>auto simp: auth_process_def Let_def same_conn_def same_session_def\<close>)
  qed
qed

lemma auth_read_whole:
  assumes d: "conn c = Inr d" "client d = Cl_userpass (fresh_login m)" and ok: "io_malloc (c_io c) 0"
    and buf: "buffer_inv (read_buffer d)" "buffer_contents (read_buffer d) = []"
    and msg: "io_recv (c_io c) = Some (auth_message u w)" "length u < 256" "length w < 256"
      "length u + length w + 3 \<le> buffer_space (read_buffer d)"
    and nul: "0 \<notin> set u" "0 \<notin> set w" and t: "tables_ok (glob c)"
    and sel: "selector_inv (c_sel c)" "registered (c_sel c) (key_fd c) = Some it"
  obtains c1 d1 s g h where "auth_read c = Inr (USERPASS_WRITE, c1)"
    and "c1 = put_conn d1 (put_glob g (c\<lparr>c_sel := s\<rparr>))"
    and "authentication d1 = verdict c d u w" and "same_conn d d1"
    and "write_buffer d1 = write_buffer d" and "client d1 = Cl_userpass h" and "no_fault (parser_close (us_parser h))"
    and "registered s = (registered (c_sel c))(key_fd c \<mapsto> it\<lparr>it_interest := OP_WRITE\<rparr>)"
    and "selector_inv s" and "same_session d d1" and "empty_buffer (read_buffer d1)"
    and "verdict c d u w = 0 \<longrightarrow> isSocks d \<longrightarrow> logged_as (glob c) (userIndex d1) (u, w)"
proof -
  let ?ss = "map (substate_for m) auth_fields" and ?msg = "auth_message u w"
  have recv: "recv_bytes (c_io c) (buffer_space (read_buffer d)) = Some ?msg"
    using msg by (intro recv_whole) (simp_all add: auth_message_def user_message_def encode_field_def)
  obtain rb where rb: "fill (read_buffer d) ?msg = Inr rb" "buffer_inv rb" "buffer_contents rb = ?msg"
    "buf_limit rb = buf_limit (read_buffer d)"
    using fill_spec [OF buf(1), of ?msg] msg(4) buf(2)
    by (auto simp: auth_message_def user_message_def encode_field_def)
  let ?p = "parser_of [field_of (byte_field (Some checkVersion) None m) [1], length_field m,
           field_of (long_field m) u, length_field m, field_of (long_field m) w] 5 done_read 0"
  have ne: "?ss \<noteq> []" "ps_state (hd ?ss) = long_read"
    by (simp_all add: auth_fields_def substate_for_def byte_field_def)
  have run: "run_parser (parser_feed True) is_done (parser_of ?ss 0 long_read 0) (ps_state (hd ?ss)) False
      (buffer_contents rb) = Inr (?p, done_read, False, [], True)"
    using auth_run [OF msg(2,3), of m _ "[]"] rb(3) by simp
  obtain rb' where rb': "consume True rb (parser_of ?ss 0 long_read 0) False = Inr (rb', ?p, done_read, False)"
    "buffer_inv rb'" "buffer_contents rb' = []" "buf_limit rb' = buf_limit rb"
    using consume_fresh [OF rb(2) ne(1) run] by metis
  let ?h = "fresh_login m\<lparr>us_parser := Ptr ?p\<rparr>"
  let ?d1 = "d\<lparr>read_buffer := rb', client := Cl_userpass ?h\<rparr>"
  let ?c1 = "put_conn ?d1 c"
  have sel1: "selector_inv (c_sel ?c1)" "registered (c_sel ?c1) (key_fd ?c1) = Some it" using sel by simp_all
  obtain s where s: "set_interest_key OP_WRITE ?c1 = Inr (SELECTOR_SUCCESS, ?c1\<lparr>c_sel := s\<rparr>)"
    "selector_inv s" "registered s = (registered (c_sel ?c1))(key_fd ?c1 \<mapsto> it\<lparr>it_interest := OP_WRITE\<rparr>)"
    by (rule interest_key_ok [OF sel1])
  let ?c2 = "?c1\<lparr>c_sel := s\<rparr>"
  have c2: "conn ?c2 = Inr ?d1" "tables_ok (glob ?c2)" "verdict ?c2 ?d1 u w = verdict c d u w"
    using t by (simp_all add: verdict_def)
  have h: "us_parser ?h = Ptr ?p" "parser_result ?p 2 = Inr (Ptr (map Some u @ [Some 0]))"
    "parser_result ?p 4 = Inr (Ptr (map Some w @ [Some 0]))"
    by (simp_all add: parser_result_def field_of_def)
  obtain d' g where p: "auth_process ?h ?c2 = Inr (USERPASS_WRITE, put_conn d' (put_glob g ?c2))"
    "authentication d' = verdict ?c2 ?d1 u w" "same_conn ?d1 d'" "write_buffer d' = write_buffer ?d1"
    "client d' = client ?d1" "same_session ?d1 d'" "read_buffer d' = read_buffer ?d1"
    "verdict ?c2 ?d1 u w = 0 \<longrightarrow> isSocks ?d1 \<longrightarrow> logged_as (glob ?c2) (userIndex d') (u, w)"
    by (rule auth_process_verdict [OF c2(1) h text_of [OF nul(1)] text_of [OF nul(2)] c2(2)]) blast
  have "put_conn d' (put_glob g ?c2) = put_conn d' (put_glob g (c\<lparr>c_sel := s\<rparr>))"
    by (simp add: put_conn_def put_glob_def)
  then have read: "auth_read c = Inr (USERPASS_WRITE, put_conn d' (put_glob g (c\<lparr>c_sel := s\<rparr>)))"
    using d recv rb rb' s(1) p(1) buf(1) ok
    by (simp add: auth_read_def as_userpass_def buffer_write_ptr_inv fresh_login_def Let_def)
  have "no_fault (parser_close (Ptr ?p))"
    by (simp add: parser_close_def parser_of_def upt_rec field_of_def byte_field_def length_field_def
        long_field_def)
  then show ?thesis
    by (intro that [OF read refl, of ?h]) (use p s c2(3) rb' rb(4) in \<open>simp_all add: same_conn_def same_session_def\<close>)
qed

text \<open>A first byte that is not the version of the sub-negotiation.\<close>

lemma auth_read_wrong_version:
  assumes d: "conn c = Inr d" "client d = Cl_userpass (fresh_login m)" "isSocks d" and ok: "io_malloc (c_io c) 0"
    and buf: "buffer_inv (read_buffer d)" "buffer_contents (read_buffer d) = []" "0 < buffer_space (read_buffer d)"
    and msg: "io_recv (c_io c) = Some [v]" "v \<noteq> 0x01"
    and users: "0 < nusers (glob c)" "tables_ok (glob c)"
    and sel: "selector_inv (c_sel c)" "registered (c_sel c) (key_fd c) = Some it"
  shows "auth_read c = Inl Undefined"
proof -
  let ?ss = "map (substate_for m) auth_fields"
  have recv: "recv_bytes (c_io c) (buffer_space (read_buffer d)) = Some [v]"
    using msg(1) buf(3) by (intro recv_whole) simp_all
  obtain rb where rb: "fill (read_buffer d) [v] = Inr rb" "buffer_inv rb" "buffer_contents rb = [v]"
    using fill_spec [OF buf(1), of "[v]"] buf(2,3) by auto
  let ?p = "parser_of (?ss[0 := field_of (byte_field (Some checkVersion) None m) [v]]) 0 error_read VERSION_ERROR"
  have ne: "?ss \<noteq> []" "ps_state (hd ?ss) = long_read" "length ?ss = 5" "ps_result (?ss ! 2) = Null"
    by (simp_all add: auth_fields_def substate_for_def byte_field_def long_field_def)
  have run: "run_parser (parser_feed True) is_done (parser_of ?ss 0 long_read 0) (ps_state (hd ?ss)) False
      (buffer_contents rb) = Inr (?p, error_read, True, [], True)"
    using wrong_version_run [OF msg(2), of True m _ "[]"] rb(3) by simp
  obtain rb' where rb': "consume True rb (parser_of ?ss 0 long_read 0) False = Inr (rb', ?p, error_read, True)"
    using consume_fresh [OF rb(2) ne(1) run] by metis
  let ?h = "fresh_login m\<lparr>us_parser := Ptr ?p\<rparr>"
  let ?d1 = "d\<lparr>read_buffer := rb', client := Cl_userpass ?h\<rparr>"
  let ?c1 = "put_conn ?d1 c"
  have sel1: "selector_inv (c_sel ?c1)" "registered (c_sel ?c1) (key_fd ?c1) = Some it" using sel by simp_all
  obtain s where s: "set_interest_key OP_WRITE ?c1 = Inr (SELECTOR_SUCCESS, ?c1\<lparr>c_sel := s\<rparr>)"
    using interest_key_ok [OF sel1, of OP_WRITE] by metis
  have name: "parser_result ?p 2 = Inr Null" using ne by (simp add: parser_result_def)
  have first: "[0..<nusers (glob c)] = 0 # [Suc 0..<nusers (glob c)]"
    using users(1) by (rule upt_conv_Cons)
  have "user_at (users (glob c)) 0 = Inr (users (glob c) ! 0)"
    using users by (auto simp: tables_ok_def holds_def user_at_def)
  then have "checkCredentials (glob c) Null pass = Inl Undefined" for pass
    by (simp add: checkCredentials_def first strcmp_eq_def del: upt.simps)
  then have "auth_process ?h (?c1\<lparr>c_sel := s\<rparr>) = Inl Undefined"
    using d(3) name ne by (simp add: auth_process_def parser_result_def)
  then show ?thesis
    using d recv rb rb' s(1) buf(1) ok
    by (simp add: auth_read_def as_userpass_def buffer_write_ptr_inv fresh_login_def Let_def)
qed

lemma auth_write_whole:
  assumes d: "conn c = Inr d" and buf: "buffer_inv (write_buffer d)" "buffer_contents (write_buffer d) = []"
      "2 \<le> buffer_space (write_buffer d)"
    and io: "io_send (c_io c) = Some n" "2 \<le> n"
    and sel: "selector_inv (c_sel c)" "registered (c_sel c) (key_fd c) = Some it"
  obtains c1 wb' s where
    "auth_write c = Inr (if authentication d \<noteq> 0 then done_state d else REQUEST_READ, c1)"
    and "c1 = emit (Sent (key_fd c) [0x01, authentication d])
      (put_conn (d\<lparr>write_buffer := wb'\<rparr>) (c\<lparr>c_sel := s\<rparr>))"
    and "buffer_contents wb' = []" and "buffer_inv wb'" and "buf_limit wb' = buf_limit (write_buffer d)"
    and "authentication d = 0 \<longrightarrow> registered s = with_interest (registered (c_sel c)) (key_fd c) OP_READ"
    and "authentication d \<noteq> 0 \<longrightarrow> s = c_sel c"
proof -
  obtain wb0 where wb0: "auth_reply (write_buffer d) (authentication d) = Inr (2, wb0)" "buffer_inv wb0"
    "buffer_contents wb0 = [0x01, authentication d]" "buf_limit wb0 = buf_limit (write_buffer d)"
    using auth_reply_spec [OF buf(1,3), of "authentication d"] buf(2) by auto
  have len: "length (buffer_contents wb0) \<le> n" using io(2) wb0(3) by simp
  obtain wb' where wb': "drain c wb0 = Inr (Some ([0x01, authentication d], wb'))"
    "buffer_inv wb'" "buffer_contents wb' = []" "\<not> buffer_can_read wb'" "buf_limit wb' = buf_limit wb0"
    using drain_all [OF wb0(2) io(1) len] wb0(3) by metis
  let ?c1 = "emit (Sent (key_fd c) [0x01, authentication d]) (put_conn (d\<lparr>write_buffer := wb'\<rparr>) c)"
  have sel1: "selector_inv (c_sel ?c1)" "registered (c_sel ?c1) (key_fd ?c1) = Some it" using sel by simp_all
  obtain s where s: "set_interest_key OP_READ ?c1 = Inr (SELECTOR_SUCCESS, ?c1\<lparr>c_sel := s\<rparr>)"
    "registered s = (registered (c_sel ?c1))(key_fd ?c1 \<mapsto> it\<lparr>it_interest := OP_READ\<rparr>)"
    using interest_key_ok [OF sel1, of OP_READ] by metis
  show ?thesis
  proof (cases "authentication d = 0")
    case False
    then show ?thesis
      using d wb0 wb' by (intro that [of ?c1 wb' "c_sel c"]) (simp_all add: auth_write_def Let_def)
  next
    case True
    then show ?thesis
      using d wb0 wb' s
      by (intro that [of "?c1\<lparr>c_sel := s\<rparr>" wb' s])
        (simp_all add: auth_write_def Let_def emit_def put_conn_def with_interest_def sel)
  qed
qed

section \<open>Events of the SOCKS machine\<close>

lemma socks_event:
  assumes i: "i \<le> ERROR" and start: "cur = None \<and> i = HELLO_READ \<and> hello_read_init i c = Inr c1 \<or>
      cur = Some i \<and> c1 = c"
    and f: "ready (client_statbl ! i) = Some f" "f c1 = Inr (j, c2)" and j: "j \<le> ERROR" "j \<noteq> i"
    and dep: "run_action (on_departure (client_statbl ! i)) i c2 = Inr c3"
    and arr: "run_action (on_arrival (client_statbl ! j)) j c3 = Inr c4"
  shows "stm_handler ready (socks5_stm cur) c = Inr (j, socks5_stm (Some j), c4)"
proof -
  have len: "length client_statbl = 11" by (simp add: client_statbl_def)
  have sd: "sd_state (client_statbl ! k) = k" if "k \<le> ERROR" for k
    using socks5_stm_wf that by (simp add: stm_wf_def socks5_stm_def)
  have first: "handle_first (socks5_stm cur) c = Inr (socks5_stm (Some i), c1)"
    using start by (auto simp: handle_first_def socks5_stm_def stm_at_def client_statbl_def state_def
        run_action_def)
  have "jump (socks5_stm (Some i)) j c2 = Inr (socks5_stm (Some j), c4)"
    using i j dep arr len sd by (simp add: jump_def socks5_stm_def stm_at_def)
  then show ?thesis
    using first f i len by (simp add: stm_handler_def stm_at_def socks5_stm_def)
qed

lemma store_request_ok: "conn c = Inr d \<Longrightarrow> store_request h c = Inr (put_conn (d\<lparr>client := Cl_request h\<rparr>) c)"
  by (simp add: store_request_def)

text \<open>The parser that \<open>request_init\<close> leaves, on any memory of the right size.\<close>

definition awaits_request :: "client_union \<Rightarrow> bool" where
  "awaits_request u \<longleftrightarrow> (\<exists>r0 p0 p f. fresh_ok r0 \<and> request_parser_init (Ptr r0) p0 = (0, p) \<and>
     u = Cl_request \<lparr>rs_parser = Ptr p, rs_addr_family = f, rs_status = 0\<rparr>)"

lemma request_init_ok:
  assumes "conn c = Inr d" and "\<And>k. io_malloc (c_io c) k"
  obtains u where "request_init st c = Inr (put_conn (d\<lparr>client := u\<rparr>) c)"
    and "fresh_ok (io_request (c_io c)) \<longrightarrow> awaits_request u"
proof -
  let ?mem = "Ptr (io_request (c_io c))"
  obtain p where p: "request_parser_init ?mem (io_request_parser (c_io c)) = (0, p)" "p\<lparr>rp_request := ?mem\<rparr> = p"
    by (simp add: request_parser_init_def Let_def)
  let ?u = "Cl_request \<lparr>rs_parser = Ptr p, rs_addr_family = 0, rs_status = 0\<rparr>"
  have "request_init st c = Inr (put_conn (d\<lparr>client := ?u\<rparr>) c)"
    using assms by (simp add: request_init_def store_request_ok Let_def status_succeeded_def p)
  then show ?thesis by (rule that) (use p(1) in \<open>auto simp: awaits_request_def\<close>)
qed

definition ready_ctx :: "ctx \<Rightarrow> bool" where
  "ready_ctx c \<longleftrightarrow> selector_inv (c_sel c) \<and> registered (c_sel c) (key_fd c) \<noteq> None \<and>
     (\<forall>k. io_malloc (c_io c) k)"

definition empty_buffers :: "socks5 \<Rightarrow> bool" where
  "empty_buffers d \<longleftrightarrow> buffer_inv (read_buffer d) \<and> buffer_contents (read_buffer d) = [] \<and>
     buffer_inv (write_buffer d) \<and> buffer_contents (write_buffer d) = [] \<and>
     2 \<le> buffer_space (write_buffer d)"

text \<open>Where a connection goes with the method it was given.\<close>

definition after_hello :: "byte \<Rightarrow> nat" where
  "after_hello m =
     (if m = METHOD_NO_ACCEPTABLE_METHODS then DONE else if m = METHOD_USERNAME_PASSWORD then USERPASS_READ
      else if m = METHOD_NO_AUTHENTICATION_REQUIRED then REQUEST_READ else HELLO_WRITE)"

lemma hello_event_read:
  assumes d: "conn c = Inr d" "conn_current d = None" "isSocks d" "empty_buffers d" and r: "ready_ctx c"
    and msg: "io_recv (c_io c) = Some (hello_message True ms)" "length ms < 256"
      "length ms + 2 \<le> buffer_space (read_buffer d)"
  obtains c1 d1 h where
    "stm_handler_read (socks5_stm None) c = Inr (HELLO_WRITE, socks5_stm (Some HELLO_WRITE), c1)"
    and "conn c1 = Inr d1" and "client d1 = Cl_hello h" and "hs_method h = method_for c True ms"
    and "buffer_inv (write_buffer d1)"
    and "buffer_contents (write_buffer d1) = [SOCKS_VERSION, method_for c True ms]"
    and "isSocks d1" and "error_state d1 = error_state d" and "done_state d1 = done_state d"
    and "\<exists>s. c1 = put_conn d1 (c\<lparr>c_sel := s\<rparr>) \<and> registered s = with_interest (registered (c_sel c)) (key_fd c) OP_WRITE"
    and "same_session d d1" and "empty_buffer (read_buffer d1)"
proof -
  obtain it where it: "registered (c_sel c) (key_fd c) = Some it" "selector_inv (c_sel c)" "io_malloc (c_io c) 0"
    using r by (auto simp: ready_ctx_def)
  have buf: "buffer_inv (read_buffer d)" "buffer_contents (read_buffer d) = []"
      "buffer_inv (write_buffer d)" "buffer_contents (write_buffer d) = []" "2 \<le> buffer_space (write_buffer d)"
    using d(4) by (simp_all add: empty_buffers_def)
  have msg': "io_recv (c_io c) = Some (hello_message (isSocks d) ms)" using msg(1) d(3) by simp
  obtain c0 c1 d1 h p s where c0: "hello_read_init HELLO_READ c = Inr c0"
    "hello_read c0 = Inr (HELLO_WRITE, c1)" "c1 = put_conn d1 (c\<lparr>c_sel := s\<rparr>)"
    "client d1 = Cl_hello h" "hs_parser h = Ptr p" "hs_method h = method_for c (isSocks d) ms"
    "buffer_inv (write_buffer d1)" "isSocks d1 = isSocks d" "error_state d1 = error_state d"
    "done_state d1 = done_state d"
    "buffer_contents (write_buffer d1) =
      [if isSocks d then SOCKS_VERSION else MNG_VERSION, method_for c (isSocks d) ms]"
    "registered s = (registered (c_sel c))(key_fd c \<mapsto> it\<lparr>it_interest := OP_WRITE\<rparr>)"
    "same_session d d1" "empty_buffer (read_buffer d1)"
    by (rule hello_read_whole [OF d(1,2) it(3) buf msg' msg(2,3) it(2,1)]) blast
  let ?d2 = "d1\<lparr>client := Cl_hello (h\<lparr>hs_parser := Dangling\<rparr>)\<rparr>"
  have close: "hello_read_close HELLO_READ c1 = Inr (put_conn ?d2 c1)"
    using c0(3-5) by (simp add: hello_read_close_def as_hello_def)
  have "stm_handler_read (socks5_stm None) c = Inr (HELLO_WRITE, socks5_stm (Some HELLO_WRITE), put_conn ?d2 c1)"
    unfolding stm_handler_read_def
    by (rule socks_event [of HELLO_READ _ _ c0 on_read_ready hello_read HELLO_WRITE c1])
      (use c0(1,2) close in \<open>simp_all add: client_statbl_def state_def run_action_def hello_write_init_def\<close>)
  then show ?thesis
    by (rule that [of _ ?d2 "h\<lparr>hs_parser := Dangling\<rparr>"])
      (use c0 d it(1) in \<open>auto simp: with_interest_def same_session_def\<close>)
qed

lemma hello_event_write:
  assumes d: "conn c = Inr d" "conn_current d = Some HELLO_WRITE" "client d = Cl_hello h"
      "done_state d = DONE" and r: "ready_ctx c" and m: "after_hello (hs_method h) \<noteq> HELLO_WRITE"
    and wb: "buffer_inv (write_buffer d)" "io_send (c_io c) = Some n"
      "length (buffer_contents (write_buffer d)) \<le> n"
  obtains c1 d1 where "stm_handler_write (socks5_stm (Some HELLO_WRITE)) c =
      Inr (after_hello (hs_method h), socks5_stm (Some (after_hello (hs_method h))), c1)"
    and "events (c_world c1) = events (c_world c) @ [Sent (key_fd c) (buffer_contents (write_buffer d))]"
    and "conn c1 = Inr d1" and "buffer_inv (write_buffer d1)" and "buffer_contents (write_buffer d1) = []"
    and "read_buffer d1 = read_buffer d"
    and "after_hello (hs_method h) = USERPASS_READ \<Longrightarrow>
      client d1 = Cl_userpass (fresh_login (io_substate (c_io c)))"
    and "\<exists>s. c1 = emit (Sent (key_fd c) (buffer_contents (write_buffer d))) (put_conn d1 (c\<lparr>c_sel := s\<rparr>)) \<and>
      (after_hello (hs_method h) \<noteq> DONE \<longrightarrow> registered s = with_interest (registered (c_sel c)) (key_fd c) OP_READ)"
    and "same_session d d1"
proof -
  obtain it where it: "registered (c_sel c) (key_fd c) = Some it" "selector_inv (c_sel c)"
    and ok: "\<And>k. io_malloc (c_io c) k"
    using r by (auto simp: ready_ctx_def)
  let ?j = "after_hello (hs_method h)"
  obtain c1 wb' s where c1: "hello_write c = Inr (if hs_method h = METHOD_NO_ACCEPTABLE_METHODS then done_state d
       else if hs_method h = METHOD_USERNAME_PASSWORD then USERPASS_READ
       else if hs_method h = METHOD_NO_AUTHENTICATION_REQUIRED then REQUEST_READ
       else HELLO_WRITE, c1)"
    "c1 = emit (Sent (key_fd c) (buffer_contents (write_buffer d)))
      (put_conn (d\<lparr>write_buffer := wb'\<rparr>) (c\<lparr>c_sel := s\<rparr>))" "buffer_contents wb' = []" "buffer_inv wb'"
    "buf_limit wb' = buf_limit (write_buffer d)" "hs_method h \<noteq> METHOD_NO_ACCEPTABLE_METHODS \<longrightarrow>
      registered s = with_interest (registered (c_sel c)) (key_fd c) OP_READ"
    by (rule hello_write_whole [OF d(1,3) wb it(2,1)])
  have w: "hello_write c = Inr (?j, c1)" using c1(1) d(4) by (simp add: after_hello_def)
  have c: "conn c1 = Inr (d\<lparr>write_buffer := wb'\<rparr>)" "c_io c1 = c_io c"
    "events (c_world c1) = events (c_world c) @ [Sent (key_fd c) (buffer_contents (write_buffer d))]"
    using c1(2) by (simp_all add: put_conn_def emit_def conn_def)
  have go: "stm_handler_write (socks5_stm (Some HELLO_WRITE)) c = Inr (?j, socks5_stm (Some ?j), c2)"
    if "run_action (on_arrival (client_statbl ! ?j)) ?j c1 = Inr c2" for c2
    unfolding stm_handler_write_def
  proof (rule socks_event [of HELLO_WRITE _ _ c on_write_ready hello_write _ c1 c1])
    show "hello_write c = Inr (?j, c1)" "run_action (on_arrival (client_statbl ! ?j)) ?j c1 = Inr c2"
      by (rule w, rule that)
    show "?j \<le> ERROR" "?j \<noteq> HELLO_WRITE" using m by (simp_all add: after_hello_def)
  qed (simp_all add: client_statbl_def state_def run_action_def hello_write_close_def)
  have reg: "?j \<noteq> DONE \<Longrightarrow> registered s = with_interest (registered (c_sel c)) (key_fd c) OP_READ"
    using c1(6) by (auto simp: after_hello_def)
  consider "?j = DONE" | "?j = USERPASS_READ" | "?j = REQUEST_READ"
    using m by (auto simp: after_hello_def split: if_splits)
  then show ?thesis
  proof cases
    case 1
    then have "run_action (on_arrival (client_statbl ! ?j)) ?j c1 = Inr c1"
      by (simp add: client_statbl_def state_def run_action_def)
    from go [OF this] show ?thesis
      by (rule that [of _ "d\<lparr>write_buffer := wb'\<rparr>"]) (use c c1(2-5) 1 in \<open>auto simp: same_session_def\<close>)
  next
    case 2
    then have "run_action (on_arrival (client_statbl ! ?j)) ?j c1 =
        Inr (put_conn (d\<lparr>write_buffer := wb', client := Cl_userpass (fresh_login (io_substate (c_io c)))\<rparr>) c1)"
      using auth_read_init_fresh [OF c(1)] ok c(2)
      by (simp add: client_statbl_def state_def run_action_def)
    from go [OF this] show ?thesis
      by (rule that [of _ "d\<lparr>write_buffer := wb', client := Cl_userpass (fresh_login (io_substate (c_io c)))\<rparr>"])
        (use c c1(2-6) reg 2 in \<open>auto simp: same_session_def put_conn_emit\<close>)
  next
    case 3
    obtain q where "request_init REQUEST_READ c1 = Inr (put_conn (d\<lparr>write_buffer := wb', client := q\<rparr>) c1)"
      using request_init_ok [OF c(1), of REQUEST_READ] ok c(2) by metis
    then have "run_action (on_arrival (client_statbl ! ?j)) ?j c1 =
        Inr (put_conn (d\<lparr>write_buffer := wb', client := q\<rparr>) c1)"
      using 3 by (simp add: client_statbl_def state_def run_action_def)
    from go [OF this] show ?thesis by (rule that [of _ "d\<lparr>write_buffer := wb', client := q\<rparr>"])
        (use c c1(2-6) reg 3 in \<open>auto simp: same_session_def put_conn_emit\<close>)
  qed
qed

lemma login_event_read:
  assumes d: "conn c = Inr d" "isSocks d" "conn_current d = Some USERPASS_READ"
      "client d = Cl_userpass (fresh_login m)" and r: "ready_ctx c" and e: "empty_buffers d"
    and msg: "io_recv (c_io c) = Some (auth_message u w)" "length u < 256" "length w < 256"
      "length u + length w + 3 \<le> buffer_space (read_buffer d)"
    and nul: "0 \<notin> set u" "0 \<notin> set w" and t: "tables_ok (glob c)"
  obtains c1 d1 where
    "stm_handler_read (socks5_stm (Some USERPASS_READ)) c =
      Inr (USERPASS_WRITE, socks5_stm (Some USERPASS_WRITE), c1)"
    and "conn c1 = Inr d1" and "authentication d1 = verdict c d u w" and "write_buffer d1 = write_buffer d"
    and "same_conn d d1"
    and "\<exists>g s. c1 = put_conn d1 (put_glob g (c\<lparr>c_sel := s\<rparr>)) \<and>
      registered s = with_interest (registered (c_sel c)) (key_fd c) OP_WRITE"
    and "same_session d d1" and "empty_buffer (read_buffer d1)"
    and "verdict c d u w = 0 \<longrightarrow> logged_as (glob c) (userIndex d1) (u, w)"
proof -
  obtain it where it: "registered (c_sel c) (key_fd c) = Some it" "selector_inv (c_sel c)"
    and ok: "io_malloc (c_io c) 0"
    using r by (auto simp: ready_ctx_def)
  have buf: "buffer_inv (read_buffer d)" "buffer_contents (read_buffer d) = []"
    using e by (simp_all add: empty_buffers_def)
  obtain c1 d1 s g h where c1: "auth_read c = Inr (USERPASS_WRITE, c1)"
    "c1 = put_conn d1 (put_glob g (c\<lparr>c_sel := s\<rparr>))" "authentication d1 = verdict c d u w"
    "same_conn d d1" "write_buffer d1 = write_buffer d" "client d1 = Cl_userpass h"
    "no_fault (parser_close (us_parser h))"
    "registered s = (registered (c_sel c))(key_fd c \<mapsto> it\<lparr>it_interest := OP_WRITE\<rparr>)"
    "same_session d d1" "empty_buffer (read_buffer d1)"
    "verdict c d u w = 0 \<longrightarrow> isSocks d \<longrightarrow> logged_as (glob c) (userIndex d1) (u, w)"
    by (rule auth_read_whole [OF d(1,4) ok buf msg nul t it(2,1)]) blast
  have conn1: "conn c1 = Inr d1" using c1(2) by simp
  obtain p where p: "parser_close (us_parser h) = Inr p" using c1(7) by (auto simp: no_fault_iff)
  let ?d2 = "d1\<lparr>client := Cl_userpass (h\<lparr>us_parser := p\<rparr>)\<rparr>"
  have close: "auth_read_close USERPASS_READ c1 = Inr (put_conn ?d2 c1)"
    using conn1 c1(6) p by (simp add: auth_read_close_def as_userpass_def)
  have "stm_handler_read (socks5_stm (Some USERPASS_READ)) c =
      Inr (USERPASS_WRITE, socks5_stm (Some USERPASS_WRITE), put_conn ?d2 c1)"
    unfolding stm_handler_read_def
    by (rule socks_event [of USERPASS_READ _ _ c on_read_ready auth_read USERPASS_WRITE c1])
      (use c1(1) close in \<open>simp_all add: client_statbl_def state_def run_action_def auth_write_init_def\<close>)
  then show ?thesis
    by (rule that [of _ ?d2]) (use c1 it(1) d(2) in \<open>auto simp: same_conn_def same_session_def with_interest_def\<close>)
qed

lemma login_event_write:
  assumes d: "conn c = Inr d" "conn_current d = Some USERPASS_WRITE" "done_state d = DONE"
    and wb: "buffer_inv (write_buffer d)" "buffer_contents (write_buffer d) = []" "2 \<le> buffer_space (write_buffer d)"
    and r: "ready_ctx c" and io: "io_send (c_io c) = Some n" "2 \<le> n"
  defines "j \<equiv> if authentication d \<noteq> 0 then DONE else REQUEST_READ"
  obtains c1 where "stm_handler_write (socks5_stm (Some USERPASS_WRITE)) c = Inr (j, socks5_stm (Some j), c1)"
    and "events (c_world c1) = events (c_world c) @ [Sent (key_fd c) [0x01, authentication d]]"
    and "\<exists>d1 s. c1 = emit (Sent (key_fd c) [0x01, authentication d]) (put_conn d1 (c\<lparr>c_sel := s\<rparr>)) \<and>
      same_session d d1 \<and> userIndex d1 = userIndex d \<and> read_buffer d1 = read_buffer d \<and> empty_buffer (write_buffer d1) \<and>
      (authentication d = 0 \<longrightarrow> registered s = with_interest (registered (c_sel c)) (key_fd c) OP_READ) \<and>
      (authentication d \<noteq> 0 \<longrightarrow> s = c_sel c) \<and>
      (authentication d = 0 \<longrightarrow> fresh_ok (io_request (c_io c)) \<longrightarrow> awaits_request (client d1))"
proof -
  obtain it where it: "registered (c_sel c) (key_fd c) = Some it" "selector_inv (c_sel c)"
    and ok: "\<And>k. io_malloc (c_io c) k"
    using r by (auto simp: ready_ctx_def)
  obtain c1 wb' s where c1: "auth_write c = Inr (if authentication d \<noteq> 0 then done_state d else REQUEST_READ, c1)"
    "c1 = emit (Sent (key_fd c) [0x01, authentication d])
      (put_conn (d\<lparr>write_buffer := wb'\<rparr>) (c\<lparr>c_sel := s\<rparr>))"
    "buffer_contents wb' = []" "buffer_inv wb'" "buf_limit wb' = buf_limit (write_buffer d)"
    "authentication d = 0 \<longrightarrow> registered s = with_interest (registered (c_sel c)) (key_fd c) OP_READ"
    "authentication d \<noteq> 0 \<longrightarrow> s = c_sel c"
    by (rule auth_write_whole [OF d(1) wb io it(2,1)])
  have w: "auth_write c = Inr (j, c1)" using c1(1) d(3) by (simp add: j_def)
  have c: "conn c1 = Inr (d\<lparr>write_buffer := wb'\<rparr>)" "c_io c1 = c_io c"
    "events (c_world c1) = events (c_world c) @ [Sent (key_fd c) [0x01, authentication d]]"
    using c1(2) by (simp_all add: put_conn_def emit_def conn_def)
  obtain q where q: "request_init REQUEST_READ c1 = Inr (put_conn (d\<lparr>write_buffer := wb', client := q\<rparr>) c1)"
    "fresh_ok (io_request (c_io c)) \<longrightarrow> awaits_request q"
    using request_init_ok [OF c(1), of REQUEST_READ] ok c(2) by metis
  let ?d2 = "if authentication d \<noteq> 0 then d\<lparr>write_buffer := wb'\<rparr> else d\<lparr>write_buffer := wb', client := q\<rparr>"
  let ?c2 = "if authentication d \<noteq> 0 then c1 else put_conn (d\<lparr>write_buffer := wb', client := q\<rparr>) c1"
  have arr: "run_action (on_arrival (client_statbl ! j)) j c1 = Inr ?c2"
    using q(1) by (simp add: j_def client_statbl_def state_def run_action_def)
  have run: "stm_handler_write (socks5_stm (Some USERPASS_WRITE)) c = Inr (j, socks5_stm (Some j), ?c2)"
    unfolding stm_handler_write_def
  proof (rule socks_event [of USERPASS_WRITE _ _ c on_write_ready auth_write _ c1 c1])
    show "auth_write c = Inr (j, c1)" "run_action (on_arrival (client_statbl ! j)) j c1 = Inr ?c2"
      by (rule w, rule arr)
    show "j \<le> ERROR" "j \<noteq> USERPASS_WRITE" by (simp_all add: j_def)
  qed (simp_all add: client_statbl_def state_def run_action_def auth_write_close_def)
  have eq: "?c2 = emit (Sent (key_fd c) [0x01, authentication d]) (put_conn ?d2 (c\<lparr>c_sel := s\<rparr>))"
    using c1(2) by (simp add: put_conn_emit)
  have d2: "same_session d ?d2" "userIndex ?d2 = userIndex d" "read_buffer ?d2 = read_buffer d" "empty_buffer (write_buffer ?d2)"
    "authentication d = 0 \<longrightarrow> fresh_ok (io_request (c_io c)) \<longrightarrow> awaits_request (client ?d2)"
    using c1(3-5) q(2) by (simp_all add: same_session_def)
  show ?thesis
  proof (rule that [OF run])
    show "events (c_world ?c2) = events (c_world c) @ [Sent (key_fd c) [0x01, authentication d]]" using c(3) by simp
  qed (use eq d2 c1(6,7) in blast)
qed

end
