(* ===== verification/Authentication.thy ===== *)
theory Authentication
  imports Auth_Gate Negotiation
begin

text \<open>
  The theorems about the handshake: what the server answers, where each answer leads, and that
  nothing past the handshake is reached without it.
\<close>

section \<open>Contexts for the witnesses\<close>

definition demo_ctx :: "fd_selector \<Rightarrow> globals \<Rightarrow> io \<Rightarrow> socks5 \<Rightarrow> ctx" where
  "demo_ctx s g i d = \<lparr>key_fd = 7, key_data = 0, c_io = i, c_sel = s,
     c_world = demo_world\<lparr>conns := [0 \<mapsto> d], globs := g\<rparr>\<rparr>"

lemma demo_ctx_simps [simp]:
  "conn (demo_ctx s g i d) = Inr d" "c_io (demo_ctx s g i d) = i" "glob (demo_ctx s g i d) = g"
  "key_fd (demo_ctx s g i d) = 7" "c_sel (demo_ctx s g i d) = s"
  "events (c_world (demo_ctx s g i d)) = []"
  by (simp_all add: demo_ctx_def conn_def glob_def demo_world_def)

lemma demo_ready:
  obtains s where "\<And>g rd wr d. ready_ctx (demo_ctx s g (demo_io rd\<lparr>io_send := wr\<rparr>) d)"
proof -
  obtain n s it where "server_run n (s, demo_accepted)" "n \<le> 6151" "sel_ok s"
    "registered s 7 = Some it" "it_data it = Some 0" "it_interest it = OP_READ"
    "it_handler it = Some Socks5_handler" "resolution_jobs s = []"
    "{i. \<exists>it. registered s i = Some it \<and> it_data it = Some 0} = {7}" by (rule demo_accept)
  then show ?thesis using that [of s] by (simp add: ready_ctx_def sel_ok_def demo_io_def)
qed

lemma fresh_conn_buffers:
  "empty_buffers (fresh_conn k fd cur er dn)" "buffer_space (read_buffer (fresh_conn k fd cur er dn)) = 2048"
  using buffer_init_spec [of 2048 "replicate 2048 0" "\<lparr>buf_data = [], buf_limit = 0, buf_read = 0, buf_write = 0\<rparr>"]
  by (simp_all add: empty_buffers_def fresh_conn_def raw_buffer_def)

section \<open>The method negotiation\<close>

text \<open>
  \<open>C16\<close> The method negotiation of a SOCKS connection, through the engine. When the hello message
  arrives whole, the first event moves the connection to \<open>HELLO_WRITE\<close>; when the socket then takes
  the reply, the server has sent the version and exactly one method, the configured one if the
  client offered it and 0xFF otherwise, and the connection goes on with the sub-negotiation, with
  the request, or is finished, according to that method.
\<close>

theorem negotiation_answered:
  assumes "conn c = Inr d" and "conn_current d = None" and "isSocks d" and "done_state d = DONE"
    and "empty_buffers d" and "ready_ctx c" and "auth_method (glob c) \<in> {0x00, 0x02}"
    and "io_recv (c_io c) = Some (0x05 # of_nat (length ms) # ms)" and "length ms < 256"
    and "length ms + 2 \<le> buffer_space (read_buffer d)"
  defines "m \<equiv> if auth_method (glob c) \<in> set ms then auth_method (glob c) else 0xFF"
  defines "j \<equiv> if m = 0xFF then DONE else if m = 0x02 then USERPASS_READ else REQUEST_READ"
  shows "\<exists>c1 d1. stm_handler_read (socks5_stm None) c =
      Inr (HELLO_WRITE, socks5_stm (Some HELLO_WRITE), c1) \<and> conn c1 = Inr d1 \<and>
    (\<forall>c2 n. conn c2 = Inr (d1\<lparr>conn_current := Some HELLO_WRITE\<rparr>) \<longrightarrow> ready_ctx c2 \<longrightarrow>
      io_send (c_io c2) = Some n \<longrightarrow> 2 \<le> n \<longrightarrow>
      (\<exists>c3. stm_handler_write (socks5_stm (Some HELLO_WRITE)) c2 = Inr (j, socks5_stm (Some j), c3) \<and>
        events (c_world c3) = events (c_world c2) @ [Sent (key_fd c2) [0x05, m]]))"
proof -
  have m: "method_for c True ms = m" by (simp add: method_for_def m_def hello_constants Let_def)
  have j: "after_hello m = j" "j \<noteq> HELLO_WRITE"
    using assms(7) by (auto simp: after_hello_def m_def j_def hello_constants)
  have msg: "io_recv (c_io c) = Some (hello_message True ms)"
    using assms(8) by (simp add: hello_message_def hello_constants)
  obtain c1 d1 h where c1: "stm_handler_read (socks5_stm None) c = Inr (HELLO_WRITE, socks5_stm (Some HELLO_WRITE), c1)"
    "conn c1 = Inr d1" "client d1 = Cl_hello h" "hs_method h = method_for c True ms"
    "buffer_inv (write_buffer d1)" "buffer_contents (write_buffer d1) = [SOCKS_VERSION, method_for c True ms]"
    "isSocks d1" "error_state d1 = error_state d" "done_state d1 = done_state d"
    by (rule hello_event_read [OF assms(1,2,3,5,6) msg assms(9,10)])
  have "\<exists>c3. stm_handler_write (socks5_stm (Some HELLO_WRITE)) c2 = Inr (j, socks5_stm (Some j), c3) \<and>
      events (c_world c3) = events (c_world c2) @ [Sent (key_fd c2) [0x05, m]]"
    if c2: "conn c2 = Inr (d1\<lparr>conn_current := Some HELLO_WRITE\<rparr>)" "ready_ctx c2"
      "io_send (c_io c2) = Some n" "2 \<le> n" for c2 n
  proof -
    let ?d = "d1\<lparr>conn_current := Some HELLO_WRITE\<rparr>"
    have pre: "conn_current ?d = Some HELLO_WRITE" "client ?d = Cl_hello h" "done_state ?d = DONE"
      "after_hello (hs_method h) \<noteq> HELLO_WRITE" "buffer_inv (write_buffer ?d)"
      "length (buffer_contents (write_buffer ?d)) \<le> n"
      using c1 m j assms(4) that by simp_all
    show ?thesis
      by (rule hello_event_write [OF c2(1) pre(1-3) c2(2) pre(4,5) c2(3) pre(6)])
        (use c1(4,6) m j in \<open>auto simp: hello_constants\<close>)
  qed
  then show ?thesis using c1(1,2) by blast
qed

text \<open>A client that offers the method without authentication, to a server configured for it.\<close>

definition open_globals :: globals where
  "open_globals = initial_globals\<lparr>auth_method := 0x00\<rparr>"

definition demo_fresh :: socks5 where
  "demo_fresh = fresh_conn True 7 None ERROR DONE\<lparr>client_addr := Sa_zero\<rparr>"

lemma demo_fresh_simps [simp]:
  "conn_current demo_fresh = None" "isSocks demo_fresh" "done_state demo_fresh = DONE"
  "error_state demo_fresh = ERROR" "empty_buffers demo_fresh" "buffer_space (read_buffer demo_fresh) = 2048"
  using fresh_conn_buffers [of True 7 None ERROR DONE]
  by (simp_all add: demo_fresh_def empty_buffers_def) (simp_all add: fresh_conn_def)

theorem negotiation_answered_witness:
  "\<exists>c c1 d1 c2 c3. conn c = Inr demo_fresh \<and> auth_method (glob c) = 0x00 \<and> io_recv (c_io c) = Some [5, 1, 0] \<and>
    stm_handler_read (socks5_stm None) c = Inr (HELLO_WRITE, socks5_stm (Some HELLO_WRITE), c1) \<and>
    conn c1 = Inr d1 \<and> conn c2 = Inr (d1\<lparr>conn_current := Some HELLO_WRITE\<rparr>) \<and>
    stm_handler_write (socks5_stm (Some HELLO_WRITE)) c2 =
      Inr (REQUEST_READ, socks5_stm (Some REQUEST_READ), c3) \<and>
    events (c_world c3) = [Sent 7 [5, 0]]"
proof -
  obtain s where s: "\<And>g rd wr d. ready_ctx (demo_ctx s g (demo_io rd\<lparr>io_send := wr\<rparr>) d)"
    using demo_ready by blast
  let ?c = "demo_ctx s open_globals (demo_io (Some [5, 1, 0])\<lparr>io_send := None\<rparr>) demo_fresh"
  have ready: "ready_ctx ?c" by (rule s)
  obtain c1 d1 where c1: "stm_handler_read (socks5_stm None) ?c =
      Inr (HELLO_WRITE, socks5_stm (Some HELLO_WRITE), c1)" "conn c1 = Inr d1"
    and w: "\<And>c2 n. conn c2 = Inr (d1\<lparr>conn_current := Some HELLO_WRITE\<rparr>) \<Longrightarrow> ready_ctx c2 \<Longrightarrow>
      io_send (c_io c2) = Some n \<Longrightarrow> 2 \<le> n \<Longrightarrow>
      \<exists>c3. stm_handler_write (socks5_stm (Some HELLO_WRITE)) c2 =
          Inr (REQUEST_READ, socks5_stm (Some REQUEST_READ), c3) \<and>
        events (c_world c3) = events (c_world c2) @ [Sent (key_fd c2) [0x05, 0x00]]"
    using negotiation_answered [of ?c demo_fresh "[0]"] ready
    by (auto simp: open_globals_def demo_io_def)
  let ?c2 = "demo_ctx s open_globals (demo_io None\<lparr>io_send := Some 2\<rparr>) (d1\<lparr>conn_current := Some HELLO_WRITE\<rparr>)"
  obtain c3 where "stm_handler_write (socks5_stm (Some HELLO_WRITE)) ?c2 =
      Inr (REQUEST_READ, socks5_stm (Some REQUEST_READ), c3)" "events (c_world c3) = [Sent 7 [0x05, 0x00]]"
    using w [of ?c2 2] s [of open_globals "Some 2" None] by auto
  then show ?thesis
    using c1 by (intro exI [of _ ?c] exI [of _ c1] exI [of _ d1] exI [of _ ?c2] exI [of _ c3])
      (simp add: open_globals_def demo_io_def)
qed

section \<open>The sub-negotiation\<close>

text \<open>
  The username/password sub-negotiation of a SOCKS connection, through the engine. When the
  whole message arrives and the socket takes the reply, the server has sent exactly the version and
  one status: zero if the pair is an account of the table, one otherwise; and the connection goes on
  to the request exactly in the first case, and is finished in the second.
\<close>

theorem login_answered:
  assumes "conn c = Inr d" and "conn_current d = Some USERPASS_READ" and "isSocks d" and "done_state d = DONE"
    and "client d = Cl_userpass (fresh_login mem)" and "empty_buffers d" and "ready_ctx c"
    and "io_recv (c_io c) = Some (0x01 # of_nat (length u) # u @ of_nat (length w) # w)"
    and "length u < 256" and "length w < 256" and "length u + length w + 3 \<le> buffer_space (read_buffer d)"
    and "0 \<notin> set u" and "0 \<notin> set w" and "holds (users (glob c)) (nusers (glob c)) accounts"
    and "holds (admins (glob c)) (nadmins (glob c)) others"
  defines "v \<equiv> if (u, w) \<in> set accounts then 0x00 else 0x01"
  defines "j \<equiv> if (u, w) \<in> set accounts then REQUEST_READ else DONE"
  shows "\<exists>c1 d1. stm_handler_read (socks5_stm (Some USERPASS_READ)) c =
      Inr (USERPASS_WRITE, socks5_stm (Some USERPASS_WRITE), c1) \<and> conn c1 = Inr d1 \<and>
    (\<forall>c2 n. conn c2 = Inr (d1\<lparr>conn_current := Some USERPASS_WRITE\<rparr>) \<longrightarrow> ready_ctx c2 \<longrightarrow>
      io_send (c_io c2) = Some n \<longrightarrow> 2 \<le> n \<longrightarrow>
      (\<exists>c3. stm_handler_write (socks5_stm (Some USERPASS_WRITE)) c2 = Inr (j, socks5_stm (Some j), c3) \<and>
        events (c_world c3) = events (c_world c2) @ [Sent (key_fd c2) [0x01, v]]))"
proof -
  have msg: "io_recv (c_io c) = Some (auth_message u w)"
    using assms(8) by (simp add: auth_message_def user_message_def encode_field_def)
  have t: "tables_ok (glob c)" using assms(14,15) by (auto simp: tables_ok_def)
  have v: "verdict c d u w = v"
    using assms(3) by (auto simp: verdict_def holds_accounts [OF assms(14)] v_def)
  obtain c1 d1 where c1: "stm_handler_read (socks5_stm (Some USERPASS_READ)) c =
      Inr (USERPASS_WRITE, socks5_stm (Some USERPASS_WRITE), c1)" "conn c1 = Inr d1"
    "authentication d1 = verdict c d u w" "write_buffer d1 = write_buffer d" "same_conn d d1"
    by (rule login_event_read [OF assms(1,3,2,5,7,6) msg assms(9-13) t])
  have j: "(if v \<noteq> 0 then DONE else REQUEST_READ) = j" by (simp add: v_def j_def)
  have "\<exists>c3. stm_handler_write (socks5_stm (Some USERPASS_WRITE)) c2 = Inr (j, socks5_stm (Some j), c3) \<and>
      events (c_world c3) = events (c_world c2) @ [Sent (key_fd c2) [0x01, v]]"
    if c2: "conn c2 = Inr (d1\<lparr>conn_current := Some USERPASS_WRITE\<rparr>)" "ready_ctx c2"
      "io_send (c_io c2) = Some n" "2 \<le> n" for c2 n
  proof -
    let ?d = "d1\<lparr>conn_current := Some USERPASS_WRITE\<rparr>"
    have pre: "conn_current ?d = Some USERPASS_WRITE" "done_state ?d = DONE"
      "buffer_inv (write_buffer ?d)" "buffer_contents (write_buffer ?d) = []" "2 \<le> buffer_space (write_buffer ?d)"
      using c1(4,5) assms(4,6) by (simp_all add: same_conn_def empty_buffers_def)
    show ?thesis
      by (rule login_event_write [OF c2(1) pre c2(2-4)]) (use c1(3) v j in auto)
  qed
  then show ?thesis using c1(1,2) by blast
qed

definition demo_login :: socks5 where
  "demo_login = demo_fresh\<lparr>conn_current := Some USERPASS_READ,
     client := Cl_userpass (fresh_login (io_substate (demo_io None)))\<rparr>"

lemma demo_login_simps [simp]:
  "conn_current demo_login = Some USERPASS_READ" "isSocks demo_login" "done_state demo_login = DONE"
  "client demo_login = Cl_userpass (fresh_login (io_substate (demo_io None)))"
  "empty_buffers demo_login" "buffer_space (read_buffer demo_login) = 2048"
  using demo_fresh_simps by (simp_all add: demo_login_def empty_buffers_def)

lemma demo_admins: "holds (admins demo_globals) (nadmins demo_globals) []"
  by (simp add: demo_globals_def initial_globals_def holds_def)

theorem login_answered_witness:
  "\<exists>c c1 d1 c2 c3. conn c = Inr demo_login \<and> io_recv (c_io c) = Some [1, 1, 0x61, 1, 0x63] \<and>
    stm_handler_read (socks5_stm (Some USERPASS_READ)) c =
      Inr (USERPASS_WRITE, socks5_stm (Some USERPASS_WRITE), c1) \<and>
    conn c1 = Inr d1 \<and> conn c2 = Inr (d1\<lparr>conn_current := Some USERPASS_WRITE\<rparr>) \<and>
    stm_handler_write (socks5_stm (Some USERPASS_WRITE)) c2 = Inr (DONE, socks5_stm (Some DONE), c3) \<and>
    events (c_world c3) = [Sent 7 [1, 1]]"
proof -
  obtain s where s: "\<And>g rd wr d. ready_ctx (demo_ctx s g (demo_io rd\<lparr>io_send := wr\<rparr>) d)"
    using demo_ready by blast
  let ?c = "demo_ctx s demo_globals (demo_io (Some [1, 1, 0x61, 1, 0x63])\<lparr>io_send := None\<rparr>) demo_login"
  have holds: "holds (users (glob ?c)) (nusers (glob ?c)) [([0x61], [0x62]), ([0x63], [0x64])]"
    "holds (admins (glob ?c)) (nadmins (glob ?c)) []"
    using demo_globals_holds(1) demo_admins by simp_all
  obtain c1 d1 where c1: "stm_handler_read (socks5_stm (Some USERPASS_READ)) ?c =
      Inr (USERPASS_WRITE, socks5_stm (Some USERPASS_WRITE), c1)" "conn c1 = Inr d1"
    and w: "\<And>c2 n. conn c2 = Inr (d1\<lparr>conn_current := Some USERPASS_WRITE\<rparr>) \<Longrightarrow> ready_ctx c2 \<Longrightarrow>
      io_send (c_io c2) = Some n \<Longrightarrow> 2 \<le> n \<Longrightarrow>
      \<exists>c3. stm_handler_write (socks5_stm (Some USERPASS_WRITE)) c2 = Inr (DONE, socks5_stm (Some DONE), c3) \<and>
        events (c_world c3) = events (c_world c2) @ [Sent (key_fd c2) [0x01, 0x01]]"
    using login_answered [of ?c demo_login "io_substate (demo_io None)" "[0x61]" "[0x63]",
        OF _ _ _ _ _ _ _ _ _ _ _ _ _ holds] s [of demo_globals None "Some [1, 1, 0x61, 1, 0x63]"]
    by (auto simp: demo_io_def)
  let ?c2 = "demo_ctx s open_globals (demo_io None\<lparr>io_send := Some 2\<rparr>) (d1\<lparr>conn_current := Some USERPASS_WRITE\<rparr>)"
  obtain c3 where "stm_handler_write (socks5_stm (Some USERPASS_WRITE)) ?c2 =
      Inr (DONE, socks5_stm (Some DONE), c3)" "events (c_world c3) = [Sent 7 [0x01, 0x01]]"
    using w [of ?c2 2] s [of open_globals "Some 2" None] by auto
  then show ?thesis
    using c1 by (intro exI [of _ ?c] exI [of _ c1] exI [of _ d1] exI [of _ ?c2] exI [of _ c3])
      (simp add: demo_io_def)
qed

text \<open>
  \<open>C21\<close> A first byte of the sub-negotiation that is not the version crashes the server: with at least
  one account in the table, \<open>auth_read\<close> ends in undefined behaviour, a \<open>strcmp\<close> with the null
  pointer of a field that was never read, because the outcome of the parser is not tested before
  the credentials are looked up.
\<close>

theorem wrong_login_version_faults:
  assumes "conn c = Inr d" and "client d = Cl_userpass (fresh_login mem)" and "isSocks d"
    and "empty_buffers d" and "0 < buffer_space (read_buffer d)" and "ready_ctx c"
    and "io_recv (c_io c) = Some [v]" and "v \<noteq> 0x01" and "0 < nusers (glob c)"
    and "holds (users (glob c)) (nusers (glob c)) accounts" and "holds (admins (glob c)) (nadmins (glob c)) others"
  shows "auth_read c = Inl Undefined"
proof -
  obtain it where it: "registered (c_sel c) (key_fd c) = Some it" "selector_inv (c_sel c)" "io_malloc (c_io c) 0"
    using assms(6) by (auto simp: ready_ctx_def)
  have "tables_ok (glob c)" using assms(10,11) by (auto simp: tables_ok_def)
  then show ?thesis
    using auth_read_wrong_version [OF assms(1-3) it(3) _ _ assms(5,7-9) _ it(2,1)] assms(4)
    by (simp add: empty_buffers_def)
qed

theorem wrong_login_version_faults_witness:
  "\<exists>c. conn c = Inr demo_login \<and> io_recv (c_io c) = Some [5] \<and> auth_read c = Inl Undefined"
proof -
  obtain s where s: "\<And>g rd wr d. ready_ctx (demo_ctx s g (demo_io rd\<lparr>io_send := wr\<rparr>) d)"
    using demo_ready by blast
  let ?c = "demo_ctx s demo_globals (demo_io (Some [5])\<lparr>io_send := None\<rparr>) demo_login"
  have "auth_read ?c = Inl Undefined"
    by (rule wrong_login_version_faults [OF _ _ _ _ _ s])
      (use demo_globals_holds(1) demo_admins in \<open>simp_all add: demo_io_def, simp_all add: demo_globals_def\<close>)
  then show ?thesis by (intro exI [of _ ?c]) (simp add: demo_io_def)
qed

lemma drain_one:
  assumes "buffer_inv b" and "buffer_contents b = [x, y]" and "io_send (c_io c) = Some 1"
  obtains b' where "drain c b = Inr (Some ([x], b'))" and "buffer_inv b'" and "buffer_contents b' = [y]"
    and "buffer_space b' = buffer_space b" and "buffer_can_read b'"
proof -
  let ?b = "b\<lparr>buf_read := buf_read b + 1\<rparr>"
  have len: "buf_write b - buf_read b = 2" using buffer_contents_length [OF assms(1)] assms(2) by simp
  then have adv: "buffer_read_adv b 1 = Inr ?b" by (auto simp: buffer_read_adv_def Let_def)
  obtain b' where "buffer_read_adv b (int 1) = Inr b'" "buffer_inv b'"
    "buffer_contents b' = drop 1 (buffer_contents b)" "buf_limit b' = buf_limit b"
    by (rule buffer_read_adv_spec [OF assms(1), of 1]) (simp_all add: assms(2))
  then have b: "buffer_inv ?b" "buffer_contents ?b = [y]" using adv assms(2) by simp_all
  show ?thesis
    by (rule that [of ?b])
      (use b adv assms in \<open>simp_all add: drain_spec buffer_can_read_iff buffer_space_def\<close>)
qed

text \<open>
  \<open>C22\<close> The reply of the sub-negotiation is written again by every call of \<open>auth_write\<close>. When the
  socket takes only the first of the two bytes, the next call sends the second byte and then the
  whole reply once more, so the client reads three bytes where the protocol has one.
\<close>

theorem login_reply_repeated:
  assumes "conn c = Inr d" and "empty_buffers d" and "4 \<le> buffer_space (write_buffer d)"
    and "io_send (c_io c) = Some 1"
  shows "\<exists>c1 d1. auth_write c = Inr (USERPASS_WRITE, c1) \<and> conn c1 = Inr d1 \<and>
      events (c_world c1) = events (c_world c) @ [Sent (key_fd c) [0x01]] \<and>
    (\<forall>c2. conn c2 = Inr d1 \<longrightarrow> ready_ctx c2 \<longrightarrow> io_send (c_io c2) = Some 3 \<longrightarrow>
      (\<exists>j c3. auth_write c2 = Inr (j, c3) \<and> events (c_world c3) = events (c_world c2) @
        [Sent (key_fd c2) [authentication d, 0x01, authentication d]]))"
proof -
  have wb: "buffer_inv (write_buffer d)" "buffer_contents (write_buffer d) = []"
    using assms(2) by (simp_all add: empty_buffers_def)
  have reply: "auth_reply (write_buffer d) r = bind_res (buffer_append (write_buffer d) [0x01, r])
      (\<lambda>b. Inr (2, b))" for r
    using wb(1) assms(3) by (simp add: auth_reply_def buffer_write_ptr_inv buffer_append_def)
  obtain wb0 where "buffer_append (write_buffer d) [0x01, authentication d] = Inr wb0" "buffer_inv wb0"
    "buffer_contents wb0 = buffer_contents (write_buffer d) @ [0x01, authentication d]"
    "buf_limit wb0 = buf_limit (write_buffer d)"
    "buffer_space wb0 = buffer_space (write_buffer d) - length [0x01, authentication d]"
    by (rule buffer_append_spec [OF wb(1), of "[0x01, authentication d]"]) (use assms(3) in simp)
  then have wb0: "auth_reply (write_buffer d) (authentication d) = Inr (2, wb0)" "buffer_inv wb0"
    "buffer_contents wb0 = [0x01, authentication d]" "buffer_space wb0 = buffer_space (write_buffer d) - 2"
    using wb(2) reply by simp_all
  obtain wb1 where wb1: "drain c wb0 = Inr (Some ([0x01], wb1))" "buffer_inv wb1"
    "buffer_contents wb1 = [authentication d]" "buffer_space wb1 = buffer_space wb0" "buffer_can_read wb1"
    by (rule drain_one [OF wb0(2,3) assms(4)])
  let ?d1 = "d\<lparr>write_buffer := wb1\<rparr>"
  let ?c1 = "emit (Sent (key_fd c) [0x01]) (put_conn ?d1 c)"
  have one: "auth_write c = Inr (USERPASS_WRITE, ?c1)"
    using assms(1) wb0(1) wb1(1,5) by (simp add: auth_write_def Let_def)
  have "\<exists>j c3. auth_write c2 = Inr (j, c3) \<and> events (c_world c3) = events (c_world c2) @
        [Sent (key_fd c2) [authentication d, 0x01, authentication d]]"
    if c2: "conn c2 = Inr ?d1" "ready_ctx c2" "io_send (c_io c2) = Some 3" for c2
  proof -
    have "2 \<le> buffer_space wb1" using wb1(4) wb0(4) assms(3) by simp
    then obtain wb2 where wb2: "auth_reply wb1 (authentication d) = Inr (2, wb2)" "buffer_inv wb2"
      "buffer_contents wb2 = [authentication d, 0x01, authentication d]"
      using auth_reply_spec [OF wb1(2), of "authentication d"] wb1(3) by auto
    then have len: "length (buffer_contents wb2) \<le> 3" by simp
    obtain wb3 where wb3: "drain c2 wb2 = Inr (Some ([authentication d, 0x01, authentication d], wb3))"
      "\<not> buffer_can_read wb3"
      using drain_all [OF wb2(2) c2(3) len] wb2(3) by metis
    let ?c3 = "emit (Sent (key_fd c2) [authentication d, 0x01, authentication d])
      (put_conn (?d1\<lparr>write_buffer := wb3\<rparr>) c2)"
    obtain it where it: "registered (c_sel ?c3) (key_fd ?c3) = Some it" "selector_inv (c_sel ?c3)"
      using c2(2) by (auto simp: ready_ctx_def)
    obtain s where s: "set_interest_key OP_READ ?c3 = Inr (SELECTOR_SUCCESS, ?c3\<lparr>c_sel := s\<rparr>)"
      using interest_key_ok [OF it(2,1), of OP_READ] by metis
    show ?thesis
      using c2(1) wb2(1) wb3 s by (cases "authentication d = 0") (simp_all add: auth_write_def Let_def)
  qed
  then show ?thesis using one by (intro exI [of _ ?c1] exI [of _ ?d1]) simp
qed

theorem login_reply_repeated_witness:
  "\<exists>c c1 d1 c2 j c3. conn c = Inr demo_fresh \<and> auth_write c = Inr (USERPASS_WRITE, c1) \<and>
    events (c_world c1) = [Sent 7 [1]] \<and> conn c1 = Inr d1 \<and> conn c2 = Inr d1 \<and>
    auth_write c2 = Inr (j, c3) \<and> events (c_world c3) = [Sent 7 [0, 1, 0]]"
proof -
  obtain s where s: "\<And>g rd wr d. ready_ctx (demo_ctx s g (demo_io rd\<lparr>io_send := wr\<rparr>) d)"
    using demo_ready by blast
  let ?c = "demo_ctx s open_globals (demo_io None\<lparr>io_send := Some 1\<rparr>) demo_fresh"
  have fresh: "4 \<le> buffer_space (write_buffer demo_fresh)" "authentication demo_fresh = 0"
    using fresh_conn_buffers(2) [of True 7 None ERROR DONE] by (simp_all add: demo_fresh_def fresh_conn_def)
  obtain c1 d1 where c1: "auth_write ?c = Inr (USERPASS_WRITE, c1)" "conn c1 = Inr d1"
      "events (c_world c1) = [Sent 7 [1]]"
    and w: "\<And>c2. conn c2 = Inr d1 \<Longrightarrow> ready_ctx c2 \<Longrightarrow> io_send (c_io c2) = Some 3 \<Longrightarrow>
      \<exists>j c3. auth_write c2 = Inr (j, c3) \<and>
        events (c_world c3) = events (c_world c2) @ [Sent (key_fd c2) [0, 1, 0]]"
    using login_reply_repeated [of ?c demo_fresh] fresh by auto
  let ?c2 = "demo_ctx s open_globals (demo_io None\<lparr>io_send := Some 3\<rparr>) d1"
  obtain j c3 where "auth_write ?c2 = Inr (j, c3)" "events (c_world c3) = [Sent 7 [0, 1, 0]]"
    using w [of ?c2] s [of open_globals "Some 3" None] by auto
  then show ?thesis
    using c1 by (intro exI [of _ ?c] exI [of _ c1] exI [of _ d1] exI [of _ ?c2] exI [of _ j] exI [of _ c3]) simp
qed

section \<open>Nothing is served before the handshake\<close>

text \<open>
  \<open>C3\<close> No SOCKS connection reaches the request, the resolution of a name, a connection to the outside
  or the relay of bytes unless, at some point of its life, either its negotiation started while the
  server was configured to ask for no authentication, or the user name and password held by the
  parser of the sub-negotiation were accepted by \<open>checkCredentials\<close>. This is for every sequence of
  events of the connection, whatever its peers send, in whatever segments, whatever the kernel and
  \<open>malloc\<close> answer, and whatever the rest of the program does in between.
\<close>

theorem only_authorised_sessions:
  assumes "socks_session authorised d" and "conn_current d = Some i" and "REQUEST_READ \<le> i" and "i \<le> COPY"
  shows "authorised"
  using session_gate [OF assms(1)] assms(2-4) by (auto simp: gate_def shut_def)

theorem only_authorised_sessions_witness:
  "\<exists>authorised d. socks_session authorised d \<and> conn_current d = Some REQUEST_READ \<and> authorised"
proof -
  obtain s where s: "\<And>g rd wr d. ready_ctx (demo_ctx s g (demo_io rd\<lparr>io_send := wr\<rparr>) d)"
    using demo_ready by blast
  let ?c = "demo_ctx s open_globals (demo_io (Some [5, 1, 0])\<lparr>io_send := None\<rparr>) demo_fresh"
  have msg: "io_recv (c_io ?c) = Some (hello_message True [0])"
    by (simp add: demo_io_def hello_message_def hello_constants)
  have m: "method_for ?c True [0] = 0" "after_hello 0 = REQUEST_READ"
    by (simp_all add: method_for_def after_hello_def open_globals_def hello_constants Let_def)
  obtain c1 d1 h where c1: "stm_handler_read (socks5_stm None) ?c =
      Inr (HELLO_WRITE, socks5_stm (Some HELLO_WRITE), c1)" "conn c1 = Inr d1"
    "client d1 = Cl_hello h" "hs_method h = 0" "buffer_inv (write_buffer d1)"
    "buffer_contents (write_buffer d1) = [SOCKS_VERSION, 0]" "done_state d1 = DONE"
    by (rule hello_event_read [OF demo_ctx_simps(1) _ _ _ s msg]) (simp_all add: m(1))
  let ?d1 = "d1\<lparr>conn_current := Some HELLO_WRITE\<rparr>"
  let ?c2 = "demo_ctx s open_globals (demo_io None\<lparr>io_send := Some 2\<rparr>) ?d1"
  obtain c3 d3 where c3: "stm_handler_write (socks5_stm (Some HELLO_WRITE)) ?c2 =
      Inr (after_hello (hs_method h), socks5_stm (Some (after_hello (hs_method h))), c3)" "conn c3 = Inr d3"
    by (rule hello_event_write [of ?c2 ?d1 h 2, OF demo_ctx_simps(1) _ _ _ s]) (use c1 m in simp_all)
  have "socks_session False demo_fresh" unfolding demo_fresh_def by (rule socks_session.accepted)
  then have "socks_session (False \<or> no_auth_offered ?c demo_fresh \<or> login_accepted ?c demo_fresh)
      (d1\<lparr>conn_current := stm_current (socks5_stm (Some HELLO_WRITE))\<rparr>)"
    by (rule socks_session.event [of False demo_fresh ?c on_read_ready HELLO_WRITE _ c1 d1])
      (use c1 in \<open>simp_all add: events_of_def stm_handler_read_def\<close>)
  then have "\<exists>a. socks_session a ?d1" by (auto simp: socks5_stm_def)
  then obtain a where "socks_session a ?d1" ..
  then have "socks_session (a \<or> no_auth_offered ?c2 ?d1 \<or> login_accepted ?c2 ?d1)
      (d3\<lparr>conn_current := stm_current (socks5_stm (Some REQUEST_READ))\<rparr>)"
    by (rule socks_session.event [of a ?d1 ?c2 on_write_ready REQUEST_READ _ c3 d3])
      (use c1 c3 m in \<open>simp_all add: events_of_def stm_handler_write_def\<close>)
  then obtain b where b: "socks_session b (d3\<lparr>conn_current := Some REQUEST_READ\<rparr>)"
    by (auto simp: socks5_stm_def)
  have b using only_authorised_sessions [OF b, of REQUEST_READ] by simp
  then show ?thesis using b by (intro exI [of _ b] exI [of _ "d3\<lparr>conn_current := Some REQUEST_READ\<rparr>"]) simp
qed

end
