(* ===== verification/Management.thy ===== *)
theory Management
  imports Authentication
begin

text \<open>
  The management protocol, request by request: what a whole request of an administrator does to
  the accounts and to the configuration, and what the server answers.
\<close>

section \<open>Requests with arguments\<close>

text \<open>What \<open>mng_request_init\<close> leaves in a connection when every \<open>malloc\<close> succeeds.\<close>

definition fresh_request :: "parser_substate \<Rightarrow> field list \<Rightarrow> byte \<Rightarrow> mng_request_st" where
  "fresh_request m fs i = \<lparr>ms_parser = Ptr (parser_of (map (substate_for m) fs) 0
     (ps_state (substate_for m (hd fs))) 0), ms_status = mng_status_succeeded, ms_index = i\<rparr>"

lemma mng_request_init_fresh:
  assumes "conn c = Inr d" and "client d = Cl_mng h" and "mng_request_fields (ms_index h) = Some fs"
    and "\<And>k. io_malloc (c_io c) k"
  shows "mng_request_init st c =
    Inr (put_conn (d\<lparr>client := Cl_mng (fresh_request (io_substate (c_io c)) fs (ms_index h))\<rparr>) c)"
proof -
  have "fs \<noteq> []" using assms(3) by (auto simp: mng_request_fields_def split: if_splits)
  then show ?thesis
    using assms parser_new_all [of "io_malloc (c_io c)" fs]
    by (cases h) (simp add: mng_request_init_fields as_mng_def store_mng_def fresh_request_def)
qed

lemma mng_read_whole:
  assumes d: "conn c = Inr d" "client d = Cl_mng (fresh_request m fs i)" and fs: "fs \<noteq> []"
    and r: "ready_ctx c" and e: "empty_buffers d"
    and msg: "io_recv (c_io c) = Some msg" "msg \<noteq> []" "length msg \<le> buffer_space (read_buffer d)"
    and run: "run_parser (parser_feed True) is_done
      (parser_of (map (substate_for m) fs) 0 (ps_state (substate_for m (hd fs))) 0)
      (ps_state (substate_for m (hd fs))) False msg = Inr (p, done_read, False, [], True)"
  obtains c1 d1 where "mng_request_read c =
      bind_res (process_mng_params_request i p c1) (\<lambda>c2. Inr (MNG_REQUEST_WRITE, c2))"
    and "conn c1 = Inr d1" and "write_buffer d1 = write_buffer d" and "glob c1 = glob c"
    and "c_io c1 = c_io c"
proof -
  obtain it where it: "registered (c_sel c) (key_fd c) = Some it" "selector_inv (c_sel c)"
    and ok: "io_malloc (c_io c) 0"
    using r by (auto simp: ready_ctx_def)
  have buf: "buffer_inv (read_buffer d)" "buffer_contents (read_buffer d) = []"
    using e by (simp_all add: empty_buffers_def)
  let ?ss = "map (substate_for m) fs" and ?st = "ps_state (substate_for m (hd fs))"
  have recv: "recv_bytes (c_io c) (buffer_space (read_buffer d)) = Some msg"
    using msg by (rule recv_whole)
  obtain rb where rb: "fill (read_buffer d) msg = Inr rb" "buffer_inv rb" "buffer_contents rb = msg"
    using fill_spec [OF buf(1) msg(3)] buf(2) by auto
  have ss: "?ss \<noteq> []" "ps_state (hd ?ss) = ?st" using fs by (simp_all add: hd_map)
  have run': "run_parser (parser_feed True) is_done (parser_of ?ss 0 ?st 0) (ps_state (hd ?ss)) False
      (buffer_contents rb) = Inr (p, done_read, False, [], True)"
    using run rb(3) ss(2) by simp
  obtain rb' where rb': "consume True rb (parser_of ?ss 0 ?st 0) False = Inr (rb', p, done_read, False)"
    using consume_fresh [OF rb(2) ss(1) run'] by metis
  let ?h = "fresh_request m fs i"
  let ?d1 = "d\<lparr>read_buffer := rb', client := Cl_mng (?h\<lparr>ms_parser := Ptr p\<rparr>)\<rparr>"
  let ?c1 = "put_conn ?d1 c"
  have sel1: "selector_inv (c_sel ?c1)" "registered (c_sel ?c1) (key_fd ?c1) = Some it" using it by simp_all
  obtain s where s: "set_interest_key OP_WRITE ?c1 = Inr (SELECTOR_SUCCESS, ?c1\<lparr>c_sel := s\<rparr>)"
    using interest_key_ok [OF sel1, of OP_WRITE] by metis
  have "mng_request_read c = bind_res (process_mng_params_request i p (?c1\<lparr>c_sel := s\<rparr>))
      (\<lambda>c2. Inr (MNG_REQUEST_WRITE, c2))"
    using d recv rb(1) rb' s buf(1) ok
    by (simp add: mng_request_read_def as_mng_def buffer_write_ptr_inv fresh_request_def Let_def)
  then show ?thesis by (rule that [of "?c1\<lparr>c_sel := s\<rparr>" ?d1]) simp_all
qed

lemma write_status_ok:
  assumes "conn c = Inr d" and "buffer_inv (write_buffer d)" and "buffer_contents (write_buffer d) = []"
    and "1 \<le> buffer_space (write_buffer d)"
  obtains wb where "write_status st c = Inr (put_conn (d\<lparr>write_buffer := wb\<rparr>) c)"
    and "buffer_contents wb = [st]"
proof -
  obtain wb where wb: "marshall 1 [st] (write_buffer d) = Inr wb" "buffer_inv wb"
    "buffer_contents wb = buffer_contents (write_buffer d) @ (if 1 \<le> buffer_space (write_buffer d) then [st] else [])"
    by (rule marshall_spec [OF assms(2), of "[st]" 1]) simp
  then show ?thesis
    using assms by (intro that [of wb]) (simp_all add: write_status_def status_mng_marshal_def)
qed

text \<open>The fields of the requests that take names, and what their parser holds at the end.\<close>

lemma names_run:
  assumes "fs = concat (map (\<lambda>_. [Length_field, Long_field]) us)" and "us \<noteq> []" and "length us < 100"
    and "\<forall>u \<in> set us. length u < 256"
  shows "run_parser (parser_feed True) is_done (parser_of (map (substate_for m) fs) 0 read_N 0) st False
      (concat (map encode_field us)) =
    Inr (parser_of (filled (map (\<lambda>_. (length_field m, long_field m)) us) us) (2 * length us) done_read 0,
         done_read, False, [], True)"
proof -
  let ?fs = "map (\<lambda>_. (length_field m, long_field m)) us"
  have "map (substate_for m) (concat (map (\<lambda>_. [Length_field, Long_field]) us)) = counted ?fs"
    by (induction us) (simp_all add: substate_for_def)
  moreover have "counted_ok ?fs" by (auto simp: counted_ok_def length_field_def long_field_def)
  ultimately show ?thesis
    using run_counted [of ?fs us "[]" 0 st False "[]"] assms by simp
qed

text \<open>
  \<open>C23\<close> Adding a user over the management protocol. When the two fields arrive whole, the account
  is appended to the table and the answer is the status of success; with 255 accounts in the table
  nothing changes and the answer is the status for a full table. The table then holds exactly the
  accounts it held and the new one.
\<close>

theorem add_user_request:
  assumes "conn c = Inr d" and "mng_request_fields 0x0A = Some fs"
    and "client d = Cl_mng (fresh_request mem fs 0x0A)" and "empty_buffers d" and "ready_ctx c"
    and "io_recv (c_io c) = Some (of_nat (length u) # u @ of_nat (length w) # w)"
    and "length u < 256" and "length w < 256" and "length u + length w + 2 \<le> buffer_space (read_buffer d)"
    and "0 \<notin> set u" and "0 \<notin> set w" and "holds (users (glob c)) (nusers (glob c)) accounts"
  shows "\<exists>c1 d1. mng_request_read c = Inr (MNG_REQUEST_WRITE, c1) \<and> conn c1 = Inr d1 \<and>
    (if length accounts < MAX_USERS
     then buffer_contents (write_buffer d1) = [mng_status_succeeded] \<and>
       holds (users (glob c1)) (nusers (glob c1)) (accounts @ [(u, w)])
     else buffer_contents (write_buffer d1) = [mng_status_max_users_reached] \<and> glob c1 = glob c)"
proof -
  have fs: "fs = concat (map (\<lambda>_. [Length_field, Long_field]) [u, w])"
    using assms(2) by (simp add: mng_request_fields_def)
  let ?msg = "concat (map encode_field [u, w])" and ?m = mem
  let ?p = "parser_of (filled (map (\<lambda>_. (length_field ?m, long_field ?m)) [u, w]) [u, w]) 4 done_read 0"
  have len: "nusers (glob c) = length accounts" using assms(12) by (simp add: holds_def)
  have hd: "ps_state (substate_for ?m (hd fs)) = read_N" by (simp add: fs substate_for_def length_field_def)
  have run: "run_parser (parser_feed True) is_done
      (parser_of (map (substate_for ?m) fs) 0 (ps_state (substate_for ?m (hd fs))) 0)
      (ps_state (substate_for ?m (hd fs))) False ?msg = Inr (?p, done_read, False, [], True)"
    using names_run [OF fs, of ?m] assms(7,8) hd by simp
  have msg: "io_recv (c_io c) = Some ?msg" "?msg \<noteq> []" "length ?msg \<le> buffer_space (read_buffer d)"
    using assms(6,9) by (simp_all add: encode_field_def)
  obtain c1 d1 where c1: "mng_request_read c =
      bind_res (process_mng_params_request 0x0A ?p c1) (\<lambda>c2. Inr (MNG_REQUEST_WRITE, c2))"
    "conn c1 = Inr d1" "write_buffer d1 = write_buffer d" "glob c1 = glob c" "c_io c1 = c_io c"
    by (rule mng_read_whole [OF assms(1,3) _ assms(5,4) msg run]) (simp_all add: fs)
  have wb: "buffer_inv (write_buffer d1)" "buffer_contents (write_buffer d1) = []"
    "1 \<le> buffer_space (write_buffer d1)"
    using assms(4) c1(3) by (simp_all add: empty_buffers_def)
  have res: "parser_result ?p 1 = Inr (Ptr (map Some u @ [Some 0]))"
    "parser_result ?p 3 = Inr (Ptr (map Some w @ [Some 0]))"
    by (simp_all add: parser_result_def field_of_def)
  show ?thesis
  proof (cases "nusers (glob c) = MAX_USERS")
    case True
    obtain b where b: "write_status mng_status_max_users_reached c1 = Inr (put_conn (d1\<lparr>write_buffer := b\<rparr>) c1)"
      "buffer_contents b = [mng_status_max_users_reached]"
      using write_status_ok [OF c1(2) wb] by metis
    then have "mng_request_read c = Inr (MNG_REQUEST_WRITE, put_conn (d1\<lparr>write_buffer := b\<rparr>) c1)"
      using c1(1,4) True by (simp add: process_mng_params_request_def)
    then show ?thesis
      using b(2) True len c1(4)
      by (intro exI [of _ "put_conn (d1\<lparr>write_buffer := b\<rparr>) c1"] exI [of _ "d1\<lparr>write_buffer := b\<rparr>"]) simp
  next
    case False
    then have room: "nusers (glob c) < MAX_USERS" using assms(12) by (simp add: holds_def)
    obtain g where g: "addUser True True (glob c) (Ptr (map Some u @ [Some 0])) (Ptr (map Some w @ [Some 0])) = Inr g"
      "holds (users g) (nusers g) (accounts @ [(u, w)])"
      using addUser_accounts [OF assms(12) text_of [OF assms(10)] text_of [OF assms(11)]] room by auto
    have ok: "io_malloc (c_io c1) k" for k using assms(5) c1(5) by (simp add: ready_ctx_def)
    have conn2: "conn (put_glob g c1) = Inr d1" using c1(2) by simp
    obtain b where b: "write_status mng_status_succeeded (put_glob g c1) =
        Inr (put_conn (d1\<lparr>write_buffer := b\<rparr>) (put_glob g c1))" "buffer_contents b = [mng_status_succeeded]"
      using write_status_ok [OF conn2 wb] by metis
    then have "mng_request_read c = Inr (MNG_REQUEST_WRITE, put_conn (d1\<lparr>write_buffer := b\<rparr>) (put_glob g c1))"
      using c1(1,4) False g(1) res ok by (simp add: process_mng_params_request_def)
    then show ?thesis
      using b(2) g(2) room len
      by (intro exI [of _ "put_conn (d1\<lparr>write_buffer := b\<rparr>) (put_glob g c1)"]
          exI [of _ "d1\<lparr>write_buffer := b\<rparr>"]) simp
  qed
qed

definition demo_request_conn :: "field list \<Rightarrow> byte \<Rightarrow> socks5" where
  "demo_request_conn fs i = (fresh_conn False 7 None MNG_ERROR MNG_DONE)\<lparr>
     client := Cl_mng (fresh_request (io_substate (demo_io None)) fs i)\<rparr>"

lemma demo_request_conn [simp]:
  "client (demo_request_conn fs i) = Cl_mng (fresh_request (io_substate (demo_io None)) fs i)"
  "empty_buffers (demo_request_conn fs i)" "buffer_space (read_buffer (demo_request_conn fs i)) = 2048"
  "buffer_space (write_buffer (demo_request_conn fs i)) = 2048"
  using fresh_conn_buffers [of False 7 None MNG_ERROR MNG_DONE]
  by (simp_all add: demo_request_conn_def empty_buffers_def) (simp_all add: fresh_conn_def)

theorem add_user_request_witness:
  "\<exists>fs c c1 d1. conn c = Inr (demo_request_conn fs 0x0A) \<and> io_recv (c_io c) = Some [1, 0x65, 1, 0x66] \<and>
    mng_request_read c = Inr (MNG_REQUEST_WRITE, c1) \<and> conn c1 = Inr d1 \<and>
    buffer_contents (write_buffer d1) = [0] \<and>
    holds (users (glob c1)) (nusers (glob c1)) [([0x61], [0x62]), ([0x63], [0x64]), ([0x65], [0x66])]"
proof -
  obtain fs where fs: "mng_request_fields 0x0A = Some fs" by (simp add: mng_request_fields_def)
  obtain s where s: "\<And>g rd wr d. ready_ctx (demo_ctx s g (demo_io rd\<lparr>io_send := wr\<rparr>) d)"
    using demo_ready by blast
  let ?c = "demo_ctx s demo_globals (demo_io (Some [1, 0x65, 1, 0x66])\<lparr>io_send := None\<rparr>) (demo_request_conn fs 0x0A)"
  have holds: "holds (users (glob ?c)) (nusers (glob ?c)) [([0x61], [0x62]), ([0x63], [0x64])]"
    using demo_globals_holds(1) by simp
  obtain c1 d1 where "mng_request_read ?c = Inr (MNG_REQUEST_WRITE, c1)" "conn c1 = Inr d1"
    "buffer_contents (write_buffer d1) = [0]"
    "holds (users (glob c1)) (nusers (glob c1)) [([0x61], [0x62]), ([0x63], [0x64]), ([0x65], [0x66])]"
    using add_user_request [OF demo_ctx_simps(1) fs demo_request_conn(1) _ s _ _ _ _ _ _ holds, of "[0x65]" "[0x66]"]
    by (auto simp: demo_io_def MAX_USERS_def mng_status_defs)
  then show ?thesis
    by (intro exI [of _ fs] exI [of _ ?c] exI [of _ c1] exI [of _ d1]) (simp add: demo_io_def)
qed

text \<open>
  \<open>C24\<close> Deleting a user over the management protocol removes the first account with that name and no
  other, and answers with success, also when there is none. It never faults when the strings of the
  table were allocated by the server.
\<close>

theorem delete_user_request:
  assumes "conn c = Inr d" and "mng_request_fields 0x0B = Some fs"
    and "client d = Cl_mng (fresh_request mem fs 0x0B)" and "empty_buffers d" and "ready_ctx c"
    and "io_recv (c_io c) = Some (of_nat (length u) # u)" and "length u < 256"
    and "length u + 1 \<le> buffer_space (read_buffer d)" and "0 \<notin> set u"
    and "holds (users (glob c)) (nusers (glob c)) accounts" and "heap_users (users (glob c)) (nusers (glob c))"
  shows "\<exists>c1 d1. mng_request_read c = Inr (MNG_REQUEST_WRITE, c1) \<and> conn c1 = Inr d1 \<and>
    buffer_contents (write_buffer d1) = [mng_status_succeeded] \<and>
    holds (users (glob c1)) (nusers (glob c1)) (remove_account u accounts)"
proof -
  have fs: "fs = concat (map (\<lambda>_. [Length_field, Long_field]) [u])"
    using assms(2) by (simp add: mng_request_fields_def)
  let ?msg = "concat (map encode_field [u])" and ?m = mem
  let ?p = "parser_of (filled (map (\<lambda>_. (length_field ?m, long_field ?m)) [u]) [u]) 2 done_read 0"
  have hd: "ps_state (substate_for ?m (hd fs)) = read_N" by (simp add: fs substate_for_def length_field_def)
  have run: "run_parser (parser_feed True) is_done
      (parser_of (map (substate_for ?m) fs) 0 (ps_state (substate_for ?m (hd fs))) 0)
      (ps_state (substate_for ?m (hd fs))) False ?msg = Inr (?p, done_read, False, [], True)"
    using names_run [OF fs, of ?m] assms(7) hd by simp
  have msg: "io_recv (c_io c) = Some ?msg" "?msg \<noteq> []" "length ?msg \<le> buffer_space (read_buffer d)"
    using assms(6,8) by (simp_all add: encode_field_def)
  obtain c1 d1 where c1: "mng_request_read c =
      bind_res (process_mng_params_request 0x0B ?p c1) (\<lambda>c2. Inr (MNG_REQUEST_WRITE, c2))"
    "conn c1 = Inr d1" "write_buffer d1 = write_buffer d" "glob c1 = glob c" "c_io c1 = c_io c"
    by (rule mng_read_whole [OF assms(1,3) _ assms(5,4) msg run]) (simp_all add: fs)
  have wb: "buffer_inv (write_buffer d1)" "buffer_contents (write_buffer d1) = []"
    "1 \<le> buffer_space (write_buffer d1)"
    using assms(4) c1(3) by (simp_all add: empty_buffers_def)
  have res: "parser_result ?p 1 = Inr (Ptr (map Some u @ [Some 0]))"
    by (simp add: parser_result_def field_of_def)
  obtain g where g: "deleteUser (glob c) (Ptr (map Some u @ [Some 0])) = Inr g"
    "holds (users g) (nusers g) (remove_account u accounts)"
    using deleteUser_accounts [OF assms(10) text_of [OF assms(9)] assms(11)] by auto
  have conn2: "conn (put_glob g c1) = Inr d1" using c1(2) by simp
  obtain b where b: "write_status mng_status_succeeded (put_glob g c1) =
      Inr (put_conn (d1\<lparr>write_buffer := b\<rparr>) (put_glob g c1))" "buffer_contents b = [mng_status_succeeded]"
    using write_status_ok [OF conn2 wb] by metis
  then have "mng_request_read c = Inr (MNG_REQUEST_WRITE, put_conn (d1\<lparr>write_buffer := b\<rparr>) (put_glob g c1))"
    using c1(1,4) g(1) res by (simp add: process_mng_params_request_def)
  then show ?thesis
    using b(2) g(2) by (intro exI [of _ "put_conn (d1\<lparr>write_buffer := b\<rparr>) (put_glob g c1)"]
        exI [of _ "d1\<lparr>write_buffer := b\<rparr>"]) simp
qed

theorem delete_user_request_witness:
  "\<exists>fs c c1 d1. conn c = Inr (demo_request_conn fs 0x0B) \<and> io_recv (c_io c) = Some [1, 0x61] \<and>
    mng_request_read c = Inr (MNG_REQUEST_WRITE, c1) \<and> conn c1 = Inr d1 \<and>
    buffer_contents (write_buffer d1) = [0] \<and> holds (users (glob c1)) (nusers (glob c1)) [([0x63], [0x64])]"
proof -
  obtain fs where fs: "mng_request_fields 0x0B = Some fs" by (simp add: mng_request_fields_def)
  obtain s where s: "\<And>g rd wr d. ready_ctx (demo_ctx s g (demo_io rd\<lparr>io_send := wr\<rparr>) d)"
    using demo_ready by blast
  let ?c = "demo_ctx s demo_globals (demo_io (Some [1, 0x61])\<lparr>io_send := None\<rparr>) (demo_request_conn fs 0x0B)"
  have holds: "holds (users (glob ?c)) (nusers (glob ?c)) [([0x61], [0x62]), ([0x63], [0x64])]"
    "heap_users (users (glob ?c)) (nusers (glob ?c))"
    using demo_globals_holds by simp_all
  obtain c1 d1 where "mng_request_read ?c = Inr (MNG_REQUEST_WRITE, c1)" "conn c1 = Inr d1"
    "buffer_contents (write_buffer d1) = [0]" "holds (users (glob c1)) (nusers (glob c1)) [([0x63], [0x64])]"
    using delete_user_request [OF demo_ctx_simps(1) fs demo_request_conn(1) _ s _ _ _ _ holds, of "[0x61]"]
    by (auto simp: demo_io_def mng_status_defs)
  then show ?thesis
    by (intro exI [of _ fs] exI [of _ ?c] exI [of _ c1] exI [of _ d1]) (simp add: demo_io_def)
qed

section \<open>Requests of one byte\<close>

text \<open>The one checked or unchecked byte field of the index and of the configuration requests.\<close>

lemma byte_run:
  assumes "f = Byte_field chk nul"
  shows "run_parser (parser_feed True) is_done (parser_of [substate_for m f] 0 long_read 0) st False [v] =
    (let s = field_of (substate_for m f) [v] in
     case chk of
       None \<Rightarrow> Inr (parser_of [s] 1 done_read 0, done_read, False, [], True)
     | Some g \<Rightarrow> bind_res (g (Ptr [Some v, Some 0]) 1 0)
         (\<lambda>(passed, e). Inr (if passed then (parser_of [s] 1 done_read e, done_read, False, [], True)
            else (parser_of [s] 0 error_read e, error_read, True, [], True))))"
proof -
  let ?ss = "[substate_for m f]"
  have i: "0 < length ?ss" "length ?ss < 256" by simp_all
  have r: "reading (?ss ! 0) [] 1" by (simp add: assms substate_for_def reading_def byte_field_def)
  have chk: "ps_check_function (substate_for m f) = chk" by (simp add: assms substate_for_def byte_field_def)
  have adv: "parser_advance (parser_of [field_of (substate_for m f) [v]] 0 long_read e) =
      Inr (parser_of [field_of (substate_for m f) [v]] 1 done_read e)" for e
    using advance_after_field [OF i, of "[v]" long_read e] by (simp add: after_field_def Let_def)
  show ?thesis
    using feed_long_last [OF i r, of True 0 v] chk adv
    by (cases chk) (auto simp: Let_def field_of_def bind_res_def split: sum.splits if_splits)
qed

text \<open>The counter behind each of the indexes 2 to 9.\<close>

definition counter :: "globals \<Rightarrow> byte \<Rightarrow> u64" where
  "counter g i =
     [metrics_historic_connections g, metrics_concurrent_connections g, metrics_max_concurrent_connections g,
      metrics_historic_byte_transfer g, metrics_historic_auth_attempts g,
      metrics_historic_connections_attempts g, metrics_average_bytes_per_read g,
      metrics_average_bytes_per_write g] ! (unat i - 2)"

lemma byte_at_most: "unat (v :: byte) \<le> 13 \<Longrightarrow> v \<in> {0,1,2,3,4,5,6,7,8,9,10,11,12,13}"
proof -
  assume "unat v \<le> 13"
  then have "unat v \<in> {0,1,2,3,4,5,6,7,8,9,10,11,12,13}" unfolding insert_iff empty_iff by presburger
  then show ?thesis
    by (elim insertE emptyE) (drule arg_cong [of _ _ "of_nat :: nat \<Rightarrow> byte"]; simp)+
qed

lemma index_read_whole:
  assumes d: "conn c = Inr d" "client d = Cl_mng (fresh_request m [Byte_field (Some checkIndex) None] i)"
    and r: "ready_ctx c" and e: "empty_buffers d" "1 \<le> buffer_space (read_buffer d)"
    and msg: "io_recv (c_io c) = Some [v]"
  obtains c1 d1 h where "conn c1 = Inr d1" and "client d1 = Cl_mng h" and "write_buffer d1 = write_buffer d"
    and "glob c1 = glob c" and "ready_ctx c1" and "ms_index h = (if unat v \<le> 0x0D then v else i)"
    and "mng_request_index_read c =
      (if unat v \<le> 0x0D then
         bind_res (process_mng_index v c1)
           (\<lambda>(ret, c3). if ret = MNG_REQUEST_WRITE then interest_or_error OP_WRITE ret c3
              else if ret = MNG_REQUEST_READ then interest_or_error OP_READ ret c3 else Inr (ret, c3))
       else reply_status mng_status_index_not_supported c1)"
proof -
  let ?f = "Byte_field (Some checkIndex) None"
  have ok: "io_malloc (c_io c) k" for k using r by (simp add: ready_ctx_def)
  have buf: "buffer_inv (read_buffer d)" "buffer_contents (read_buffer d) = []"
    using e by (simp_all add: empty_buffers_def)
  have recv: "recv_bytes (c_io c) 1 = Some [v]" using msg by (rule recv_whole) simp_all
  obtain rb where rb: "fill (read_buffer d) [v] = Inr rb" "buffer_inv rb" "buffer_contents rb = [v]"
    using fill_spec [OF buf(1), of "[v]"] buf(2) e(2) by auto
  let ?ss = "[substate_for m ?f]"
  have ss: "?ss \<noteq> []" "ps_state (hd ?ss) = long_read" by (simp_all add: substate_for_def byte_field_def)
  let ?s = "field_of (substate_for m ?f) [v]"
  define p st err where "p = (if unat v \<le> 0x0D then parser_of [?s] 1 done_read 0
      else parser_of [?s] 0 error_read mng_status_index_not_supported)"
    and "st = (if unat v \<le> 0x0D then done_read else error_read)" and "err = (\<not> unat v \<le> 0x0D)"
  have run: "run_parser (parser_feed True) is_done (parser_of ?ss 0 long_read 0) (ps_state (hd ?ss)) False
      (buffer_contents rb) = Inr (p, st, err, [], True)"
    using byte_run [OF refl, of m "Some checkIndex" None long_read v] rb(3) ss(2)
    by (simp add: p_def st_def err_def checkIndex_def first_byte_def Let_def)
  obtain rb' where rb': "consume True rb (parser_of ?ss 0 long_read 0) False = Inr (rb', p, st, err)"
    using consume_fresh [OF rb(2) ss(1) run] by metis
  have fin: "fst (is_done st False)" by (simp add: st_def)
  have res: "parser_result p 0 = Inr (Ptr [Some v, Some 0])"
    by (simp add: p_def parser_result_def field_of_def)
  let ?h = "(fresh_request m [?f] i)\<lparr>ms_parser := Ptr p\<rparr>"
  let ?h' = "if unat v \<le> 0x0D then ?h\<lparr>ms_index := v\<rparr> else ?h\<lparr>ms_status := mng_status_index_not_supported\<rparr>"
  let ?d1 = "d\<lparr>read_buffer := rb', client := Cl_mng ?h'\<rparr>"
  have ptr: "ms_parser (fresh_request m [?f] i) = Ptr (parser_of ?ss 0 long_read 0)"
    "ms_status (fresh_request m [?f] i) = mng_status_succeeded"
    using ss(2) by (simp_all add: fresh_request_def)
  have "mng_request_index_read c =
      (if unat v \<le> 0x0D then
         bind_res (process_mng_index v (put_conn ?d1 c))
           (\<lambda>(ret, c3). if ret = MNG_REQUEST_WRITE then interest_or_error OP_WRITE ret c3
              else if ret = MNG_REQUEST_READ then interest_or_error OP_READ ret c3 else Inr (ret, c3))
       else reply_status mng_status_index_not_supported (put_conn ?d1 c))"
    using d recv rb(1) rb' buf(1) ok e(2) fin res ptr
    by (simp add: mng_request_index_read_def as_mng_def buffer_write_ptr_inv store_mng_def first_byte_def
        err_def Let_def)
  then show ?thesis
    by (intro that [of "put_conn ?d1 c" ?d1 ?h']) (use r in \<open>simp_all add: fresh_request_def ready_ctx_def\<close>)
qed

lemma interest_or_error_ok:
  assumes "ready_ctx c" and "conn c = Inr d"
  obtains c' where "interest_or_error i ret c = Inr (ret, c')" and "conn c' = Inr d" and "glob c' = glob c"
proof -
  obtain it where it: "registered (c_sel c) (key_fd c) = Some it" "selector_inv (c_sel c)"
    using assms(1) by (auto simp: ready_ctx_def)
  obtain s where "set_interest_key i c = Inr (SELECTOR_SUCCESS, c\<lparr>c_sel := s\<rparr>)"
    using interest_key_ok [OF it(2,1), of i] by metis
  then show ?thesis using assms(2) by (intro that [of "c\<lparr>c_sel := s\<rparr>"]) (simp_all add: interest_or_error_def)
qed

lemma index_reply_counter:
  assumes "2 \<le> unat v" and "unat v \<le> 9"
  shows "index_reply v g = Some (uint_mng_request_marshall (ucast (counter g v)))"
  using byte_at_most [of v] assms by (auto simp: index_reply_def counter_def)

lemma reply_sent:
  assumes "f (write_buffer d) = Inr wb" and "conn c = Inr d" and "ready_ctx c"
  obtains c' where "bind_res (conn c) (\<lambda>d. bind_res (f (write_buffer d))
      (\<lambda>wb. interest_or_error OP_WRITE MNG_REQUEST_WRITE (put_conn (d\<lparr>write_buffer := wb\<rparr>) c))) =
    Inr (MNG_REQUEST_WRITE, c')" and "conn c' = Inr (d\<lparr>write_buffer := wb\<rparr>)" and "glob c' = glob c"
proof -
  have "ready_ctx (put_conn (d\<lparr>write_buffer := wb\<rparr>) c)" using assms(3) by (simp add: ready_ctx_def)
  then obtain c' where "interest_or_error OP_WRITE MNG_REQUEST_WRITE (put_conn (d\<lparr>write_buffer := wb\<rparr>) c) =
      Inr (MNG_REQUEST_WRITE, c')" "conn c' = Inr (d\<lparr>write_buffer := wb\<rparr>)" "glob c' = glob c"
    using interest_or_error_ok [of "put_conn (d\<lparr>write_buffer := wb\<rparr>) c" "d\<lparr>write_buffer := wb\<rparr>"] by (metis conn_put_conn put_conn_simps(5))
  then show ?thesis using that [of c'] assms(1,2) by simp
qed

text \<open>
  \<open>C25\<close> The index byte of a management request (the list of users apart). Index 0 is answered with the
  fourteen indexes; 2 to 9 with the low 32 bits of the counter they name; 10 to 13 are answered
  with nothing, remembered, and lead to the state that reads the arguments; every other byte is
  answered with the status for an unsupported index. Nothing else of the server changes.
\<close>

theorem index_request_answered:
  assumes "conn c = Inr d" and "client d = Cl_mng (fresh_request mem [Byte_field (Some checkIndex) None] 0)"
    and "empty_buffers d" and "ready_ctx c" and "1 \<le> buffer_space (read_buffer d)"
    and "18 \<le> buffer_space (write_buffer d)" and "io_recv (c_io c) = Some [v]" and "v \<noteq> 0x01"
  shows "\<exists>j c1 d1 h. mng_request_index_read c = Inr (j, c1) \<and> conn c1 = Inr d1 \<and> glob c1 = glob c \<and>
    client d1 = Cl_mng h \<and>
    (if unat v \<in> {0x0A..0x0D} then j = MNG_REQUEST_READ \<and> buffer_contents (write_buffer d1) = [] \<and> ms_index h = v
     else j = MNG_REQUEST_WRITE \<and> buffer_contents (write_buffer d1) =
       (if v = 0x00 then 0x00 # 0x0E # map of_nat [0..<0x0E]
        else if unat v \<le> 9 then 0x00 # u32_bytes (ucast (counter (glob c) v)) else [0x02]))"
proof -
  obtain c1 d1 h where c1: "conn c1 = Inr d1" "client d1 = Cl_mng h" "write_buffer d1 = write_buffer d"
    "glob c1 = glob c" "ready_ctx c1" "ms_index h = (if unat v \<le> 0x0D then v else 0)"
    and run: "mng_request_index_read c =
      (if unat v \<le> 0x0D then
         bind_res (process_mng_index v c1)
           (\<lambda>(ret, c3). if ret = MNG_REQUEST_WRITE then interest_or_error OP_WRITE ret c3
              else if ret = MNG_REQUEST_READ then interest_or_error OP_READ ret c3 else Inr (ret, c3))
       else reply_status mng_status_index_not_supported c1)"
    by (rule index_read_whole [OF assms(1,2,4,3,5,7)])
  have wb: "buffer_inv (write_buffer d1)" "buffer_contents (write_buffer d1) = []" "18 \<le> buffer_space (write_buffer d1)"
    using assms(3,6) c1(3) by (simp_all add: empty_buffers_def)
  have answer: ?thesis if a: "mng_request_index_read c = bind_res (conn c1) (\<lambda>d. bind_res (f (write_buffer d))
      (\<lambda>wb. interest_or_error OP_WRITE MNG_REQUEST_WRITE (put_conn (d\<lparr>write_buffer := wb\<rparr>) c1)))"
      and f: "f = marshall n bs" "n \<le> 18" "length bs \<le> n" "unat v \<notin> {0x0A..0x0D}"
      "bs = (if v = 0x00 then 0x00 # 0x0E # map of_nat [0..<0x0E]
        else if unat v \<le> 9 then 0x00 # u32_bytes (ucast (counter (glob c) v)) else [0x02])" for f n bs
  proof -
    obtain b where b: "marshall n bs (write_buffer d1) = Inr b"
      "buffer_contents b = buffer_contents (write_buffer d1) @ (if n \<le> buffer_space (write_buffer d1) then bs else [])"
      by (rule marshall_spec [OF wb(1) f(3)])
    then have "buffer_contents b = bs" using wb(2,3) f(2) by simp
    moreover have fb: "f (write_buffer d1) = Inr b" using b(1) f(1) by simp
    obtain c2 where c2: "bind_res (conn c1) (\<lambda>d. bind_res (f (write_buffer d))
        (\<lambda>wb. interest_or_error OP_WRITE MNG_REQUEST_WRITE (put_conn (d\<lparr>write_buffer := wb\<rparr>) c1))) =
      Inr (MNG_REQUEST_WRITE, c2)" "conn c2 = Inr (d1\<lparr>write_buffer := b\<rparr>)" "glob c2 = glob c1"
      by (rule reply_sent [of f d1 b c1, OF fb c1(1,5)])
    have "mng_request_index_read c = Inr (MNG_REQUEST_WRITE, c2)" using a c2(1) by (rule trans)
    ultimately show ?thesis
      using c1(2,4) f(4,5) c2(2,3)
      by (intro exI [of _ MNG_REQUEST_WRITE] exI [of _ c2] exI [of _ "d1\<lparr>write_buffer := b\<rparr>"] exI [of _ h]) simp
  qed
  consider "v = 0" | "2 \<le> unat v" "unat v \<le> 9" | "unat v \<in> {0x0A..0x0D}" | "0x0D < unat v"
    using assms(8) word_unat_eq_iff [of v 1] word_unat_eq_iff [of v 0] by fastforce
  then show ?thesis
  proof cases
    case 1
    then show ?thesis
      using run c1(1)
      by (intro answer [of supported_indexes_mng_request_marshall 18])
        (simp_all add: process_mng_index_def index_reply_def supported_indexes_mng_request_marshall_def
          fun_eq_iff upt_rec)
  next
    case 2
    then have "v \<noteq> 0" "unat v \<notin> {0x0A..0x0D}" by auto
    then show ?thesis
      using run c1(1,4) 2 index_reply_counter [OF 2, of "glob c"]
      by (intro answer [of "uint_mng_request_marshall (ucast (counter (glob c) v))" 5])
        (simp_all add: process_mng_index_def uint_mng_request_marshall_def fun_eq_iff u32_bytes_def)
  next
    case 3
    have v: "v \<in> {10, 11, 12, 13}" using byte_at_most [of v] 3 by auto
    then have "process_mng_index v c1 = Inr (MNG_REQUEST_READ, c1)"
      by (auto simp: process_mng_index_def index_reply_def)
    moreover obtain c2 where "interest_or_error OP_READ MNG_REQUEST_READ c1 = Inr (MNG_REQUEST_READ, c2)"
      "conn c2 = Inr d1" "glob c2 = glob c1" by (rule interest_or_error_ok [OF c1(5,1)])
    ultimately show ?thesis using run 3 c1 wb(2) by auto
  next
    case 4
    then have "v \<noteq> 0" "unat v \<notin> {0x0A..0x0D}" by auto
    then show ?thesis
      using run c1(1) 4
      by (intro answer [of "marshall 1 [0x02]" 1 "[0x02]"])
        (simp_all add: reply_status_def write_status_def status_mng_marshal_def mng_status_defs)
  qed
qed

theorem index_request_answered_witness:
  "\<exists>c c1 d1. conn c = Inr (demo_request_conn [Byte_field (Some checkIndex) None] 0) \<and>
    io_recv (c_io c) = Some [0x0E] \<and> mng_request_index_read c = Inr (MNG_REQUEST_WRITE, c1) \<and>
    conn c1 = Inr d1 \<and> buffer_contents (write_buffer d1) = [0x02]"
proof -
  obtain s where s: "\<And>g rd wr d. ready_ctx (demo_ctx s g (demo_io rd\<lparr>io_send := wr\<rparr>) d)"
    using demo_ready by blast
  let ?c = "demo_ctx s demo_globals (demo_io (Some [0x0E])\<lparr>io_send := None\<rparr>)
    (demo_request_conn [Byte_field (Some checkIndex) None] 0)"
  obtain c1 d1 where "mng_request_index_read ?c = Inr (MNG_REQUEST_WRITE, c1)" "conn c1 = Inr d1"
    "buffer_contents (write_buffer d1) = [0x02]"
    using index_request_answered [OF demo_ctx_simps(1) demo_request_conn(1) _ s [of demo_globals None "Some [0x0E]"], where v = "0x0E"]
    by (auto simp: demo_io_def)
  then show ?thesis by (intro exI [of _ ?c] exI [of _ c1] exI [of _ d1]) (simp add: demo_io_def)
qed

end
