(* ===== verification/Client_Server.thy ===== *)
theory Client_Server
  imports Client Management
begin

text \<open>
  The client and the server together: what the client sends is what the server's parsers expect, and
  what the server answers is what the client prints; and the inputs on which the client's arrays are
  too small.
\<close>

section \<open>Local arrays\<close>

text \<open>An array whose first bytes are \<open>bs\<close>, with \<open>cells\<close> after them.\<close>

definition filled_with :: "byte list \<Rightarrow> byte option list \<Rightarrow> byte option list" where
  "filled_with bs cells = map Some bs @ cells"

lemma length_filled_with [simp]: "length (filled_with bs cells) = length bs + length cells"
  by (simp add: filled_with_def)

lemma store_at_end:
  "store_bytes off bs (filled_with pre cells) =
     (if length bs \<le> length cells then Inr (filled_with (pre @ bs) (drop (length bs) cells)) else Inl Undefined)"
  if "off = length pre"
  using that by (simp add: store_bytes_def mem_store_def filled_with_def)

lemma strcpy_at_end:
  "strcpy off s (filled_with pre cells) =
     (if length s < length cells then Inr (filled_with (pre @ s) (Some 0 # drop (Suc (length s)) cells))
      else Inl Undefined)"
  if "off = length pre"
  using that by (simp add: strcpy_def store_at_end) (simp add: filled_with_def)

lemma load_init_filled:
  "n \<le> length bs \<Longrightarrow> load_init 0 n (filled_with bs cells) = Inr (take n bs)"
  by (simp add: load_init_def mem_load_def filled_with_def) (simp add: take_map)

lemma load_init_at:
  "off + n \<le> length bs \<Longrightarrow> load_init off n (filled_with bs cells) = Inr (take n (drop off bs))"
  by (simp add: load_init_def mem_load_def filled_with_def) (simp add: drop_map take_map)

lemma load_byte_at: "off < length bs \<Longrightarrow> load_byte off (filled_with bs cells) = Inr (bs ! off)"
  by (simp add: load_byte_def load_init_at take_Suc_conv_app_nth hd_drop_conv_nth)

lemma c_string_filled: "0 \<notin> set s \<Longrightarrow> c_string (filled_with s (Some 0 # cells)) = Inr s"
  unfolding filled_with_def by (rule c_string_terminated)

lemma fresh_array: "replicate n None = filled_with [] (replicate n None)"
  by (simp add: filled_with_def)

section \<open>Credentials\<close>

text \<open>What \<open>send\<close> does with its next result.\<close>

definition after_send :: "byte list \<Rightarrow> client_io \<Rightarrow> int \<times> client_io" where
  "after_send bs w =
     (case ci_sends w of
        [] \<Rightarrow> (-1, w\<lparr>ci_sent := ci_sent w @ [bs]\<rparr>)
      | r # rs \<Rightarrow> (r, w\<lparr>ci_sent := ci_sent w @ [bs], ci_sends := rs\<rparr>))"

lemma sock_send_filled:
  "n = length bs \<Longrightarrow> sock_send (filled_with bs cells) n w = Inr (after_send bs w)"
  by (simp add: sock_send_def load_init_filled after_send_def)

definition user_of :: "byte list \<Rightarrow> byte list \<Rightarrow> cl_user" where
  "user_of u p = \<lparr>cu_username = Ptr u, cu_password = Ptr p, cu_credentials = Some True\<rparr>"

lemma client_credentials_sent:
  "send_credentials (user_of u p) w =
     (if length u + length p \<le> 506
      then Inr (after_send (0x01 # of_nat (length u) # u @ of_nat (length p) # p) w)
      else Inl Undefined)"
proof -
  have one: "store_bytes 0 [0x01, of_nat (length u)] (replicate 510 None) =
      Inr (filled_with [0x01, of_nat (length u)] (replicate 508 None))"
    by (subst fresh_array) (simp add: store_at_end)
  show ?thesis
    by (auto simp: send_credentials_def user_of_def one strcpy_at_end store_at_end sock_send_filled Let_def)
qed

section \<open>Words of the standard input\<close>

text \<open>A word that \<open>scanf\<close> reads, and the input from a word on.\<close>

definition a_word :: "byte list \<Rightarrow> bool" where
  "a_word u \<longleftrightarrow> u \<noteq> [] \<and> 0 \<notin> set u \<and> (\<forall>c \<in> set u. \<not> isspace c)"

text \<open>Lines typed by the user, and the input after the first of them was read up to its end.\<close>

definition typed :: "byte list list \<Rightarrow> byte list" where
  "typed us = concat (map (\<lambda>u. u @ [0x0A]) us)"

lemma typed_simps [simp]: "typed [] = []" "typed (u # us) = u @ 0x0A # typed us"
  by (simp_all add: typed_def)

lemma scan_word_text:
  assumes u: "a_word u" and s: "ci_stdin w = 0x0A # typed (u # us)"
  shows "scan_word (replicate n None) w =
    (if length u < n
     then Inr (filled_with u (Some 0 # replicate (n - Suc (length u)) None), w\<lparr>ci_stdin := 0x0A # typed us\<rparr>)
     else Inl Undefined)"
proof -
  have sp: "isspace 0x0A" by (simp add: isspace_def)
  obtain c v where v: "u = c # v" "\<not> isspace c" using u by (cases u) (auto simp: a_word_def)
  then have drop: "dropWhile isspace (ci_stdin w) = u @ 0x0A # typed us" using s sp by simp
  have take: "takeWhile (\<lambda>c. \<not> isspace c) (u @ 0x0A # typed us) = u"
    using u sp by (subst takeWhile_append2) (auto simp: a_word_def)
  have "strcpy 0 u (replicate n None) =
    (if length u < n then Inr (filled_with u (Some 0 # replicate (n - Suc (length u)) None)) else Inl Undefined)"
    by (subst fresh_array) (simp add: strcpy_at_end)
  then show ?thesis using drop take v by (simp add: scan_word_def Let_def)
qed

lemma scan_int_text:
  assumes "\<forall>c \<in> set ds. isdigit c" and "ds \<noteq> []" and "digits_value 0 ds < 2 ^ 31" and "0 \<le> digits_value 0 ds"
    and "ci_stdin w = typed (ds # us)"
  shows "scan_int w = Inr (Some (digits_value 0 ds), w\<lparr>ci_stdin := 0x0A # typed us\<rparr>)"
proof -
  obtain c v where v: "ds = c # v" "isdigit c" using assms(1,2) by (cases ds) auto
  then have c: "\<not> isspace c" "c \<noteq> 0x2D" "c \<noteq> 0x2B"
    by (auto simp: isspace_def isdigit_def word_le_nat_alt)
  have "takeWhile isdigit (ds @ 0x0A # typed us) = ds"
    using assms(1) by (subst takeWhile_append2) (auto simp: isdigit_def)
  then show ?thesis
    using v c assms by (simp add: scan_int_def Let_def)
qed

lemma say_simps [simp]:
  "ci_stdin (say l w) = ci_stdin w" "ci_replies (say l w) = ci_replies w" "ci_sends (say l w) = ci_sends w"
  "ci_sent (say l w) = ci_sent w" "ci_append (say l w) = ci_append w" "ci_out (say l w) = ci_out w @ [l]"
  by (simp_all add: say_def)

section \<open>The requests with arguments\<close>

text \<open>The same connection: nothing was sent or received since.\<close>

definition same_socket :: "client_io \<Rightarrow> client_io \<Rightarrow> bool" where
  "same_socket w w' \<longleftrightarrow> ci_sends w' = ci_sends w \<and> ci_sent w' = ci_sent w \<and> ci_replies w' = ci_replies w \<and>
     ci_append w' = ci_append w"

lemma add_user_built:
  assumes "a_word u" and "a_word p" and "ci_stdin w = 0x0A # typed [u, p]"
    and "buf = filled_with [0x0A] (replicate 511 None)"
  shows "if length u \<le> 254 \<and> length p \<le> 254
    then \<exists>w' cells. add_user buf w = Inr (int (length u + length p + 3),
        filled_with (0x0A # encode_field u @ encode_field p) cells, w') \<and> same_socket w w'
    else add_user buf w = Inl Undefined"
proof -
  let ?w1 = "say (Out ''Enter new username: '') w\<lparr>ci_stdin := 0x0A # typed [p]\<rparr>"
  let ?w2 = "say (Out ''Enter new password: '') ?w1"
  have u: "scan_word (replicate 255 None) (say (Out ''Enter new username: '') w) =
    (if length u < 255 then Inr (filled_with u (Some 0 # replicate (254 - length u) None), ?w1) else Inl Undefined)"
    using scan_word_text [OF assms(1), of "say (Out ''Enter new username: '') w" "[p]" 255] assms(3) by simp
  have p: "scan_word (replicate 255 None) ?w2 =
    (if length p < 255 then Inr (filled_with p (Some 0 # replicate (254 - length p) None),
       ?w2\<lparr>ci_stdin := 0x0A # typed []\<rparr>) else Inl Undefined)"
    using scan_word_text [OF assms(2), of ?w2 "[]" 255] by simp
  have s: "c_string (filled_with u (Some 0 # cells)) = Inr u" "c_string (filled_with p (Some 0 # cells)) = Inr p" for cells
    using assms(1,2) by (simp_all add: c_string_filled a_word_def)
  show ?thesis
    using assms(4)
    by (auto simp: add_user_def u p [simplified] s store_at_end strcpy_at_end encode_field_def same_socket_def Let_def)
qed

lemma delete_user_built:
  assumes "a_word u" and "ci_stdin w = 0x0A # typed [u]"
    and "buf = filled_with [0x0B] (replicate 511 None)"
  shows "if length u \<le> 254
    then \<exists>w' cells. delete_user buf w = Inr (int (length u + 2), filled_with (0x0B # encode_field u) cells, w') \<and>
      same_socket w w'
    else delete_user buf w = Inl Undefined"
proof -
  have u: "scan_word (replicate 255 None) (say (Out ''Enter username to delete: '') w) =
    (if length u < 255 then Inr (filled_with u (Some 0 # replicate (254 - length u) None),
       say (Out ''Enter username to delete: '') w\<lparr>ci_stdin := 0x0A # typed []\<rparr>) else Inl Undefined)"
    using scan_word_text [OF assms(1), of "say (Out ''Enter username to delete: '') w" "[]" 255] assms(2) by simp
  have s: "c_string (filled_with u (Some 0 # cells)) = Inr u" for cells
    using assms(1) by (simp add: c_string_filled a_word_def)
  show ?thesis
    using assms(3)
    by (auto simp: delete_user_def u [simplified] s store_at_end strcpy_at_end encode_field_def same_socket_def)
qed

text \<open>A request is built, and goes out in one call of \<open>send\<close>.\<close>

lemma request_sent:
  assumes "\<forall>c \<in> set ds. isdigit c" "ds \<noteq> []" "digits_value 0 ds = i" "0 \<le> i" "i \<le> 13"
    and "ci_stdin w = typed (ds # us)"
    and "\<And>w1. same_socket w w1 \<Longrightarrow> ci_stdin w1 = 0x0A # typed us \<Longrightarrow>
      \<exists>w2 cells. build_request i w1 = Inr (int (length msg), filled_with msg cells, w2) \<and> same_socket w1 w2"
  shows "\<exists>w'. send_request w = Inr (fst (after_send msg w'), i, snd (after_send msg w')) \<and> same_socket w w'"
proof -
  let ?w0 = "say (Out ''Enter index request: '') w"
  let ?w1 = "?w0\<lparr>ci_stdin := 0x0A # typed us\<rparr>"
  have "scan_int ?w0 = Inr (Some i, ?w1)"
    using scan_int_text [OF assms(1,2), of ?w0 us] assms(3-6) by simp
  moreover obtain w2 cells where "build_request i ?w1 = Inr (int (length msg), filled_with msg cells, w2)"
    "same_socket ?w1 w2" using assms(7) [of ?w1] by (auto simp: same_socket_def)
  ultimately show ?thesis
    by (intro exI [of _ w2])
      (simp add: send_request_def sock_send_filled same_socket_def split: prod.split)
qed

lemma request_fails:
  assumes "\<forall>c \<in> set ds. isdigit c" "ds \<noteq> []" "digits_value 0 ds = i" "0 \<le> i" "i \<le> 13"
    and "ci_stdin w = typed (ds # us)"
    and "\<And>w1. ci_stdin w1 = 0x0A # typed us \<Longrightarrow> build_request i w1 = Inl Undefined"
  shows "send_request w = Inl Undefined"
proof -
  let ?w0 = "say (Out ''Enter index request: '') w"
  have "scan_int ?w0 = Inr (Some i, ?w0\<lparr>ci_stdin := 0x0A # typed us\<rparr>)"
    using scan_int_text [OF assms(1,2), of ?w0 us] assms(3-6) by simp
  then show ?thesis by (simp add: send_request_def assms(7))
qed

lemma request_array:
  "0 \<le> i \<Longrightarrow> i \<le> 13 \<Longrightarrow> store_bytes 0 [of_int i] (replicate 512 None) =
    Inr (filled_with [of_int i] (replicate 511 None))"
  by (subst fresh_array) (simp add: store_at_end)

section \<open>Replies\<close>

text \<open>A reply that fits in the array of 500 bytes and comes in one piece.\<close>

lemma reply_received:
  assumes "ci_replies w = Some bs # rs" and "length bs \<le> 500"
  shows "sock_recv (replicate 500 None) 500 w =
    Inr (int (length bs), filled_with bs (replicate (500 - length bs) None), w\<lparr>ci_replies := rs\<rparr>)"
proof -
  have "store_bytes 0 bs (replicate 500 None) = Inr (filled_with bs (replicate (500 - length bs) None))"
    using assms(2) by (subst fresh_array) (simp add: store_at_end)
  then show ?thesis using assms by (simp add: sock_recv_def)
qed

lemma two_bytes_received:
  "ci_replies w = Some [a, b] # rs \<Longrightarrow> credentials_response w = Inr (b, w\<lparr>ci_replies := rs\<rparr>)"
proof -
  assume "ci_replies w = Some [a, b] # rs"
  moreover have "store_bytes 0 [a, b] (replicate 2 None) = Inr (filled_with [a, b] [])"
    by (subst fresh_array) (simp add: store_at_end)
  ultimately show ?thesis
    by (simp add: credentials_response_def two_byte_response_def sock_recv_def load_byte_at)
qed

lemma strncpy_name: "0 \<notin> set s \<Longrightarrow> strncpy_bytes (length s) (map Some s @ rest) = Inr s"
  by (induction s) auto

lemma length_encode_field: "length (encode_field s) = Suc (length s)"
  by (simp add: encode_field_def)

lemma list_from_names:
  assumes "\<forall>s \<in> set names. length s < 256 \<and> 0 \<notin> set s" and "length aux = 256"
  shows "list_from (filled_with (pre @ concat (map encode_field names)) cells) (length names) (length pre) aux w =
    Inr (w\<lparr>ci_out := ci_out w @ map Out_user names\<rparr>)"
  using assms
proof (induction names arbitrary: pre aux w)
  case Nil
  then show ?case by simp
next
  case (Cons s names)
  let ?rest = "concat (map encode_field names)"
  let ?buf = "filled_with ((pre @ encode_field s) @ ?rest) cells"
  have len: "unat (of_nat (length s) :: byte) = length s" using Cons.prems(1) by (simp add: unat_of_nat_byte)
  have byte: "load_byte (length pre) ?buf = Inr (of_nat (length s))"
    by (subst load_byte_at) (simp_all add: encode_field_def nth_append)
  have "drop (length pre + 1) ?buf = map Some s @ map Some ?rest @ cells"
    by (simp add: filled_with_def encode_field_def)
  then have copied: "strncpy_bytes (length s) (drop (length pre + 1) ?buf) = Inr s"
    using Cons.prems(1) by (simp add: strncpy_name)
  obtain aux' where aux': "store_bytes 0 (s @ [0]) aux = Inr aux'" "c_string aux' = Inr s" "length aux' = 256"
    using Cons.prems by (auto simp: store_bytes_def mem_store_def c_string_terminated)
  have "list_from ?buf (length names) (length (pre @ encode_field s)) aux' (say (Out_user s) w) =
      Inr (say (Out_user s) w\<lparr>ci_out := ci_out (say (Out_user s) w) @ map Out_user names\<rparr>)"
    using Cons.IH [of aux' "pre @ encode_field s" "say (Out_user s) w"] Cons.prems(1) aux'(3) by simp
  then show ?case
    using byte copied aux'(1,2) len
    by (simp add: length_encode_field say_def Let_def add.assoc)
qed

lemma encode_users_fields: "encode_users names = [0x00, of_nat (length names)] @ concat (map encode_field names)"
  by (simp add: encode_users_def encode_field_def [abs_def])

lemma list_users_reply:
  assumes "buffer_inv b" and "buffer_space b < 2 ^ 64" and "holds (users g) (nusers g) accounts"
    and "\<forall>s \<in> set (map fst accounts). length s < 2 ^ 64"
    and "length (encode_users (map fst accounts)) \<le> buffer_space b"
  obtains b' where "list_users_mng_request_marshall g b = Inr b'"
    and "buffer_contents b' = buffer_contents b @ encode_users (map fst accounts)"
proof -
  have len: "length (encode_users (map fst accounts)) = 2 + length accounts + sum_list (map length (map fst accounts))"
    by (simp only: length_encode_users length_map)
  then have space: "2 \<le> buffer_space b" "2 + sum_list (map length (map fst accounts)) \<le> buffer_space b"
    using assms(5) by simp_all
  obtain b' where b': "buffer_append b (encode_users (map fst accounts)) = Inr b'"
    "buffer_contents b' = buffer_contents b @ encode_users (map fst accounts)"
    by (rule buffer_append_spec [OF assms(1,5)])
  show ?thesis
    by (rule that [of b'])
      (use list_users_spec [OF assms(1) space(1) assms(2,3) refl assms(4)] space(2) b' in simp_all)
qed

lemma u32_bytes_joined:
  "ucast (u32_bytes v ! 0) OR push_bit 8 (ucast (u32_bytes v ! 1)) OR push_bit 16 (ucast (u32_bytes v ! 2)) OR
    push_bit 24 (ucast (u32_bytes v ! 3)) = v" for v :: u32
proof (rule bit_word_eqI)
  fix n assume "n < LENGTH(32)"
  then show "bit (ucast (u32_bytes v ! 0) OR push_bit 8 (ucast (u32_bytes v ! 1)) OR
      push_bit 16 (ucast (u32_bytes v ! 2)) OR push_bit 24 (ucast (u32_bytes v ! 3)) :: u32) n = bit v n"
    by (cases "24 \<le> n"; cases "16 \<le> n") (auto simp: u32_bytes_def bit_simps)
qed

lemma cast_uint32_reply: "cast_uint32 (filled_with (s # u32_bytes v) cells) = Inr v"
proof -
  have "length (u32_bytes v) = 4" by (simp add: u32_bytes_def)
  then have "load_init 1 4 (filled_with (s # u32_bytes v) cells) = Inr (u32_bytes v)"
    by (subst load_init_at) simp_all
  then show ?thesis by (simp only: cast_uint32_def bind_res_simps u32_bytes_joined)
qed

section \<open>Properties\<close>

text \<open>
  \<open>C27\<close> The requests about users. When the index 10 and a name and a password are typed, each of at
  most 254 bytes, the client sends in one call the index and the two fields that the server's parser
  of that request reads; with the index 11 and a name, the index and that field. A longer word is
  written past the array it is read into.
\<close>

theorem client_user_requests:
  assumes "a_word u" and "a_word p"
  shows "(ci_stdin w = typed [bytes_of ''10'', u, p] \<longrightarrow>
      (if length u \<le> 254 \<and> length p \<le> 254
       then \<exists>w'. send_request w = Inr (fst (after_send (0x0A # encode_field u @ encode_field p) w'), 10,
           snd (after_send (0x0A # encode_field u @ encode_field p) w')) \<and> same_socket w w'
       else send_request w = Inl Undefined)) \<and>
    (ci_stdin w = typed [bytes_of ''11'', u] \<longrightarrow>
      (if length u \<le> 254
       then \<exists>w'. send_request w = Inr (fst (after_send (0x0B # encode_field u) w'), 11,
           snd (after_send (0x0B # encode_field u) w')) \<and> same_socket w w'
       else send_request w = Inl Undefined))"
proof (intro conjI impI)
  have digits: "\<forall>c \<in> set (bytes_of ''10''). isdigit c" "\<forall>c \<in> set (bytes_of ''11''). isdigit c"
    by (simp_all add: bytes_of_def isdigit_def)
  have dval: "digits_value 0 (bytes_of ''10'') = 10" "digits_value 0 (bytes_of ''11'') = 11"
    by (simp_all add: bytes_of_def)
  show "if length u \<le> 254 \<and> length p \<le> 254
    then \<exists>w'. send_request w = Inr (fst (after_send (0x0A # encode_field u @ encode_field p) w'), 10,
        snd (after_send (0x0A # encode_field u @ encode_field p) w')) \<and> same_socket w w'
    else send_request w = Inl Undefined" if s: "ci_stdin w = typed [bytes_of ''10'', u, p]"
  proof -
    have built: "build_request 10 w1 = add_user (filled_with [0x0A] (replicate 511 None)) w1" for w1
      using request_array [of 10] by (simp add: build_request_def)
    show ?thesis
    proof (cases "length u \<le> 254 \<and> length p \<le> 254")
      case True
      have "\<exists>w2 cells. build_request 10 w1 = Inr (int (length (0x0A # encode_field u @ encode_field p)), filled_with (0x0A # encode_field u @ encode_field p) cells, w2) \<and>
          same_socket w1 w2" if "ci_stdin w1 = 0x0A # typed [u, p]" for w1
        using add_user_built [OF assms that refl] True built by (auto simp: encode_field_def)
      then have "\<exists>w'. send_request w = Inr (fst (after_send (0x0A # encode_field u @ encode_field p) w'), 10, snd (after_send (0x0A # encode_field u @ encode_field p) w')) \<and> same_socket w w'"
        by (intro request_sent [OF digits(1) _ dval(1) _ _ s]) simp_all
      then show ?thesis using True by simp
    next
      case False
      have "build_request 10 w1 = Inl Undefined" if "ci_stdin w1 = 0x0A # typed [u, p]" for w1
        using add_user_built [OF assms that refl] False built by (auto simp: encode_field_def)
      then have "send_request w = Inl Undefined"
        by (intro request_fails [OF digits(1) _ dval(1) _ _ s]) simp_all
      then show ?thesis using False by simp
    qed
  qed
  show "if length u \<le> 254
    then \<exists>w'. send_request w = Inr (fst (after_send (0x0B # encode_field u) w'), 11,
        snd (after_send (0x0B # encode_field u) w')) \<and> same_socket w w'
    else send_request w = Inl Undefined" if s: "ci_stdin w = typed [bytes_of ''11'', u]"
  proof -
    have built: "build_request 11 w1 = delete_user (filled_with [0x0B] (replicate 511 None)) w1" for w1
      using request_array [of 11] by (simp add: build_request_def)
    show ?thesis
    proof (cases "length u \<le> 254")
      case True
      have "\<exists>w2 cells. build_request 11 w1 = Inr (int (length (0x0B # encode_field u)), filled_with (0x0B # encode_field u) cells, w2) \<and>
          same_socket w1 w2" if "ci_stdin w1 = 0x0A # typed [u]" for w1
        using delete_user_built [OF assms(1) that refl] True built by (auto simp: encode_field_def)
      then have "\<exists>w'. send_request w = Inr (fst (after_send (0x0B # encode_field u) w'), 11, snd (after_send (0x0B # encode_field u) w')) \<and> same_socket w w'"
        by (intro request_sent [OF digits(2) _ dval(2) _ _ s]) simp_all
      then show ?thesis using True by simp
    next
      case False
      have "build_request 11 w1 = Inl Undefined" if "ci_stdin w1 = 0x0A # typed [u]" for w1
        using delete_user_built [OF assms(1) that refl] False built by (auto simp: encode_field_def)
      then have "send_request w = Inl Undefined"
        by (intro request_fails [OF digits(2) _ dval(2) _ _ s]) simp_all
      then show ?thesis using False by simp
    qed
  qed
qed

text \<open>
  \<open>C28\<close> The list of users, from the server's table to the client's screen. When the reply of
  \<open>list_users_mng_request_marshall\<close> arrives whole, the client prints exactly the user names of the
  table, in order.
\<close>

theorem client_prints_user_list:
  assumes "buffer_inv b" and "buffer_contents b = []" and "buffer_space b < 2 ^ 64"
    and "holds (users g) (nusers g) accounts" and "\<forall>s \<in> set (map fst accounts). length s < 256 \<and> 0 \<notin> set s"
    and "length (encode_users (map fst accounts)) \<le> min 500 (buffer_space b)"
    and "list_users_mng_request_marshall g b = Inr b'"
    and "ci_replies w = Some (buffer_contents b') # rs" and "ci_append w = None"
  shows "\<exists>w'. request_response 1 w = Inr (0, w') \<and>
    ci_out w' = ci_out w @ Out ''List of active users on the server'' # map Out_user (map fst accounts)"
proof -
  let ?names = "map fst accounts"
  have short: "\<forall>s \<in> set ?names. length s < 2 ^ 64" using assms(5) by auto
  have fits: "length (encode_users ?names) \<le> buffer_space b" using assms(6) by simp
  have "buffer_contents b' = encode_users ?names"
    using assms(2,7) by (rule_tac list_users_reply [OF assms(1,3,4) short fits]) simp
  then have reply: "ci_replies w = Some (encode_users ?names) # rs" using assms(8) by simp
  have count: "unat (of_nat (length accounts) :: byte) = length accounts"
    using assms(4) by (simp add: unat_of_nat_byte holds_def MAX_USERS_def)
  let ?buf = "filled_with (encode_users ?names) (replicate (500 - length (encode_users ?names)) None)"
  let ?w1 = "say (Out ''List of active users on the server'') (w\<lparr>ci_replies := rs\<rparr>)"
  have "list_users ?buf ?w1 = Inr (?w1\<lparr>ci_out := ci_out ?w1 @ map Out_user ?names\<rparr>)"
    using list_from_names [of ?names "replicate 256 None" "[0x00, of_nat (length ?names)]" _ ?w1] assms(5) count
    by (simp add: list_users_def load_byte_at encode_users_fields numeral_2_eq_2)
  moreover have "load_byte 0 ?buf = Inr 0" by (simp add: load_byte_at encode_users_fields)
  ultimately show ?thesis
    using reply_received [OF reply] assms(6,9)
    by (simp add: request_response_def print_reply_def say_def)
qed

text \<open>
  \<open>C29\<close> A counter, from the server to the client. The client prints the value whose four bytes the
  reply carries, with the text of the index it asked for, and adds it to the file of option \<open>-f\<close>
  when there is one.
\<close>

theorem client_prints_counter:
  assumes "buffer_inv b" and "buffer_contents b = []" and "5 \<le> buffer_space b"
    and "uint_mng_request_marshall v b = Inr b'" and "2 \<le> i" and "i \<le> 9"
    and "ci_replies w = Some (buffer_contents b') # rs"
  shows "request_response i w = Inr (0, w\<lparr>ci_replies := rs, ci_out := ci_out w @ [Out_number (number_text i) v],
    ci_append := map_option (\<lambda>out. out @ [v]) (ci_append w)\<rparr>)"
proof -
  have "length (0x00 # u32_bytes v) \<le> 5" by (simp add: u32_bytes_def)
  then obtain b2 where "marshall 5 (0x00 # u32_bytes v) b = Inr b2"
    "buffer_contents b2 = buffer_contents b @ (if 5 \<le> buffer_space b then 0x00 # u32_bytes v else [])"
    using marshall_spec [OF assms(1)] by metis
  then have reply: "ci_replies w = Some (0x00 # u32_bytes v) # rs"
    using assms(2-4,7) by (simp add: uint_mng_request_marshall_def)
  have len: "length (0x00 # u32_bytes v) \<le> 500" by (simp add: u32_bytes_def)
  have i: "i \<noteq> 0" "i \<noteq> 1" using assms(5) by simp_all
  show ?thesis
    using reply_received [OF reply len] assms(5,6) i
    by (cases "ci_append w") (simp_all add: request_response_def print_reply_def cast_uint32_reply load_byte_at say_def)
qed

text \<open>
  The file of option \<open>-f\<close>. When the request is one of those without a counter (the users, the
  authentication, the dissector), a success with a file open ends by writing to it a variable that
  was never assigned.
\<close>

theorem client_append_indeterminate:
  assumes "ci_replies w = Some [mng_status_succeeded] # rs" and "10 \<le> i" and "i \<le> 13"
  shows "request_response i w = (case ci_append w of
      None \<Rightarrow> Inr (0, w\<lparr>ci_replies := rs, ci_out := ci_out w @ [Out (done_text i)]\<rparr>)
    | Some out \<Rightarrow> Inl Undefined)"
proof -
  have "i \<noteq> 0" "i \<noteq> 1" "\<not> i \<le> 9" using assms(2) by simp_all
  then show ?thesis
    using reply_received [OF assms(1)] assms(2,3)
    by (cases "ci_append w")
      (simp_all add: request_response_def print_reply_def load_byte_at say_def mng_status_succeeded_def)
qed

text \<open>
  The message of the client's credentials: a user name and a password whose lengths add up to at
  most 506 are sent as the message of the sub-negotiation, in one call; longer ones write past the
  array of 510 bytes. (Nothing checks that each length fits in its byte.)
\<close>

theorem client_credentials_message:
  "send_credentials (user_of u p) w =
     (if length u + length p \<le> 506
      then Inr (after_send (0x01 # encode_field u @ encode_field p) w) else Inl Undefined)"
  by (simp add: client_credentials_sent encode_field_def)

text \<open>
  \<open>C26\<close> Logging in to the management service, end to end. The message of the client's credentials,
  delivered whole, is accepted by the server exactly when they are an account of the administrators'
  table, and the answer, delivered whole, tells the client so; an accepted client goes on to the
  requests.
\<close>

theorem client_logs_in:
  assumes "conn c = Inr d" and "\<not> isSocks d" and "client d = Cl_userpass (fresh_login mem)"
    and "empty_buffers d" and "ready_ctx c"
    and "send_credentials (user_of u p) w = Inr (r, w1)" and "io_recv (c_io c) = Some (last (ci_sent w1))"
    and "length u < 256" and "length p < 256" and "length u + length p + 3 \<le> buffer_space (read_buffer d)"
    and "0 \<notin> set u" and "0 \<notin> set p" and "holds (users (glob c)) (nusers (glob c)) accounts"
    and "holds (admins (glob c)) (nadmins (glob c)) administrators"
  shows "\<exists>c1 d1. auth_read c = Inr (USERPASS_WRITE, c1) \<and> conn c1 = Inr d1 \<and>
    (\<forall>c2 n. conn c2 = Inr d1 \<longrightarrow> ready_ctx c2 \<longrightarrow> io_send (c_io c2) = Some n \<longrightarrow> 2 \<le> n \<longrightarrow>
      (\<exists>c3 bs. auth_write c2 =
          Inr (if (u, p) \<in> set administrators then REQUEST_READ else done_state d, c3) \<and>
        events (c_world c3) = events (c_world c2) @ [Sent (key_fd c2) bs] \<and>
        (\<forall>w2 rs. ci_replies w2 = Some bs # rs \<longrightarrow> credentials_response w2 =
          Inr (if (u, p) \<in> set administrators then 0x00 else 0x01, w2\<lparr>ci_replies := rs\<rparr>))))"
proof -
  have "send_credentials (user_of u p) w = Inr (after_send (auth_message u p) w)"
    using client_credentials_sent [of u p w] assms(6)
    by (auto simp: auth_message_def user_message_def encode_field_def split: if_splits)
  then have "last (ci_sent w1) = auth_message u p"
    using assms(6) by (auto simp: after_send_def split: list.splits)
  then have msg: "io_recv (c_io c) = Some (auth_message u p)" using assms(7) by simp
  have t: "tables_ok (glob c)" using assms(13,14) by (auto simp: tables_ok_def)
  have v: "verdict c d u p = (if (u, p) \<in> set administrators then 0x00 else 0x01)"
    using assms(2) by (auto simp: verdict_def holds_accounts [OF assms(14)])
  have buf: "buffer_inv (read_buffer d)" "buffer_contents (read_buffer d) = []"
    "buffer_inv (write_buffer d)" "buffer_contents (write_buffer d) = []" "2 \<le> buffer_space (write_buffer d)"
    using assms(4) by (simp_all add: empty_buffers_def)
  obtain it where it: "selector_inv (c_sel c)" "registered (c_sel c) (key_fd c) = Some it" "io_malloc (c_io c) 0"
    using assms(5) by (auto simp: ready_ctx_def)
  obtain c1 d1 s g h where c1: "auth_read c = Inr (USERPASS_WRITE, c1)" "c1 = put_conn d1 (put_glob g (c\<lparr>c_sel := s\<rparr>))"
    "authentication d1 = verdict c d u p" "same_conn d d1" "write_buffer d1 = write_buffer d"
    by (rule auth_read_whole [OF assms(1,3) it(3) buf(1,2) msg assms(8-12) t it(1,2)])
  have d1: "done_state d1 = done_state d" using c1(4) by (simp add: same_conn_def)
  have answered: "\<exists>c3 bs. auth_write c2 =
        Inr (if (u, p) \<in> set administrators then REQUEST_READ else done_state d, c3) \<and>
      events (c_world c3) = events (c_world c2) @ [Sent (key_fd c2) bs] \<and>
      (\<forall>w2 rs. ci_replies w2 = Some bs # rs \<longrightarrow> credentials_response w2 =
        Inr (if (u, p) \<in> set administrators then 0x00 else 0x01, w2\<lparr>ci_replies := rs\<rparr>))"
    if c2: "conn c2 = Inr d1" "ready_ctx c2" "io_send (c_io c2) = Some n" "2 \<le> n" for c2 n
  proof -
    obtain it2 where it2: "selector_inv (c_sel c2)" "registered (c_sel c2) (key_fd c2) = Some it2"
      using c2(2) by (auto simp: ready_ctx_def)
    obtain c3 wb' s' where c3: "auth_write c2 = Inr (if authentication d1 \<noteq> 0 then done_state d1 else REQUEST_READ, c3)"
      "c3 = emit (Sent (key_fd c2) [0x01, authentication d1]) (put_conn (d1\<lparr>write_buffer := wb'\<rparr>) (c2\<lparr>c_sel := s'\<rparr>))"
      by (rule auth_write_whole [OF c2(1) buf(3,4,5)[folded c1(5)] c2(3,4) it2])
    then show ?thesis
      using v c1(3) d1
      by (intro exI [of _ c3] exI [of _ "[0x01, authentication d1]"]) (simp add: two_bytes_received)
  qed
  have "conn c1 = Inr d1" by (simp add: c1(2))
  then show ?thesis using c1(1) answered by blast
qed

section \<open>Examples\<close>

definition demo_client :: "byte list \<Rightarrow> byte list option list \<Rightarrow> client_io" where
  "demo_client input rs = \<lparr>ci_stdin = input, ci_replies = rs, ci_sends = [5], ci_sent = [], ci_out = [], ci_append = None\<rparr>"

lemma client_user_requests_witness:
  "a_word [0x61] \<and> a_word [0x62] \<and> (\<exists>w'. send_request (demo_client (typed [bytes_of ''10'', [0x61], [0x62]]) []) =
     Inr (5, 10, w') \<and> ci_sent w' = [[0x0A, 1, 0x61, 1, 0x62]])"
proof -
  have words: "a_word [0x61]" "a_word [0x62]" by (simp_all add: a_word_def isspace_def)
  obtain w' where "send_request (demo_client (typed [bytes_of ''10'', [0x61], [0x62]]) []) =
      Inr (fst (after_send (0x0A # encode_field [0x61] @ encode_field [0x62]) w'), 10,
        snd (after_send (0x0A # encode_field [0x61] @ encode_field [0x62]) w'))"
    "same_socket (demo_client (typed [bytes_of ''10'', [0x61], [0x62]]) []) w'"
    using client_user_requests [OF words, of "demo_client (typed [bytes_of ''10'', [0x61], [0x62]]) []"]
    by (auto simp: demo_client_def)
  then show ?thesis
    using words by (simp add: after_send_def same_socket_def demo_client_def encode_field_def)
qed

lemma client_prints_user_list_witness:
  "\<exists>b' w'. list_users_mng_request_marshall demo_globals (demo_space 40) = Inr b' \<and>
    request_response 1 (demo_client [] [Some (buffer_contents b')]) = Inr (0, w') \<and>
    ci_out w' = [Out ''List of active users on the server'', Out_user [0x61], Out_user [0x63]]"
proof -
  let ?as = "[([0x61], [0x62]), ([0x63], [0x64])] :: (byte list \<times> byte list) list"
  have space: "buffer_space (demo_space 40) < 2 ^ 64" by simp
  have short: "\<forall>s \<in> set (map fst ?as). length s < 2 ^ 64" by simp
  have fits: "length (encode_users (map fst ?as)) \<le> buffer_space (demo_space 40)"
    by (simp add: encode_users_def)
  obtain b' where b': "list_users_mng_request_marshall demo_globals (demo_space 40) = Inr b'"
    by (rule list_users_reply [OF demo_space(1) space demo_globals_holds(1) short fits])
  show ?thesis
    using client_prints_user_list [OF demo_space(1,3) space demo_globals_holds(1) _ _ b',
        of "demo_client [] [Some (buffer_contents b')]" "[]"] b'
    by (auto simp: demo_client_def encode_users_def)
qed

lemma client_prints_counter_witness:
  "\<exists>b'. uint_mng_request_marshall 7 (demo_space 8) = Inr b' \<and>
    request_response 2 (demo_client [] [Some (buffer_contents b')]) =
      Inr (0, (demo_client [] [])\<lparr>ci_out := [Out_number ''Amount of historic connections to the server: '' 7]\<rparr>)"
proof -
  have "length (0x00 # u32_bytes 7) \<le> 5" by (simp add: u32_bytes_def)
  then obtain b' where b': "uint_mng_request_marshall 7 (demo_space 8) = Inr b'"
    by (rule_tac marshall_spec [OF demo_space(1), of "0x00 # u32_bytes 7" 5 8]) (auto simp: uint_mng_request_marshall_def)
  have "5 \<le> buffer_space (demo_space 8)" by simp
  then show ?thesis
    using client_prints_counter [OF demo_space(1,3) _ b', of 2 "demo_client [] [Some (buffer_contents b')]" "[]"] b'
    by (auto simp: demo_client_def number_text_def)
qed

lemma client_append_indeterminate_witness:
  "request_response 10 ((demo_client [] [Some [0]])\<lparr>ci_append := Some []\<rparr>) = Inl Undefined"
  using client_append_indeterminate [of "(demo_client [] [Some [0]])\<lparr>ci_append := Some []\<rparr>" "[]" 10]
  by (simp add: demo_client_def mng_status_succeeded_def)

definition demo_mng_login :: socks5 where
  "demo_mng_login = fresh_conn False 7 (Some USERPASS_READ) MNG_ERROR MNG_DONE\<lparr>client_addr := Sa_zero,
     client := Cl_userpass (fresh_login (io_substate (demo_io None)))\<rparr>"

lemma demo_mng_login_simps [simp]:
  "\<not> isSocks demo_mng_login" "done_state demo_mng_login = MNG_DONE" "empty_buffers demo_mng_login"
  "client demo_mng_login = Cl_userpass (fresh_login (io_substate (demo_io None)))"
  "buffer_space (read_buffer demo_mng_login) = 2048"
  using fresh_conn_buffers [of False 7 "Some USERPASS_READ" MNG_ERROR MNG_DONE]
  by (simp_all add: demo_mng_login_def empty_buffers_def) (simp_all add: fresh_conn_def)

definition admin_globals :: globals where
  "admin_globals = demo_globals\<lparr>admins := users demo_globals, nadmins := 2\<rparr>"

lemma admin_globals_holds:
  "holds (admins admin_globals) (nadmins admin_globals) [([0x61], [0x62]), ([0x63], [0x64])]"
  "holds (users admin_globals) (nusers admin_globals) [([0x61], [0x62]), ([0x63], [0x64])]"
  using demo_globals_holds(1) by (simp_all add: admin_globals_def) (simp add: demo_globals_def)

lemma client_logs_in_witness:
  "\<exists>r w1 c c1 d1. send_credentials (user_of [0x61] [0x62]) (demo_client [] []) = Inr (r, w1) \<and>
    conn c = Inr demo_mng_login \<and> io_recv (c_io c) = Some (last (ci_sent w1)) \<and>
    auth_read c = Inr (USERPASS_WRITE, c1) \<and> conn c1 = Inr d1"
proof -
  obtain s where s: "\<And>g rd wr d. ready_ctx (demo_ctx s g (demo_io rd\<lparr>io_send := wr\<rparr>) d)"
    using demo_ready by blast
  obtain r w1 where w1: "send_credentials (user_of [0x61] [0x62]) (demo_client [] []) = Inr (r, w1)"
    "last (ci_sent w1) = [1, 1, 0x61, 1, 0x62]"
    by (cases "after_send [1, 1, 0x61, 1, 0x62] (demo_client [] [])")
      (auto simp: client_credentials_sent after_send_def demo_client_def)
  let ?c = "demo_ctx s admin_globals (demo_io (Some [1, 1, 0x61, 1, 0x62])\<lparr>io_send := None\<rparr>) demo_mng_login"
  have holds: "holds (users (glob ?c)) (nusers (glob ?c)) [([0x61], [0x62]), ([0x63], [0x64])]"
    "holds (admins (glob ?c)) (nadmins (glob ?c)) [([0x61], [0x62]), ([0x63], [0x64])]"
    using admin_globals_holds by simp_all
  obtain c1 d1 where "auth_read ?c = Inr (USERPASS_WRITE, c1)" "conn c1 = Inr d1"
    using client_logs_in [of ?c demo_mng_login "io_substate (demo_io None)" "[0x61]" "[0x62]" "demo_client [] []" r w1,
        OF _ _ _ _ s w1(1) _ _ _ _ _ _ holds] w1(2)
    by (auto simp: demo_io_def)
  then show ?thesis
    using w1 by (intro exI [of _ r] exI [of _ w1] exI [of _ ?c] exI [of _ c1] exI [of _ d1]) (simp add: demo_io_def)
qed

end
