(* ===== verification/Relay.thy ===== *)
theory Relay
  imports Authentication
begin

text \<open>
  The relay as its two peers see it: over any sequence of events, the bytes sent to each end are a
  prefix of the bytes received from the other, and what is missing is in the buffer between them.
\<close>

section \<open>The state of a relay\<close>

definition relay_ok :: "socks5 \<Rightarrow> bool" where
  "relay_ok d \<longleftrightarrow> (\<exists>i j.
     client d = Cl_copy \<lparr>cp_fd = client_fd d, cp_rb = Read_buffer, cp_wb = Write_buffer,
       cp_interest = i, cp_other = Orig_side\<rparr> \<and>
     orig d = Or_copy \<lparr>cp_fd = origin_fd d, cp_rb = Write_buffer, cp_wb = Read_buffer,
       cp_interest = j, cp_other = Client_side\<rparr>) \<and>
     buffer_inv (read_buffer d) \<and> buffer_inv (write_buffer d)"

lemma relay_copy_of:
  assumes "relay_ok d"
  obtains h where "copy_of d s = Inr h" and "cp_fd h = (case s of Client_side \<Rightarrow> client_fd d | Orig_side \<Rightarrow> origin_fd d)"
    and "cp_rb h = (case s of Client_side \<Rightarrow> Read_buffer | Orig_side \<Rightarrow> Write_buffer)"
    and "cp_wb h = (case s of Client_side \<Rightarrow> Write_buffer | Orig_side \<Rightarrow> Read_buffer)"
    and "cp_other h = (case s of Client_side \<Rightarrow> Orig_side | Orig_side \<Rightarrow> Client_side)"
  using assms
  by (cases s) (auto simp: relay_ok_def copy_of_def as_client_copy_def as_orig_copy_def)

text \<open>The bytes in the buffer that \<open>s\<close> fills, and in the one it empties.\<close>

definition inbound :: "side \<Rightarrow> socks5 \<Rightarrow> byte list" where
  "inbound s d = buffer_contents (case s of Client_side \<Rightarrow> read_buffer d | Orig_side \<Rightarrow> write_buffer d)"

definition outbound :: "side \<Rightarrow> socks5 \<Rightarrow> byte list" where
  "outbound s d = buffer_contents (case s of Client_side \<Rightarrow> write_buffer d | Orig_side \<Rightarrow> read_buffer d)"

text \<open>What a handler received, and what it sent.\<close>

definition received :: "ctx \<Rightarrow> socks5 \<Rightarrow> side \<Rightarrow> byte list" where
  "received c d s =
     (case recv_bytes (c_io c)
        (buffer_space (case s of Client_side \<Rightarrow> read_buffer d | Orig_side \<Rightarrow> write_buffer d)) of
        None \<Rightarrow> [] | Some bs \<Rightarrow> bs)"

definition sent_to :: "nat \<Rightarrow> event list \<Rightarrow> byte list" where
  "sent_to fd es = concat (map (\<lambda>e. case e of Sent fd' bs \<Rightarrow> if fd' = fd then bs else [] | _ \<Rightarrow> []) es)"

definition new_events :: "ctx \<Rightarrow> ctx \<Rightarrow> event list" where
  "new_events c c' = drop (length (events (c_world c))) (events (c_world c'))"

lemma sent_to_append [simp]: "sent_to fd (es @ es') = sent_to fd es @ sent_to fd es'"
  and sent_to_simps [simp]: "sent_to fd [] = []" "sent_to fd [Sent fd bs] = bs"
    "sent_to fd [Shut_rd n] = []" "sent_to fd [Shut_wr n] = []" "fd' \<noteq> fd \<Longrightarrow> sent_to fd [Sent fd' bs] = []"
    "sent_to fd (e # e' # es) = sent_to fd [e] @ sent_to fd (e' # es)"
  by (simp_all add: sent_to_def)

section \<open>The two handlers\<close>

lemma compute_interests_same:
  assumes "copy_compute_interests s c = Inr c'"
  shows "conn c' = conn c \<and> events (c_world c') = events (c_world c) \<and> glob c' = glob c"
  using assms by (auto simp: copy_compute_interests_def set_interest_fd_def split: if_splits)

lemma copy_finish_same:
  assumes "copy_finish s c = Inr (j, c')"
  shows "conn c' = conn c \<and> events (c_world c') = events (c_world c) \<and> (j = COPY \<or> j = DONE)"
  using assms by (auto simp: copy_finish_def Let_def split: if_splits dest!: compute_interests_same)

lemma copy_read_result: "copy_read c = Inr (j, c') \<Longrightarrow> j \<in> {COPY, DONE}"
  and copy_write_result: "copy_write c = Inr (j, c') \<Longrightarrow> j \<in> {COPY, DONE}"
  by (auto simp: copy_read_def copy_write_def Let_def split: option.splits if_splits prod.splits
      dest!: copy_finish_same)

definition same_relay :: "socks5 \<Rightarrow> socks5 \<Rightarrow> bool" where
  "same_relay d d' \<longleftrightarrow> client_fd d' = client_fd d \<and> origin_fd d' = origin_fd d"

lemma copy_shut_relay:
  assumes "copy_shut s ev mine ev' theirs c = Inr c'" and "conn c = Inr d" and "relay_ok d"
    and "\<And>n. ev n \<in> {Shut_rd n, Shut_wr n}" and "\<And>n. ev' n \<in> {Shut_rd n, Shut_wr n}"
  shows "\<exists>d'. conn c' = Inr d' \<and> relay_ok d' \<and> same_relay d d' \<and> read_buffer d' = read_buffer d \<and>
    write_buffer d' = write_buffer d \<and>
    (\<forall>fd. sent_to fd (new_events c c') = [])"
proof -
  have quiet: "sent_to fd [ev n] = []" "sent_to fd [ev' n] = []" for fd n
    using assms(4) [of n] assms(5) [of n] by auto
  show ?thesis
    using assms(1-3)
    by (cases s) (auto simp: copy_shut_def copy_of_def as_client_copy_def as_orig_copy_def relay_ok_def
        put_copy_def same_relay_def quiet new_events_def Let_def split: if_splits)
qed

lemma copy_read_relay:
  assumes run: "copy_read c = Inr (j, c')" and d: "conn c = Inr d" "relay_ok d"
    and s: "copy_ptr d (key_fd c) = Some s"
  shows "\<exists>d'. conn c' = Inr d' \<and> relay_ok d' \<and> same_relay d d' \<and> inbound s d' = inbound s d @ received c d s \<and>
    outbound s d' = outbound s d \<and> (\<forall>fd. sent_to fd (new_events c c') = [])"
proof -
  obtain h where h: "copy_of d s = Inr h" "cp_rb h = (case s of Client_side \<Rightarrow> Read_buffer | Orig_side \<Rightarrow> Write_buffer)"
    by (rule relay_copy_of [OF d(2)])
  let ?b = "buf_of d (cp_rb h)"
  have b: "?b = (case s of Client_side \<Rightarrow> read_buffer d | Orig_side \<Rightarrow> write_buffer d)" "buffer_inv ?b"
    using h(2) d(2) by (auto simp: buf_of_def relay_ok_def split: side.splits)
  obtain c1 where fin: "copy_finish s c1 = Inr (j, c')"
    and c1: "(case recv_bytes (c_io c) (buffer_space ?b) of
         None \<Rightarrow> copy_shut s Shut_rd OP_READ Shut_wr OP_WRITE c
       | Some bs \<Rightarrow>
           bind_res (buffer_poke ?b bs)
             (\<lambda>b1. bind_res
               (if password_dissectors (glob c) = 0x00 then
                  password_consume (io_malloc (c_io c) 0) bs
                    (password_parser d, credentials_seen (c_world c))
                else Inr (password_parser d, credentials_seen (c_world c)))
               (\<lambda>(pp, log).
                 let n = of_nat (length bs);
                     g = add_bytes_transferred n (count_read n (glob c));
                     c1 = put_glob g c;
                     c2 = c1\<lparr>c_world := (c_world c1)\<lparr>credentials_seen := log\<rparr>\<rparr>
                 in bind_res (buffer_write_adv b1 (int (length bs)))
                      (\<lambda>b2. Inr (put_conn
                        (put_buf (cp_rb h) b2 (d\<lparr>password_parser := pp\<rparr>)) c2))))) = Inr c1"
    using run d(1) s h(1) buffer_write_ptr_inv [OF b(2)]
    by (auto simp: copy_read_def Let_def split: if_splits)
  note same = copy_finish_same [OF fin]
  show ?thesis
  proof (cases "recv_bytes (c_io c) (buffer_space ?b)")
    case None
    then have "received c d s = []" using b(1) by (simp add: received_def)
    moreover have "copy_shut s Shut_rd OP_READ Shut_wr OP_WRITE c = Inr c1" using c1 None by simp
    from copy_shut_relay [OF this d] show ?thesis
      using same \<open>received c d s = []\<close>
      by (cases s) (auto simp: inbound_def outbound_def new_events_def)
  next
    case (Some bs)
    then obtain b1 b2 pp log where b2: "buffer_poke ?b bs = Inr b1" "buffer_write_adv b1 (int (length bs)) = Inr b2"
      and conn1: "conn c1 = Inr (put_buf (cp_rb h) b2 (d\<lparr>password_parser := pp\<rparr>))"
      and ev: "events (c_world c1) = events (c_world c)"
      using c1 by (auto simp: Let_def put_glob_def conn_def put_conn_def split: prod.splits)
    have "bs = received c d s" using Some b(1) by (simp add: received_def)
    moreover have le: "length bs \<le> buffer_space ?b"
      using Some by (auto simp: recv_bytes_def split: option.splits if_splits)
    moreover have "buffer_append ?b bs = Inr b2" using b2 by (simp add: buffer_append_def)
    ultimately have "buffer_inv b2" "buffer_contents b2 = inbound s d @ received c d s"
      using buffer_append_spec [OF b(2) le] b(1) by (auto simp: inbound_def split: side.splits) 
    then show ?thesis
      using conn1 ev same d(2) h(2)
      by (cases s) (auto simp: put_buf_def relay_ok_def same_relay_def inbound_def outbound_def new_events_def)
  qed
qed

lemma copy_write_relay:
  assumes run: "copy_write c = Inr (j, c')" and d: "conn c = Inr d" "relay_ok d"
    and s: "copy_ptr d (key_fd c) = Some s"
  shows "\<exists>d' out. conn c' = Inr d' \<and> relay_ok d' \<and> same_relay d d' \<and> inbound s d' = inbound s d \<and>
    outbound s d = out @ outbound s d' \<and> sent_to (key_fd c) (new_events c c') = out \<and>
    out = (case io_send (c_io c) of None \<Rightarrow> [] | Some n \<Rightarrow> take n (outbound s d))"
proof -
  obtain h where h: "copy_of d s = Inr h" "cp_wb h = (case s of Client_side \<Rightarrow> Write_buffer | Orig_side \<Rightarrow> Read_buffer)"
    by (rule relay_copy_of [OF d(2)])
  let ?b = "buf_of d (cp_wb h)"
  have b: "?b = (case s of Client_side \<Rightarrow> write_buffer d | Orig_side \<Rightarrow> read_buffer d)" "buffer_inv ?b"
    using h(2) d(2) by (auto simp: buf_of_def relay_ok_def split: side.splits)
  obtain r c1 where r: "drain c ?b = Inr r" and fin: "copy_finish s c1 = Inr (j, c')"
    and c1: "(case r of
        None \<Rightarrow> copy_shut s Shut_wr OP_WRITE Shut_rd OP_READ c
      | Some (sent, b') \<Rightarrow>
          let n = of_nat (length sent);
              g = count_write n (add_bytes_transferred n (glob c))
          in Inr (emit (Sent (key_fd c) sent)
               (put_conn (put_buf (cp_wb h) b' d) (put_glob g c)))) = Inr c1"
    using run d(1) s h(1) by (auto simp: copy_write_def split: if_splits)
  note same = copy_finish_same [OF fin]
  show ?thesis
  proof (cases r)
    case None
    then have none: "io_send (c_io c) = None" using r drain_spec [OF b(2)] by (auto split: option.splits)
    have "copy_shut s Shut_wr OP_WRITE Shut_rd OP_READ c = Inr c1" using c1 None by simp
    from copy_shut_relay [OF this d] obtain d' where "conn c1 = Inr d'" "relay_ok d'" "same_relay d d'"
      "read_buffer d' = read_buffer d" "write_buffer d' = write_buffer d"
      "\<forall>fd. sent_to fd (new_events c c1) = []" by auto
    then show ?thesis
      using same none by (intro exI [of _ d'] exI [of _ "[]"])
        (simp add: inbound_def outbound_def new_events_def split: side.split)
  next
    case (Some p)
    obtain sent b' where p: "p = (sent, b')" by (cases p)
    obtain n where n: "io_send (c_io c) = Some n" "sent = take n (buffer_contents ?b)"
      "buffer_read_adv ?b (int (length sent)) = Inr b'"
      using r Some p drain_spec [OF b(2)] by (auto split: option.splits)
    obtain b'' where "buffer_read_adv ?b (int (length sent)) = Inr b''" "buffer_inv b''"
      "buffer_contents b'' = drop (length sent) (buffer_contents ?b)" "buf_limit b'' = buf_limit ?b"
      by (rule buffer_read_adv_spec [OF b(2), of "length sent"]) (simp add: n(2))
    then have b': "buffer_inv b'" "buffer_contents ?b = sent @ buffer_contents b'"
      using n by (auto simp: min_def)
    have c1': "c1 = emit (Sent (key_fd c) sent) (put_conn (put_buf (cp_wb h) b' d)
        (put_glob (count_write (of_nat (length sent)) (add_bytes_transferred (of_nat (length sent)) (glob c))) c))"
      using c1 Some p by (simp add: Let_def)
    let ?d' = "put_buf (cp_wb h) b' d"
    have "conn c' = Inr ?d'" using same c1' by simp
    moreover have "sent_to (key_fd c) (new_events c c') = sent"
      using same c1' by (simp add: new_events_def)
    moreover have "relay_ok ?d' \<and> same_relay d ?d' \<and> inbound s ?d' = inbound s d \<and> outbound s d = sent @ outbound s ?d'"
      using d(2) b' b(1) h(2)
      by (cases s) (auto simp: put_buf_def relay_ok_def same_relay_def inbound_def outbound_def)
    moreover have "sent = (case io_send (c_io c) of None \<Rightarrow> [] | Some n \<Rightarrow> take n (outbound s d))"
      using n(1,2) b(1) by (simp add: outbound_def split: side.split)
    ultimately show ?thesis by blast
  qed
qed

section \<open>The handlers do not fail\<close>

text \<open>Each end of the relay is registered, or is the absent descriptor.\<close>

definition end_fd :: "side \<Rightarrow> socks5 \<Rightarrow> int" where
  "end_fd s d = (case s of Client_side \<Rightarrow> client_fd d | Orig_side \<Rightarrow> origin_fd d)"

definition ends_registered :: "ctx \<Rightarrow> socks5 \<Rightarrow> bool" where
  "ends_registered c d \<longleftrightarrow> selector_inv (c_sel c) \<and>
     (\<forall>s. -1 \<le> end_fd s d) \<and> (\<forall>s fd. end_fd s d = int fd \<longrightarrow> registered (c_sel c) fd \<noteq> None)"

lemma ends_registered_cong [simp]:
  "ends_registered (put_conn d' c) d = ends_registered c d"
  "ends_registered (put_glob g c) d = ends_registered c d"
  "ends_registered (emit e c) d = ends_registered c d"
  "ends_registered (c\<lparr>c_world := w\<rparr>) d = ends_registered c d"
  by (simp_all add: ends_registered_def put_conn_def put_glob_def emit_def)

lemma compute_interests_ok:
  assumes "conn c = Inr d" "relay_ok d" "ends_registered c d"
  obtains c' where "copy_compute_interests s c = Inr c'" "conn c' = Inr d" "ends_registered c' d"
proof -
  obtain h where h: "copy_of d s = Inr h" "cp_fd h = end_fd s d"
    by (rule relay_copy_of [OF assms(2), of s]) (simp add: end_fd_def)
  show ?thesis
  proof (cases "end_fd s d = -1")
    case True
    then show ?thesis using that [of c] assms h by (simp add: copy_compute_interests_def)
  next
    case False
    moreover have "-1 \<le> end_fd s d" using assms(3) by (simp add: ends_registered_def)
    ultimately have "0 \<le> end_fd s d" by linarith
    then obtain fd where fd': "end_fd s d = int fd" by (metis nonneg_int_cases)
    then have "registered (c_sel c) fd \<noteq> None" using assms(3) by (simp add: ends_registered_def)
    with fd' obtain it where fd: "end_fd s d = int fd" "registered (c_sel c) fd = Some it" by auto
    let ?i = "copy_interest d h"
    obtain sel where sel: "selector_set_interest (c_sel c) (int fd) ?i = Inr (SELECTOR_SUCCESS, sel)"
      "selector_inv sel" "registered sel = (registered (c_sel c))(fd \<mapsto> it\<lparr>it_interest := ?i\<rparr>)"
      using selector_set_interest_spec [of "c_sel c" fd it ?i] fd(2) assms(3)
      by (metis ends_registered_def)
    have "copy_compute_interests s c = Inr (c\<lparr>c_sel := sel\<rparr>)"
      using assms(1) h fd(1) sel(1) by (simp add: copy_compute_interests_def set_interest_fd_def)
    moreover have "conn (c\<lparr>c_sel := sel\<rparr>) = Inr d" using assms(1) by (simp add: conn_def)
    moreover have "ends_registered (c\<lparr>c_sel := sel\<rparr>) d"
      using assms(3) sel(2,3) by (auto simp: ends_registered_def)
    ultimately show ?thesis by (rule that)
  qed
qed

lemma copy_finish_ok:
  assumes "conn c = Inr d" "relay_ok d" "ends_registered c d"
  shows "\<exists>j c'. copy_finish s c = Inr (j, c')"
proof -
  obtain h where h: "copy_of d s = Inr h" by (rule relay_copy_of [OF assms(2), of s])
  obtain c1 where c1: "copy_compute_interests s c = Inr c1" "conn c1 = Inr d" "ends_registered c1 d"
    by (rule compute_interests_ok [OF assms])
  obtain c2 where "copy_compute_interests (cp_other h) c1 = Inr c2"
    by (rule compute_interests_ok [OF c1(2) assms(2) c1(3)])
  then show ?thesis
    using assms(1) h c1(1) by (simp add: copy_finish_def Let_def)
qed

lemma ends_registered_same:
  "same_relay d d' \<Longrightarrow> ends_registered c d' = ends_registered c d"
  by (simp add: ends_registered_def end_fd_def same_relay_def cong: side.case_cong)

lemma copy_shut_ok:
  assumes "conn c = Inr d" "relay_ok d" "ends_registered c d"
  obtains c' d' where "copy_shut s ev mine ev' theirs c = Inr c'" "conn c' = Inr d'" "relay_ok d'"
    "ends_registered c' d'"
proof -
  have "\<exists>c' d'. copy_shut s ev mine ev' theirs c = Inr c' \<and> conn c' = Inr d' \<and> relay_ok d' \<and> same_relay d d' \<and>
      c_sel c' = c_sel c"
    using assms(1,2)
    by (cases s) (auto simp: copy_shut_def copy_of_def as_client_copy_def as_orig_copy_def relay_ok_def
        put_copy_def same_relay_def Let_def)
  then obtain c' d' where c': "copy_shut s ev mine ev' theirs c = Inr c'" "conn c' = Inr d'" "relay_ok d'"
    "same_relay d d'" "c_sel c' = c_sel c" by auto
  moreover have "ends_registered c' d'"
    using assms(3) ends_registered_same [OF c'(4), of c'] c'(5) by (simp add: ends_registered_def)
  ultimately show ?thesis using that by blast
qed

lemma put_buf_relay:
  assumes "relay_ok d" "buffer_inv b"
  shows "relay_ok (put_buf r b d)" "same_relay d (put_buf r b d)"
  using assms by (auto simp: relay_ok_def same_relay_def put_buf_def split: buffer_ref.split)

lemma relay_ok_password [simp]: "relay_ok (d\<lparr>password_parser := pp\<rparr>) = relay_ok d"
  "same_relay d (d\<lparr>password_parser := pp\<rparr>)"
  by (simp_all add: relay_ok_def same_relay_def)

lemma copy_write_ok:
  assumes c: "conn c = Inr d" "relay_ok d" "ends_registered c d" and s: "copy_ptr d (key_fd c) = Some s"
  shows "\<exists>j c'. copy_write c = Inr (j, c')"
proof -
  obtain h where h: "copy_of d s = Inr h" "cp_fd h = end_fd s d"
    by (rule relay_copy_of [OF c(2), of s]) (simp add: end_fd_def)
  have fd: "cp_fd h = int (key_fd c)"
    using s h(2) by (auto simp: copy_ptr_def end_fd_def split: if_splits)
  have b: "buffer_inv (buf_of d (cp_wb h))"
    using c(2) by (auto simp: relay_ok_def buf_of_def split: buffer_ref.split)
  show ?thesis
  proof (cases "io_send (c_io c)")
    case None
    obtain c1 d1 where "copy_shut s Shut_wr OP_WRITE Shut_rd OP_READ c = Inr c1"
      and c1: "conn c1 = Inr d1" "relay_ok d1" "ends_registered c1 d1" by (rule copy_shut_ok [OF c])
    then show ?thesis
      using c(1) s h(1) fd copy_finish_ok [OF c1, of s] drain_spec [OF b] None
      by (simp add: copy_write_def)
  next
    case (Some n)
    let ?sent = "take n (buffer_contents (buf_of d (cp_wb h)))"
    obtain b' where b': "buffer_read_adv (buf_of d (cp_wb h)) (int (length ?sent)) = Inr b'" "buffer_inv b'"
      by (rule buffer_read_adv_spec [OF b, of "length ?sent"]) simp
    let ?c1 = "emit (Sent (key_fd c) ?sent) (put_conn (put_buf (cp_wb h) b' d)
        (put_glob (count_write (of_nat (length ?sent)) (add_bytes_transferred (of_nat (length ?sent)) (glob c))) c))"
    have "\<exists>j c'. copy_finish s ?c1 = Inr (j, c')"
      using put_buf_relay [OF c(2) b'(2)] ends_registered_same [of d "put_buf (cp_wb h) b' d" c] c(3)
      by (intro copy_finish_ok [of _ "put_buf (cp_wb h) b' d"]) simp_all
    moreover have "drain c (buf_of d (cp_wb h)) = Inr (Some (?sent, b'))"
      using drain_spec [OF b, of c] Some b'(1) by simp
    ultimately show ?thesis
      using c(1) s h(1) fd by (simp add: copy_write_def Let_def)
  qed
qed

text \<open>The dissector does not fail either, in any state that it reaches.\<close>

definition dissector_ok :: "ctx \<Rightarrow> socks5 \<Rightarrow> bool" where
  "dissector_ok c d \<longleftrightarrow> password_dissectors (glob c) \<noteq> 0x00 \<or>
     (io_malloc (c_io c) 0 \<and> (\<exists>h. tracks h (password_parser d)))"

lemma password_consume_runs:
  "tracks h p \<Longrightarrow> \<exists>p' log'. password_consume True bs (p, log) = Inr (p', log') \<and> tracks (h @ bs) p'"
proof (induction bs arbitrary: h p log)
  case Nil
  then show ?case by simp
next
  case (Cons b bs)
  obtain st q log1 where s: "password_parser_feed True (p, log) b = Inr (st, q, log1)"
    "tracks (h @ [b]) (q\<lparr>pp_current := st\<rparr>)"
    using password_feed_tracked [OF Cons.prems, of b log] by (auto simp: tracked_step_def)
  from Cons.IH [OF s(2), of log1] show ?case using s(1) by simp
qed

lemma recv_bytes_length: "recv_bytes i n = Some bs \<Longrightarrow> length bs \<le> n"
  by (auto simp: recv_bytes_def split: option.splits if_splits)

lemma copy_read_ok:
  assumes c: "conn c = Inr d" "relay_ok d" "ends_registered c d" and s: "copy_ptr d (key_fd c) = Some s"
    and pw: "dissector_ok c d"
  shows "\<exists>j c'. copy_read c = Inr (j, c')"
proof -
  obtain h where h: "copy_of d s = Inr h" "cp_fd h = end_fd s d"
    by (rule relay_copy_of [OF c(2), of s]) (simp add: end_fd_def)
  have fd: "cp_fd h = int (key_fd c)"
    using s h(2) by (auto simp: copy_ptr_def end_fd_def split: if_splits)
  let ?b = "buf_of d (cp_rb h)"
  have b: "buffer_inv ?b"
    using c(2) by (auto simp: relay_ok_def buf_of_def split: buffer_ref.split)
  show ?thesis
  proof (cases "recv_bytes (c_io c) (buffer_space ?b)")
    case None
    obtain c1 d1 where "copy_shut s Shut_rd OP_READ Shut_wr OP_WRITE c = Inr c1"
      and c1: "conn c1 = Inr d1" "relay_ok d1" "ends_registered c1 d1" by (rule copy_shut_ok [OF c])
    then show ?thesis
      using c(1) s h(1) fd copy_finish_ok [OF c1, of s] buffer_write_ptr_inv [OF b] None
      by (simp add: copy_read_def Let_def)
  next
    case (Some bs)
    have "\<exists>pp log. (if password_dissectors (glob c) = 0x00 then
           password_consume (io_malloc (c_io c) 0) bs (password_parser d, credentials_seen (c_world c))
         else Inr (password_parser d, credentials_seen (c_world c))) = Inr (pp, log)"
    proof (cases "password_dissectors (glob c) = 0x00")
      case True
      then obtain hist where "io_malloc (c_io c) 0" "tracks hist (password_parser d)"
        using pw by (auto simp: dissector_ok_def)
      then show ?thesis
        using True password_consume_runs [of hist "password_parser d" bs "credentials_seen (c_world c)"] by auto
    qed simp
    then obtain pp log where pp: "(if password_dissectors (glob c) = 0x00 then
           password_consume (io_malloc (c_io c) 0) bs (password_parser d, credentials_seen (c_world c))
         else Inr (password_parser d, credentials_seen (c_world c))) = Inr (pp, log)" by blast
    have "length bs \<le> buffer_space ?b" by (rule recv_bytes_length [OF Some])
    then obtain b2 where "buffer_append ?b bs = Inr b2" "buffer_inv b2"
      by (rule buffer_append_spec [OF b])
    then obtain b1 where b2: "buffer_poke ?b bs = Inr b1" "buffer_write_adv b1 (int (length bs)) = Inr b2"
      "buffer_inv b2"
      by (cases "buffer_poke ?b bs") (auto simp: buffer_append_def)
    let ?d1 = "put_buf (cp_rb h) b2 (d\<lparr>password_parser := pp\<rparr>)"
    have d1: "relay_ok ?d1" "same_relay d ?d1"
      using put_buf_relay [of "d\<lparr>password_parser := pp\<rparr>" b2 "cp_rb h"] c(2) b2(3)
      by (simp_all add: same_relay_def)
    have "\<exists>j c'. copy_finish s (put_conn ?d1 (put_glob g c\<lparr>c_world := w\<rparr>)) = Inr (j, c')" for g w
      using d1 ends_registered_same [OF d1(2), of c] c(3)
      by (intro copy_finish_ok [of _ ?d1]) (simp_all add: ends_registered_def put_glob_def)
    then show ?thesis
      using c(1) s h(1) fd buffer_write_ptr_inv [OF b] Some pp b2
      by (simp add: copy_read_def Let_def)
  qed
qed

section \<open>Histories of a relay\<close>

text \<open>
  \<open>relayed d rcv snt\<close>: a connection started to relay, its handlers have run any number of times, on
  any input and with anything else going on between, and \<open>d\<close> is what it holds now. \<open>rcv s\<close> is all that
  came in from the end \<open>s\<close> (with what its buffer held at the start), \<open>snt s\<close> all that went out to it.
\<close>

inductive relayed :: "socks5 \<Rightarrow> (side \<Rightarrow> byte list) \<Rightarrow> (side \<Rightarrow> byte list) \<Rightarrow> bool" where
  start: "copy_init i c = Inr c' \<Longrightarrow> conn c = Inr d \<Longrightarrow> conn c' = Inr d' \<Longrightarrow>
    buffer_inv (read_buffer d) \<Longrightarrow> buffer_inv (write_buffer d) \<Longrightarrow>
    relayed d' (\<lambda>s. inbound s d) (\<lambda>s. [])"
| reads: "relayed d rcv snt \<Longrightarrow> conn c = Inr d \<Longrightarrow> copy_ptr d (key_fd c) = Some s \<Longrightarrow>
    copy_read c = Inr (j, c') \<Longrightarrow> conn c' = Inr d' \<Longrightarrow>
    relayed d' (rcv(s := rcv s @ received c d s)) snt"
| writes: "relayed d rcv snt \<Longrightarrow> conn c = Inr d \<Longrightarrow> copy_ptr d (key_fd c) = Some s \<Longrightarrow>
    copy_write c = Inr (j, c') \<Longrightarrow> conn c' = Inr d' \<Longrightarrow>
    relayed d' rcv (snt(s := snt s @ sent_to (key_fd c) (new_events c c')))"
| engine: "relayed d rcv snt \<Longrightarrow> relayed (d\<lparr>conn_current := cur, references := r\<rparr>) rcv snt"

lemma copy_init_relay:
  assumes "copy_init i c = Inr c'" "conn c = Inr d" "buffer_inv (read_buffer d)" "buffer_inv (write_buffer d)"
  shows "\<exists>d'. conn c' = Inr d' \<and> relay_ok d' \<and> read_buffer d' = read_buffer d \<and>
    write_buffer d' = write_buffer d \<and> same_relay d d'"
  using assms
  by (auto simp: copy_init_def Let_def relay_ok_def same_relay_def dest!: compute_interests_same)

definition other :: "side \<Rightarrow> side" where
  "other s = (case s of Client_side \<Rightarrow> Orig_side | Orig_side \<Rightarrow> Client_side)"

lemma outbound_other: "outbound s d = inbound (other s) d" and other_other [simp]: "other (other s) = s"
  by (auto simp: outbound_def inbound_def other_def split: side.split)

lemma other_cases: "(\<forall>t. P t) \<longleftrightarrow> P s \<and> P (other s)"
  by (metis (full_types) other_def side.exhaust side.simps(3,4))

text \<open>The invariant: all that came in at one end has gone out at the other, or waits in between.\<close>

lemma relayed_invariant:
  "relayed d rcv snt \<Longrightarrow> relay_ok d \<and> (\<forall>s. rcv s = snt (other s) @ inbound s d)"
proof (induction rule: relayed.induct)
  case (start i c c' d d')
  then show ?case
    using copy_init_relay [of i c c' d] by (auto simp: inbound_def split: side.split)
next
  case (reads d rcv snt c s j c' d')
  from copy_read_relay [OF reads(4) reads(2) _ reads(3)] reads have
    "relay_ok d'" "inbound s d' = inbound s d @ received c d s" "outbound s d' = outbound s d" by auto
  then show ?case
    using reads.IH by (auto simp: other_cases [of _ s] outbound_other other_def split: side.splits)
next
  case (writes d rcv snt c s j c' d')
  from copy_write_relay [OF writes(4) writes(2) _ writes(3)] writes have
    "relay_ok d'" "inbound s d' = inbound s d"
    "outbound s d = sent_to (key_fd c) (new_events c c') @ outbound s d'" by auto
  then show ?case
    using writes.IH by (auto simp: other_cases [of _ s] outbound_other other_def split: side.splits)
next
  case (engine d rcv snt cur r)
  then show ?case by (simp add: relay_ok_def inbound_def split: side.split)
qed

lemma copy_init_ok:
  assumes "conn c = Inr d" "buffer_inv (read_buffer d)" "buffer_inv (write_buffer d)" "ends_registered c d"
  shows "\<exists>c'. copy_init i c = Inr c'"
proof -
  let ?d = "d\<lparr>client := Cl_copy \<lparr>cp_fd = client_fd d, cp_rb = Read_buffer, cp_wb = Write_buffer,
        cp_interest = OP_READ OR OP_WRITE, cp_other = Orig_side\<rparr>,
      orig := Or_copy \<lparr>cp_fd = origin_fd d, cp_rb = Write_buffer, cp_wb = Read_buffer,
        cp_interest = OP_READ OR OP_WRITE, cp_other = Client_side\<rparr>\<rparr>"
  have r: "relay_ok ?d" "same_relay d ?d" using assms by (simp_all add: relay_ok_def same_relay_def)
  obtain c1 where c1: "copy_compute_interests Orig_side (put_conn ?d c) = Inr c1"
    "conn c1 = Inr ?d" "ends_registered c1 ?d"
    using assms(4) ends_registered_same [OF r(2)]
    by (rule_tac compute_interests_ok [of "put_conn ?d c" ?d Orig_side, OF _ r(1)]) simp_all
  obtain c2 where "copy_compute_interests Client_side c1 = Inr c2"
    by (rule compute_interests_ok [OF c1(2) r(1) c1(3)])
  then show ?thesis using assms(1) c1(1) by (auto simp: copy_init_def Let_def)
qed

section \<open>Properties\<close>

text \<open>
  \<open>C7\<close> What is relayed is what was received: at any time, from the moment a connection starts to relay
  and whatever the peers and the kernel do (short reads, short writes, errors, closed halves), the
  bytes sent to the origin followed by the bytes waiting in the read buffer are exactly the bytes
  received from the client, in order, and likewise from the origin to the client.
\<close>

theorem relay_integrity:
  assumes "relayed d rcv snt"
  shows "rcv Client_side = snt Orig_side @ buffer_contents (read_buffer d) \<and>
    rcv Orig_side = snt Client_side @ buffer_contents (write_buffer d)"
  using relayed_invariant [OF assms] by (simp add: inbound_def other_def)

text \<open>A relay of the demonstration connection, with a byte already waiting for the client.\<close>

definition demo_pending :: "buffer \<Rightarrow> socks5" where
  "demo_pending b = demo_fresh\<lparr>write_buffer := b\<rparr>"

lemma demo_pending_fds: "client_fd (demo_pending b) = 7" "origin_fd (demo_pending b) = -1"
  by (simp_all add: demo_pending_def demo_fresh_def fresh_conn_def)

lemma demo_ends:
  assumes "ready_ctx (demo_ctx s g i d)" "same_relay (demo_pending b) d"
  shows "ends_registered (demo_ctx s g i d) d" "copy_ptr d 7 = Some Client_side"
  using assms
  by (auto simp: ends_registered_def ready_ctx_def end_fd_def same_relay_def demo_pending_fds copy_ptr_def
      split: side.split)

theorem relay_integrity_witness:
  "\<exists>d rcv snt. relayed d rcv snt \<and> rcv Client_side = [1, 2, 3] \<and> snt Client_side = [9] \<and>
    buffer_contents (read_buffer d) = [1, 2, 3] \<and> buffer_contents (write_buffer d) = []"
proof -
  obtain s where s: "\<And>g rd wr d. ready_ctx (demo_ctx s g (demo_io rd\<lparr>io_send := wr\<rparr>) d)"
    using demo_ready by blast
  let ?g = "open_globals\<lparr>password_dissectors := 0x01\<rparr>"
  let ?c = "\<lambda>rd wr d. demo_ctx s ?g (demo_io rd\<lparr>io_send := wr\<rparr>) d"
  have e: "empty_buffers demo_fresh" "buffer_space (read_buffer demo_fresh) = 2048" by simp_all
  then have bs: "buffer_inv (write_buffer demo_fresh)" "length [0x09] \<le> buffer_space (write_buffer demo_fresh)"
    by (auto simp: empty_buffers_def)
  obtain b where b: "buffer_inv b" "buffer_contents b = [9]"
    using e(1) by (rule_tac buffer_append_spec [OF bs]) (simp add: empty_buffers_def)
  let ?d0 = "demo_pending b"
  have d0: "buffer_inv (read_buffer ?d0)" "buffer_inv (write_buffer ?d0)" "buffer_contents (read_buffer ?d0) = []"
    "write_buffer ?d0 = b" "buffer_space (read_buffer ?d0) = 2048"
    using e b by (simp_all add: empty_buffers_def demo_pending_def)
  have same0: "same_relay ?d0 ?d0" by (simp add: same_relay_def)
  obtain c1 where c1: "copy_init 0 (?c None None ?d0) = Inr c1"
    using copy_init_ok [of "?c None None ?d0" ?d0 0] d0(1,2) demo_ends(1) [OF s same0] by auto
  obtain d1 where d1: "conn c1 = Inr d1" "relay_ok d1" "read_buffer d1 = read_buffer ?d0" "write_buffer d1 = b"
    "same_relay ?d0 d1"
    using copy_init_relay [OF c1, of ?d0] d0(1,2,4) by auto
  have r1: "relayed d1 (\<lambda>s. inbound s ?d0) (\<lambda>s. [])"
    by (rule relayed.start [OF c1 _ d1(1) d0(1,2)]) simp
  let ?c2 = "?c (Some [1, 2, 3]) None d1"
  note ends1 = demo_ends [OF s d1(5)]
  obtain j2 c3 where c3: "copy_read ?c2 = Inr (j2, c3)"
    using copy_read_ok [of ?c2 d1 Client_side] ends1 d1(2) by (auto simp: dissector_ok_def)
  obtain d2 where d2: "conn c3 = Inr d2" "relay_ok d2" "same_relay d1 d2" "outbound Client_side d2 = outbound Client_side d1"
    using copy_read_relay [OF c3, of d1 Client_side] ends1 d1(2) by auto
  have r2: "relayed d2 ((\<lambda>s. inbound s ?d0)(Client_side := inbound Client_side ?d0 @ received ?c2 d1 Client_side)) (\<lambda>s. [])"
    by (rule relayed.reads [OF r1 _ _ c3 d2(1)]) (use ends1 in simp_all)
  let ?c4 = "?c None (Some 1) d2"
  have same2: "same_relay ?d0 d2" using d1(5) d2(3) by (simp add: same_relay_def)
  note ends2 = demo_ends [OF s same2]
  obtain j4 c5 where c5: "copy_write ?c4 = Inr (j4, c5)"
    using copy_write_ok [of ?c4 d2 Client_side] ends2 d2(2) by auto
  obtain d3 where d3: "conn c5 = Inr d3" "sent_to 7 (new_events ?c4 c5) = take 1 (outbound Client_side d2)"
    using copy_write_relay [OF c5, of d2 Client_side] ends2 d2(2) by (auto simp: demo_io_def)
  have r3: "relayed d3 ((\<lambda>s. inbound s ?d0)(Client_side := inbound Client_side ?d0 @ received ?c2 d1 Client_side))
      ((\<lambda>s. [])(Client_side := [] @ sent_to (key_fd ?c4) (new_events ?c4 c5)))"
    by (rule relayed.writes [OF r2 _ _ c5 d3(1)]) (use ends2 in simp_all)
  have "received ?c2 d1 Client_side = [1, 2, 3]"
    using d1(3) d0(5) by (simp add: received_def recv_bytes_def demo_io_def)
  moreover have "outbound Client_side d2 = [9]"
    using d2(4) d1(4) b(2) by (simp add: outbound_def)
  moreover have "inbound Client_side ?d0 = []" "inbound Orig_side ?d0 = [9]"
    using d0(3,4) b(2) by (simp_all add: inbound_def)
  ultimately have "relayed d3 ((\<lambda>s. inbound s ?d0)(Client_side := [1, 2, 3])) ((\<lambda>s. [])(Client_side := [9]))"
    "((\<lambda>s. inbound s ?d0)(Client_side := [1, 2, 3])) Orig_side = [9]"
    using r3 d3(2) by simp_all
  note end_state = this
  from end_state show ?thesis
    using relay_integrity [OF end_state(1)]
    by (intro exI [of _ d3] exI [of _ "(\<lambda>s. inbound s ?d0)(Client_side := [1, 2, 3])"]
        exI [of _ "(\<lambda>s. [])(Client_side := [9])"]) simp
qed



end
