(* ===== verification/Requests.thy ===== *)
theory Requests
  imports Relay
begin

text \<open>
  What becomes of a request: the connection to the address that was asked for, the reply that tells
  its outcome, and where the connection goes from there. The lemmas say what one call of a handler
  does when the message arrives in one piece and the reply leaves in one.
\<close>

section \<open>The selector\<close>

lemma interest_fd_ok:
  assumes "sel_ok (c_sel c)" and "registered (c_sel c) i = Some it"
  obtains s where "set_interest_fd (int i) op c = Inr (SELECTOR_SUCCESS, c\<lparr>c_sel := s\<rparr>)" and "sel_ok s"
    and "registered s = (registered (c_sel c))(i \<mapsto> it\<lparr>it_interest := op\<rparr>)"
proof -
  have "selector_inv (c_sel c)" using assms(1) by (simp add: sel_ok_def)
  from selector_set_interest_spec [OF this assms(2), of op] obtain s where
    "selector_set_interest (c_sel c) (int i) op = Inr (SELECTOR_SUCCESS, s)" "selector_inv s"
    "registered s = (registered (c_sel c))(i \<mapsto> it\<lparr>it_interest := op\<rparr>)" "fd_size s = fd_size (c_sel c)" by metis
  then show ?thesis using assms(1) by (intro that [of s]) (simp_all add: set_interest_fd_def sel_ok_def)
qed

lemma interest_key_sel:
  assumes "sel_ok (c_sel c)" and "registered (c_sel c) (key_fd c) = Some it"
  obtains s where "set_interest_key op c = Inr (SELECTOR_SUCCESS, c\<lparr>c_sel := s\<rparr>)" and "sel_ok s"
    and "registered s = (registered (c_sel c))(key_fd c \<mapsto> it\<lparr>it_interest := op\<rparr>)"
  using interest_fd_ok [OF assms, of op] unfolding set_interest_key_fd by metis

section \<open>The connection is begun\<close>

lemma connecting_init_ok:
  assumes d: "conn c = Inr d" "client d = Cl_request h"
    and sel: "sel_ok (c_sel c)" "registered (c_sel c) (key_fd c) = Some it"
    and io: "io_socket (c_io c) = Some n" "io_set_nio (c_io c)" "io_connect (c_io c) = EINPROGRESS" "io_register (c_io c)"
    and n: "registered (c_sel c) n = None" "n < ITEMS_MAX_SIZE"
  obtains c' where "connecting_init st c = Inr c'"
    and "conn c' = Inr (d\<lparr>orig := Or_conn \<lparr>cn_client_fd = client_fd d, cn_origin_fd = -1, cn_status = 0\<rparr>,
      origin_fd := int n, references := references d + 1\<rparr>)"
    and "registered (c_sel c') = (registered (c_sel c))(key_fd c \<mapsto> it\<lparr>it_interest := OP_NOOP\<rparr>,
      n \<mapsto> \<lparr>it_fd = int n, it_interest = OP_WRITE, it_handler = Some Socks5_handler, it_data = Some (key_data c)\<rparr>)"
    and "sel_ok (c_sel c')" and "events (c_world c') = events (c_world c)"
proof -
  let ?d1 = "d\<lparr>orig := Or_conn \<lparr>cn_client_fd = client_fd d, cn_origin_fd = -1, cn_status = status_succeeded\<rparr>,
    origin_fd := int n\<rparr>"
  let ?g = "glob c"
  let ?c1 = "put_glob (?g\<lparr>metrics_historic_connections_attempts := metrics_historic_connections_attempts ?g + 1\<rparr>)
    (put_conn ?d1 c)"
  have sel1: "sel_ok (c_sel ?c1)" "registered (c_sel ?c1) (key_fd ?c1) = Some it" using sel by simp_all
  obtain s where s: "set_interest_key OP_NOOP ?c1 = Inr (SELECTOR_SUCCESS, ?c1\<lparr>c_sel := s\<rparr>)" "sel_ok s"
    "registered s = (registered (c_sel ?c1))(key_fd ?c1 \<mapsto> it\<lparr>it_interest := OP_NOOP\<rparr>)"
    by (rule interest_key_sel [OF sel1])
  have ne: "n \<noteq> key_fd c" using n(1) sel(2) by auto
  have free: "registered s n = None" using s(3) n(1) ne by simp
  obtain s2 where s2: "selector_register True s (int n) (Some Socks5_handler) OP_WRITE (Some (key_data c)) =
      Inr (SELECTOR_SUCCESS, s2)" "sel_ok s2"
    "registered s2 = (registered s)(n \<mapsto>
      \<lparr>it_fd = int n, it_interest = OP_WRITE, it_handler = Some Socks5_handler, it_data = Some (key_data c)\<rparr>)"
    by (rule register_free [OF s(2) free n(2), of Socks5_handler OP_WRITE "Some (key_data c)"])
  let ?c2 = "?c1\<lparr>c_sel := s2\<rparr>"
  let ?c3 = "put_conn (?d1\<lparr>references := references d + 1\<rparr>) ?c2"
  have attempts: "connection (put_conn ?d1 c) = Inr (status_succeeded, ?c3)"
    using io(3,4) s(1) s2(1) by (simp add: connection_def register_origin_def add_reference_def Let_def)
  have "connecting_init st c = bind_res (connection (put_conn ?d1 c)) (\<lambda>(r, c2). set_conn_status r c2)"
    using d(1) io(1,2) by (simp add: connecting_init_def Let_def)
  also have "\<dots> = Inr ?c3" unfolding attempts by (cases d) (simp add: set_conn_status_def as_conn_def)
  finally show ?thesis
    using s(3) s2(2,3) by (intro that [of ?c3]) (simp_all add: status_succeeded_def)
qed

section \<open>The request is read\<close>

definition target_addr :: "address \<Rightarrow> byte list \<Rightarrow> sockaddr" where
  "target_addr dst port =
     (case dst of Ip4 a \<Rightarrow> Sa_in \<lparr>sin_addr = a, sin_port = port\<rparr>
      | Ip6 a \<Rightarrow> Sa_in6 \<lparr>sin6_addr = a, sin6_port = port\<rparr> | Domain h \<Rightarrow> Sa_zero)"

definition is_ip :: "address \<Rightarrow> bool" where
  "is_ip dst \<longleftrightarrow> (case dst of Domain _ \<Rightarrow> False | _ \<Rightarrow> True)"

lemma request_read_address:
  assumes d: "conn c = Inr d" "awaits_request (client d)"
    and buf: "buffer_inv (read_buffer d)" "buffer_contents (read_buffer d) = []"
    and msg: "io_recv (c_io c) = Some (encode_request dst [b1, b2])" "address_ok dst" "is_ip dst"
      "length (encode_request dst [b1, b2]) \<le> buffer_space (read_buffer d)"
  shows "\<exists>rb p r f dom len. request_read c = Inr (REQUEST_CONNECTING, put_conn (d\<lparr>read_buffer := rb,
      client := Cl_request \<lparr>rs_parser = Ptr p, rs_addr_family = f, rs_status = 0\<rparr>, origin_domain := dom,
      origin_addr_len := len, origin_addr := target_addr dst [b1, b2]\<rparr>) c) \<and>
    rp_request p = Ptr r \<and> rq_dest_addr_type r \<noteq> socks_req_addrtype_domain \<and> f \<noteq> socks_req_addrtype_domain \<and>
    empty_buffer rb \<and> buf_limit rb = buf_limit (read_buffer d)"
proof -
  obtain r0 p0 p f0 where p: "fresh_ok r0" "request_parser_init (Ptr r0) p0 = (0, p)"
    "client d = Cl_request \<lparr>rs_parser = Ptr p, rs_addr_family = f0, rs_status = 0\<rparr>"
    using d(2) by (auto simp: awaits_request_def)
  have ne: "encode_request dst [b1, b2] \<noteq> []" by (simp add: encode_request_def)
  have recv: "recv_bytes (c_io c) (buffer_space (read_buffer d)) = Some (encode_request dst [b1, b2])"
    by (rule recv_whole [OF msg(1) ne msg(4)])
  obtain rb where rb: "fill (read_buffer d) (encode_request dst [b1, b2]) = Inr rb" "buffer_inv rb"
    "buffer_contents rb = encode_request dst [b1, b2]" "buf_limit rb = buf_limit (read_buffer d)"
    using fill_spec [OF buf(1) msg(4)] buf(2) by auto
  obtain p' r where run: "run_parser request_parser_feed request_is_done p (rp_state p) False
      (buffer_contents rb) = Inr (p', request_done, False, [], True)"
    "rp_request p' = Ptr r" "request_holds r dst [b1, b2]"
    using request_run_encoded [OF p(2,1) msg(2), of b1 b2 "[]"] rb(3) by auto
  obtain rb' where rb': "request_consume rb p False = Inr (rb', p', request_done, False)" "empty_buffer rb'"
    "buf_limit rb' = buf_limit (read_buffer d)"
    using req.loop_result [OF rb(2) run(1)] rb(4) unfolding request_consume_def by metis
  show ?thesis
  proof (cases dst)
    case (Domain h)
    then show ?thesis using msg(3) by (simp add: is_ip_def)
  next
    case (Ip4 a)
    then have r: "rq_cmd r = socks_req_cmd_connect" "rq_dest_addr_type r = socks_req_addrtype_ipv4"
      "rq_dest r = Dest_in \<lparr>sin_addr = a, sin_port = [b1, b2]\<rparr>"
      using run(3) by (auto simp: request_holds_def request_target_def request_constants split: dest_union.splits)
    let ?d2 = "d\<lparr>read_buffer := rb', client := Cl_request \<lparr>rs_parser = Ptr p', rs_addr_family = socks_req_addrtype_ipv4,
      rs_status = 0\<rparr>, origin_domain := AF_INET, origin_addr_len := 16, origin_addr := target_addr dst [b1, b2]\<rparr>"
    have "request_read c = Inr (REQUEST_CONNECTING, put_conn ?d2 c)"
      using d(1) p(3) buf(1) recv rb(1) rb'(1) run(2) r Ip4
      by (simp add: request_read_def as_request_def buffer_write_ptr_inv status_succeeded_def request_process_def
          target_addr_def Let_def)
    then show ?thesis
      using run(2) r(2) rb'(2,3) by (intro exI [of _ rb'] exI [of _ p'] exI [of _ r] exI [of _ socks_req_addrtype_ipv4]
          exI [of _ AF_INET] exI [of _ 16]) (simp add: request_constants)
  next
    case (Ip6 a)
    then have r: "rq_cmd r = socks_req_cmd_connect" "rq_dest_addr_type r = socks_req_addrtype_ipv6"
      "rq_dest r = Dest_in6 \<lparr>sin6_addr = a, sin6_port = [b1, b2]\<rparr>"
      using run(3) by (auto simp: request_holds_def request_target_def request_constants split: dest_union.splits)
    let ?d2 = "d\<lparr>read_buffer := rb', client := Cl_request \<lparr>rs_parser = Ptr p', rs_addr_family = socks_req_addrtype_ipv6,
      rs_status = 0\<rparr>, origin_domain := AF_INET6, origin_addr_len := 28, origin_addr := target_addr dst [b1, b2]\<rparr>"
    have "request_read c = Inr (REQUEST_CONNECTING, put_conn ?d2 c)"
      using d(1) p(3) buf(1) recv rb(1) rb'(1) run(2) r Ip6
      by (simp add: request_read_def as_request_def buffer_write_ptr_inv status_succeeded_def request_process_def
          target_addr_def Let_def) (simp add: request_constants)
    then show ?thesis
      using run(2) r(2) rb'(2,3) by (intro exI [of _ rb'] exI [of _ p'] exI [of _ r] exI [of _ socks_req_addrtype_ipv6]
          exI [of _ AF_INET6] exI [of _ 28]) (simp add: request_constants)
  qed
qed

section \<open>The outcome is told\<close>

definition reply_bytes :: "byte \<Rightarrow> byte list" where
  "reply_bytes st = [0x05, st, 0x00, 0x01, 0, 0, 0, 0, 0, 0]"

lemma request_marshall_append:
  assumes "buffer_inv b" and "10 \<le> buffer_space b"
  obtains b' where "request_marshall st b = Inr (10, b')" and "buffer_inv b'"
    and "buffer_contents b' = buffer_contents b @ reply_bytes st" and "buffer_space b' = buffer_space b - 10"
proof -
  have len: "length (reply_bytes st) \<le> buffer_space b" using assms(2) by (simp add: reply_bytes_def)
  have ten: "length (reply_bytes st) = 10" by (simp add: reply_bytes_def)
  obtain b' where b': "buffer_append b (reply_bytes st) = Inr b'" "buffer_inv b'"
    "buffer_contents b' = buffer_contents b @ reply_bytes st" "buffer_space b' = buffer_space b - 10"
    using buffer_append_spec [OF assms(1) len] unfolding ten by metis
  have n: "int (length (reply_bytes st)) = 10" by (simp add: reply_bytes_def)
  have "request_marshall st b = bind_res (buffer_append b (reply_bytes st)) (\<lambda>b2. Inr (10, b2))"
    unfolding buffer_append_def n
    using assms(2) by (simp add: request_marshall_def buffer_write_ptr_inv [OF assms(1)] reply_bytes_def request_constants)
  then show ?thesis using b' that by simp
qed

text \<open>A connection that waits for the outcome of \<open>connect\<close>, with its two descriptors.\<close>

definition closable :: "request_parser ptr \<Rightarrow> bool" where
  "closable q \<longleftrightarrow> q = Null \<or> (\<exists>p r. q = Ptr p \<and> rp_request p = Ptr r)"

definition last_address :: "socks5 \<Rightarrow> bool" where
  "last_address d \<longleftrightarrow> origin_resolution_current d = Null \<or> (\<exists>a. origin_resolution_current d = Ptr [a])"

definition connecting_to :: "socks5 \<Rightarrow> nat \<Rightarrow> nat \<Rightarrow> bool" where
  "connecting_to d i n \<longleftrightarrow> client_fd d = int i \<and> origin_fd d = int n \<and> i \<noteq> n \<and>
     (\<exists>q f s. client d = Cl_request \<lparr>rs_parser = q, rs_addr_family = f, rs_status = s\<rparr> \<and> closable q \<and>
        (f = socks_req_addrtype_domain \<longrightarrow> (\<exists>as. origin_resolution d = Ptr as))) \<and>
     (\<exists>m. orig d = Or_conn \<lparr>cn_client_fd = int i, cn_origin_fd = m, cn_status = 0\<rparr>)"

definition both_registered :: "ctx \<Rightarrow> nat \<Rightarrow> nat \<Rightarrow> bool" where
  "both_registered c i n \<longleftrightarrow> sel_ok (c_sel c) \<and> registered (c_sel c) i \<noteq> None \<and> registered (c_sel c) n \<noteq> None"

text \<open>The interests while the reply is sent.\<close>

definition waiting_reply :: "ctx \<Rightarrow> ctx \<Rightarrow> nat \<Rightarrow> nat \<Rightarrow> bool" where
  "waiting_reply c c' i n \<longleftrightarrow> sel_ok (c_sel c') \<and>
     (\<forall>j. registered (c_sel c') j = (if j = i then map_option (\<lambda>it. it\<lparr>it_interest := OP_WRITE\<rparr>) (registered (c_sel c) i)
        else if j = n then map_option (\<lambda>it. it\<lparr>it_interest := OP_NOOP\<rparr>) (registered (c_sel c) n)
        else registered (c_sel c) j))"

lemma free_resolution_ok:
  assumes "conn c = Inr d" and "client d = Cl_request h"
    and "rs_addr_family h = socks_req_addrtype_domain \<longrightarrow> (\<exists>as. origin_resolution d = Ptr as)"
  obtains x y where "free_resolution c = Inr (put_conn (d\<lparr>origin_resolution := x, origin_resolution_current := y\<rparr>) c)"
proof (cases "rs_addr_family h = socks_req_addrtype_domain")
  case True
  then show ?thesis
    using assms by (intro that [of "if origin_resolution_current d = Null then Null else Dangling" Dangling])
      (auto simp: free_resolution_def as_request_def free_ptr_def)
next
  case False
  have "d\<lparr>origin_resolution := origin_resolution d, origin_resolution_current := origin_resolution_current d\<rparr> = d"
    by simp
  then show ?thesis
    using that [of "origin_resolution_current d" "origin_resolution d"] put_conn_same [OF assms(1)] False assms(1,2)
    by (simp add: free_resolution_def as_request_def)
qed

lemma connecting_close_ok:
  assumes "conn c = Inr d" and "client d = Cl_request h" and "closable (rs_parser h)"
  obtains q where "connecting_close st c = Inr (put_conn (d\<lparr>client := Cl_request (h\<lparr>rs_parser := q\<rparr>)\<rparr>) c)"
proof (cases "rs_parser h = Null")
  case True
  have "d\<lparr>client := Cl_request (h\<lparr>rs_parser := Null\<rparr>)\<rparr> = d" using True assms(2) by (cases h; cases d) simp
  then have "put_conn (d\<lparr>client := Cl_request (h\<lparr>rs_parser := Null\<rparr>)\<rparr>) c = c" using put_conn_same [OF assms(1)] by simp
  moreover have "connecting_close st c = Inr c"
    using True assms(1,2) by (simp add: connecting_close_def as_request_def)
  ultimately show ?thesis using that [of Null] by simp
next
  case False
  then show ?thesis
    using that [of Dangling] assms
    by (auto simp: closable_def connecting_close_def as_request_def request_parser_close_def free_ptr_def)
qed

lemma two_interests:
  assumes "both_registered c i n" and "i \<noteq> n"
  obtains s s' where "set_interest_fd (int i) OP_WRITE c = Inr (SELECTOR_SUCCESS, c\<lparr>c_sel := s\<rparr>)"
    and "set_interest_fd (int n) OP_NOOP (c\<lparr>c_sel := s\<rparr>) = Inr (SELECTOR_SUCCESS, c\<lparr>c_sel := s'\<rparr>)"
    and "waiting_reply c (c\<lparr>c_sel := s'\<rparr>) i n"
proof -
  obtain it jt where it: "registered (c_sel c) i = Some it" "registered (c_sel c) n = Some jt" "sel_ok (c_sel c)"
    using assms(1) by (auto simp: both_registered_def)
  obtain s where s: "set_interest_fd (int i) OP_WRITE c = Inr (SELECTOR_SUCCESS, c\<lparr>c_sel := s\<rparr>)" "sel_ok s"
    "registered s = (registered (c_sel c))(i \<mapsto> it\<lparr>it_interest := OP_WRITE\<rparr>)"
    by (rule interest_fd_ok [OF it(3,1)])
  have "sel_ok (c_sel (c\<lparr>c_sel := s\<rparr>))" "registered (c_sel (c\<lparr>c_sel := s\<rparr>)) n = Some jt"
    using s it(2) assms(2) by simp_all
  from interest_fd_ok [OF this, of OP_NOOP] obtain s' where
    "set_interest_fd (int n) OP_NOOP (c\<lparr>c_sel := s\<rparr>) = Inr (SELECTOR_SUCCESS, c\<lparr>c_sel := s'\<rparr>)" "sel_ok s'"
    "registered s' = (registered s)(n \<mapsto> jt\<lparr>it_interest := OP_NOOP\<rparr>)" by auto
  then show ?thesis using that s it assms(2) by (simp add: waiting_reply_def)
qed

lemma connecting_write_tells:
  assumes d: "conn c = Inr d" "connecting_to d i (key_fd c)" "e = E_none \<or> last_address d"
    and wb: "buffer_inv (write_buffer d)" "10 \<le> buffer_space (write_buffer d)"
    and sel: "both_registered c i (key_fd c)" and e: "io_so_error (c_io c) = Some e"
  shows "\<exists>c1 d1 m. connecting_write c = Inr (REQUEST_WRITE, c1) \<and> conn c1 = Inr d1 \<and> client d1 = client d \<and>
    read_buffer d1 = read_buffer d \<and> client_fd d1 = client_fd d \<and> origin_fd d1 = origin_fd d \<and>
    orig d1 = Or_conn \<lparr>cn_client_fd = int i, cn_origin_fd = m, cn_status = errno_to_socks e\<rparr> \<and>
    buffer_inv (write_buffer d1) \<and> buffer_contents (write_buffer d1) = buffer_contents (write_buffer d) @ reply_bytes (errno_to_socks e) \<and>
    waiting_reply c c1 i (key_fd c) \<and> events (c_world c1) = events (c_world c) @
      [Access_log (userIndex d) (origin_addr d) (client_addr d) (errno_to_socks e)]"
proof -
  obtain h m where shape: "client_fd d = int i" "origin_fd d = int (key_fd c)" "i \<noteq> key_fd c"
    "client d = Cl_request h" "rs_addr_family h = socks_req_addrtype_domain \<longrightarrow> (\<exists>as. origin_resolution d = Ptr as)"
    "orig d = Or_conn \<lparr>cn_client_fd = int i, cn_origin_fd = m, cn_status = 0\<rparr>"
    using d(2) by (auto simp: connecting_to_def)
  obtain b where b: "request_marshall (errno_to_socks e) (write_buffer d) = Inr (10, b)" "buffer_inv b"
    "buffer_contents b = buffer_contents (write_buffer d) @ reply_bytes (errno_to_socks e)"
    by (rule request_marshall_append [OF wb])
  have start: "connecting_write c = (if e = E_none then connecting_success c else connecting_error e c)"
    using d(1) shape(6) e by (simp add: connecting_write_def as_conn_def status_succeeded_def)
  show ?thesis
  proof (cases "e = E_none")
    case True
    then have st: "errno_to_socks e = 0" by (simp add: errno_to_socks_def status_succeeded_def)
    define g where "g = glob c\<lparr>metrics_historic_connections := metrics_historic_connections (glob c) + 1,
      metrics_concurrent_connections := metrics_concurrent_connections (glob c) + 1,
      metrics_max_concurrent_connections :=
        (if metrics_concurrent_connections (glob c) + 1 > metrics_max_concurrent_connections (glob c)
         then metrics_concurrent_connections (glob c) + 1 else metrics_max_concurrent_connections (glob c))\<rparr>"
    let ?c1 = "put_glob g c"
    let ?c2 = "emit (Access_log (userIndex d) (origin_addr d) (client_addr d) 0) ?c1"
    have log: "access_log ?c1 = Inr ?c2"
      using d(1) shape(6) by (simp add: access_log_def as_conn_def)
    have c2: "conn ?c2 = Inr d" using d(1) by simp
    obtain x y where free: "free_resolution ?c2 = Inr (put_conn (d\<lparr>origin_resolution := x, origin_resolution_current := y\<rparr>) ?c2)"
      by (rule free_resolution_ok [OF c2 shape(4,5)])
    let ?d0 = "d\<lparr>origin_resolution := x, origin_resolution_current := y\<rparr>"
    let ?d1 = "?d0\<lparr>orig := Or_conn \<lparr>cn_client_fd = int i, cn_origin_fd = int (key_fd c), cn_status = 0\<rparr>, write_buffer := b\<rparr>"
    let ?c3 = "put_conn ?d1 ?c2"
    have "both_registered ?c3 i (key_fd c)" using sel by (simp add: both_registered_def)
    from two_interests [OF this shape(3)] obtain s s' where s:
      "set_interest_fd (int i) OP_WRITE ?c3 = Inr (SELECTOR_SUCCESS, ?c3\<lparr>c_sel := s\<rparr>)"
      "set_interest_fd (int (key_fd c)) OP_NOOP (?c3\<lparr>c_sel := s\<rparr>) = Inr (SELECTOR_SUCCESS, ?c3\<lparr>c_sel := s'\<rparr>)"
      "waiting_reply ?c3 (?c3\<lparr>c_sel := s'\<rparr>) i (key_fd c)" by blast
    have status: "set_conn_status status_succeeded (put_conn ?d0 ?c2) =
        Inr (put_conn (?d0\<lparr>orig := Or_conn \<lparr>cn_client_fd = int i, cn_origin_fd = m, cn_status = 0\<rparr>\<rparr>) ?c2)"
      using shape(6) by (simp add: set_conn_status_def as_conn_def status_succeeded_def)
    have "connecting_success c = Inr (REQUEST_WRITE, ?c3\<lparr>c_sel := s'\<rparr>)"
      unfolding connecting_success_def Let_def g_def [symmetric]
      using log free status s(1,2) b(1) by (cases d) (simp add: as_conn_def st set_interest_key_fd)
    then show ?thesis
      using start True s(3) b(2,3) st
      by (intro exI [of _ "?c3\<lparr>c_sel := s'\<rparr>"] exI [of _ ?d1] exI [of _ "int (key_fd c)"]) (simp add: waiting_reply_def emit_def)
  next
    case False
    let ?st = "errno_to_socks e"
    let ?d0 = "d\<lparr>orig := Or_conn \<lparr>cn_client_fd = int i, cn_origin_fd = m, cn_status = ?st\<rparr>\<rparr>"
    let ?c2 = "emit (Access_log (userIndex d) (origin_addr d) (client_addr d) ?st) (put_conn ?d0 c)"
    have status: "set_conn_status ?st c = Inr (put_conn ?d0 c)"
      using d(1) shape(6) by (simp add: set_conn_status_def as_conn_def)
    have log: "access_log (put_conn ?d0 c) = Inr ?c2" by (simp add: access_log_def as_conn_def)
    have "\<exists>x y. connecting_error e c =
        error_handler_to_client ?st (put_conn (?d0\<lparr>origin_resolution := x, origin_resolution_current := y\<rparr>) ?c2)"
    proof (cases "origin_resolution_current d = Null")
      case True
      then have "connecting_error e c = error_handler_to_client ?st ?c2"
        using d(1) status log by (simp add: connecting_error_def)
      moreover have "put_conn (?d0\<lparr>origin_resolution := origin_resolution d,
          origin_resolution_current := origin_resolution_current d\<rparr>) ?c2 = ?c2"
        by (rule put_conn_same) simp
      ultimately show ?thesis by metis
    next
      case more: False
      then obtain a where a: "origin_resolution_current d = Ptr [a]" using d(3) False by (auto simp: last_address_def)
      have c2: "conn ?c2 = Inr ?d0" "client ?d0 = Cl_request h"
        "rs_addr_family h = socks_req_addrtype_domain \<longrightarrow> (\<exists>as. origin_resolution ?d0 = Ptr as)" using shape(4,5) by simp_all
      obtain x y where "free_resolution ?c2 =
          Inr (put_conn (?d0\<lparr>origin_resolution := x, origin_resolution_current := y\<rparr>) ?c2)"
        by (rule free_resolution_ok [OF c2])
      then show ?thesis using d(1) a status log by (auto simp: connecting_error_def next_address_def)
    qed
    then obtain x y where err: "connecting_error e c =
        error_handler_to_client ?st (put_conn (?d0\<lparr>origin_resolution := x, origin_resolution_current := y\<rparr>) ?c2)" by blast
    let ?d1 = "?d0\<lparr>origin_resolution := x, origin_resolution_current := y, write_buffer := b\<rparr>"
    let ?c3 = "put_conn ?d1 ?c2"
    have "both_registered ?c3 i (key_fd c)" using sel by (simp add: both_registered_def)
    from two_interests [OF this shape(3)] obtain s s' where s:
      "set_interest_fd (int i) OP_WRITE ?c3 = Inr (SELECTOR_SUCCESS, ?c3\<lparr>c_sel := s\<rparr>)"
      "set_interest_fd (int (key_fd c)) OP_NOOP (?c3\<lparr>c_sel := s\<rparr>) = Inr (SELECTOR_SUCCESS, ?c3\<lparr>c_sel := s'\<rparr>)"
      "waiting_reply ?c3 (?c3\<lparr>c_sel := s'\<rparr>) i (key_fd c)" by blast
    have "reply ?st (put_conn (?d0\<lparr>origin_resolution := x, origin_resolution_current := y\<rparr>) ?c2) = Inr ?c3"
      using b(1) by (simp add: reply_def)
    then have "connecting_error e c = Inr (REQUEST_WRITE, ?c3\<lparr>c_sel := s'\<rparr>)"
      unfolding err using shape(1,2) s(1,2) by (simp add: error_handler_to_client_def)
    then show ?thesis
      using start False s(3) b(2,3)
      by (intro exI [of _ "?c3\<lparr>c_sel := s'\<rparr>"] exI [of _ ?d1] exI [of _ m]) (simp add: waiting_reply_def emit_def)
  qed
qed

text \<open>A table up to the interests of its items.\<close>

definition same_items :: "(nat \<Rightarrow> (handler_name, nat) item option) \<Rightarrow> (nat \<Rightarrow> (handler_name, nat) item option) \<Rightarrow> bool" where
  "same_items m m' \<longleftrightarrow> (\<forall>j. map_option (\<lambda>it. it\<lparr>it_interest := OP_NOOP\<rparr>) (m' j) = map_option (\<lambda>it. it\<lparr>it_interest := OP_NOOP\<rparr>) (m j))"

lemma same_items_interest [simp]: "same_items m (with_interest m' i op) = same_items m m'"
  by (auto simp: same_items_def with_interest_def option.map_comp comp_def)

lemma same_items_refl [simp]: "same_items m m"
  by (simp add: same_items_def)

lemma same_items_trans: "same_items m m' \<Longrightarrow> same_items m' m'' \<Longrightarrow> same_items m m''"
  by (simp add: same_items_def)

lemma both_registered_interest:
  assumes "both_registered c i n" and "k = i \<or> k = n"
  obtains s where "set_interest_fd (int k) op c = Inr (SELECTOR_SUCCESS, c\<lparr>c_sel := s\<rparr>)"
    and "both_registered (c\<lparr>c_sel := s\<rparr>) i n" and "registered s = with_interest (registered (c_sel c)) k op"
proof -
  obtain it where "sel_ok (c_sel c)" "registered (c_sel c) k = Some it"
    using assms by (auto simp: both_registered_def)
  then obtain s where "set_interest_fd (int k) op c = Inr (SELECTOR_SUCCESS, c\<lparr>c_sel := s\<rparr>)" "sel_ok s"
    "registered s = (registered (c_sel c))(k \<mapsto> it\<lparr>it_interest := op\<rparr>)" by (rule interest_fd_ok [of c k it op])
  then show ?thesis
    using assms(1) \<open>registered (c_sel c) k = Some it\<close>
    by (intro that [of s]) (auto simp: both_registered_def with_interest_def)
qed

lemma request_write_tells:
  assumes d: "conn c = Inr d" "client d = Cl_request h" "client_fd d = int (key_fd c)" "origin_fd d = int n"
      "orig d = Or_conn o'"
    and wb: "buffer_inv (write_buffer d)" "io_send (c_io c) = Some m" "length (buffer_contents (write_buffer d)) \<le> m"
    and sel: "both_registered c (key_fd c) n"
  obtains c1 wb' where "request_write c = Inr (if cn_status o' = 0 then COPY else DONE, c1)"
    and "conn c1 = Inr (d\<lparr>write_buffer := wb'\<rparr>)" and "buffer_inv wb'" and "buffer_contents wb' = []"
    and "events (c_world c1) = events (c_world c) @ [Sent (key_fd c) (buffer_contents (write_buffer d))]"
    and "both_registered c1 (key_fd c) n" and "same_items (registered (c_sel c)) (registered (c_sel c1))"
    and "buf_limit wb' = buf_limit (write_buffer d)"
proof -
  obtain wb' where wb': "drain c (write_buffer d) = Inr (Some (buffer_contents (write_buffer d), wb'))"
    "buffer_inv wb'" "buffer_contents wb' = []" "\<not> buffer_can_read wb'"
    "buf_limit wb' = buf_limit (write_buffer d)"
    by (rule drain_all [OF wb])
  let ?c1 = "emit (Sent (key_fd c) (buffer_contents (write_buffer d))) (put_conn (d\<lparr>write_buffer := wb'\<rparr>) c)"
  have b1: "both_registered ?c1 (key_fd c) n" using sel by (simp add: both_registered_def)
  obtain s where s: "set_interest_fd (int (key_fd c)) OP_READ ?c1 = Inr (SELECTOR_SUCCESS, ?c1\<lparr>c_sel := s\<rparr>)"
    "both_registered (?c1\<lparr>c_sel := s\<rparr>) (key_fd c) n" "registered s = with_interest (registered (c_sel ?c1)) (key_fd c) OP_READ"
    using both_registered_interest [OF b1 disjI1 [OF refl], of OP_READ] by metis
  obtain s2 where s2: "set_interest_fd (int n) OP_READ (?c1\<lparr>c_sel := s\<rparr>) = Inr (SELECTOR_SUCCESS, ?c1\<lparr>c_sel := s2\<rparr>)"
    "both_registered (?c1\<lparr>c_sel := s2\<rparr>) (key_fd c) n" "registered s2 = with_interest (registered s) n OP_READ"
    using both_registered_interest [OF s(2) disjI2 [OF refl], of OP_READ] by auto
  obtain s3 where s3: "set_interest_fd (int (key_fd c)) OP_NOOP ?c1 = Inr (SELECTOR_SUCCESS, ?c1\<lparr>c_sel := s3\<rparr>)"
    "both_registered (?c1\<lparr>c_sel := s3\<rparr>) (key_fd c) n" "registered s3 = with_interest (registered (c_sel ?c1)) (key_fd c) OP_NOOP"
    using both_registered_interest [OF b1 disjI1 [OF refl], of OP_NOOP] by metis
  let ?c2 = "?c1\<lparr>c_sel := if cn_status o' = 0 then s2 else s3\<rparr>"
  have "request_write c = Inr (if cn_status o' = 0 then COPY else DONE, ?c2)"
    using d wb' s(1) s2(1) s3(1)
    by (simp add: request_write_def as_request_def as_conn_def status_succeeded_def Let_def)
  then show ?thesis
    by (rule that [of ?c2 wb']) (use wb'(2,3,5) s(3) s2(2,3) s3(2,3) in \<open>simp_all add: emit_def conn_def put_conn_def\<close>)
qed

definition listens :: "(nat \<Rightarrow> (handler_name, nat) item option) \<Rightarrow> nat \<Rightarrow> bool" where
  "listens m i \<longleftrightarrow> map_option it_interest (m i) = Some OP_READ"

lemma copy_init_interests:
  assumes "conn c = Inr d" and "client_fd d = int i" and "origin_fd d = int n" and "both_registered c i n"
  obtains c' x y where "copy_init COPY c = Inr c'"
    and "registered (c_sel c') = with_interest (with_interest (registered (c_sel c)) n x) i y"
    and "empty_buffer (read_buffer d) \<longrightarrow> empty_buffer (write_buffer d) \<longrightarrow> 0 < buf_limit (read_buffer d) \<longrightarrow>
      0 < buf_limit (write_buffer d) \<longrightarrow> x = OP_READ \<and> y = OP_READ"
proof -
  let ?h = "\<lparr>cp_fd = client_fd d, cp_rb = Read_buffer, cp_wb = Write_buffer,
        cp_interest = OP_READ OR OP_WRITE, cp_other = Orig_side\<rparr>"
  let ?o = "\<lparr>cp_fd = origin_fd d, cp_rb = Write_buffer, cp_wb = Read_buffer,
        cp_interest = OP_READ OR OP_WRITE, cp_other = Client_side\<rparr>"
  let ?d = "d\<lparr>client := Cl_copy ?h, orig := Or_copy ?o\<rparr>"
  let ?c = "put_conn ?d c"
  let ?x = "copy_interest ?d ?o" and ?y = "copy_interest ?d ?h"
  have op: "?x = OP_READ \<and> ?y = OP_READ" if e: "empty_buffer (read_buffer d)" "empty_buffer (write_buffer d)"
    "0 < buf_limit (read_buffer d)" "0 < buf_limit (write_buffer d)"
  proof -
    have "buffer_can_write (read_buffer d)" "buffer_can_write (write_buffer d)"
      "\<not> buffer_can_read (read_buffer d)" "\<not> buffer_can_read (write_buffer d)"
      using e by (simp_all add: buffer_can_write_iff buffer_can_read_iff buffer_space_empty)
    then show ?thesis by (simp add: copy_interest_def buf_of_def wants_def op_defs)
  qed
  have "both_registered ?c i n" using assms(4) by (simp add: both_registered_def)
  then obtain s where s: "set_interest_fd (int n) ?x ?c = Inr (SELECTOR_SUCCESS, ?c\<lparr>c_sel := s\<rparr>)"
    "both_registered (?c\<lparr>c_sel := s\<rparr>) i n" "registered s = with_interest (registered (c_sel ?c)) n ?x"
    by (rule both_registered_interest [OF _ disjI2 [OF refl]])
  obtain s2 where s2: "set_interest_fd (int i) ?y (?c\<lparr>c_sel := s\<rparr>) = Inr (SELECTOR_SUCCESS, ?c\<lparr>c_sel := s, c_sel := s2\<rparr>)"
    "registered s2 = with_interest (registered (c_sel (?c\<lparr>c_sel := s\<rparr>))) i ?y"
    by (rule both_registered_interest [OF s(2) disjI1 [OF refl]])
  have "copy_init COPY c = Inr (?c\<lparr>c_sel := s2\<rparr>)"
    using assms(1-3) s(1) s2(1)
    by (simp add: copy_init_def copy_compute_interests_def copy_of_def as_client_copy_def as_orig_copy_def Let_def)
  then show ?thesis by (rule that [of _ ?x ?y]) (use op s(3) s2(2) in auto)
qed

lemma listens_interest: "m i \<noteq> None \<Longrightarrow> m n \<noteq> None \<Longrightarrow>
  listens (with_interest (with_interest m n OP_READ) i OP_READ) i \<and> listens (with_interest (with_interest m n OP_READ) i OP_READ) n"
  by (auto simp: listens_def with_interest_def)

lemma request_event:
  assumes "conn c = Inr d" and "awaits_request (client d)" and "client_fd d = int (key_fd c)"
    and "buffer_inv (read_buffer d)" and "buffer_contents (read_buffer d) = []"
    and "sel_ok (c_sel c)" and "registered (c_sel c) (key_fd c) = Some it"
    and "io_recv (c_io c) = Some (encode_request dst [b1, b2])" and "address_ok dst" and "is_ip dst"
    and "length (encode_request dst [b1, b2]) \<le> buffer_space (read_buffer d)"
    and "io_socket (c_io c) = Some n" and "io_set_nio (c_io c)" and "io_connect (c_io c) = EINPROGRESS"
    and "io_register (c_io c)" and "registered (c_sel c) n = None" and "n < ITEMS_MAX_SIZE"
  shows "\<exists>c1 d1. stm_handler_read (socks5_stm (Some REQUEST_READ)) c =
      Inr (REQUEST_CONNECTING, socks5_stm (Some REQUEST_CONNECTING), c1) \<and> conn c1 = Inr d1 \<and>
    origin_addr d1 = target_addr dst [b1, b2] \<and> connecting_to d1 (key_fd c) n \<and>
    empty_buffer (read_buffer d1) \<and> client_addr d1 = client_addr d \<and> userIndex d1 = userIndex d \<and>
    buf_limit (read_buffer d1) = buf_limit (read_buffer d) \<and> events (c_world c1) = events (c_world c) \<and>
    references d1 = references d + 1 \<and> write_buffer d1 = write_buffer d \<and>
    origin_resolution_current d1 = origin_resolution_current d \<and>
    registered (c_sel c1) = (registered (c_sel c))(key_fd c \<mapsto> it\<lparr>it_interest := OP_NOOP\<rparr>,
      n \<mapsto> \<lparr>it_fd = int n, it_interest = OP_WRITE, it_handler = Some Socks5_handler, it_data = Some (key_data c)\<rparr>)"
proof -
  obtain rb p r f dom len where rd: "request_read c = Inr (REQUEST_CONNECTING, put_conn (d\<lparr>read_buffer := rb,
      client := Cl_request \<lparr>rs_parser = Ptr p, rs_addr_family = f, rs_status = 0\<rparr>, origin_domain := dom,
      origin_addr_len := len, origin_addr := target_addr dst [b1, b2]\<rparr>) c)"
    and r: "rp_request p = Ptr r" "rq_dest_addr_type r \<noteq> socks_req_addrtype_domain" "f \<noteq> socks_req_addrtype_domain"
      "empty_buffer rb" "buf_limit rb = buf_limit (read_buffer d)"
    using request_read_address [OF assms(1,2,4,5,8-11)] by blast
  let ?d = "d\<lparr>read_buffer := rb, client := Cl_request \<lparr>rs_parser = Ptr p, rs_addr_family = f, rs_status = 0\<rparr>,
    origin_domain := dom, origin_addr_len := len, origin_addr := target_addr dst [b1, b2]\<rparr>"
  let ?d2 = "?d\<lparr>client := Cl_request \<lparr>rs_parser = Null, rs_addr_family = f, rs_status = 0\<rparr>\<rparr>"
  let ?c2 = "put_conn ?d2 c"
  have dep: "request_close REQUEST_READ (put_conn ?d c) = Inr ?c2"
    using r by (simp add: request_close_def as_request_def request_parser_close_def)
  have pre: "conn ?c2 = Inr ?d2" "client ?d2 = Cl_request \<lparr>rs_parser = Null, rs_addr_family = f, rs_status = 0\<rparr>"
    "sel_ok (c_sel ?c2)" "registered (c_sel ?c2) (key_fd ?c2) = Some it" "io_socket (c_io ?c2) = Some n"
    "io_set_nio (c_io ?c2)" "io_connect (c_io ?c2) = EINPROGRESS" "io_register (c_io ?c2)"
    "registered (c_sel ?c2) n = None"
    using assms(6,7,12-16) by simp_all
  obtain c3 where c3: "connecting_init REQUEST_CONNECTING ?c2 = Inr c3"
    "conn c3 = Inr (?d2\<lparr>orig := Or_conn \<lparr>cn_client_fd = client_fd ?d2, cn_origin_fd = -1, cn_status = 0\<rparr>,
      origin_fd := int n, references := references ?d2 + 1\<rparr>)"
    "registered (c_sel c3) = (registered (c_sel ?c2))(key_fd ?c2 \<mapsto> it\<lparr>it_interest := OP_NOOP\<rparr>,
      n \<mapsto> \<lparr>it_fd = int n, it_interest = OP_WRITE, it_handler = Some Socks5_handler, it_data = Some (key_data ?c2)\<rparr>)"
    "events (c_world c3) = events (c_world ?c2)"
    by (rule connecting_init_ok [OF pre assms(17), of REQUEST_CONNECTING])
  have "stm_handler_read (socks5_stm (Some REQUEST_READ)) c =
      Inr (REQUEST_CONNECTING, socks5_stm (Some REQUEST_CONNECTING), c3)"
    unfolding stm_handler_read_def
    by (rule socks_event [of REQUEST_READ _ _ c on_read_ready request_read REQUEST_CONNECTING "put_conn ?d c" ?c2])
      (use rd dep c3(1) in \<open>simp_all add: client_statbl_def state_def run_action_def\<close>)
  moreover have "n \<noteq> key_fd c" using assms(7,16) by auto
  ultimately show ?thesis
    using c3(2-4) assms(3) r(3-5) by (intro exI [of _ c3]) (auto simp: connecting_to_def closable_def)
qed

lemma connect_event:
  assumes "conn c = Inr d" and "connecting_to d i (key_fd c)" and "e = E_none \<or> last_address d"
    and "buffer_inv (write_buffer d)" and "10 \<le> buffer_space (write_buffer d)"
    and "both_registered c i (key_fd c)" and "io_so_error (c_io c) = Some e"
  obtains c1 d1 h m where "stm_handler_write (socks5_stm (Some REQUEST_CONNECTING)) c =
      Inr (REQUEST_WRITE, socks5_stm (Some REQUEST_WRITE), c1)"
    and "conn c1 = Inr d1" and "client d1 = Cl_request h" and "read_buffer d1 = read_buffer d"
    and "client_fd d1 = int i" and "origin_fd d1 = int (key_fd c)"
    and "orig d1 = Or_conn \<lparr>cn_client_fd = int i, cn_origin_fd = m, cn_status = errno_to_socks e\<rparr>"
    and "buffer_inv (write_buffer d1)"
    and "buffer_contents (write_buffer d1) = buffer_contents (write_buffer d) @ reply_bytes (errno_to_socks e)"
    and "waiting_reply c c1 i (key_fd c)"
    and "events (c_world c1) = events (c_world c) @
      [Access_log (userIndex d) (origin_addr d) (client_addr d) (errno_to_socks e)]"
proof -
  obtain c0 d0 m1 where c0: "connecting_write c = Inr (REQUEST_WRITE, c0)" "conn c0 = Inr d0" "client d0 = client d"
    "read_buffer d0 = read_buffer d" "client_fd d0 = client_fd d" "origin_fd d0 = origin_fd d"
    "orig d0 = Or_conn \<lparr>cn_client_fd = int i, cn_origin_fd = m1, cn_status = errno_to_socks e\<rparr>"
    "buffer_inv (write_buffer d0)"
    "buffer_contents (write_buffer d0) = buffer_contents (write_buffer d) @ reply_bytes (errno_to_socks e)"
    "waiting_reply c c0 i (key_fd c)" "events (c_world c0) = events (c_world c) @
      [Access_log (userIndex d) (origin_addr d) (client_addr d) (errno_to_socks e)]"
    using connecting_write_tells [OF assms] by blast
  obtain h where shape: "client_fd d = int i" "origin_fd d = int (key_fd c)" "client d = Cl_request h"
    "closable (rs_parser h)"
    using assms(2) by (auto simp: connecting_to_def)
  have pre0: "client d0 = Cl_request h" using c0(3) shape(3) by simp
  obtain q where dep: "connecting_close REQUEST_CONNECTING c0 =
      Inr (put_conn (d0\<lparr>client := Cl_request (h\<lparr>rs_parser := q\<rparr>)\<rparr>) c0)"
    by (rule connecting_close_ok [OF c0(2) pre0 shape(4)])
  let ?d1 = "d0\<lparr>client := Cl_request (h\<lparr>rs_parser := q\<rparr>)\<rparr>"
  have "stm_handler_write (socks5_stm (Some REQUEST_CONNECTING)) c =
      Inr (REQUEST_WRITE, socks5_stm (Some REQUEST_WRITE), put_conn ?d1 c0)"
    unfolding stm_handler_write_def
    by (rule socks_event [of REQUEST_CONNECTING _ _ c on_write_ready connecting_write REQUEST_WRITE c0])
      (use c0(1) dep in \<open>simp_all add: client_statbl_def state_def run_action_def\<close>)
  then show ?thesis
    by (rule that [of _ ?d1]) (use c0 shape in \<open>simp_all add: waiting_reply_def\<close>)
qed

lemma answer_event:
  assumes d: "conn c = Inr d" "client d = Cl_request h" "client_fd d = int (key_fd c)" "origin_fd d = int n"
      "orig d = Or_conn \<lparr>cn_client_fd = k, cn_origin_fd = q, cn_status = errno_to_socks e\<rparr>"
    and buf: "buffer_inv (read_buffer d)" "buffer_inv (write_buffer d)"
      "buffer_contents (write_buffer d) = reply_bytes (errno_to_socks e)"
    and io: "io_send (c_io c) = Some m" "10 \<le> m" and sel: "both_registered c (key_fd c) n"
  defines "j \<equiv> if e = E_none then COPY else DONE"
  obtains c1 d1 where "stm_handler_write (socks5_stm (Some REQUEST_WRITE)) c = Inr (j, socks5_stm (Some j), c1)"
    and "conn c1 = Inr d1"
    and "events (c_world c1) = events (c_world c) @ [Sent (key_fd c) (reply_bytes (errno_to_socks e))]"
    and "j = COPY \<longrightarrow> relayed d1 (\<lambda>s. if s = Client_side then buffer_contents (read_buffer d) else []) (\<lambda>_. [])"
    and "same_items (registered (c_sel c)) (registered (c_sel c1))"
    and "j = COPY \<longrightarrow> buffer_contents (read_buffer d) = [] \<longrightarrow> 0 < buf_limit (read_buffer d) \<longrightarrow>
      0 < buf_limit (write_buffer d) \<longrightarrow> listens (registered (c_sel c1)) (key_fd c) \<and> listens (registered (c_sel c1)) n"
proof -
  have zero: "errno_to_socks e = 0 \<longleftrightarrow> e = E_none" by (cases e) (simp_all add: errno_to_socks_def status_defs)
  have len: "length (buffer_contents (write_buffer d)) \<le> m" using buf(3) io(2) by (simp add: reply_bytes_def)
  obtain c3 wb where raw: "request_write c =
      Inr (if cn_status \<lparr>cn_client_fd = k, cn_origin_fd = q, cn_status = errno_to_socks e\<rparr> = 0 then COPY else DONE, c3)"
    "conn c3 = Inr (d\<lparr>write_buffer := wb\<rparr>)" "buffer_inv wb" "buffer_contents wb = []"
    "events (c_world c3) = events (c_world c) @ [Sent (key_fd c) (buffer_contents (write_buffer d))]"
    "both_registered c3 (key_fd c) n" "same_items (registered (c_sel c)) (registered (c_sel c3))"
    "buf_limit wb = buf_limit (write_buffer d)"
    by (rule request_write_tells [OF d buf(2) io(1) len sel])
  have c3: "request_write c = Inr (j, c3)" "conn c3 = Inr (d\<lparr>write_buffer := wb\<rparr>)"
    "buffer_inv wb" "buffer_contents wb = []"
    "events (c_world c3) = events (c_world c) @ [Sent (key_fd c) (reply_bytes (errno_to_socks e))]"
    "both_registered c3 (key_fd c) n" "same_items (registered (c_sel c)) (registered (c_sel c3))"
    "buf_limit wb = buf_limit (write_buffer d)"
    using raw buf(3) zero by (simp_all add: j_def)
  have event: "stm_handler_write (socks5_stm (Some REQUEST_WRITE)) c = Inr (j, socks5_stm (Some j), c4)"
    if "run_action (on_arrival (client_statbl ! j)) j c3 = Inr c4" for c4
    unfolding stm_handler_write_def
  proof (rule socks_event [of REQUEST_WRITE _ _ c on_write_ready request_write j c3 c3])
    show "request_write c = Inr (j, c3)" "run_action (on_arrival (client_statbl ! j)) j c3 = Inr c4"
      by (rule c3(1), rule that)
    show "j \<le> ERROR" "j \<noteq> REQUEST_WRITE" by (simp_all add: j_def)
  qed (simp_all add: client_statbl_def state_def run_action_def)
  show ?thesis
  proof (cases "j = COPY")
    case False
    then have "run_action (on_arrival (client_statbl ! j)) j c3 = Inr c3"
      by (simp add: j_def client_statbl_def state_def run_action_def split: if_splits)
    from event [OF this] show ?thesis by (rule that [of c3]) (use c3(2,5,7) False in simp_all)
  next
    case True
    let ?d3 = "d\<lparr>write_buffer := wb\<rparr>"
    have ends: "ends_registered c3 ?d3"
      using c3(6) d(3,4) by (auto simp: ends_registered_def end_fd_def both_registered_def sel_ok_def split: side.split)
    have bufs: "buffer_inv (read_buffer ?d3)" "buffer_inv (write_buffer ?d3)" using buf(1) c3(3) by simp_all
    have ne: "client_fd ?d3 = int (key_fd c)" "origin_fd ?d3 = int n" using d(3,4) by simp_all
    obtain c4 x y where c4: "copy_init COPY c3 = Inr c4"
      "registered (c_sel c4) = with_interest (with_interest (registered (c_sel c3)) n x) (key_fd c) y"
      "empty_buffer (read_buffer ?d3) \<longrightarrow> empty_buffer (write_buffer ?d3) \<longrightarrow> 0 < buf_limit (read_buffer ?d3) \<longrightarrow>
        0 < buf_limit (write_buffer ?d3) \<longrightarrow> x = OP_READ \<and> y = OP_READ"
      by (rule copy_init_interests [OF c3(2) ne c3(6)])
    obtain d4 where d4: "conn c4 = Inr d4" using copy_init_relay [OF c4(1) c3(2) bufs] by blast
    have ev: "events (c_world c4) = events (c_world c3)"
      using c4 c3(2) by (auto simp: copy_init_def Let_def dest!: compute_interests_same)
    have "relayed d4 (\<lambda>s. inbound s ?d3) (\<lambda>_. [])" by (rule relayed.start [OF c4(1) c3(2) d4 bufs])
    moreover have "(\<lambda>s. inbound s ?d3) = (\<lambda>s. if s = Client_side then buffer_contents (read_buffer d) else [])"
      using c3(4) by (auto simp: inbound_def fun_eq_iff split: side.split)
    moreover have "run_action (on_arrival (client_statbl ! j)) j c3 = Inr c4"
      using True c4 by (simp add: client_statbl_def state_def run_action_def)
    moreover have "same_items (registered (c_sel c)) (registered (c_sel c4))"
      using c3(7) c4(2) by simp
    moreover have "listens (registered (c_sel c4)) (key_fd c) \<and> listens (registered (c_sel c4)) n"
      if "buffer_contents (read_buffer d) = []" "0 < buf_limit (read_buffer d)" "0 < buf_limit (write_buffer d)"
      using that c4(2,3) buf(1) c3(3,4,6,8) by (simp add: both_registered_def listens_interest)
    ultimately show ?thesis using that [of c4 d4] event d4 ev c3(5) by simp
  qed
qed

section \<open>Properties\<close>

text \<open>
  \<open>C16\<close> A request is served to the address it names. When the request for an IPv4 or IPv6 address
  arrives whole, the connection goes on to \<open>REQUEST_CONNECTING\<close> with a new socket, non-blocking,
  that connects to exactly that address and port; the socket is registered for the connection, to be
  told when it is writable, one more reference is counted, and the client is not listened to
  meanwhile.
\<close>

theorem request_connects:
  assumes "conn c = Inr d" and "awaits_request (client d)" and "client_fd d = int (key_fd c)"
    and "buffer_inv (read_buffer d)" and "buffer_contents (read_buffer d) = []"
    and "sel_ok (c_sel c)" and "registered (c_sel c) (key_fd c) = Some it"
    and "io_recv (c_io c) = Some (encode_request dst [b1, b2])" and "address_ok dst" and "is_ip dst"
    and "length (encode_request dst [b1, b2]) \<le> buffer_space (read_buffer d)"
    and "io_socket (c_io c) = Some n" and "io_set_nio (c_io c)" and "io_connect (c_io c) = EINPROGRESS"
    and "io_register (c_io c)" and "registered (c_sel c) n = None" and "n < ITEMS_MAX_SIZE"
  shows "\<exists>c1 d1. stm_handler_read (socks5_stm (Some REQUEST_READ)) c =
      Inr (REQUEST_CONNECTING, socks5_stm (Some REQUEST_CONNECTING), c1) \<and> conn c1 = Inr d1 \<and>
    origin_addr d1 = target_addr dst [b1, b2] \<and> connecting_to d1 (key_fd c) n \<and>
    references d1 = references d + 1 \<and> write_buffer d1 = write_buffer d \<and>
    origin_resolution_current d1 = origin_resolution_current d \<and>
    registered (c_sel c1) = (registered (c_sel c))(key_fd c \<mapsto> it\<lparr>it_interest := OP_NOOP\<rparr>,
      n \<mapsto> \<lparr>it_fd = int n, it_interest = OP_WRITE, it_handler = Some Socks5_handler, it_data = Some (key_data c)\<rparr>)"
  using request_event [OF assms] by blast

text \<open>The descriptor 7 of a client, and 9 of an origin.\<close>

definition demo_end :: "nat \<Rightarrow> fd_interest \<Rightarrow> (handler_name, nat) item" where
  "demo_end i op = \<lparr>it_fd = int i, it_interest = op, it_handler = Some Socks5_handler, it_data = Some 0\<rparr>"

lemma demo_client:
  obtains s where "sel_ok s" and "registered s 7 = Some (demo_end 7 OP_READ)" and "registered s 9 = None"
proof -
  obtain s where s: "sel_ok s"
    "registered s = [3 \<mapsto> demo_listener 3 Socks5_passive, 4 \<mapsto> demo_listener 4 Mng_passive]"
    by (rule demo_boot)
  have free: "registered s 7 = None" and small: "7 < ITEMS_MAX_SIZE" by (simp_all add: s(2) ITEMS_MAX_SIZE_def)
  obtain s1 where s1: "sel_ok s1" "registered s1 = (registered s)(7 \<mapsto>
      \<lparr>it_fd = int 7, it_interest = OP_READ, it_handler = Some Socks5_handler, it_data = Some 0\<rparr>)"
    by (rule register_free [OF s(1) free small, of Socks5_handler OP_READ "Some 0"])
  show ?thesis by (rule that [of s1]) (use s1 s(2) in \<open>simp_all add: demo_end_def\<close>)
qed

lemma demo_pair:
  obtains s where "sel_ok s" and "registered s 7 = Some (demo_end 7 OP_NOOP)" and "registered s 9 = Some (demo_end 9 OP_WRITE)"
proof -
  obtain s0 where s0: "sel_ok s0" "registered s0 7 = Some (demo_end 7 OP_READ)" "registered s0 9 = None"
    by (rule demo_client)
  have small: "9 < ITEMS_MAX_SIZE" by (simp add: ITEMS_MAX_SIZE_def)
  obtain s1 where s1: "sel_ok s1" "registered s1 = (registered s0)(9 \<mapsto>
      \<lparr>it_fd = int 9, it_interest = OP_WRITE, it_handler = Some Socks5_handler, it_data = Some 0\<rparr>)"
    by (rule register_free [OF s0(1,3) small, of Socks5_handler OP_WRITE "Some 0"])
  let ?c = "demo_ctx s1 open_globals (demo_io None) demo_fresh"
  have "sel_ok (c_sel ?c)" "registered (c_sel ?c) 7 = Some (demo_end 7 OP_READ)" using s0 s1 by simp_all
  from interest_fd_ok [OF this, of OP_NOOP] obtain s2 where "sel_ok s2"
    "registered s2 = (registered s1)(7 \<mapsto> demo_end 7 OP_NOOP)" by (auto simp: demo_end_def)
  then show ?thesis by (intro that [of s2]) (use s1 in \<open>simp_all add: demo_end_def\<close>)
qed

lemma demo_awaiting:
  fixes bs :: "byte list"
  obtains c d where "conn c = Inr d" and "awaits_request (client d)" and "client_fd d = int (key_fd c)"
    and "buffer_inv (read_buffer d)" and "buffer_contents (read_buffer d) = []" and "buffer_space (read_buffer d) = 2048"
    and "sel_ok (c_sel c)" and "registered (c_sel c) (key_fd c) = Some (demo_end 7 OP_READ)" and "key_fd c = 7"
    and "key_data c = 0" and "registered (c_sel c) 9 = None"
    and "io_recv (c_io c) = Some bs" and "io_socket (c_io c) = Some 9"
    and "io_set_nio (c_io c)" and "io_connect (c_io c) = EINPROGRESS" and "io_register (c_io c)"
    and "io_malloc (c_io c) 0" and "io_pthread_create (c_io c) = 0"
proof -
  obtain s where s: "sel_ok s" "registered s 7 = Some (demo_end 7 OP_READ)" "registered s 9 = None" by (rule demo_client)
  let ?io = "demo_io (Some bs)\<lparr>io_socket := Some 9, io_set_nio := True,
    io_connect := EINPROGRESS, io_register := True\<rparr>"
  let ?d = "demo_fresh\<lparr>client := Cl_request \<lparr>rs_parser = Ptr demo_request_parser, rs_addr_family = 0, rs_status = 0\<rparr>\<rparr>"
  have a: "awaits_request (client ?d)" using demo_fresh demo_request_parser_init by (auto simp: awaits_request_def)
  have fd: "client_fd demo_fresh = 7" by (simp add: demo_fresh_def fresh_conn_def)
  have buf: "buffer_inv (read_buffer demo_fresh)" "buffer_contents (read_buffer demo_fresh) = []"
    "buffer_space (read_buffer demo_fresh) = 2048"
    using demo_fresh_simps by (simp_all add: empty_buffers_def)
  have io: "io_recv ?io = Some bs" "io_malloc ?io 0" "io_pthread_create ?io = 0" by (simp_all add: demo_io_def)
  show ?thesis
    by (rule that [of "demo_ctx s open_globals ?io ?d" ?d])
      (use a fd buf s io in \<open>simp_all add: demo_ctx_def conn_def demo_world_def\<close>)
qed

lemma request_connects_witness:
  "\<exists>c c1 d1. io_recv (c_io c) = Some [5, 1, 0, 1, 10, 0, 0, 1, 0, 80] \<and>
    stm_handler_read (socks5_stm (Some REQUEST_READ)) c =
      Inr (REQUEST_CONNECTING, socks5_stm (Some REQUEST_CONNECTING), c1) \<and> conn c1 = Inr d1 \<and>
    origin_addr d1 = Sa_in \<lparr>sin_addr = [10, 0, 0, 1], sin_port = [0, 80]\<rparr> \<and> connecting_to d1 7 9 \<and>
    registered (c_sel c1) 7 = Some (demo_end 7 OP_NOOP) \<and> registered (c_sel c1) 9 = Some (demo_end 9 OP_WRITE)"
proof -
  obtain c d where c: "conn c = Inr d" "awaits_request (client d)" "client_fd d = int (key_fd c)"
    "buffer_inv (read_buffer d)" "buffer_contents (read_buffer d) = []" "buffer_space (read_buffer d) = 2048"
    "sel_ok (c_sel c)" "registered (c_sel c) (key_fd c) = Some (demo_end 7 OP_READ)" "key_fd c = 7"
    "key_data c = 0" "registered (c_sel c) 9 = None" "io_recv (c_io c) = Some [5, 1, 0, 1, 10, 0, 0, 1, 0, 80]"
    "io_socket (c_io c) = Some 9" "io_set_nio (c_io c)" "io_connect (c_io c) = EINPROGRESS" "io_register (c_io c)"
    by (rule demo_awaiting [of "[5, 1, 0, 1, 10, 0, 0, 1, 0, 80]"])
  have msg: "encode_request (Ip4 [10, 0, 0, 1]) [0, 80] = [5, 1, 0, 1, 10, 0, 0, 1, 0, 80]"
    by (simp add: encode_request_def)
  have rest: "io_recv (c_io c) = Some (encode_request (Ip4 [10, 0, 0, 1]) [0, 80])" "address_ok (Ip4 [10, 0, 0, 1])"
    "is_ip (Ip4 [10, 0, 0, 1])" "length (encode_request (Ip4 [10, 0, 0, 1]) [0, 80]) \<le> buffer_space (read_buffer d)"
    "9 < ITEMS_MAX_SIZE"
    unfolding msg using c(6,12) by (simp_all add: is_ip_def ITEMS_MAX_SIZE_def)
  obtain c1 d1 where "stm_handler_read (socks5_stm (Some REQUEST_READ)) c =
      Inr (REQUEST_CONNECTING, socks5_stm (Some REQUEST_CONNECTING), c1)" "conn c1 = Inr d1"
    "origin_addr d1 = target_addr (Ip4 [10, 0, 0, 1]) [0, 80]" "connecting_to d1 (key_fd c) 9"
    "registered (c_sel c1) = (registered (c_sel c))(key_fd c \<mapsto> demo_end 7 OP_READ\<lparr>it_interest := OP_NOOP\<rparr>,
      9 \<mapsto> \<lparr>it_fd = int 9, it_interest = OP_WRITE, it_handler = Some Socks5_handler, it_data = Some (key_data c)\<rparr>)"
    using request_connects [OF c(1-5,7,8) rest(1-4) c(13-16,11) rest(5)] by blast
  then show ?thesis using c(9,10,12)
    by (intro exI [of _ c] exI [of _ c1] exI [of _ d1]) (simp add: target_addr_def demo_end_def)
qed

text \<open>
  \<open>C17\<close> The outcome of the connection is told. When the socket of the origin becomes writable, and the
  system reports the outcome \<open>e\<close>, a success or the failure of the last address there is to try, the
  client gets one reply, with the code of RFC 1928 for \<open>e\<close>; the two ends then relay, with nothing in
  between but what the client has sent already, exactly when the outcome was success, and otherwise
  the connection is finished.
\<close>

theorem connect_answered:
  assumes "conn c = Inr d" and "connecting_to d i (key_fd c)" and "e = E_none \<or> last_address d"
    and "buffer_inv (read_buffer d)"
    and "buffer_inv (write_buffer d)" and "buffer_contents (write_buffer d) = []" and "10 \<le> buffer_space (write_buffer d)"
    and "both_registered c i (key_fd c)" and "io_so_error (c_io c) = Some e"
  defines "j \<equiv> if e = E_none then COPY else DONE"
  shows "\<exists>c1 d1. stm_handler_write (socks5_stm (Some REQUEST_CONNECTING)) c =
      Inr (REQUEST_WRITE, socks5_stm (Some REQUEST_WRITE), c1) \<and> conn c1 = Inr d1 \<and> waiting_reply c c1 i (key_fd c) \<and>
    (\<forall>c2 m. conn c2 = Inr (d1\<lparr>conn_current := Some REQUEST_WRITE\<rparr>) \<longrightarrow> key_fd c2 = i \<longrightarrow>
      both_registered c2 i (key_fd c) \<longrightarrow> io_send (c_io c2) = Some m \<longrightarrow> 10 \<le> m \<longrightarrow>
      (\<exists>c3 d3. stm_handler_write (socks5_stm (Some REQUEST_WRITE)) c2 = Inr (j, socks5_stm (Some j), c3) \<and>
        conn c3 = Inr d3 \<and>
        events (c_world c3) = events (c_world c2) @ [Sent i [0x05, errno_to_socks e, 0x00, 0x01, 0, 0, 0, 0, 0, 0]] \<and>
        (j = COPY \<longrightarrow> relayed d3 (\<lambda>s. if s = Client_side then buffer_contents (read_buffer d) else []) (\<lambda>_. []))))"
proof -
  obtain c1 d1 h m1 where c1: "stm_handler_write (socks5_stm (Some REQUEST_CONNECTING)) c =
      Inr (REQUEST_WRITE, socks5_stm (Some REQUEST_WRITE), c1)"
    "conn c1 = Inr d1" "client d1 = Cl_request h" "read_buffer d1 = read_buffer d"
    "client_fd d1 = int i" "origin_fd d1 = int (key_fd c)"
    "orig d1 = Or_conn \<lparr>cn_client_fd = int i, cn_origin_fd = m1, cn_status = errno_to_socks e\<rparr>"
    "buffer_inv (write_buffer d1)"
    "buffer_contents (write_buffer d1) = buffer_contents (write_buffer d) @ reply_bytes (errno_to_socks e)"
    "waiting_reply c c1 i (key_fd c)"
    by (rule connect_event [OF assms(1-3,5,7-9)])
  have "\<exists>c3 d3. stm_handler_write (socks5_stm (Some REQUEST_WRITE)) c2 = Inr (j, socks5_stm (Some j), c3) \<and>
      conn c3 = Inr d3 \<and> events (c_world c3) = events (c_world c2) @ [Sent i (reply_bytes (errno_to_socks e))] \<and>
      (j = COPY \<longrightarrow> relayed d3 (\<lambda>s. if s = Client_side then buffer_contents (read_buffer d) else []) (\<lambda>_. []))"
    if c2: "conn c2 = Inr (d1\<lparr>conn_current := Some REQUEST_WRITE\<rparr>)" "key_fd c2 = i" "both_registered c2 i (key_fd c)"
      "io_send (c_io c2) = Some m" "10 \<le> m" for c2 m
  proof -
    let ?d = "d1\<lparr>conn_current := Some REQUEST_WRITE\<rparr>"
    have pre: "client ?d = Cl_request h" "client_fd ?d = int (key_fd c2)" "origin_fd ?d = int (key_fd c)"
      "orig ?d = Or_conn \<lparr>cn_client_fd = int i, cn_origin_fd = m1, cn_status = errno_to_socks e\<rparr>"
      "buffer_inv (read_buffer ?d)" "buffer_inv (write_buffer ?d)"
      "buffer_contents (write_buffer ?d) = reply_bytes (errno_to_socks e)" "io_send (c_io c2) = Some m" "10 \<le> m"
      "both_registered c2 (key_fd c2) (key_fd c)"
      using c1 c2 assms(4,6) by simp_all
    obtain c3 d3 where "stm_handler_write (socks5_stm (Some REQUEST_WRITE)) c2 =
        Inr (j, socks5_stm (Some j), c3)" "conn c3 = Inr d3"
      "events (c_world c3) = events (c_world c2) @ [Sent (key_fd c2) (reply_bytes (errno_to_socks e))]"
      "j = COPY \<longrightarrow> relayed d3 (\<lambda>s. if s = Client_side then buffer_contents (read_buffer ?d) else []) (\<lambda>_. [])"
      by (rule answer_event [OF c2(1) pre, folded j_def])
    moreover have "read_buffer ?d = read_buffer d" using c1(4) by simp
    ultimately show ?thesis unfolding c2(2) by metis
  qed
  then show ?thesis using c1(1,2,10) unfolding reply_bytes_def by blast
qed

lemma demo_answering:
  fixes e :: errno and cur :: "addrinfo list ptr"
  obtains c d s where "conn c = Inr d" and "connecting_to d 7 (key_fd c)" and "origin_resolution_current d = cur"
    and "buffer_inv (read_buffer d)" and "buffer_inv (write_buffer d)" and "buffer_contents (write_buffer d) = []"
    and "20 \<le> buffer_space (write_buffer d)" and "both_registered c 7 (key_fd c)"
    and "io_so_error (c_io c) = Some e" and "io_connect (c_io c) = EINPROGRESS" and "key_fd c = 9" and "buffer_contents (read_buffer d) = []"
    and "c_sel c = s"
proof -
  obtain s where s: "sel_ok s" "registered s 7 = Some (demo_end 7 OP_NOOP)" "registered s 9 = Some (demo_end 9 OP_WRITE)"
    by (rule demo_pair)
  let ?d = "demo_fresh\<lparr>client := Cl_request \<lparr>rs_parser = Null, rs_addr_family = 1, rs_status = 0\<rparr>,
    orig := Or_conn \<lparr>cn_client_fd = 7, cn_origin_fd = -1, cn_status = 0\<rparr>, origin_fd := 9, origin_resolution_current := cur\<rparr>"
  let ?c = "(demo_ctx s open_globals (demo_io None\<lparr>io_so_error := Some e, io_connect := EINPROGRESS\<rparr>) ?d)\<lparr>key_fd := 9\<rparr>"
  have fd: "client_fd demo_fresh = 7" by (simp add: demo_fresh_def fresh_conn_def)
  have buf: "buffer_inv (read_buffer demo_fresh)" "buffer_contents (read_buffer demo_fresh) = []"
    "buffer_inv (write_buffer demo_fresh)" "buffer_contents (write_buffer demo_fresh) = []"
    using demo_fresh_simps by (simp_all add: empty_buffers_def)
  have space: "20 \<le> buffer_space (write_buffer demo_fresh)"
    by (simp add: demo_fresh_def fresh_conn_def raw_buffer_def buffer_init_def buffer_reset_def buffer_space_def)
  have c: "conn ?c = Inr ?d" "key_fd ?c = 9" "c_sel ?c = s" "c_io ?c = demo_io None\<lparr>io_so_error := Some e, io_connect := EINPROGRESS\<rparr>"
    by (simp_all add: demo_ctx_def conn_def demo_world_def)
  have to: "connecting_to ?d 7 (key_fd ?c)" using fd c(2) by (auto simp: connecting_to_def closable_def request_constants)
  have both: "both_registered ?c 7 (key_fd ?c)" using s c(2,3) by (simp add: both_registered_def)
  show ?thesis by (rule that [of ?c ?d s]) (use c to both fd buf space in simp_all)
qed

lemma connect_answered_witness:
  "\<exists>c c1 d1 c2 c3 d3. io_so_error (c_io c) = Some E_none \<and>
    stm_handler_write (socks5_stm (Some REQUEST_CONNECTING)) c =
      Inr (REQUEST_WRITE, socks5_stm (Some REQUEST_WRITE), c1) \<and> conn c1 = Inr d1 \<and>
    conn c2 = Inr (d1\<lparr>conn_current := Some REQUEST_WRITE\<rparr>) \<and>
    stm_handler_write (socks5_stm (Some REQUEST_WRITE)) c2 = Inr (COPY, socks5_stm (Some COPY), c3) \<and>
    events (c_world c3) = [Sent 7 [5, 0, 0, 1, 0, 0, 0, 0, 0, 0]] \<and> relayed d3 (\<lambda>s. []) (\<lambda>_. [])"
proof -
  obtain c d s where c: "conn c = Inr d" "connecting_to d 7 (key_fd c)" "origin_resolution_current d = Null"
    "buffer_inv (read_buffer d)" "buffer_inv (write_buffer d)" "buffer_contents (write_buffer d) = []"
    "20 \<le> buffer_space (write_buffer d)" "both_registered c 7 (key_fd c)" "io_so_error (c_io c) = Some E_none"
    "key_fd c = 9" "buffer_contents (read_buffer d) = []" "c_sel c = s"
    by (rule demo_answering [of Null E_none])
  have last: "E_none = E_none \<or> last_address d" and ten: "10 \<le> buffer_space (write_buffer d)" using c(7) by simp_all
  have none: "(\<lambda>s. if s = Client_side then buffer_contents (read_buffer d) else []) = (\<lambda>_. [])"
    using c(11) by auto
  have code: "errno_to_socks E_none = 0" by (simp add: errno_to_socks_def status_succeeded_def)
  obtain c1 d1 where c1: "stm_handler_write (socks5_stm (Some REQUEST_CONNECTING)) c =
      Inr (REQUEST_WRITE, socks5_stm (Some REQUEST_WRITE), c1)" "conn c1 = Inr d1"
    and w: "\<forall>c2 m. conn c2 = Inr (d1\<lparr>conn_current := Some REQUEST_WRITE\<rparr>) \<longrightarrow> key_fd c2 = 7 \<longrightarrow>
      both_registered c2 7 (key_fd c) \<longrightarrow> io_send (c_io c2) = Some m \<longrightarrow> 10 \<le> m \<longrightarrow>
      (\<exists>c3 d3. stm_handler_write (socks5_stm (Some REQUEST_WRITE)) c2 = Inr (COPY, socks5_stm (Some COPY), c3) \<and>
        conn c3 = Inr d3 \<and> events (c_world c3) = events (c_world c2) @ [Sent 7 [5, 0, 0, 1, 0, 0, 0, 0, 0, 0]] \<and>
        relayed d3 (\<lambda>s. []) (\<lambda>_. []))"
    using connect_answered [OF c(1,2) last c(4-6) ten c(8,9)] unfolding none code if_P [OF refl] by blast
  let ?c2 = "demo_ctx s open_globals (demo_io None\<lparr>io_send := Some 10\<rparr>) (d1\<lparr>conn_current := Some REQUEST_WRITE\<rparr>)"
  have b: "both_registered ?c2 7 (key_fd c)" using c(8,12) by (simp add: both_registered_def)
  have "io_send (c_io ?c2) = Some 10" "key_fd ?c2 = 7" "conn ?c2 = Inr (d1\<lparr>conn_current := Some REQUEST_WRITE\<rparr>)" by simp_all
  with w b obtain c3 d3 where "stm_handler_write (socks5_stm (Some REQUEST_WRITE)) ?c2 = Inr (COPY, socks5_stm (Some COPY), c3)"
    "conn c3 = Inr d3" "events (c_world c3) = events (c_world ?c2) @ [Sent 7 [5, 0, 0, 1, 0, 0, 0, 0, 0, 0]]"
    "relayed d3 (\<lambda>s. []) (\<lambda>_. [])" by (metis order_refl)
  then show ?thesis
    using c1 c(9) by (intro exI [of _ c] exI [of _ c1] exI [of _ d1] exI [of _ ?c2] exI [of _ c3] exI [of _ d3]) simp
qed

end
