(* ===== verification/Resolution.thy ===== *)
theory Resolution
  imports Requests
begin

text \<open>
  Requests that name a host: the thread that looks the name up, what the answer of \<open>getaddrinfo\<close>
  leads to, and what becomes of its second address when the first one cannot be reached.
\<close>

section \<open>The name is looked up\<close>

lemma c_string_up_to_zero: "c_string (map Some s @ Some 0 # rest) = Inr (takeWhile (\<lambda>b. b \<noteq> 0) s)"
  by (induction s) simp_all

lemma map_Some_the: "None \<notin> set xs \<Longrightarrow> map Some (map the xs) = xs"
  by (induction xs) auto

definition names_host :: "client_union \<Rightarrow> byte list \<Rightarrow> byte list \<Rightarrow> bool" where
  "names_host u h port \<longleftrightarrow> (\<exists>p r g. u = Cl_request \<lparr>rs_parser = Ptr p, rs_addr_family = socks_req_addrtype_domain, rs_status = 0\<rparr> \<and>
     rp_request p = Ptr r \<and> rq_dest_port r = port \<and> rq_dest_addr_type r = socks_req_addrtype_domain \<and>
     rq_dest r = Dest_fqdn g \<and> fqdn_size g = int (length h) \<and> length h \<le> length (fqdn_host g) \<and>
     take (length h) (fqdn_host g) = map Some h)"

text \<open>What \<open>getaddrinfo\<close> leaves in its result argument.\<close>

definition answer_list :: "addrinfo list \<Rightarrow> addrinfo list ptr" where
  "answer_list res = (if res = [] then Null else Ptr res)"

lemma resolver_answers:
  assumes "conn c = Inr d" and "names_host (client d) h [b1, b2]" and "io_malloc (c_io c) 0"
  shows "\<exists>c'. request_resolv_blocking g c = Inr c' \<and>
    conn c' = Inr (d\<lparr>origin_resolution := answer_list (g (takeWhile (\<lambda>b. b \<noteq> 0) h) (256 * unat b1 + unat b2))\<rparr>) \<and>
    resolution_jobs (c_sel c') = (if io_malloc (c_io c) 1 then [key_fd c] else []) @ resolution_jobs (c_sel c)"
proof -
  obtain p r f where f: "client d = Cl_request \<lparr>rs_parser = Ptr p, rs_addr_family = socks_req_addrtype_domain, rs_status = 0\<rparr>"
    "rp_request p = Ptr r" "rq_dest_port r = [b1, b2]" "rq_dest r = Dest_fqdn f" "fqdn_size f = int (length h)"
    "length h \<le> length (fqdn_host f)" "take (length h) (fqdn_host f) = map Some h"
    using assms(2) by (auto simp: names_host_def)
  have "mem_load 0 (length h) (fqdn_host f) = Inr (map Some h)" using f(6,7) by (simp add: mem_load_def)
  then show ?thesis
    using assms(1,3) f(1-5) c_string_up_to_zero [of h "[]"]
    by (simp add: request_resolv_blocking_def as_request_def answer_list_def port_number_def selector_notify_block_def Let_def)
qed

lemma request_read_name:
  assumes d: "conn c = Inr d" "awaits_request (client d)"
    and buf: "buffer_inv (read_buffer d)" "buffer_contents (read_buffer d) = []"
    and msg: "io_recv (c_io c) = Some (encode_request (Domain h) [b1, b2])" "address_ok (Domain h)"
      "length (encode_request (Domain h) [b1, b2]) \<le> buffer_space (read_buffer d)"
    and sel: "sel_ok (c_sel c)" "registered (c_sel c) (key_fd c) = Some it"
    and io: "io_malloc (c_io c) 0" "io_pthread_create (c_io c) = 0"
  shows "\<exists>rb u s. request_read c = Inr (REQUEST_RESOLV,
      (emit (Spawned (key_fd c) (key_data c)) (put_conn (d\<lparr>read_buffer := rb, client := u\<rparr>) c))\<lparr>c_sel := s\<rparr>) \<and>
    names_host u h [b1, b2] \<and> sel_ok s \<and> registered s = (registered (c_sel c))(key_fd c \<mapsto> it\<lparr>it_interest := OP_NOOP\<rparr>)"
proof -
  obtain r0 p0 p f0 where p: "fresh_ok r0" "request_parser_init (Ptr r0) p0 = (0, p)"
    "client d = Cl_request \<lparr>rs_parser = Ptr p, rs_addr_family = f0, rs_status = 0\<rparr>"
    using d(2) by (auto simp: awaits_request_def)
  have ne: "encode_request (Domain h) [b1, b2] \<noteq> []" by (simp add: encode_request_def)
  have recv: "recv_bytes (c_io c) (buffer_space (read_buffer d)) = Some (encode_request (Domain h) [b1, b2])"
    by (rule recv_whole [OF msg(1) ne msg(3)])
  obtain rb where rb: "fill (read_buffer d) (encode_request (Domain h) [b1, b2]) = Inr rb" "buffer_inv rb"
    "buffer_contents rb = encode_request (Domain h) [b1, b2]"
    using fill_spec [OF buf(1) msg(3)] buf(2) by auto
  obtain p' r where run: "run_parser request_parser_feed request_is_done p (rp_state p) False
      (buffer_contents rb) = Inr (p', request_done, False, [], True)"
    "rp_request p' = Ptr r" "request_holds r (Domain h) [b1, b2]"
    using request_run_encoded [OF p(2,1) msg(2), of b1 b2 "[]"] rb(3) by auto
  obtain rb' where rb': "request_consume rb p False = Inr (rb', p', request_done, False)"
    using req.loop_result [OF rb(2) run(1)] unfolding request_consume_def by metis
  obtain f where f: "rq_cmd r = socks_req_cmd_connect" "rq_dest_addr_type r = socks_req_addrtype_domain"
    "rq_dest r = Dest_fqdn f" "map the (take (nat (fqdn_size f)) (fqdn_host f)) = h" "rq_dest_port r = [b1, b2]"
    "0 \<le> fqdn_size f" "nat (fqdn_size f) \<le> length (fqdn_host f)" "None \<notin> set (take (nat (fqdn_size f)) (fqdn_host f))"
    using run(3) by (auto simp: request_holds_def request_target_def request_constants split: dest_union.splits)
  have size: "fqdn_size f = int (length h)" using f(4,6,7) by auto
  have host: "take (length h) (fqdn_host f) = map Some h"
    by (metis f(4) map_Some_the [OF f(8)] size nat_int)
  let ?u = "Cl_request \<lparr>rs_parser = Ptr p', rs_addr_family = socks_req_addrtype_domain, rs_status = 0\<rparr>"
  let ?c2 = "emit (Spawned (key_fd c) (key_data c)) (put_conn (d\<lparr>read_buffer := rb', client := ?u\<rparr>) c)"
  have u: "names_host ?u h [b1, b2]"
    using run(2) f(2,3,5,7) size host by (auto simp: names_host_def)
  have sel2: "sel_ok (c_sel ?c2)" "registered (c_sel ?c2) (key_fd ?c2) = Some it" using sel by simp_all
  obtain s where s: "set_interest_key OP_NOOP ?c2 = Inr (SELECTOR_SUCCESS, ?c2\<lparr>c_sel := s\<rparr>)" "sel_ok s"
    "registered s = (registered (c_sel ?c2))(key_fd ?c2 \<mapsto> it\<lparr>it_interest := OP_NOOP\<rparr>)"
    by (rule interest_key_sel [OF sel2])
  have "request_read c = Inr (REQUEST_RESOLV, ?c2\<lparr>c_sel := s\<rparr>)"
    using d(1) p(3) buf(1) recv rb(1) rb' run(2) f(1,2) io s(1)
    by (simp add: request_read_def as_request_def buffer_write_ptr_inv status_succeeded_def request_process_def Let_def
        request_constants)
  then show ?thesis using u s(2,3) by (intro exI [of _ rb'] exI [of _ ?u] exI [of _ s]) simp
qed

section \<open>The answer is used\<close>

lemma resolved_first:
  assumes d: "conn c = Inr d" "names_host (client d) h port" "client_fd d = int (key_fd c)"
      "origin_resolution d = Ptr (a # as)" "ai_family a \<noteq> AF_OTHER"
    and sel: "sel_ok (c_sel c)" "registered (c_sel c) (key_fd c) = Some it"
    and io: "io_socket (c_io c) = Some n" "io_set_nio (c_io c)" "io_connect (c_io c) = EINPROGRESS" "io_register (c_io c)"
    and n: "registered (c_sel c) n = None" "n < ITEMS_MAX_SIZE"
  shows "\<exists>c1 d1. stm_handler_block (socks5_stm (Some REQUEST_RESOLV)) c =
      Inr (REQUEST_CONNECTING, socks5_stm (Some REQUEST_CONNECTING), c1) \<and> conn c1 = Inr d1 \<and>
    origin_addr d1 = ai_addr a \<and> connecting_to d1 (key_fd c) n \<and> origin_resolution_current d1 = Ptr (a # as) \<and>
    registered (c_sel c1) = (registered (c_sel c))(key_fd c \<mapsto> it\<lparr>it_interest := OP_NOOP\<rparr>,
      n \<mapsto> \<lparr>it_fd = int n, it_interest = OP_WRITE, it_handler = Some Socks5_handler, it_data = Some (key_data c)\<rparr>)"
proof -
  obtain p r where u: "client d = Cl_request \<lparr>rs_parser = Ptr p, rs_addr_family = socks_req_addrtype_domain, rs_status = 0\<rparr>"
    "rp_request p = Ptr r"
    using d(2) by (auto simp: names_host_def)
  obtain dom len where fin: "request_resolv_done c = Inr (REQUEST_CONNECTING,
      put_conn (d\<lparr>origin_resolution_current := Ptr (a # as), origin_domain := dom, origin_addr_len := len, origin_addr := ai_addr a\<rparr>) c)"
    using d(1,4,5) by (cases "ai_family a") (auto simp: request_resolv_done_def)
  let ?d = "d\<lparr>origin_resolution_current := Ptr (a # as), origin_domain := dom, origin_addr_len := len, origin_addr := ai_addr a\<rparr>"
  let ?c = "put_conn ?d c"
  have pre: "conn ?c = Inr ?d" "client ?d = Cl_request \<lparr>rs_parser = Ptr p, rs_addr_family = socks_req_addrtype_domain, rs_status = 0\<rparr>"
    "sel_ok (c_sel ?c)" "registered (c_sel ?c) (key_fd ?c) = Some it" "io_socket (c_io ?c) = Some n"
    "io_set_nio (c_io ?c)" "io_connect (c_io ?c) = EINPROGRESS" "io_register (c_io ?c)" "registered (c_sel ?c) n = None"
    using u sel io n by simp_all
  obtain c3 where c3: "connecting_init REQUEST_CONNECTING ?c = Inr c3"
    "conn c3 = Inr (?d\<lparr>orig := Or_conn \<lparr>cn_client_fd = client_fd ?d, cn_origin_fd = -1, cn_status = 0\<rparr>,
      origin_fd := int n, references := references ?d + 1\<rparr>)"
    "registered (c_sel c3) = (registered (c_sel ?c))(key_fd ?c \<mapsto> it\<lparr>it_interest := OP_NOOP\<rparr>,
      n \<mapsto> \<lparr>it_fd = int n, it_interest = OP_WRITE, it_handler = Some Socks5_handler, it_data = Some (key_data ?c)\<rparr>)"
    by (rule connecting_init_ok [OF pre n(2), of REQUEST_CONNECTING])
  have "stm_handler_block (socks5_stm (Some REQUEST_RESOLV)) c =
      Inr (REQUEST_CONNECTING, socks5_stm (Some REQUEST_CONNECTING), c3)"
    unfolding stm_handler_block_def
    by (rule socks_event [of REQUEST_RESOLV _ _ c on_block_ready request_resolv_done REQUEST_CONNECTING ?c ?c])
      (use fin c3(1) in \<open>simp_all add: client_statbl_def state_def run_action_def\<close>)
  moreover have "n \<noteq> key_fd c" using sel(2) n(1) by auto
  ultimately show ?thesis
    using c3(2,3) u d(3,4) by (intro exI [of _ c3]) (auto simp: connecting_to_def closable_def)
qed

lemma unresolved:
  assumes d: "conn c = Inr d" "names_host (client d) h port" "as_conn (orig d) = Inr o'"
      "origin_resolution d = Null"
    and wb: "buffer_inv (write_buffer d)" "10 \<le> buffer_space (write_buffer d)"
    and sel: "sel_ok (c_sel c)" "registered (c_sel c) (key_fd c) = Some it"
  shows "\<exists>c1 d1. stm_handler_block (socks5_stm (Some REQUEST_RESOLV)) c =
      Inr (REQUEST_WRITE, socks5_stm (Some REQUEST_WRITE), c1) \<and> conn c1 = Inr d1 \<and>
    buffer_contents (write_buffer d1) = buffer_contents (write_buffer d) @ reply_bytes 1 \<and>
    registered (c_sel c1) = (registered (c_sel c))(key_fd c \<mapsto> it\<lparr>it_interest := OP_WRITE\<rparr>)"
proof -
  obtain p where u: "client d = Cl_request \<lparr>rs_parser = Ptr p, rs_addr_family = socks_req_addrtype_domain, rs_status = 0\<rparr>"
    using d(2) by (auto simp: names_host_def)
  obtain b where b: "request_marshall 1 (write_buffer d) = Inr (10, b)" "buffer_inv b"
    "buffer_contents b = buffer_contents (write_buffer d) @ reply_bytes 1"
    by (rule request_marshall_append [OF wb])
  let ?d = "d\<lparr>orig := Or_conn (o'\<lparr>cn_status := 1\<rparr>),
    client := Cl_request \<lparr>rs_parser = Ptr p, rs_addr_family = socks_req_addrtype_domain, rs_status = 1\<rparr>\<rparr>"
  let ?c1 = "put_conn (?d\<lparr>write_buffer := b\<rparr>) c"
  have sel1: "sel_ok (c_sel ?c1)" "registered (c_sel ?c1) (key_fd ?c1) = Some it" using sel by simp_all
  obtain s where s: "set_interest_key OP_WRITE ?c1 = Inr (SELECTOR_SUCCESS, ?c1\<lparr>c_sel := s\<rparr>)"
    "registered s = (registered (c_sel ?c1))(key_fd ?c1 \<mapsto> it\<lparr>it_interest := OP_WRITE\<rparr>)"
    by (rule interest_key_sel [OF sel1])
  have "request_resolv_done c = Inr (REQUEST_WRITE, ?c1\<lparr>c_sel := s\<rparr>)"
    using d(1,3,4) u b(1) s(1)
    by (simp add: request_resolv_done_def set_conn_status_def set_request_status_def as_request_def error_handler_def
        reply_def status_general_socks_server_failure_def)
  then have "stm_handler_block (socks5_stm (Some REQUEST_RESOLV)) c =
      Inr (REQUEST_WRITE, socks5_stm (Some REQUEST_WRITE), ?c1\<lparr>c_sel := s\<rparr>)"
    unfolding stm_handler_block_def
    by (intro socks_event [of REQUEST_RESOLV _ _ c on_block_ready request_resolv_done REQUEST_WRITE "?c1\<lparr>c_sel := s\<rparr>" "?c1\<lparr>c_sel := s\<rparr>"])
      (simp_all add: client_statbl_def state_def run_action_def)
  then show ?thesis using b(3) s(2) by (intro exI [of _ "?c1\<lparr>c_sel := s\<rparr>"]) simp
qed

section \<open>The second address\<close>

lemma registered_in_use:
  assumes "sel_ok s" and "registered s i = Some it"
  shows "selector_register ok s (int i) (Some h) op k = Inr (SELECTOR_FDINUSE, s)"
proof -
  have inv: "selector_inv s" using assms(1) by (simp add: sel_ok_def)
  have i: "i < fd_size s" "i < ITEMS_MAX_SIZE" using registered_bounds [OF inv assms(2)] by simp_all
  obtain it0 where "item_at s i = Inr it0" "registered s i = (if item_used it0 then Some it0 else None)"
    using inv i(1) by (rule item_at_inv)
  then show ?thesis
    using assms(2) i by (simp add: selector_register_def INVALID_FD_def split: if_splits)
qed

lemma stm_stays:
  assumes i: "i \<le> ERROR" and f: "ready (client_statbl ! i) = Some f" "f c = Inr (i, c')"
  shows "stm_handler ready (socks5_stm (Some i)) c = Inr (i, socks5_stm (Some i), c')"
proof -
  have len: "length client_statbl = 11" by (simp add: client_statbl_def)
  have "handle_first (socks5_stm (Some i)) c = Inr (socks5_stm (Some i), c)"
    by (simp add: handle_first_def socks5_stm_def)
  moreover have "jump (socks5_stm (Some i)) i c' = Inr (socks5_stm (Some i), c')"
    using i by (simp add: jump_def socks5_stm_def)
  ultimately show ?thesis
    using f i len by (simp add: stm_handler_def stm_at_def socks5_stm_def)
qed

text \<open>
  \<open>connection\<close> on a socket that is registered already: the client gets its reply, and the socket is
  closed and stays registered.
\<close>

lemma connection_again:
  assumes d: "conn c = Inr d" "client_fd d = int i" "origin_fd d = int (key_fd c)" "i \<noteq> key_fd c"
      "orig d = Or_conn \<lparr>cn_client_fd = int i, cn_origin_fd = m, cn_status = st\<rparr>"
    and wb: "buffer_inv (write_buffer d)" "10 \<le> buffer_space (write_buffer d)"
    and sel: "both_registered c i (key_fd c)" and io: "io_connect (c_io c) = EINPROGRESS"
  shows "\<exists>c1 b. connection c = Inr (1, c1) \<and>
    conn c1 = Inr (d\<lparr>orig := Or_conn \<lparr>cn_client_fd = int i, cn_origin_fd = m, cn_status = 1\<rparr>,
      write_buffer := b, origin_fd := -1\<rparr>) \<and>
    buffer_inv b \<and> buffer_contents b = buffer_contents (write_buffer d) @ reply_bytes 1 \<and>
    buffer_space b = buffer_space (write_buffer d) - 10 \<and>
    events (c_world c1) = events (c_world c) @ [Closed (int (key_fd c))] \<and> waiting_reply c c1 i (key_fd c)"
proof -
  define n where "n = key_fd c"
  let ?g = "glob c"
  let ?c0 = "put_glob (?g\<lparr>metrics_historic_connections_attempts := metrics_historic_connections_attempts ?g + 1\<rparr>) c"
  obtain it where it: "registered (c_sel ?c0) n = Some it" "sel_ok (c_sel ?c0)"
    using sel by (auto simp: both_registered_def n_def)
  obtain s where s: "set_interest_fd (int n) OP_NOOP ?c0 = Inr (SELECTOR_SUCCESS, ?c0\<lparr>c_sel := s\<rparr>)" "sel_ok s"
    "registered s = (registered (c_sel ?c0))(n \<mapsto> it\<lparr>it_interest := OP_NOOP\<rparr>)"
    by (rule interest_fd_ok [OF it(2,1)])
  obtain b where b: "request_marshall 1 (write_buffer d) = Inr (10, b)" "buffer_inv b"
    "buffer_contents b = buffer_contents (write_buffer d) @ reply_bytes 1" "buffer_space b = buffer_space (write_buffer d) - 10"
    by (rule request_marshall_append [OF wb])
  let ?d1 = "d\<lparr>orig := Or_conn \<lparr>cn_client_fd = int i, cn_origin_fd = m, cn_status = 1\<rparr>, write_buffer := b\<rparr>"
  let ?c1 = "put_conn ?d1 (?c0\<lparr>c_sel := s\<rparr>)"
  have "both_registered ?c1 i n" using sel s(2,3) by (auto simp: both_registered_def n_def)
  then obtain t t' where t: "set_interest_fd (int i) OP_WRITE ?c1 = Inr (SELECTOR_SUCCESS, ?c1\<lparr>c_sel := t\<rparr>)"
    "set_interest_fd (int n) OP_NOOP (?c1\<lparr>c_sel := t\<rparr>) = Inr (SELECTOR_SUCCESS, ?c1\<lparr>c_sel := t'\<rparr>)"
    "waiting_reply ?c1 (?c1\<lparr>c_sel := t'\<rparr>) i n"
    using two_interests [of ?c1 i n] d(4) unfolding n_def by metis
  have again: "selector_register ok s (int n) (Some Socks5_handler) OP_WRITE k = Inr (SELECTOR_FDINUSE, s)" for ok k
    by (rule registered_in_use [OF s(2), of _ "it\<lparr>it_interest := OP_NOOP\<rparr>"]) (simp add: s(3))
  let ?c2 = "put_conn (?d1\<lparr>origin_fd := -1\<rparr>) (emit (Closed (int n)) (?c1\<lparr>c_sel := t'\<rparr>))"
  have failed: "connection_failed status_general_socks_server_failure (?c0\<lparr>c_sel := s\<rparr>) = Inr (1, ?c1\<lparr>c_sel := t'\<rparr>)"
    using d(1,2,3,5) b(1) t(1,2)
    by (simp add: connection_failed_def set_conn_status_def as_conn_def error_handler_to_client_def reply_def
        status_general_socks_server_failure_def n_def)
  have "connection c = Inr (1, ?c2)"
    using io s(1) d(1,3) again failed
    by (simp add: connection_def Let_def set_interest_key_fd register_origin_def n_def)
  moreover have "waiting_reply c ?c2 i n"
    using t(3) s(3) d(4) it(1) by (simp add: waiting_reply_def n_def)
  ultimately show ?thesis using b by (intro exI [of _ ?c2] exI [of _ b]) (simp add: n_def)
qed

lemma second_address_refused:
  assumes d: "conn c = Inr d" "connecting_to d i (key_fd c)" "origin_resolution_current d = Ptr [a, b]"
    and wb: "buffer_inv (write_buffer d)" "buffer_contents (write_buffer d) = []" "10 \<le> buffer_space (write_buffer d)"
    and sel: "both_registered c i (key_fd c)"
    and io: "io_so_error (c_io c) = Some e" "e \<noteq> E_none" "io_connect (c_io c) = EINPROGRESS"
  shows "\<exists>c1 d1 m. stm_handler_write (socks5_stm (Some REQUEST_CONNECTING)) c =
      Inr (REQUEST_CONNECTING, socks5_stm (Some REQUEST_CONNECTING), c1) \<and> conn c1 = Inr d1 \<and>
    client d1 = client d \<and> client_fd d1 = int i \<and> origin_fd d1 = -1 \<and> origin_resolution_current d1 = Ptr [b] \<and>
    orig d1 = Or_conn \<lparr>cn_client_fd = int i, cn_origin_fd = m, cn_status = 1\<rparr> \<and>
    buffer_inv (write_buffer d1) \<and> buffer_contents (write_buffer d1) = reply_bytes 1 \<and>
    buffer_space (write_buffer d1) = buffer_space (write_buffer d) - 10 \<and>
    events (c_world c1) = events (c_world c) @ [Closed (int (key_fd c))] \<and> waiting_reply c c1 i (key_fd c)"
proof -
  obtain m where shape: "client_fd d = int i" "origin_fd d = int (key_fd c)" "i \<noteq> key_fd c"
    "orig d = Or_conn \<lparr>cn_client_fd = int i, cn_origin_fd = m, cn_status = 0\<rparr>"
    using d(2) by (auto simp: connecting_to_def)
  let ?st = "errno_to_socks e"
  let ?d1 = "d\<lparr>orig := Or_conn \<lparr>cn_client_fd = int i, cn_origin_fd = m, cn_status = ?st\<rparr>, origin_resolution_current := Ptr [b],
    origin_addr := (case ai_family b of AF_OTHER \<Rightarrow> origin_addr d | _ \<Rightarrow> ai_addr b)\<rparr>"
  let ?c1 = "put_conn ?d1 c"
  have pre: "conn ?c1 = Inr ?d1" "client_fd ?d1 = int i" "origin_fd ?d1 = int (key_fd ?c1)" "i \<noteq> key_fd ?c1"
    "orig ?d1 = Or_conn \<lparr>cn_client_fd = int i, cn_origin_fd = m, cn_status = ?st\<rparr>"
    "buffer_inv (write_buffer ?d1)" "10 \<le> buffer_space (write_buffer ?d1)" "both_registered ?c1 i (key_fd ?c1)"
    "io_connect (c_io ?c1) = EINPROGRESS"
    using shape wb sel io(3) by (simp_all add: both_registered_def)
  obtain c2 wb' where c2: "connection ?c1 = Inr (1, c2)"
    "conn c2 = Inr (?d1\<lparr>orig := Or_conn \<lparr>cn_client_fd = int i, cn_origin_fd = m, cn_status = 1\<rparr>,
      write_buffer := wb', origin_fd := -1\<rparr>)"
    "buffer_inv wb'" "buffer_contents wb' = buffer_contents (write_buffer ?d1) @ reply_bytes 1"
    "buffer_space wb' = buffer_space (write_buffer ?d1) - 10"
    "events (c_world c2) = events (c_world ?c1) @ [Closed (int (key_fd ?c1))]" "waiting_reply ?c1 c2 i (key_fd ?c1)"
    using connection_again [OF pre] by blast
  have "connecting_error e c = Inr (REQUEST_CONNECTING, c2)"
    using d(1,3) shape(4) c2(1) by (cases "ai_family b")
      (simp_all add: connecting_error_def set_conn_status_def as_conn_def next_address_def)
  then have "connecting_write c = Inr (REQUEST_CONNECTING, c2)"
    using d(1) shape(4) io(1,2) by (simp add: connecting_write_def as_conn_def status_succeeded_def)
  then have "stm_handler_write (socks5_stm (Some REQUEST_CONNECTING)) c =
      Inr (REQUEST_CONNECTING, socks5_stm (Some REQUEST_CONNECTING), c2)"
    unfolding stm_handler_write_def
    by (intro stm_stays [of _ _ connecting_write]) (simp_all add: client_statbl_def state_def)
  then show ?thesis using c2(2-7) shape(1) wb(2)
    by (intro exI [of _ c2]) (simp add: waiting_reply_def)
qed

lemma gives_up:
  assumes d: "conn c = Inr d" "client d = Cl_request h" "closable (rs_parser h)" "client_fd d = int (key_fd c)"
      "origin_fd d = -1" "origin_resolution_current d = Ptr [b]"
      "orig d = Or_conn \<lparr>cn_client_fd = int (key_fd c), cn_origin_fd = m, cn_status = 1\<rparr>"
    and wb: "buffer_inv (write_buffer d)" "10 \<le> buffer_space (write_buffer d)"
    and sel: "both_registered c (key_fd c) n" "key_fd c \<noteq> n"
  shows "\<exists>c1 d1. stm_handler_write (socks5_stm (Some REQUEST_CONNECTING)) c =
      Inr (REQUEST_WRITE, socks5_stm (Some REQUEST_WRITE), c1) \<and> conn c1 = Inr d1 \<and> origin_fd d1 = -1 \<and>
    buffer_contents (write_buffer d1) = buffer_contents (write_buffer d) @ reply_bytes 1 \<and>
    registered (c_sel c1) n = registered (c_sel c) n"
proof -
  obtain it where it: "registered (c_sel c) (key_fd c) = Some it" "sel_ok (c_sel c)"
    using sel(1) by (auto simp: both_registered_def)
  obtain wb' where wb': "request_marshall 1 (write_buffer d) = Inr (10, wb')" "buffer_inv wb'"
    "buffer_contents wb' = buffer_contents (write_buffer d) @ reply_bytes 1"
    by (rule request_marshall_append [OF wb])
  let ?c1 = "emit (Closed (-1)) c"
  let ?d1 = "d\<lparr>origin_fd := -1, write_buffer := wb'\<rparr>"
  let ?c2 = "put_conn ?d1 ?c1"
  have sel2: "registered (c_sel ?c2) (key_fd c) = Some it" "sel_ok (c_sel ?c2)" using it by simp_all
  obtain s where s: "set_interest_fd (int (key_fd c)) OP_WRITE ?c2 = Inr (SELECTOR_SUCCESS, ?c2\<lparr>c_sel := s\<rparr>)"
    "registered s = (registered (c_sel ?c2))(key_fd c \<mapsto> it\<lparr>it_interest := OP_WRITE\<rparr>)"
    by (rule interest_fd_ok [OF sel2(2,1)])
  have "unregister (-1) c = Inr (SELECTOR_IARGS, c)"
    by (simp add: unregister_def selector_unregister_fd_def INVALID_FD_def)
  then have w: "connecting_write c = Inr (REQUEST_WRITE, ?c2\<lparr>c_sel := s\<rparr>)"
    using d wb'(1) s(1)
    by (simp add: connecting_write_def as_conn_def next_address_def status_succeeded_def error_handler_to_client_def reply_def)
  have pre: "conn (?c2\<lparr>c_sel := s\<rparr>) = Inr ?d1" "client ?d1 = Cl_request h" using d(2) by simp_all
  obtain q where q: "connecting_close REQUEST_CONNECTING (?c2\<lparr>c_sel := s\<rparr>) =
      Inr (put_conn (?d1\<lparr>client := Cl_request (h\<lparr>rs_parser := q\<rparr>)\<rparr>) (?c2\<lparr>c_sel := s\<rparr>))"
    by (rule connecting_close_ok [OF pre d(3)])
  let ?c3 = "put_conn (?d1\<lparr>client := Cl_request (h\<lparr>rs_parser := q\<rparr>)\<rparr>) (?c2\<lparr>c_sel := s\<rparr>)"
  have "stm_handler_write (socks5_stm (Some REQUEST_CONNECTING)) c =
      Inr (REQUEST_WRITE, socks5_stm (Some REQUEST_WRITE), ?c3)"
    unfolding stm_handler_write_def
    by (rule socks_event [of REQUEST_CONNECTING _ _ c on_write_ready connecting_write REQUEST_WRITE "?c2\<lparr>c_sel := s\<rparr>" ?c3])
      (use w q in \<open>simp_all add: client_statbl_def state_def run_action_def\<close>)
  then show ?thesis using wb'(3) s(2) sel(2) by (intro exI [of _ ?c3]) simp
qed

section \<open>Properties\<close>

text \<open>
  \<open>C18\<close> A name is looked up as it was asked for. When the request for a host name arrives whole, the
  connection goes on to \<open>REQUEST_RESOLV\<close> and is not listened to; one thread is started for it, and
  that thread asks \<open>getaddrinfo\<close>, whatever \<open>getaddrinfo\<close> answers, for the name of the request, up to
  its first NUL, and its port, stores the answer in the connection and queues the connection for the
  selector.
\<close>

theorem name_is_looked_up:
  assumes "conn c = Inr d" and "awaits_request (client d)"
    and "buffer_inv (read_buffer d)" and "buffer_contents (read_buffer d) = []"
    and "io_recv (c_io c) = Some (encode_request (Domain h) [b1, b2])" and "address_ok (Domain h)"
    and "length (encode_request (Domain h) [b1, b2]) \<le> buffer_space (read_buffer d)"
    and "sel_ok (c_sel c)" and "registered (c_sel c) (key_fd c) = Some it"
    and "io_malloc (c_io c) 0" and "io_pthread_create (c_io c) = 0"
  shows "\<exists>c1 d1. stm_handler_read (socks5_stm (Some REQUEST_READ)) c =
      Inr (REQUEST_RESOLV, socks5_stm (Some REQUEST_RESOLV), c1) \<and> conn c1 = Inr d1 \<and>
    names_host (client d1) h [b1, b2] \<and>
    events (c_world c1) = events (c_world c) @ [Spawned (key_fd c) (key_data c)] \<and>
    registered (c_sel c1) = (registered (c_sel c))(key_fd c \<mapsto> it\<lparr>it_interest := OP_NOOP\<rparr>) \<and>
    (\<forall>g c2. conn c2 = Inr (d1\<lparr>conn_current := Some REQUEST_RESOLV\<rparr>) \<longrightarrow> io_malloc (c_io c2) 0 \<longrightarrow>
      (\<exists>c3. request_resolv_blocking g c2 = Inr c3 \<and> conn c3 = Inr (d1\<lparr>conn_current := Some REQUEST_RESOLV,
        origin_resolution := answer_list (g (takeWhile (\<lambda>b. b \<noteq> 0) h) (256 * unat b1 + unat b2))\<rparr>) \<and>
        resolution_jobs (c_sel c3) = (if io_malloc (c_io c2) 1 then [key_fd c2] else []) @ resolution_jobs (c_sel c2)))"
proof -
  obtain rb u s where r: "request_read c = Inr (REQUEST_RESOLV,
      (emit (Spawned (key_fd c) (key_data c)) (put_conn (d\<lparr>read_buffer := rb, client := u\<rparr>) c))\<lparr>c_sel := s\<rparr>)"
    "names_host u h [b1, b2]" "registered s = (registered (c_sel c))(key_fd c \<mapsto> it\<lparr>it_interest := OP_NOOP\<rparr>)"
    using request_read_name [OF assms] by blast
  let ?d1 = "d\<lparr>read_buffer := rb, client := u\<rparr>"
  let ?c1 = "(emit (Spawned (key_fd c) (key_data c)) (put_conn ?d1 c))\<lparr>c_sel := s\<rparr>"
  obtain p r' where "u = Cl_request \<lparr>rs_parser = Ptr p, rs_addr_family = socks_req_addrtype_domain, rs_status = 0\<rparr>"
    "rp_request p = Ptr r'" "rq_dest_addr_type r' = socks_req_addrtype_domain"
    using r(2) by (auto simp: names_host_def)
  then have "request_close REQUEST_READ ?c1 = Inr ?c1" by (simp add: request_close_def as_request_def)
  then have "stm_handler_read (socks5_stm (Some REQUEST_READ)) c =
      Inr (REQUEST_RESOLV, socks5_stm (Some REQUEST_RESOLV), ?c1)"
    unfolding stm_handler_read_def
    by (intro socks_event [of REQUEST_READ _ _ c on_read_ready request_read REQUEST_RESOLV ?c1 ?c1])
      (use r(1) in \<open>simp_all add: client_statbl_def state_def run_action_def\<close>)
  then show ?thesis
    using r(2,3) resolver_answers [of _ "?d1\<lparr>conn_current := Some REQUEST_RESOLV\<rparr>" h b1 b2]
    by (intro exI [of _ ?c1] exI [of _ ?d1]) simp
qed

lemma name_is_looked_up_witness:
  "\<exists>c c1 d1. io_recv (c_io c) = Some [5, 1, 0, 3, 2, 104, 105, 0, 80] \<and>
    stm_handler_read (socks5_stm (Some REQUEST_READ)) c =
      Inr (REQUEST_RESOLV, socks5_stm (Some REQUEST_RESOLV), c1) \<and> conn c1 = Inr d1 \<and>
    names_host (client d1) [104, 105] [0, 80] \<and>
    registered (c_sel c1) 7 = Some (demo_end 7 OP_NOOP)"
proof -
  obtain c d where c: "conn c = Inr d" "awaits_request (client d)" "buffer_inv (read_buffer d)"
    "buffer_contents (read_buffer d) = []" "buffer_space (read_buffer d) = 2048"
    "sel_ok (c_sel c)" "registered (c_sel c) (key_fd c) = Some (demo_end 7 OP_READ)" "key_fd c = 7"
    "io_recv (c_io c) = Some [5, 1, 0, 3, 2, 104, 105, 0, 80]" "io_malloc (c_io c) 0" "io_pthread_create (c_io c) = 0"
    by (rule demo_awaiting [of "[5, 1, 0, 3, 2, 104, 105, 0, 80]"])
  have msg: "encode_request (Domain [104, 105]) [0, 80] = [5, 1, 0, 3, 2, 104, 105, 0, 80]"
    by (simp add: encode_request_def)
  have rest: "io_recv (c_io c) = Some (encode_request (Domain [104, 105]) [0, 80])" "address_ok (Domain [104, 105])"
    "length (encode_request (Domain [104, 105]) [0, 80]) \<le> buffer_space (read_buffer d)"
    unfolding msg using c(5,9) by simp_all
  obtain c1 d1 where "stm_handler_read (socks5_stm (Some REQUEST_READ)) c =
      Inr (REQUEST_RESOLV, socks5_stm (Some REQUEST_RESOLV), c1)" "conn c1 = Inr d1" "names_host (client d1) [104, 105] [0, 80]"
    "registered (c_sel c1) = (registered (c_sel c))(key_fd c \<mapsto> demo_end 7 OP_READ\<lparr>it_interest := OP_NOOP\<rparr>)"
    using name_is_looked_up [OF c(1-4) rest c(6,7,10,11)] by blast
  then show ?thesis using c(8,9)
    by (intro exI [of _ c] exI [of _ c1] exI [of _ d1]) (simp add: demo_end_def)
qed

text \<open>
  \<open>C19\<close> The answer decides where the connection goes. When the selector runs the queued connection,
  a name that could not be resolved is answered with a general failure, and one that could be leads
  to a new socket that connects to the first address of the answer, with the others kept.
\<close>

theorem answer_is_used:
  assumes "conn c = Inr d" and "names_host (client d) h port" and "client_fd d = int (key_fd c)"
    and "origin_resolution d = answer_list res" and "\<forall>a\<in>set res. ai_family a \<noteq> AF_OTHER" and "as_conn (orig d) = Inr o'"
    and "buffer_inv (write_buffer d)" and "10 \<le> buffer_space (write_buffer d)"
    and "sel_ok (c_sel c)" and "registered (c_sel c) (key_fd c) = Some it"
    and "io_socket (c_io c) = Some n" and "io_set_nio (c_io c)" and "io_connect (c_io c) = EINPROGRESS"
    and "io_register (c_io c)" and "registered (c_sel c) n = None" and "n < ITEMS_MAX_SIZE"
  defines "j \<equiv> if res = [] then REQUEST_WRITE else REQUEST_CONNECTING"
  shows "\<exists>c1 d1. stm_handler_block (socks5_stm (Some REQUEST_RESOLV)) c = Inr (j, socks5_stm (Some j), c1) \<and>
    conn c1 = Inr d1 \<and>
    (case res of
       [] \<Rightarrow> buffer_contents (write_buffer d1) =
          buffer_contents (write_buffer d) @ [0x05, 0x01, 0x00, 0x01, 0, 0, 0, 0, 0, 0] \<and>
         registered (c_sel c1) = (registered (c_sel c))(key_fd c \<mapsto> it\<lparr>it_interest := OP_WRITE\<rparr>)
     | a # _ \<Rightarrow> origin_addr d1 = ai_addr a \<and> connecting_to d1 (key_fd c) n \<and> origin_resolution_current d1 = Ptr res \<and>
         registered (c_sel c1) = (registered (c_sel c))(key_fd c \<mapsto> it\<lparr>it_interest := OP_NOOP\<rparr>,
           n \<mapsto> \<lparr>it_fd = int n, it_interest = OP_WRITE, it_handler = Some Socks5_handler, it_data = Some (key_data c)\<rparr>))"
proof (cases res)
  case Nil
  have "origin_resolution d = Null" using assms(4) Nil by (simp add: answer_list_def)
  from unresolved [OF assms(1,2,6) this assms(7-10)] show ?thesis
    by (simp add: j_def Nil reply_bytes_def)
next
  case (Cons a as)
  have "origin_resolution d = Ptr (a # as)" "ai_family a \<noteq> AF_OTHER" using assms(4,5) Cons by (simp_all add: answer_list_def)
  from resolved_first [OF assms(1-3) this assms(9-16)] show ?thesis by (simp add: j_def Cons)
qed

lemma demo_named:
  obtains c d o' where "conn c = Inr d" and "names_host (client d) [104, 105] [0, 80]" and "client_fd d = int (key_fd c)"
    and "origin_resolution d = answer_list [\<lparr>ai_family = AF_INET, ai_addr = Sa_in \<lparr>sin_addr = [10, 0, 0, 1], sin_port = [0, 80]\<rparr>\<rparr>]"
    and "as_conn (orig d) = Inr o'" and "buffer_inv (write_buffer d)" and "10 \<le> buffer_space (write_buffer d)"
    and "sel_ok (c_sel c)" and "registered (c_sel c) (key_fd c) = Some (demo_end 7 OP_READ)"
    and "io_socket (c_io c) = Some 9" and "io_set_nio (c_io c)" and "io_connect (c_io c) = EINPROGRESS"
    and "io_register (c_io c)" and "registered (c_sel c) 9 = None" and "key_fd c = 7"
proof -
  obtain s where s: "sel_ok s" "registered s 7 = Some (demo_end 7 OP_READ)" "registered s 9 = None" by (rule demo_client)
  let ?io = "demo_io None\<lparr>io_socket := Some 9, io_set_nio := True, io_connect := EINPROGRESS, io_register := True\<rparr>"
  let ?r = "\<lparr>rq_cmd = 1, rq_dest_addr_type = 3,
    rq_dest = Dest_fqdn \<lparr>fqdn_host = map Some [104, 105] @ replicate 253 None, fqdn_size = 2\<rparr>, rq_dest_port = [0, 80]\<rparr>"
  let ?u = "Cl_request \<lparr>rs_parser = Ptr (demo_request_parser\<lparr>rp_request := Ptr ?r\<rparr>),
    rs_addr_family = socks_req_addrtype_domain, rs_status = 0\<rparr>"
  let ?a = "[\<lparr>ai_family = AF_INET, ai_addr = Sa_in \<lparr>sin_addr = [10, 0, 0, 1], sin_port = [0, 80]\<rparr>\<rparr>]"
  let ?d = "demo_fresh\<lparr>client := ?u, origin_resolution := answer_list ?a\<rparr>"
  have u: "names_host ?u [104, 105] [0, 80]" by (auto simp: names_host_def request_constants)
  have d: "client_fd demo_fresh = 7" "orig demo_fresh = Or_zero" "10 \<le> buffer_space (write_buffer demo_fresh)"
    by (simp_all add: demo_fresh_def fresh_conn_def raw_buffer_def buffer_init_def buffer_reset_def buffer_space_def)
  have buf: "buffer_inv (write_buffer demo_fresh)" using demo_fresh_simps by (simp add: empty_buffers_def)
  show ?thesis
    by (rule that [of "demo_ctx s open_globals ?io ?d" ?d]) (use u d buf s in \<open>simp_all add: as_conn_def\<close>)
qed

lemma answer_is_used_witness:
  "\<exists>c c1 d1. stm_handler_block (socks5_stm (Some REQUEST_RESOLV)) c =
      Inr (REQUEST_CONNECTING, socks5_stm (Some REQUEST_CONNECTING), c1) \<and> conn c1 = Inr d1 \<and>
    origin_addr d1 = Sa_in \<lparr>sin_addr = [10, 0, 0, 1], sin_port = [0, 80]\<rparr> \<and> connecting_to d1 7 9"
proof -
  let ?a = "[\<lparr>ai_family = AF_INET, ai_addr = Sa_in \<lparr>sin_addr = [10, 0, 0, 1], sin_port = [0, 80]\<rparr>\<rparr>]"
  obtain c d o' where c: "conn c = Inr d" "names_host (client d) [104, 105] [0, 80]" "client_fd d = int (key_fd c)"
    "origin_resolution d = answer_list ?a"
    "as_conn (orig d) = Inr o'" "buffer_inv (write_buffer d)" "10 \<le> buffer_space (write_buffer d)"
    "sel_ok (c_sel c)" "registered (c_sel c) (key_fd c) = Some (demo_end 7 OP_READ)"
    "io_socket (c_io c) = Some 9" "io_set_nio (c_io c)" "io_connect (c_io c) = EINPROGRESS"
    "io_register (c_io c)" "registered (c_sel c) 9 = None" "key_fd c = 7"
    by (rule demo_named)
  have rest: "\<forall>a\<in>set ?a. ai_family a \<noteq> AF_OTHER" "9 < ITEMS_MAX_SIZE" by (simp_all add: ITEMS_MAX_SIZE_def)
  have "?a \<noteq> []" by simp
  note used = answer_is_used [OF c(1-4) rest(1) c(5-14) rest(2), unfolded if_not_P [OF this] list.case]
  then show ?thesis unfolding c(15) by auto
qed

text \<open>
  \<open>C20\<close> The second address of a name is lost. When the name has two addresses and the connection to
  the first one fails, the server begins to connect to the second one, on the socket of the first; it then
  cannot register the socket, which is registered already, so it tells the client a general failure,
  closes the socket and leaves it registered. At the client's next turn the server tells it the
  failure a second time. The client gets two replies to one request, the closed descriptor stays in
  the selector, and the second address is never used.
\<close>

theorem second_address_is_lost:
  assumes "conn c = Inr d" and "connecting_to d i (key_fd c)" and "origin_resolution_current d = Ptr [a, b]"
    and "buffer_inv (write_buffer d)" and "buffer_contents (write_buffer d) = []" and "20 \<le> buffer_space (write_buffer d)"
    and "both_registered c i (key_fd c)"
    and "io_so_error (c_io c) = Some e" and "e \<noteq> E_none" and "io_connect (c_io c) = EINPROGRESS"
  shows "\<exists>c1 d1. stm_handler_write (socks5_stm (Some REQUEST_CONNECTING)) c =
      Inr (REQUEST_CONNECTING, socks5_stm (Some REQUEST_CONNECTING), c1) \<and> conn c1 = Inr d1 \<and>
    events (c_world c1) = events (c_world c) @ [Closed (int (key_fd c))] \<and> waiting_reply c c1 i (key_fd c) \<and>
    (\<forall>c2. conn c2 = Inr (d1\<lparr>conn_current := Some REQUEST_CONNECTING\<rparr>) \<longrightarrow> key_fd c2 = i \<longrightarrow>
      both_registered c2 i (key_fd c) \<longrightarrow>
      (\<exists>c3 d3. stm_handler_write (socks5_stm (Some REQUEST_CONNECTING)) c2 =
          Inr (REQUEST_WRITE, socks5_stm (Some REQUEST_WRITE), c3) \<and> conn c3 = Inr d3 \<and> origin_fd d3 = -1 \<and>
        buffer_contents (write_buffer d3) = [0x05, 0x01, 0x00, 0x01, 0, 0, 0, 0, 0, 0,
          0x05, 0x01, 0x00, 0x01, 0, 0, 0, 0, 0, 0] \<and>
        registered (c_sel c3) (key_fd c) = registered (c_sel c2) (key_fd c)))"
proof -
  have ten: "10 \<le> buffer_space (write_buffer d)" using assms(6) by simp
  obtain c1 d1 m where c1: "stm_handler_write (socks5_stm (Some REQUEST_CONNECTING)) c =
      Inr (REQUEST_CONNECTING, socks5_stm (Some REQUEST_CONNECTING), c1)" "conn c1 = Inr d1"
    "client d1 = client d" "client_fd d1 = int i" "origin_fd d1 = -1" "origin_resolution_current d1 = Ptr [b]"
    "orig d1 = Or_conn \<lparr>cn_client_fd = int i, cn_origin_fd = m, cn_status = 1\<rparr>"
    "buffer_inv (write_buffer d1)" "buffer_contents (write_buffer d1) = reply_bytes 1"
    "buffer_space (write_buffer d1) = buffer_space (write_buffer d) - 10"
    "events (c_world c1) = events (c_world c) @ [Closed (int (key_fd c))]" "waiting_reply c c1 i (key_fd c)"
    using second_address_refused [OF assms(1-5) ten assms(7-10)] by blast
  obtain h where h: "client d = Cl_request h" "closable (rs_parser h)" "i \<noteq> key_fd c"
    using assms(2) by (auto simp: connecting_to_def)
  have "\<exists>c3 d3. stm_handler_write (socks5_stm (Some REQUEST_CONNECTING)) c2 =
          Inr (REQUEST_WRITE, socks5_stm (Some REQUEST_WRITE), c3) \<and> conn c3 = Inr d3 \<and> origin_fd d3 = -1 \<and>
        buffer_contents (write_buffer d3) = reply_bytes 1 @ reply_bytes 1 \<and>
        registered (c_sel c3) (key_fd c) = registered (c_sel c2) (key_fd c)"
    if c2: "conn c2 = Inr (d1\<lparr>conn_current := Some REQUEST_CONNECTING\<rparr>)" "key_fd c2 = i" "both_registered c2 i (key_fd c)" for c2
    using gives_up [OF c2(1), of h b m "key_fd c"] c1(3-10) h c2(2,3) assms(6) by simp
  then show ?thesis using c1(1,2,11,12) by (auto simp: reply_bytes_def)
qed

lemma second_address_is_lost_witness:
  "\<exists>c d c1 d1. origin_resolution_current d = Ptr [\<lparr>ai_family = AF_INET, ai_addr = Sa_zero\<rparr>, \<lparr>ai_family = AF_INET, ai_addr = Sa_zero\<rparr>] \<and>
    conn c = Inr d \<and> io_so_error (c_io c) = Some ECONNREFUSED \<and>
    stm_handler_write (socks5_stm (Some REQUEST_CONNECTING)) c =
      Inr (REQUEST_CONNECTING, socks5_stm (Some REQUEST_CONNECTING), c1) \<and> conn c1 = Inr d1 \<and>
    events (c_world c1) = events (c_world c) @ [Closed 9] \<and> waiting_reply c c1 7 9"
proof -
  let ?a = "\<lparr>ai_family = AF_INET, ai_addr = Sa_zero\<rparr>"
  obtain c d where c: "conn c = Inr d" "connecting_to d 7 (key_fd c)" "origin_resolution_current d = Ptr [?a, ?a]"
    "buffer_inv (write_buffer d)" "buffer_contents (write_buffer d) = []" "20 \<le> buffer_space (write_buffer d)"
    "both_registered c 7 (key_fd c)" "io_so_error (c_io c) = Some ECONNREFUSED" "io_connect (c_io c) = EINPROGRESS"
    "key_fd c = 9"
    by (rule demo_answering [of "Ptr [?a, ?a]" ECONNREFUSED])
  show ?thesis
    using second_address_is_lost [OF c(1-8) _ c(9)] c(1,3,8,10) by auto
qed

end
