(* ===== verification/Frame.thy ===== *)
theory Frame
  imports Contract
begin

text \<open>
  What no event of a SOCKS connection touches: the key it was called with, the script of the outside,
  and, in the selector, the sets of the current iteration and the queue of finished resolutions. The
  contract of the engine is discharged once more, for this frame.
\<close>

definition frame :: "ctx \<Rightarrow> (nat \<times> nat \<times> io) \<times> (nat set \<times> nat set \<times> nat list) \<times> ((nat \<Rightarrow> io) \<times> nat)" where
  "frame c = ((key_fd c, key_data c, c_io c), (slave_r (c_sel c), slave_w (c_sel c), resolution_jobs (c_sel c)),
     (io_script (c_world c), io_step (c_world c)))"

named_theorems frame_rules

lemma frame_simps [simp]:
  "frame (put_conn d c) = frame c" "frame (emit e c) = frame c" "frame (put_glob g c) = frame c"
  "frame (c\<lparr>c_world := (c_world c)\<lparr>credentials_seen := l\<rparr>\<rparr>) = frame c"
  by (simp_all add: frame_def put_conn_def emit_def put_glob_def)

abbreviation sel_frame :: "fd_selector \<Rightarrow> nat set \<times> nat set \<times> nat list" where
  "sel_frame s \<equiv> (slave_r s, slave_w s, resolution_jobs s)"

lemma put_frame:
  "item_put s i it = Inr s' \<Longrightarrow> sel_frame s' = sel_frame s"
  "items_update_fdset_for_fd s it = Inr s' \<Longrightarrow> sel_frame s' = sel_frame s"
  "ensure_capacity ok s n = Inr (st, s') \<Longrightarrow> sel_frame s' = sel_frame s"
  for s :: fd_selector
  by (auto simp: item_put_def items_update_fdset_for_fd_def ensure_capacity_def Let_def
      split: if_splits ptr.splits)

lemma sel_frames:
  "selector_set_interest s fd op = Inr (st, s') \<Longrightarrow> sel_frame s' = sel_frame s"
  "selector_register ok s fd h op k = Inr (st, s') \<Longrightarrow> sel_frame s' = sel_frame s"
  for s :: fd_selector
  by (auto simp: selector_set_interest_def selector_register_def Let_def bind_res_eq_Inr
      split: if_splits dest!: put_frame)

lemma frame_interest [frame_rules]:
  "set_interest_fd fd op c = Inr (st, c') \<Longrightarrow> frame c' = frame c \<and> conn c' = conn c \<and> glob c' = glob c"
  using keeps_interest [of fd op c st c']
  by (auto simp: set_interest_fd_def frame_def dest!: sel_frames)

lemma frame_interest_key [frame_rules]:
  "set_interest_key op c = Inr (st, c') \<Longrightarrow> frame c' = frame c \<and> conn c' = conn c \<and> glob c' = glob c"
  unfolding set_interest_key_fd by (rule frame_interest)

lemma frame_register [frame_rules]:
  "register_origin op c = Inr (st, c') \<Longrightarrow> frame c' = frame c"
  by (auto simp: register_origin_def frame_def dest!: sel_frames)

lemma destroy_frame:
  "socks5_destroy k w = Inr w' \<Longrightarrow> io_script w' = io_script w \<and> io_step w' = io_step w"
  "mng_destroy k w = Inr w' \<Longrightarrow> io_script w' = io_script w \<and> io_step w' = io_step w"
  by (auto simp: socks5_destroy_def mng_destroy_def split: option.splits if_splits)

lemma close_frame:
  assumes "close_hook closers it (s, w) = Inr (s', w')"
  shows "s' = s \<and> io_script w' = io_script w \<and> io_step w' = io_step w"
  using assms
  by (auto simp: close_hook_def item_hooks_def closers_def socksv5_close_def mng_close_def
      split: option.splits handler_name.splits dest: destroy_frame)

lemma frame_unregister [frame_rules]:
  assumes "unregister fd c = Inr (st, c')"
  shows "frame c' = frame c"
proof -
  obtain s w where run: "selector_unregister_fd closers (c_sel c, c_world c) fd = Inr (st, s, w)"
    "c' = c\<lparr>c_sel := s, c_world := w\<rparr>"
    using assms by (auto simp: unregister_def)
  have "sel_frame s = sel_frame (c_sel c) \<and> io_script w = io_script (c_world c) \<and> io_step w = io_step (c_world c)"
    using run(1) by (auto simp: selector_unregister_fd_def Let_def split: if_splits dest!: close_frame put_frame)
  then show ?thesis using run(2) by (simp add: frame_def)
qed

section \<open>The handlers\<close>

lemma frame_hello:
  "hello_read_init i c = Inr c' \<Longrightarrow> frame c' = frame c"
  "hello_read_close i c = Inr c' \<Longrightarrow> frame c' = frame c"
  by (auto simp: hello_read_init_def hello_read_close_def split: if_splits)

lemma frame_hello_read: "hello_read c = Inr (j, c') \<Longrightarrow> frame c' = frame c"
  by (auto simp: hello_read_def Let_def split: option.splits if_splits dest!: frame_rules
      del: keeps_interest_fd keeps_interest_key)

lemma frame_hello_write: "hello_write c = Inr (j, c') \<Longrightarrow> frame c' = frame c"
  by (auto simp: hello_write_def Let_def split: option.splits if_splits dest!: frame_rules
      del: keeps_interest_fd keeps_interest_key)


lemma frame_auth:
  "auth_read_init i c = Inr c' \<Longrightarrow> frame c' = frame c"
  "auth_read_close i c = Inr c' \<Longrightarrow> frame c' = frame c"
  by (auto simp: auth_read_init_def auth_read_close_def)

lemma frame_auth_process [frame_rules]: "auth_process h c = Inr (j, c') \<Longrightarrow> frame c' = frame c"
  by (auto simp: auth_process_def Let_def split: if_splits)

lemma frame_auth_read: "auth_read c = Inr (j, c') \<Longrightarrow> frame c' = frame c"
  by (auto simp: auth_read_def Let_def split: option.splits if_splits dest!: frame_rules
      del: keeps_interest_fd keeps_interest_key)

lemma frame_auth_write: "auth_write c = Inr (j, c') \<Longrightarrow> frame c' = frame c"
  by (auto simp: auth_write_def Let_def split: option.splits if_splits dest!: frame_rules
      del: keeps_interest_fd keeps_interest_key)

lemma frame_status [frame_rules]:
  "set_conn_status st c = Inr c' \<Longrightarrow> frame c' = frame c"
  "set_request_status st c = Inr c' \<Longrightarrow> frame c' = frame c"
  "reply st c = Inr c' \<Longrightarrow> frame c' = frame c"
  "store_request h c = Inr c' \<Longrightarrow> frame c' = frame c"
  "add_reference c = Inr c' \<Longrightarrow> frame c' = frame c"
  "access_log c = Inr c' \<Longrightarrow> frame c' = frame c"
  "free_resolution c = Inr c' \<Longrightarrow> frame c' = frame c"
  "next_address c = Inr (Some c') \<Longrightarrow> frame c' = frame c"
  by (auto simp: set_conn_status_def set_request_status_def reply_def store_request_def add_reference_def
      access_log_def free_resolution_def next_address_def split: if_splits ptr.splits list.splits)

lemma frame_error_handler [frame_rules]:
  "error_handler st c = Inr (j, c') \<Longrightarrow> frame c' = frame c"
  "error_handler_to_client st c = Inr (j, c') \<Longrightarrow> frame c' = frame c"
  by (auto simp: error_handler_def error_handler_to_client_def split: if_splits dest!: frame_rules
      del: keeps_interest_fd keeps_interest_key)

lemma frame_request:
  "request_init i c = Inr c' \<Longrightarrow> frame c' = frame c"
  "request_close i c = Inr c' \<Longrightarrow> frame c' = frame c"
  by (auto simp: request_init_def request_parser_init_def request_close_def Let_def
      split: if_splits dest!: frame_rules)

lemma frame_request_process [frame_rules]: "request_process c = Inr (j, c') \<Longrightarrow> frame c' = frame c"
  by (auto simp: request_process_def Let_def split: if_splits dest_union.splits dest!: frame_rules
      del: keeps_interest_fd keeps_interest_key)

lemma frame_request_read: "request_read c = Inr (j, c') \<Longrightarrow> frame c' = frame c"
  by (auto simp: request_read_def Let_def split: option.splits if_splits dest!: frame_rules)

lemma frame_request_write: "request_write c = Inr (j, c') \<Longrightarrow> frame c' = frame c"
  by (auto simp: request_write_def Let_def split: option.splits if_splits dest!: frame_rules
      del: keeps_interest_fd keeps_interest_key)

lemma frame_resolv: "request_resolv_done c = Inr (j, c') \<Longrightarrow> frame c' = frame c"
  by (auto simp: request_resolv_done_def Let_def split: ptr.splits list.splits ai_family.splits dest!: frame_rules)

lemma frame_connection_failed [frame_rules]: "connection_failed st c = Inr (r, c') \<Longrightarrow> frame c' = frame c"
  by (auto simp: connection_failed_def dest!: frame_rules)

lemma frame_connection [frame_rules]: "connection c = Inr (r, c') \<Longrightarrow> frame c' = frame c"
  by (auto simp: connection_def Let_def split: if_splits dest!: frame_rules
      del: keeps_interest_fd keeps_interest_key)

lemma frame_connecting:
  "connecting_init i c = Inr c' \<Longrightarrow> frame c' = frame c"
  "connecting_close i c = Inr c' \<Longrightarrow> frame c' = frame c"
  by (auto simp: connecting_init_def connecting_close_def Let_def split: if_splits ptr.splits option.splits
      dest!: frame_rules)

lemma frame_connecting_result [frame_rules]:
  "connecting_success c = Inr (j, c') \<Longrightarrow> frame c' = frame c"
  "connecting_error e c = Inr (j, c') \<Longrightarrow> frame c' = frame c"
  by (auto simp: connecting_success_def connecting_error_def Let_def split: if_splits option.splits
      dest!: frame_rules del: keeps_interest_fd keeps_interest_key)

lemma frame_connecting_write: "connecting_write c = Inr (j, c') \<Longrightarrow> frame c' = frame c"
  by (auto simp: connecting_write_def Let_def split: if_splits option.splits dest!: frame_rules)

lemma frame_interests [frame_rules]:
  "copy_compute_interests k c = Inr c' \<Longrightarrow> frame c' = frame c"
  by (auto simp: copy_compute_interests_def split: if_splits dest!: frame_rules
      del: keeps_interest_fd keeps_interest_key)

lemma frame_copy_init: "copy_init i c = Inr c' \<Longrightarrow> frame c' = frame c"
  by (auto simp: copy_init_def Let_def dest!: frame_rules)

lemma frame_copy_end [frame_rules]:
  "copy_finish k c = Inr (j, c') \<Longrightarrow> frame c' = frame c"
  "copy_shut k ev m ev' th c = Inr c' \<Longrightarrow> frame c' = frame c"
  by (auto simp: copy_finish_def copy_shut_def Let_def split: if_splits dest!: frame_rules)

lemma frame_copy_events:
  "copy_read c = Inr (j, c') \<Longrightarrow> frame c' = frame c"
  "copy_write c = Inr (j, c') \<Longrightarrow> frame c' = frame c"
  by (auto simp: copy_read_def copy_write_def Let_def split: option.splits if_splits dest!: frame_rules)

section \<open>The machine\<close>

lemmas frame_actions =
  frame_hello frame_auth frame_request frame_connecting frame_copy_init

lemmas frame_events =
  frame_hello_read frame_hello_write frame_auth_read frame_auth_write frame_request_read frame_request_write
  frame_resolv frame_connecting_write frame_copy_events

lemma frame_ready:
  assumes "i \<le> ERROR" and "events_of ready" and "ready (client_statbl ! i) = Some f" and "f c = Inr (j, c')"
  shows "frame c' = frame c"
  using client_ready [OF assms(1-3)] assms(4) by (elim disjE conjE) (simp_all add: frame_events)

lemma frame_action:
  assumes "i \<le> ERROR"
  shows "run_action (on_arrival (client_statbl ! i)) i c = Inr c' \<Longrightarrow> frame c' = frame c"
    and "run_action (on_departure (client_statbl ! i)) i c = Inr c' \<Longrightarrow> frame c' = frame c"
  using le_10_cases [OF assms]
  by (auto simp: client_statbl_def state_def run_action_def hello_write_init_def hello_write_close_def
      auth_write_init_def auth_write_close_def dest!: frame_actions)

interpretation framed: stm_client "socks5_stm None" "\<lambda>n i c. frame c = f0" "\<lambda>n i c. frame c = f0" events_of for f0
proof
  show "stm_wf (socks5_stm None)" by (rule socks5_stm_wf)
  fix i :: nat and ready f and j :: nat and s s' s'' :: ctx
  assume i: "i \<le> stm_max_state (socks5_stm None)" and f: "frame s = f0" "events_of ready"
    "ready (stm_states (socks5_stm None) ! i) = Some f" "f s = Inr (j, s')"
    and dep: "run_action (on_departure (stm_states (socks5_stm None) ! i)) i s' = Inr s''"
  then have "frame s' = frame s" "frame s'' = frame s'"
    by (auto simp: socks5_stm_def dest: frame_ready frame_action(2))
  then show "frame s'' = f0" using f(1) by simp
qed (auto simp: socks5_stm_def dest: frame_action frame_ready)

lemma frame_handler:
  assumes "stm_handler ready (socks5_stm cur) c = Inr (j, m, c')" and "events_of ready"
    and "stm_wf (socks5_stm cur)"
  shows "frame c' = frame c"
proof -
  have "framed.rests (frame c) 0 (socks5_stm cur) c"
    unfolding framed.rests_def using assms(3) by (simp add: stm_same_def socks5_stm_def split: option.splits)
  from framed.handler_rests [OF this assms(2,1)] show ?thesis
    by (auto simp: framed.rests_def split: option.splits)
qed

end
