(* ===== verification/Whole_Session.thy ===== *)
theory Whole_Session
  imports Requests Frame
begin

text \<open>
  SOCKS sessions through the loop of \<open>main\<close>, from the accepted client to the relay, or to the end
  when its login is refused: each turn of the
  loop serves one descriptor, and the lemmas about single events are put one after the other. The
  script of the world says what the outside does at each turn.
\<close>

section \<open>One turn for one descriptor\<close>

lemma one_writer:
  assumes s: "sel_ok s" "resolution_jobs s = []" and it: "registered s i = Some it"
      "wants OP_WRITE (it_interest it)" "it_handler it = Some h" "handle_write (handlers h) = Some f"
    and f: "f i (it_data it) (s\<lparr>slave_r := {}, slave_w := {i}\<rparr>, w) = Inr (s', w')"
    and s': "sel_ok s'" "resolution_jobs s' = []" "slave_r s' = {}" "slave_w s' = {i}"
  shows "serve (Ready {} {i}) (s, w) = Inr (SELECTOR_SUCCESS, s'\<lparr>resolution_jobs := []\<rparr>, w')"
proof -
  let ?s = "s\<lparr>slave_r := {}, slave_w := {i}\<rparr>"
  have s0: "selector_inv s" "fd_size s = 1025" using s(1) by (simp_all add: sel_ok_def ITEMS_MAX_SIZE_def)
  have inv: "selector_inv ?s" "fd_size ?s = 1025" "i \<le> max_fd s"
    and it1: "it_fd it = int i" "item_used it"
    using s0 registered_bounds [OF s0(1) it(1)] by simp_all
  have "max_fd s < 1025" using s0 by (simp add: selector_inv_def)
  note inv = inv(1,2) this inv(3)
  have inv': "selector_inv s'" "fd_size s' = 1025"
    using s'(1) by (simp_all add: sel_ok_def ITEMS_MAX_SIZE_def)
  have sets: "master_r s \<inter> {} = {}" "master_w s \<inter> {i} = {i}"
    using inv(1) it(1,2) by (auto simp: selector_inv_def wanted_def wants_def and.commute)
  have at: "item_at ?s i = Inr it" using it(1) by (intro item_at_registered) simp
  have one: "handle_item handlers (?s, w) i = Inr (s', w')"
    using at it f it1 by (simp add: handle_item_def item_hooks_def Let_def)
  have split: "[0..<Suc (max_fd s)] = [0..<i] @ i # [Suc i..<Suc (max_fd s)]"
    using inv(4) upt_add_eq_append [of 0 i "Suc (max_fd s) - i"] upt_conv_Cons [of i "Suc (max_fd s)"]
    by simp
  have "handle_items handlers [0..<Suc (max_fd s)] (?s, w) = Inr (s', w')"
  proof -
    have "handle_items handlers [0..<i] (?s, w) = Inr (?s, w)"
      by (rule idle_items [OF inv(1)]) (use inv in auto)
    moreover have "handle_items handlers [Suc i..<Suc (max_fd s)] (s', w') = Inr (s', w')"
      by (rule idle_items [OF inv'(1)]) (use inv s'(3,4) inv'(2) in \<open>auto simp del: upt_Suc\<close>)
    ultimately show ?thesis unfolding split handle_items_append by (simp add: one del: upt_Suc)
  qed
  then show ?thesis
    using sets s'(2)
    by (simp add: serve_def selector_select_def handle_iteration_def handle_block_notifications_def)
qed

definition socks_item :: "nat \<Rightarrow> fd_interest \<Rightarrow> nat \<Rightarrow> (handler_name, nat) item" where
  "socks_item i op k = \<lparr>it_fd = int i, it_interest = op, it_handler = Some Socks5_handler, it_data = Some k\<rparr>"

text \<open>Between two turns: nothing is queued, and the descriptor waits for \<open>op\<close> for the connection \<open>k\<close>.\<close>

definition waits :: "nat \<Rightarrow> nat \<Rightarrow> fd_interest \<Rightarrow> nat \<Rightarrow> socks5 \<Rightarrow> fd_selector \<Rightarrow> world \<Rightarrow> bool" where
  "waits n i op k d s w \<longleftrightarrow> server_ok n (s, w) \<and> n + 3 < 2 ^ 32 \<and> resolution_jobs s = [] \<and>
     registered s i = Some (socks_item i op k) \<and> conns w k = Some d"

definition turned :: "world \<Rightarrow> event list \<Rightarrow> world \<Rightarrow> bool" where
  "turned w es w' \<longleftrightarrow> io_script w' = io_script w \<and> io_step w' = Suc (io_step w) \<and> events w' = events w @ es"

text \<open>What a handler finds when it is called for \<open>i\<close>.\<close>

definition called :: "nat \<Rightarrow> nat \<Rightarrow> socks5 \<Rightarrow> fd_selector \<Rightarrow> world \<Rightarrow> ctx \<Rightarrow> bool" where
  "called i k d s w c \<longleftrightarrow> conn c = Inr d \<and> key_fd c = i \<and> key_data c = k \<and> c_io c = io_script w (io_step w) \<and>
     registered (c_sel c) = registered s \<and> sel_ok (c_sel c) \<and> glob c = globs w \<and> events (c_world c) = events w"

lemma socks_turn:
  assumes at: "waits n i op k d s w"
    and r: "r = Ready {i} {} \<and> op = OP_READ \<and> ready = on_read_ready \<or>
      r = Ready {} {i} \<and> op = OP_WRITE \<and> ready = on_write_ready"
    and run: "\<And>c. called i k d s w c \<Longrightarrow> \<exists>c1 d1. stm_handler ready (socks5_stm (conn_current d)) c =
        Inr (j, socks5_stm (Some j), c1) \<and> conn c1 = Inr d1 \<and> events (c_world c1) = events w @ es \<and>
        P d1 (glob c1) (registered (c_sel c1))"
    and j: "j \<noteq> ERROR" "j \<noteq> DONE"
  shows "\<exists>s' w' d1. serve r (s, w) = Inr (SELECTOR_SUCCESS, s', w') \<and> server_ok (n + 3) (s', w') \<and>
    resolution_jobs s' = [] \<and> conns w' k = Some (d1\<lparr>conn_current := Some j\<rparr>) \<and>
    P d1 (globs w') (registered s') \<and> turned w es w'"
proof -
  define rs ws where "rs = (if op = OP_READ then {i} else {})" and "ws = (if op = OP_READ then {} else {i})"
  let ?s = "s\<lparr>slave_r := rs, slave_w := ws\<rparr>"
  define c where "c = start_ctx i k ?s w"
  have ops: "OP_READ \<noteq> OP_WRITE" by (simp add: op_defs)
  have ok: "server_ok n (s, w)" "n + 3 < 2 ^ 32" and s: "resolution_jobs s = []"
    "registered s i = Some (socks_item i op k)" "conns w k = Some d"
    using at by (simp_all add: waits_def)
  have sel: "sel_ok s" using ok(1) by (simp add: server_ok_def world_ok_def)
  have called: "called i k d s w c"
    using s(3) sel by (simp add: called_def c_def start_ctx_def conn_def glob_def sel_ok_def)
  obtain c1 d1 where c1: "stm_handler ready (socks5_stm (conn_current d)) c = Inr (j, socks5_stm (Some j), c1)"
    "conn c1 = Inr d1" "events (c_world c1) = events w @ es" "P d1 (glob c1) (registered (c_sel c1))"
    using run [OF called] by blast
  have ev: "events_of ready" using r by (auto simp: events_of_def)
  let ?c2 = "put_conn (d1\<lparr>conn_current := Some j\<rparr>) c1"
  have go: "dispatch socks5_stm {ERROR, DONE} socksv5_done (stm_handler ready) i (Some k) (?s, w) =
      Inr (c_sel c1, c_world ?c2)"
    using called c1(1,2) j unfolding dispatch_start c_def [symmetric]
    by (simp add: called_def) (simp add: socks5_stm_def)
  have it: "registered ?s i = Some (socks_item i op k)" "it_handler (socks_item i op k) = Some Socks5_handler"
    "it_data (socks_item i op k) = Some k" "it_interest (socks_item i op k) = op"
    using s(2) by (simp_all add: socks_item_def)
  have ok1: "server_ok n (?s, w)" using ok(1) by simp
  have ok2: "server_ok (n + 3) (c_sel c1, c_world ?c2)"
    using socks_event_ok [OF ok1 it(1,2) ok(2) ev go [folded it(3)]] by simp
  have wok: "world_ok n s w" using ok(1) by (simp add: server_ok_def)
  have "isSocks d" using held_kind [OF wok s(2)] s(3) by (simp add: socks_item_def)
  moreover have "conn_ok d" using ok(1) s(3) by (simp add: server_ok_def)
  ultimately have wf: "stm_wf (socks5_stm (conn_current d))"
    using socks5_stm_wf by (auto simp: stm_wf_def socks5_stm_def conn_ok_def split: option.splits)
  have fr: "frame c1 = frame c" by (rule frame_handler [OF c1(1) ev wf])
  then have fr': "slave_r (c_sel c1) = rs" "slave_w (c_sel c1) = ws" "resolution_jobs (c_sel c1) = []"
    "io_script (c_world c1) = io_script w" "io_step (c_world c1) = Suc (io_step w)" "key_data c1 = k"
    using s(1) by (simp_all add: frame_def c_def start_ctx_def)
  have sel1: "sel_ok (c_sel c1)" using ok2 by (simp add: server_ok_def world_ok_def)
  have "serve r (s, w) = Inr (SELECTOR_SUCCESS, (c_sel c1)\<lparr>resolution_jobs := []\<rparr>, c_world ?c2)"
  proof (cases "op = OP_READ")
    case True
    then have "r = Ready {i} {}" "ready = on_read_ready" using r ops by auto
    moreover have "serve (Ready {i} {}) (s, w) = Inr (SELECTOR_SUCCESS, (c_sel c1)\<lparr>resolution_jobs := []\<rparr>, c_world ?c2)"
      by (rule conjunct1 [OF one_reader [OF sel s(1,2), where f = socksv5_read and h = Socks5_handler]])
        (use True go it fr' sel1 \<open>ready = on_read_ready\<close> in
          \<open>simp_all add: rs_def ws_def wants_def op_defs handlers_def socksv5_read_def stm_handler_read_def\<close>)
    ultimately show ?thesis by simp
  next
    case False
    then have "r = Ready {} {i}" "ready = on_write_ready" "op = OP_WRITE" using r by auto
    moreover have "serve (Ready {} {i}) (s, w) = Inr (SELECTOR_SUCCESS, (c_sel c1)\<lparr>resolution_jobs := []\<rparr>, c_world ?c2)"
      by (rule one_writer [OF sel s(1,2), where f = socksv5_write and h = Socks5_handler])
        (use False go it fr' sel1 calculation in
          \<open>simp_all add: rs_def ws_def wants_def op_defs handlers_def socksv5_write_def stm_handler_write_def\<close>)
    ultimately show ?thesis by simp
  qed
  then show ?thesis
    using ok2 c1(3,4) fr' by (intro exI [of _ "(c_sel c1)\<lparr>resolution_jobs := []\<rparr>"] exI [of _ "c_world ?c2"] exI [of _ d1])
      (simp add: turned_def glob_def put_conn_def)
qed

lemma read_turn:
  assumes "waits n i OP_READ k d s w"
    and "\<And>c. called i k d s w c \<Longrightarrow> \<exists>c1 d1. stm_handler on_read_ready (socks5_stm (conn_current d)) c =
        Inr (j, socks5_stm (Some j), c1) \<and> conn c1 = Inr d1 \<and> events (c_world c1) = events w @ es \<and>
        registered (c_sel c1) = m \<and> P d1 (glob c1)"
    and "j \<noteq> ERROR" "j \<noteq> DONE"
  obtains s' w' d1 where "serve (Ready {i} {}) (s, w) = Inr (SELECTOR_SUCCESS, s', w')" and "server_ok (n + 3) (s', w')"
    and "resolution_jobs s' = []" and "registered s' = m" and "conns w' k = Some (d1\<lparr>conn_current := Some j\<rparr>)"
    and "P d1 (globs w')" and "turned w es w'"
  using socks_turn [OF assms(1) disjI1 [OF conjI [OF refl conjI [OF refl refl]]] _ assms(3,4), where P = "\<lambda>d g m'. m' = m \<and> P d g"] assms(2) by blast

lemma write_turn:
  assumes "waits n i OP_WRITE k d s w"
    and "\<And>c. called i k d s w c \<Longrightarrow> \<exists>c1 d1. stm_handler on_write_ready (socks5_stm (conn_current d)) c =
        Inr (j, socks5_stm (Some j), c1) \<and> conn c1 = Inr d1 \<and> events (c_world c1) = events w @ es \<and>
        registered (c_sel c1) = m \<and> P d1 (glob c1)"
    and "j \<noteq> ERROR" "j \<noteq> DONE"
  obtains s' w' d1 where "serve (Ready {} {i}) (s, w) = Inr (SELECTOR_SUCCESS, s', w')" and "server_ok (n + 3) (s', w')"
    and "resolution_jobs s' = []" and "registered s' = m" and "conns w' k = Some (d1\<lparr>conn_current := Some j\<rparr>)"
    and "P d1 (globs w')" and "turned w es w'"
  using socks_turn [OF assms(1) disjI2 [OF conjI [OF refl conjI [OF refl refl]]] _ assms(3,4), where P = "\<lambda>d g m'. m' = m \<and> P d g"] assms(2) by blast

section \<open>The turns of the negotiation\<close>

definition clean :: "socks5 \<Rightarrow> bool" where
  "clean d \<longleftrightarrow> isSocks d \<and> done_state d = DONE \<and> empty_buffer (read_buffer d) \<and>
     buf_limit (read_buffer d) = 2048 \<and> buf_limit (write_buffer d) = 2048"

lemma clean_buffers:
  assumes "clean d" and "empty_buffer (write_buffer d)"
  shows "empty_buffers d" and "buffer_space (read_buffer d) = 2048" and "buffer_space (write_buffer d) = 2048"
  using assms by (simp_all add: clean_def empty_buffers_def buffer_space_empty)

lemma clean_same: "clean d \<Longrightarrow> same_session d d' \<Longrightarrow> empty_buffer (read_buffer d') \<Longrightarrow> clean d'"
  by (simp add: clean_def same_session_def)

lemma clean_current [simp]: "clean (d\<lparr>conn_current := x\<rparr>) = clean d"
  by (simp add: clean_def)

lemma same_session_current [simp]: "same_session d (d'\<lparr>conn_current := x\<rparr>) = same_session d d'"
  by (simp add: same_session_def)

lemma called_ready:
  assumes "called i k d s w c" and "registered s i = Some it" and "\<And>m. io_malloc (io_script w (io_step w)) m"
  shows "ready_ctx c"
  using assms by (auto simp: called_def ready_ctx_def sel_ok_def)

lemma glob_sel [simp]: "glob (c\<lparr>c_sel := s\<rparr>) = glob c"
  by (simp add: glob_def)

lemma called_glob: "called i k d s w c \<Longrightarrow> glob c = globs w"
  by (simp add: called_def)

lemma waits_item: "waits n i op k d s w \<Longrightarrow> registered s i = Some (socks_item i op k)"
  by (simp add: waits_def)

lemma with_item:
  "registered s i = Some (socks_item i op k) \<Longrightarrow>
   with_interest (registered s) i op' = (registered s)(i \<mapsto> socks_item i op' k)"
  by (simp add: with_interest_def socks_item_def)

lemma hello_turn:
  assumes at: "waits n i OP_READ k d s w" and n: "n + 6 < 2 ^ 32"
    and d: "conn_current d = None" "clean d" "empty_buffer (write_buffer d)"
    and io: "io_recv (io_script w (io_step w)) = Some (hello_message True ms)" "length ms < 256"
      "\<And>m. io_malloc (io_script w (io_step w)) m"
    and auth: "auth_method (globs w) = 0x02" "0x02 \<in> set ms"
  shows "\<exists>s' w' d' h. serve (Ready {i} {}) (s, w) = Inr (SELECTOR_SUCCESS, s', w') \<and> waits (n + 3) i OP_WRITE k d' s' w' \<and>
    conn_current d' = Some HELLO_WRITE \<and> clean d' \<and> same_session d d' \<and> client d' = Cl_hello h \<and> hs_method h = 0x02 \<and>
    buffer_inv (write_buffer d') \<and> buffer_contents (write_buffer d') = [0x05, 0x02] \<and>
    turned w [] w' \<and> globs w' = globs w \<and> registered s' = (registered s)(i \<mapsto> socks_item i OP_WRITE k)"
proof -
  let ?m = "(registered s)(i \<mapsto> socks_item i OP_WRITE k)"
  let ?P = "\<lambda>d' g. clean d' \<and> same_session d d' \<and> (\<exists>h. client d' = Cl_hello h \<and> hs_method h = 0x02) \<and>
    buffer_inv (write_buffer d') \<and> buffer_contents (write_buffer d') = [0x05, 0x02] \<and> g = globs w"
  have ev: "\<exists>c1 d1. stm_handler on_read_ready (socks5_stm (conn_current d)) c =
        Inr (HELLO_WRITE, socks5_stm (Some HELLO_WRITE), c1) \<and> conn c1 = Inr d1 \<and> events (c_world c1) = events w @ [] \<and>
        registered (c_sel c1) = ?m \<and> ?P d1 (glob c1)" if c: "called i k d s w c" for c
  proof -
    have pre: "conn c = Inr d" "isSocks d" "empty_buffers d" "ready_ctx c"
      "io_recv (c_io c) = Some (hello_message True ms)" "length ms + 2 \<le> buffer_space (read_buffer d)"
      using c clean_buffers [OF d(2,3)] called_ready [OF c waits_item [OF at] io(3)] io(1,2) d(2)
      by (simp_all add: called_def clean_def)
    obtain c1 d1 h where c1: "stm_handler_read (socks5_stm None) c = Inr (HELLO_WRITE, socks5_stm (Some HELLO_WRITE), c1)"
      "conn c1 = Inr d1" "client d1 = Cl_hello h" "hs_method h = method_for c True ms" "buffer_inv (write_buffer d1)"
      "buffer_contents (write_buffer d1) = [SOCKS_VERSION, method_for c True ms]"
      "\<exists>s. c1 = put_conn d1 (c\<lparr>c_sel := s\<rparr>) \<and> registered s = with_interest (registered (c_sel c)) (key_fd c) OP_WRITE"
      "same_session d d1" "empty_buffer (read_buffer d1)"
      by (rule hello_event_read [OF pre(1) d(1) pre(2-5) io(2) pre(6)])
    have m: "method_for c True ms = 0x02" using c auth by (simp add: method_for_def called_def Let_def)
    obtain s1 where s1: "c1 = put_conn d1 (c\<lparr>c_sel := s1\<rparr>)"
      "registered s1 = with_interest (registered (c_sel c)) (key_fd c) OP_WRITE" using c1(7) by blast
    have "registered (c_sel c1) = ?m"
      using s1 c with_item [OF waits_item [OF at]] by (simp add: called_def)
    moreover have "events (c_world c1) = events w @ []" "glob c1 = globs w"
      using s1(1) c by (simp_all add: called_def)
    moreover have "clean d1" by (rule clean_same [OF d(2) c1(8,9)])
    ultimately show ?thesis
      using c1(1-6,8) m d(1) by (intro exI [of _ c1] exI [of _ d1]) (simp add: stm_handler_read_def SOCKS_VERSION_def)
  qed
  show ?thesis
    by (rule read_turn [OF at ev]) (use n in \<open>auto simp: waits_def fun_upd_def\<close>)
qed

lemma hello_reply_turn:
  assumes at: "waits n i OP_WRITE k d s w" and n: "n + 6 < 2 ^ 32"
    and d: "conn_current d = Some HELLO_WRITE" "clean d" "client d = Cl_hello h" "hs_method h = 0x02"
      "buffer_inv (write_buffer d)" "buffer_contents (write_buffer d) = [0x05, 0x02]"
    and io: "io_send (io_script w (io_step w)) = Some q" "2 \<le> q" "\<And>m. io_malloc (io_script w (io_step w)) m"
  shows "\<exists>s' w' d' m. serve (Ready {} {i}) (s, w) = Inr (SELECTOR_SUCCESS, s', w') \<and> waits (n + 3) i OP_READ k d' s' w' \<and>
    conn_current d' = Some USERPASS_READ \<and> clean d' \<and> same_session d d' \<and> client d' = Cl_userpass (fresh_login m) \<and>
    empty_buffer (write_buffer d') \<and> turned w [Sent i [0x05, 0x02]] w' \<and> globs w' = globs w \<and>
    registered s' = (registered s)(i \<mapsto> socks_item i OP_READ k)"
proof -
  let ?m = "(registered s)(i \<mapsto> socks_item i OP_READ k)" and ?es = "[Sent i [0x05, 0x02]]"
  let ?P = "\<lambda>d' g. clean d' \<and> same_session d d' \<and> (\<exists>m. client d' = Cl_userpass (fresh_login m)) \<and>
    empty_buffer (write_buffer d') \<and> g = globs w"
  have j: "after_hello (hs_method h) = USERPASS_READ"
    using d(4) by (simp add: after_hello_def METHOD_NO_ACCEPTABLE_METHODS_def METHOD_USERNAME_PASSWORD_def)
  have ev: "\<exists>c1 d1. stm_handler on_write_ready (socks5_stm (conn_current d)) c =
        Inr (USERPASS_READ, socks5_stm (Some USERPASS_READ), c1) \<and> conn c1 = Inr d1 \<and> events (c_world c1) = events w @ ?es \<and>
        registered (c_sel c1) = ?m \<and> ?P d1 (glob c1)" if c: "called i k d s w c" for c
  proof -
    have pre: "conn c = Inr d" "done_state d = DONE" "ready_ctx c" "after_hello (hs_method h) \<noteq> HELLO_WRITE"
      "io_send (c_io c) = Some q" "length (buffer_contents (write_buffer d)) \<le> q"
      using c called_ready [OF c waits_item [OF at] io(3)] io(1,2) d(2,6) j by (simp_all add: called_def clean_def)
    obtain c1 d1 where c1: "stm_handler_write (socks5_stm (Some HELLO_WRITE)) c =
      Inr (after_hello (hs_method h), socks5_stm (Some (after_hello (hs_method h))), c1)"
      "conn c1 = Inr d1" "buffer_inv (write_buffer d1)" "buffer_contents (write_buffer d1) = []"
      "read_buffer d1 = read_buffer d"
      "client d1 = Cl_userpass (fresh_login (io_substate (c_io c)))"
      "\<exists>s. c1 = emit (Sent (key_fd c) (buffer_contents (write_buffer d))) (put_conn d1 (c\<lparr>c_sel := s\<rparr>)) \<and>
      (after_hello (hs_method h) \<noteq> DONE \<longrightarrow> registered s = with_interest (registered (c_sel c)) (key_fd c) OP_READ)"
      "same_session d d1"
      by (rule hello_event_write [OF pre(1) d(1,3) pre(2-4) d(5) pre(5,6)], rule that; (assumption | simp add: j))
    obtain s1 where s1: "c1 = emit (Sent i [0x05, 0x02]) (put_conn d1 (c\<lparr>c_sel := s1\<rparr>))"
      "registered s1 = with_interest (registered (c_sel c)) (key_fd c) OP_READ"
      using c1(7) c d(6) j by (auto simp: called_def)
    have "registered (c_sel c1) = ?m"
      using s1 c with_item [OF waits_item [OF at]] by (simp add: called_def)
    moreover have "events (c_world c1) = events w @ ?es" "glob c1 = globs w"
      using s1(1) c by (simp_all add: called_def emit_def put_conn_def glob_def)
    moreover have "clean d1" by (rule clean_same [OF d(2) c1(8)]) (use c1(5) d(2) in \<open>simp add: clean_def\<close>)
    ultimately show ?thesis
      using c1(1-4,6,8) j d(1) by (intro exI [of _ c1] exI [of _ d1]) (auto simp: stm_handler_write_def)
  qed
  show ?thesis
    by (rule write_turn [OF at ev]) (use n in \<open>auto simp: waits_def fun_upd_def\<close>)
qed

lemma login_turn:
  assumes at: "waits n i OP_READ k d s w" and n: "n + 6 < 2 ^ 32"
    and d: "conn_current d = Some USERPASS_READ" "clean d" "client d = Cl_userpass (fresh_login m)"
      "empty_buffer (write_buffer d)"
    and io: "io_recv (io_script w (io_step w)) = Some (auth_message u p)" "length u < 256" "length p < 256"
      "0 \<notin> set u" "0 \<notin> set p" "\<And>m. io_malloc (io_script w (io_step w)) m"
    and users: "holds (users (globs w)) (nusers (globs w)) accounts"
      "holds (admins (globs w)) (nadmins (globs w)) others"
  shows "\<exists>s' w' d'. serve (Ready {i} {}) (s, w) = Inr (SELECTOR_SUCCESS, s', w') \<and> waits (n + 3) i OP_WRITE k d' s' w' \<and>
    conn_current d' = Some USERPASS_WRITE \<and> clean d' \<and> same_session d d' \<and>
    authentication d' = (if (u, p) \<in> set accounts then 0x00 else 0x01) \<and>
    ((u, p) \<in> set accounts \<longrightarrow> logged_as (globs w) (userIndex d') (u, p)) \<and> empty_buffer (write_buffer d') \<and> turned w [] w' \<and>
    registered s' = (registered s)(i \<mapsto> socks_item i OP_WRITE k)"
proof -
  let ?m = "(registered s)(i \<mapsto> socks_item i OP_WRITE k)"
  let ?P = "\<lambda>d' g. clean d' \<and> same_session d d' \<and>
    authentication d' = (if (u, p) \<in> set accounts then 0x00 else 0x01) \<and>
    ((u, p) \<in> set accounts \<longrightarrow> logged_as (globs w) (userIndex d') (u, p)) \<and> empty_buffer (write_buffer d')"
  have ev: "\<exists>c1 d1. stm_handler on_read_ready (socks5_stm (conn_current d)) c =
        Inr (USERPASS_WRITE, socks5_stm (Some USERPASS_WRITE), c1) \<and> conn c1 = Inr d1 \<and> events (c_world c1) = events w @ [] \<and>
        registered (c_sel c1) = ?m \<and> ?P d1 (glob c1)" if c: "called i k d s w c" for c
  proof -
    have pre: "conn c = Inr d" "isSocks d" "ready_ctx c" "empty_buffers d" "io_recv (c_io c) = Some (auth_message u p)"
      "length u + length p + 3 \<le> buffer_space (read_buffer d)" "tables_ok (glob c)"
      using c clean_buffers [OF d(2,4)] called_ready [OF c waits_item [OF at] io(6)] io(1-3) d(2) users(1,2)
      by (auto simp: called_def clean_def tables_ok_def)
    obtain c1 d1 where c1: "stm_handler_read (socks5_stm (Some USERPASS_READ)) c =
      Inr (USERPASS_WRITE, socks5_stm (Some USERPASS_WRITE), c1)"
      "conn c1 = Inr d1" "authentication d1 = verdict c d u p" "write_buffer d1 = write_buffer d"
      "\<exists>g s. c1 = put_conn d1 (put_glob g (c\<lparr>c_sel := s\<rparr>)) \<and>
        registered s = with_interest (registered (c_sel c)) (key_fd c) OP_WRITE"
      "same_session d d1" "empty_buffer (read_buffer d1)"
      "verdict c d u p = 0 \<longrightarrow> logged_as (glob c) (userIndex d1) (u, p)"
      by (rule login_event_read [OF pre(1,2) d(1,3) pre(3-5) io(2,3) pre(6) io(4,5) pre(7)])
    obtain g s1 where s1: "c1 = put_conn d1 (put_glob g (c\<lparr>c_sel := s1\<rparr>))"
      "registered s1 = with_interest (registered (c_sel c)) (key_fd c) OP_WRITE" using c1(5) by blast
    have "registered (c_sel c1) = ?m"
      using s1 c with_item [OF waits_item [OF at]] by (simp add: called_def)
    moreover have "events (c_world c1) = events w @ []"
      using s1(1) c by (simp_all add: called_def)
    moreover have "clean d1" by (rule clean_same [OF d(2) c1(6,7)])
    moreover have "authentication d1 = (if (u, p) \<in> set accounts then 0x00 else 0x01)"
      "(u, p) \<in> set accounts \<longrightarrow> logged_as (globs w) (userIndex d1) (u, p)"
      using c1(3,8) pre(2) called_glob [OF c] by (simp_all add: verdict_def holds_accounts [OF users(1)] image_iff)
    ultimately show ?thesis
      using c1(1,2,4,6) d(1,4) by (intro exI [of _ c1] exI [of _ d1]) (auto simp: stm_handler_read_def)
  qed
  show ?thesis
    by (rule read_turn [OF at ev]) (use n in \<open>auto simp: waits_def fun_upd_def\<close>)
qed

lemma login_reply_turn:
  assumes at: "waits n i OP_WRITE k d s w" and n: "n + 6 < 2 ^ 32"
    and d: "conn_current d = Some USERPASS_WRITE" "clean d" "authentication d = 0" "empty_buffer (write_buffer d)"
    and io: "io_send (io_script w (io_step w)) = Some q" "2 \<le> q" "\<And>m. io_malloc (io_script w (io_step w)) m"
      "fresh_ok (io_request (io_script w (io_step w)))"
  shows "\<exists>s' w' d'. serve (Ready {} {i}) (s, w) = Inr (SELECTOR_SUCCESS, s', w') \<and> waits (n + 3) i OP_READ k d' s' w' \<and>
    conn_current d' = Some REQUEST_READ \<and> clean d' \<and> same_session d d' \<and> userIndex d' = userIndex d \<and> awaits_request (client d') \<and>
    empty_buffer (write_buffer d') \<and> turned w [Sent i [0x01, 0x00]] w' \<and>
    registered s' = (registered s)(i \<mapsto> socks_item i OP_READ k)"
proof -
  let ?m = "(registered s)(i \<mapsto> socks_item i OP_READ k)" and ?es = "[Sent i [0x01, 0x00]]"
  let ?P = "\<lambda>d' g. clean d' \<and> same_session d d' \<and> userIndex d' = userIndex d \<and> awaits_request (client d') \<and>
    empty_buffer (write_buffer d')"
  have ev: "\<exists>c1 d1. stm_handler on_write_ready (socks5_stm (conn_current d)) c =
        Inr (REQUEST_READ, socks5_stm (Some REQUEST_READ), c1) \<and> conn c1 = Inr d1 \<and> events (c_world c1) = events w @ ?es \<and>
        registered (c_sel c1) = ?m \<and> ?P d1 (glob c1)" if c: "called i k d s w c" for c
  proof -
    have pre: "conn c = Inr d" "done_state d = DONE" "buffer_inv (write_buffer d)" "buffer_contents (write_buffer d) = []"
      "2 \<le> buffer_space (write_buffer d)" "ready_ctx c" "io_send (c_io c) = Some q" "fresh_ok (io_request (c_io c))"
      using c clean_buffers [OF d(2,4)] called_ready [OF c waits_item [OF at] io(3)] io(1,4) d(2,4)
      by (simp_all add: called_def clean_def)
    obtain c1 where c1: "stm_handler_write (socks5_stm (Some USERPASS_WRITE)) c =
        Inr (if authentication d \<noteq> 0 then DONE else REQUEST_READ,
          socks5_stm (Some (if authentication d \<noteq> 0 then DONE else REQUEST_READ)), c1)"
      "\<exists>d1 s. c1 = emit (Sent (key_fd c) [0x01, authentication d]) (put_conn d1 (c\<lparr>c_sel := s\<rparr>)) \<and>
      same_session d d1 \<and> userIndex d1 = userIndex d \<and> read_buffer d1 = read_buffer d \<and> empty_buffer (write_buffer d1) \<and>
      (authentication d = 0 \<longrightarrow> registered s = with_interest (registered (c_sel c)) (key_fd c) OP_READ) \<and>
      (authentication d \<noteq> 0 \<longrightarrow> s = c_sel c) \<and>
      (authentication d = 0 \<longrightarrow> fresh_ok (io_request (c_io c)) \<longrightarrow> awaits_request (client d1))"
      by (rule login_event_write [OF pre(1) d(1) pre(2-7) io(2)])
    obtain d1 s1 where s1: "c1 = emit (Sent i [0x01, 0x00]) (put_conn d1 (c\<lparr>c_sel := s1\<rparr>))"
      "registered s1 = with_interest (registered (c_sel c)) (key_fd c) OP_READ" "same_session d d1"
      "read_buffer d1 = read_buffer d" "empty_buffer (write_buffer d1)" "awaits_request (client d1)" "userIndex d1 = userIndex d"
      using c1(2) c d(3) pre(8) by (auto simp: called_def)
    have "registered (c_sel c1) = ?m"
      using s1 c with_item [OF waits_item [OF at]] by (simp add: called_def)
    moreover have "events (c_world c1) = events w @ ?es"
      using s1(1) c by (simp_all add: called_def emit_def put_conn_def)
    moreover have "conn c1 = Inr d1" using s1(1) by (simp add: put_conn_emit [symmetric])
    moreover have "clean d1" by (rule clean_same [OF d(2) s1(3)]) (use s1(4) d(2) in \<open>simp add: clean_def\<close>)
    ultimately show ?thesis
      using c1(1) s1(3,5,6,7) d(1,3) by (intro exI [of _ c1] exI [of _ d1]) (auto simp: stm_handler_write_def)
  qed
  show ?thesis
    by (rule write_turn [OF at ev]) (use n in \<open>auto simp: waits_def fun_upd_def\<close>)
qed

section \<open>The turns of the request\<close>

lemma connecting_to_current [simp]: "connecting_to (d\<lparr>conn_current := x\<rparr>) i q = connecting_to d i q"
  by (simp add: connecting_to_def)

lemma request_turn:
  assumes at: "waits n i OP_READ k d s w" and n: "n + 6 < 2 ^ 32"
    and d: "conn_current d = Some REQUEST_READ" "clean d" "awaits_request (client d)" "empty_buffer (write_buffer d)"
      "client_fd d = int i"
    and io: "io_recv (io_script w (io_step w)) = Some (encode_request dst [b1, b2])" "address_ok dst" "is_ip dst"
      "io_socket (io_script w (io_step w)) = Some q" "io_set_nio (io_script w (io_step w))"
      "io_connect (io_script w (io_step w)) = EINPROGRESS" "io_register (io_script w (io_step w))"
    and q: "registered s q = None" "q < ITEMS_MAX_SIZE"
  shows "\<exists>s' w' d'. serve (Ready {i} {}) (s, w) = Inr (SELECTOR_SUCCESS, s', w') \<and> waits (n + 3) q OP_WRITE k d' s' w' \<and>
    conn_current d' = Some REQUEST_CONNECTING \<and> origin_addr d' = target_addr dst [b1, b2] \<and> connecting_to d' i q \<and>
    empty_buffer (read_buffer d') \<and> client_addr d' = client_addr d \<and> userIndex d' = userIndex d \<and>
    buf_limit (read_buffer d') = 2048 \<and> write_buffer d' = write_buffer d \<and> turned w [] w' \<and>
    registered s' = (registered s)(i \<mapsto> socks_item i OP_NOOP k, q \<mapsto> socks_item q OP_WRITE k)"
proof -
  let ?m = "(registered s)(i \<mapsto> socks_item i OP_NOOP k, q \<mapsto> socks_item q OP_WRITE k)"
  let ?P = "\<lambda>d' g. origin_addr d' = target_addr dst [b1, b2] \<and> connecting_to d' i q \<and> empty_buffer (read_buffer d') \<and>
    client_addr d' = client_addr d \<and> userIndex d' = userIndex d \<and>
    buf_limit (read_buffer d') = 2048 \<and> write_buffer d' = write_buffer d"
  have ev: "\<exists>c1 d1. stm_handler on_read_ready (socks5_stm (conn_current d)) c =
        Inr (REQUEST_CONNECTING, socks5_stm (Some REQUEST_CONNECTING), c1) \<and> conn c1 = Inr d1 \<and> events (c_world c1) = events w @ [] \<and>
        registered (c_sel c1) = ?m \<and> ?P d1 (glob c1)" if c: "called i k d s w c" for c
  proof -
    have it: "registered (c_sel c) (key_fd c) = Some (socks_item i OP_READ k)"
      using c waits_item [OF at] by (simp add: called_def)
    have "length (encode_request dst [b1, b2]) \<le> 262"
      using io(2,3) by (cases dst) (simp_all add: encode_request_def is_ip_def)
    then have pre: "conn c = Inr d" "client_fd d = int (key_fd c)" "buffer_inv (read_buffer d)"
      "buffer_contents (read_buffer d) = []" "sel_ok (c_sel c)"
      "io_recv (c_io c) = Some (encode_request dst [b1, b2])"
      "length (encode_request dst [b1, b2]) \<le> buffer_space (read_buffer d)"
      "io_socket (c_io c) = Some q" "io_set_nio (c_io c)" "io_connect (c_io c) = EINPROGRESS" "io_register (c_io c)"
      "registered (c_sel c) q = None"
      using c clean_buffers [OF d(2,4)] io d(2,5) q(1) by (simp_all add: called_def clean_def)
    obtain c1 d1 where c1: "stm_handler_read (socks5_stm (Some REQUEST_READ)) c =
        Inr (REQUEST_CONNECTING, socks5_stm (Some REQUEST_CONNECTING), c1)" "conn c1 = Inr d1"
      "?P d1 ()" "events (c_world c1) = events (c_world c)" "connecting_to d1 (key_fd c) q"
      "registered (c_sel c1) = (registered (c_sel c))(key_fd c \<mapsto> socks_item i OP_READ k\<lparr>it_interest := OP_NOOP\<rparr>,
        q \<mapsto> \<lparr>it_fd = int q, it_interest = OP_WRITE, it_handler = Some Socks5_handler, it_data = Some (key_data c)\<rparr>)"
      using request_event [OF pre(1) d(3) pre(2-5) it pre(6) io(2,3) pre(7-12) q(2)] c d(2)
      by (auto simp: called_def clean_def)
    then show ?thesis
      using c d(1) by (intro exI [of _ c1] exI [of _ d1]) (simp add: stm_handler_read_def called_def socks_item_def)
  qed
  show ?thesis
    by (rule read_turn [OF at ev]) (use n in \<open>auto simp: waits_def fun_upd_def\<close>)
qed

lemma connect_turn:
  assumes at: "waits n q OP_WRITE k d s w" and n: "n + 6 < 2 ^ 32"
    and d: "conn_current d = Some REQUEST_CONNECTING" "connecting_to d i q" "empty_buffer (write_buffer d)"
      "10 \<le> buf_limit (write_buffer d)"
    and io: "io_so_error (io_script w (io_step w)) = Some E_none"
    and i: "registered s i = Some (socks_item i OP_NOOP k)"
  shows "\<exists>s' w' d' h m. serve (Ready {} {q}) (s, w) = Inr (SELECTOR_SUCCESS, s', w') \<and> waits (n + 3) i OP_WRITE k d' s' w' \<and>
    conn_current d' = Some REQUEST_WRITE \<and> client d' = Cl_request h \<and> read_buffer d' = read_buffer d \<and>
    client_fd d' = int i \<and> origin_fd d' = int q \<and>
    orig d' = Or_conn \<lparr>cn_client_fd = int i, cn_origin_fd = m, cn_status = errno_to_socks E_none\<rparr> \<and>
    buffer_inv (write_buffer d') \<and> buffer_contents (write_buffer d') = reply_bytes (errno_to_socks E_none) \<and>
    turned w [Access_log (userIndex d) (origin_addr d) (client_addr d) (errno_to_socks E_none)] w' \<and>
    registered s' = (registered s)(i \<mapsto> socks_item i OP_WRITE k, q \<mapsto> socks_item q OP_NOOP k)"
proof -
  let ?m = "(registered s)(i \<mapsto> socks_item i OP_WRITE k, q \<mapsto> socks_item q OP_NOOP k)"
  let ?es = "[Access_log (userIndex d) (origin_addr d) (client_addr d) (errno_to_socks E_none)]"
  let ?P = "\<lambda>d' g. (\<exists>h. client d' = Cl_request h) \<and> read_buffer d' = read_buffer d \<and>
    client_fd d' = int i \<and> origin_fd d' = int q \<and>
    (\<exists>m. orig d' = Or_conn \<lparr>cn_client_fd = int i, cn_origin_fd = m, cn_status = errno_to_socks E_none\<rparr>) \<and>
    buffer_inv (write_buffer d') \<and> buffer_contents (write_buffer d') = reply_bytes (errno_to_socks E_none)"
  have ne: "i \<noteq> q" using d(2) by (simp add: connecting_to_def)
  have ev: "\<exists>c1 d1. stm_handler on_write_ready (socks5_stm (conn_current d)) c =
        Inr (REQUEST_WRITE, socks5_stm (Some REQUEST_WRITE), c1) \<and> conn c1 = Inr d1 \<and> events (c_world c1) = events w @ ?es \<and>
        registered (c_sel c1) = ?m \<and> ?P d1 (glob c1)" if c: "called q k d s w c" for c
  proof -
    have pre: "conn c = Inr d" "connecting_to d i (key_fd c)" "E_none = E_none \<or> last_address d"
      "10 \<le> buffer_space (write_buffer d)" "both_registered c i (key_fd c)" "io_so_error (c_io c) = Some E_none"
      using c d(2-4) io i waits_item [OF at]
      by (simp_all add: called_def both_registered_def buffer_space_empty)
    obtain c1 d1 h m where c1: "stm_handler_write (socks5_stm (Some REQUEST_CONNECTING)) c =
        Inr (REQUEST_WRITE, socks5_stm (Some REQUEST_WRITE), c1)"
      "conn c1 = Inr d1" "client d1 = Cl_request h" "read_buffer d1 = read_buffer d"
      "client_fd d1 = int i" "origin_fd d1 = int (key_fd c)"
      "orig d1 = Or_conn \<lparr>cn_client_fd = int i, cn_origin_fd = m, cn_status = errno_to_socks E_none\<rparr>"
      "buffer_inv (write_buffer d1)"
      "buffer_contents (write_buffer d1) = buffer_contents (write_buffer d) @ reply_bytes (errno_to_socks E_none)"
      "waiting_reply c c1 i (key_fd c)"
      "events (c_world c1) = events (c_world c) @
        [Access_log (userIndex d) (origin_addr d) (client_addr d) (errno_to_socks E_none)]"
      by (rule connect_event [OF pre(1-3) conjunct1 [OF d(3)] pre(4-6)])
    have "registered (c_sel c1) = ?m"
      using c1(10) c i ne waits_item [OF at]
      by (auto simp: waiting_reply_def called_def socks_item_def fun_eq_iff)
    then show ?thesis
      using c1 c d(1,3) by (intro exI [of _ c1] exI [of _ d1]) (simp add: stm_handler_write_def called_def)
  qed
  show ?thesis
    by (rule write_turn [OF at ev]) (use n ne in \<open>auto simp: waits_def fun_upd_def\<close>)
qed

lemma same_item:
  assumes "map_option (\<lambda>it. it\<lparr>it_interest := OP_NOOP\<rparr>) m = Some (socks_item j OP_NOOP k)"
    and "map_option it_interest m = Some op"
  shows "m = Some (socks_item j op k)"
proof (cases m)
  case (Some it)
  then show ?thesis using assms by (cases it) (simp add: socks_item_def)
qed (use assms in simp)

lemma answer_turn:
  assumes at: "waits n i OP_WRITE k d s w" and n: "n + 6 < 2 ^ 32"
    and d: "conn_current d = Some REQUEST_WRITE" "client d = Cl_request h" "empty_buffer (read_buffer d)"
      "0 < buf_limit (read_buffer d)" "client_fd d = int i" "origin_fd d = int q"
      "orig d = Or_conn \<lparr>cn_client_fd = int i, cn_origin_fd = m, cn_status = errno_to_socks E_none\<rparr>"
      "buffer_inv (write_buffer d)" "buffer_contents (write_buffer d) = reply_bytes (errno_to_socks E_none)"
    and io: "io_send (io_script w (io_step w)) = Some x" "10 \<le> x"
    and q: "registered s q = Some (socks_item q OP_NOOP k)"
  shows "\<exists>s' w' d'. serve (Ready {} {i}) (s, w) = Inr (SELECTOR_SUCCESS, s', w') \<and>
    waits (n + 3) i OP_READ k d' s' w' \<and> waits (n + 3) q OP_READ k d' s' w' \<and>
    conn_current d' = Some COPY \<and> relayed d' (\<lambda>_. []) (\<lambda>_. []) \<and>
    turned w [Sent i (reply_bytes (errno_to_socks E_none))] w'"
proof -
  let ?es = "[Sent i (reply_bytes (errno_to_socks E_none))]"
  let ?P = "\<lambda>d' g m. relayed d' (\<lambda>_. []) (\<lambda>_. []) \<and> m i = Some (socks_item i OP_READ k) \<and> m q = Some (socks_item q OP_READ k)"
  have ev: "\<exists>c1 d1. stm_handler on_write_ready (socks5_stm (conn_current d)) c =
        Inr (COPY, socks5_stm (Some COPY), c1) \<and> conn c1 = Inr d1 \<and> events (c_world c1) = events w @ ?es \<and>
        ?P d1 (glob c1) (registered (c_sel c1))" if c: "called i k d s w c" for c
  proof -
    have pre: "conn c = Inr d" "client_fd d = int (key_fd c)" "buffer_inv (read_buffer d)"
      "io_send (c_io c) = Some x" "both_registered c (key_fd c) q"
      using c d(3,5) io q waits_item [OF at] by (simp_all add: called_def both_registered_def)
    obtain c1 d1 where c1: "stm_handler_write (socks5_stm (Some REQUEST_WRITE)) c =
        Inr (if E_none = E_none then COPY else DONE, socks5_stm (Some (if E_none = E_none then COPY else DONE)), c1)"
      "conn c1 = Inr d1" "events (c_world c1) = events (c_world c) @ [Sent (key_fd c) (reply_bytes (errno_to_socks E_none))]"
      "(if E_none = E_none then COPY else DONE) = COPY \<longrightarrow>
        relayed d1 (\<lambda>s. if s = Client_side then buffer_contents (read_buffer d) else []) (\<lambda>_. [])"
      "same_items (registered (c_sel c)) (registered (c_sel c1))"
      "(if E_none = E_none then COPY else DONE) = COPY \<longrightarrow> buffer_contents (read_buffer d) = [] \<longrightarrow>
        0 < buf_limit (read_buffer d) \<longrightarrow> 0 < buf_limit (write_buffer d) \<longrightarrow>
        listens (registered (c_sel c1)) (key_fd c) \<and> listens (registered (c_sel c1)) q"
      by (rule answer_event [OF pre(1) d(2) pre(2) d(6,7) pre(3) d(8,9) pre(4) io(2) pre(5)])
    have "length (buffer_contents (write_buffer d)) = 10" using d(9) by (simp add: reply_bytes_def)
    then have "0 < buf_limit (write_buffer d)"
      using buffer_contents_length [OF d(8)] d(8) by (auto simp: buffer_inv_def)
    then have listens: "listens (registered (c_sel c1)) i" "listens (registered (c_sel c1)) q"
      using c1(6) c d(3,4) by (simp_all add: called_def)
    have "registered (c_sel c1) j = Some (socks_item j OP_READ k)"
      if "registered s j = Some (socks_item j op k)" "listens (registered (c_sel c1)) j" for j op
    proof -
      have "map_option (\<lambda>it. it\<lparr>it_interest := OP_NOOP\<rparr>) (registered (c_sel c1) j) = Some (socks_item j OP_NOOP k)"
        using c1(5) that(1) c by (simp add: same_items_def called_def socks_item_def)
      then show ?thesis by (rule same_item [OF _ that(2) [unfolded listens_def]])
    qed
    then have "registered (c_sel c1) i = Some (socks_item i OP_READ k)" "registered (c_sel c1) q = Some (socks_item q OP_READ k)"
      using listens q waits_item [OF at] by blast+
    moreover have "(\<lambda>s. if s = Client_side then buffer_contents (read_buffer d) else []) = (\<lambda>_. [])"
      using d(3) by auto
    ultimately show ?thesis
      using c1(1-4) c d(1) by (intro exI [of _ c1] exI [of _ d1]) (simp add: stm_handler_write_def called_def)
  qed
  obtain s' w' d1 where t: "serve (Ready {} {i}) (s, w) = Inr (SELECTOR_SUCCESS, s', w')" "server_ok (n + 3) (s', w')"
    "resolution_jobs s' = []" "conns w' k = Some (d1\<lparr>conn_current := Some COPY\<rparr>)"
    "?P d1 (globs w') (registered s')" "turned w ?es w'"
    using socks_turn [OF at disjI2 [OF conjI [OF refl conjI [OF refl refl]]] ev] by auto
  have "relayed (d1\<lparr>conn_current := Some COPY, references := references d1\<rparr>) (\<lambda>_. []) (\<lambda>_. [])"
    using t(5) by (blast intro: relayed.engine)
  then show ?thesis
    using t n by (intro exI [of _ s'] exI [of _ w'] exI [of _ "d1\<lparr>conn_current := Some COPY\<rparr>"]) (simp add: waits_def)
qed

section \<open>The turn that accepts\<close>

definition socks_listener :: "nat \<Rightarrow> (handler_name, nat) item" where
  "socks_listener l = \<lparr>it_fd = int l, it_interest = OP_READ, it_handler = Some Socks5_passive, it_data = None\<rparr>"

text \<open>The key the next connection gets: a recycled structure, or a new one.\<close>

definition next_key :: "world \<Rightarrow> nat" where
  "next_key w = (case pool w of [] \<Rightarrow> next_conn w | k # _ \<Rightarrow> k)"

lemma socks5_new_key:
  obtains w1 where "socks5_new True fd w = Inr (Some (next_key w), w1)"
    and "conns w1 (next_key w) = Some (fresh_conn True fd None ERROR DONE)"
    and "globs w1 = globs w" and "io_script w1 = io_script w" and "io_step w1 = io_step w" and "events w1 = events w"
  using that stm_init_tables by (cases "pool w") (simp_all add: socks5_new_def Let_def socks5_stm_def next_key_def)

lemma accept_turn:
  assumes ok: "server_ok n (s, w)" "0 < n" "n + 6 < 2 ^ 32" and s: "resolution_jobs s = []"
      "registered s l = Some (socks_listener l)" "registered s i = None" "i < ITEMS_MAX_SIZE"
    and io: "io_accept (io_script w (io_step w)) = Some (i, a)" "io_set_nio (io_script w (io_step w))"
      "io_malloc (io_script w (io_step w)) 0" "io_register (io_script w (io_step w))"
  shows "\<exists>s' w' d. serve (Ready {l} {}) (s, w) = Inr (SELECTOR_SUCCESS, s', w') \<and>
    waits (n + 3) i OP_READ (next_key w) d s' w' \<and> conn_current d = None \<and> clean d \<and> empty_buffer (write_buffer d) \<and>
    client_addr d = a \<and> client_fd d = int i \<and> origin_fd d = -1 \<and> references d = 1 \<and>
    turned w [] w' \<and> globs w' = globs w \<and>
    registered s' = (registered s)(i \<mapsto> socks_item i OP_READ (next_key w))"
proof -
  let ?s = "s\<lparr>slave_r := {l}, slave_w := {}\<rparr>" and ?w = "w\<lparr>io_step := io_step w + 1\<rparr>"
  define d where "d = fresh_conn True (int i) None ERROR DONE\<lparr>client_addr := a\<rparr>"
  have sel: "sel_ok s" using ok(1) by (simp add: server_ok_def world_ok_def)
  then have sok: "sel_ok ?s" "registered ?s i = None" using s(3) by (simp_all add: sel_ok_def)
  have key: "next_key ?w = next_key w" by (simp add: next_key_def split: list.splits)
  obtain w1 where w1: "socks5_new True (int i) ?w = Inr (Some (next_key w), w1)"
    "conns w1 (next_key w) = Some (fresh_conn True (int i) None ERROR DONE)"
    "globs w1 = globs ?w" "io_script w1 = io_script ?w" "io_step w1 = io_step ?w" "events w1 = events ?w"
    using socks5_new_key [of "int i" ?w] unfolding key by metis
  obtain s2 where s2: "selector_register True ?s (int i) (Some Socks5_handler) OP_READ (Some (next_key w)) =
      Inr (SELECTOR_SUCCESS, s2)" "sel_ok s2" "resolution_jobs s2 = resolution_jobs ?s"
      "slave_r s2 = slave_r ?s" "slave_w s2 = slave_w ?s"
      "registered s2 = (registered ?s)(i \<mapsto> \<lparr>it_fd = int i, it_interest = OP_READ,
         it_handler = Some Socks5_handler, it_data = Some (next_key w)\<rparr>)"
    by (rule register_free [OF sok s(4), of Socks5_handler OP_READ "Some (next_key w)"])
  let ?w2 = "w1\<lparr>conns := (conns w1)(next_key w \<mapsto> d)\<rparr>"
  have accept: "socksv5_passive_accept l None (?s, w) = Inr (s2, ?w2)"
    using s2(1) w1(1,2) io by (simp add: socksv5_passive_accept_def accept_with_def next_io_def d_def)
  have it: "registered ?s l = Some (socks_listener l)" "it_handler (socks_listener l) = Some Socks5_passive"
    using s(2) by (simp_all add: socks_listener_def)
  have ok1: "server_ok n (?s, w)" "n + 3 < 2 ^ 32" using ok by simp_all
  have ok2: "server_ok (n + 3) (s2, ?w2)"
    by (rule conjunct1 [OF hook_ok [OF ok1(1) ok(2) ok1(2) it, of socksv5_passive_accept l]])
      (use accept in \<open>simp_all add: handlers_def socks_listener_def\<close>)
  have "serve (Ready {l} {}) (s, w) = Inr (SELECTOR_SUCCESS, s2\<lparr>resolution_jobs := []\<rparr>, ?w2)"
    by (rule conjunct1 [OF one_reader [OF sel s(1,2), where f = socksv5_passive_accept and h = Socks5_passive]])
      (use accept s2 s(1) in \<open>simp_all add: socks_listener_def wants_def op_defs handlers_def\<close>)
  moreover have "clean d" "empty_buffer (write_buffer d)" "conn_current d = None" "client_addr d = a" "client_fd d = int i"
    "origin_fd d = -1" "references d = 1"
    using buffer_init_spec [of 2048 "replicate 2048 0" "\<lparr>buf_data = [], buf_limit = 0, buf_read = 0, buf_write = 0\<rparr>"]
    by (simp_all add: d_def clean_def fresh_conn_def raw_buffer_def)
  ultimately show ?thesis
    using ok2 w1(3-6) s2 ok(3)
    by (intro exI [of _ "s2\<lparr>resolution_jobs := []\<rparr>"] exI [of _ ?w2] exI [of _ d])
      (simp add: waits_def turned_def socks_item_def)
qed

section \<open>The whole session\<close>

text \<open>
  What the outside does, turn by turn: the client offers methods and is answered, logs in and is
  answered, asks for an address; the connection to it is begun, and succeeds; the client takes the
  reply.
\<close>

definition obliging :: "io \<Rightarrow> bool" where
  "obliging t \<longleftrightarrow> (\<forall>m. io_malloc t m) \<and> io_set_nio t \<and> io_register t \<and> fresh_ok (io_request t)"

definition takes :: "nat \<Rightarrow> io \<Rightarrow> bool" where
  "takes n t \<longleftrightarrow> (\<exists>m \<ge> n. io_send t = Some m)"

definition logs_in :: "(nat \<Rightarrow> io) \<Rightarrow> nat \<Rightarrow> sockaddr \<Rightarrow> byte list \<Rightarrow> byte list \<times> byte list \<Rightarrow> bool" where
  "logs_in t i a ms = (\<lambda>(u, p). (\<forall>n. obliging (t n)) \<and> io_accept (t 0) = Some (i, a) \<and>
     io_recv (t 1) = Some (hello_message True ms) \<and> takes 2 (t 2) \<and>
     io_recv (t 3) = Some (auth_message u p) \<and> takes 2 (t 4))"

definition request_succeeds :: "(nat \<Rightarrow> io) \<Rightarrow> address \<Rightarrow> byte list \<Rightarrow> nat \<Rightarrow> bool" where
  "request_succeeds t dst port q \<longleftrightarrow> (\<forall>n. obliging (t n)) \<and> io_recv (t 5) = Some (encode_request dst port) \<and>
     io_socket (t 5) = Some q \<and> io_connect (t 5) = EINPROGRESS \<and> io_so_error (t 6) = Some E_none \<and> takes 10 (t 7)"

text \<open>The world after \<open>t\<close> turns with the events \<open>es\<close>.\<close>

definition later :: "world \<Rightarrow> nat \<Rightarrow> event list \<Rightarrow> world \<Rightarrow> bool" where
  "later w t es w' \<longleftrightarrow> io_script w' = io_script w \<and> io_step w' = io_step w + t \<and> events w' = events w @ es"

lemma later_start: "later w 0 [] w"
  by (simp add: later_def)

lemma later_turned: "later w t es w1 \<Longrightarrow> turned w1 es' w2 \<Longrightarrow> later w (t + 1) (es @ es') w2"
  by (simp add: later_def turned_def)

lemma later_io: "later w t es w1 \<Longrightarrow> io_script w1 (io_step w1) = io_script w (io_step w + t)"
  by (simp add: later_def)

lemma main_loop_append:
  "main_loop (as @ bs) sw = bind_res (main_loop as sw)
     (\<lambda>(st, sw1). if st \<noteq> SELECTOR_SUCCESS then Inr (st, sw1) else main_loop bs sw1)"
proof (induction as arbitrary: sw)
  case (Cons r as)
  then show ?case by (cases "serve r sw") (auto split: prod.splits)
qed simp

lemma session_checked:
  assumes ok: "server_ok n (s, w)" "0 < n" "n + 15 < 2 ^ 32" and s: "resolution_jobs s = []"
      "registered s l = Some (socks_listener l)" "registered s i = None" "i < ITEMS_MAX_SIZE"
    and ms: "length ms < 256" "auth_method (globs w) = 0x02" "0x02 \<in> set ms"
    and a: "length u < 256" "length p < 256" "0 \<notin> set u" "0 \<notin> set p"
      "holds (users (globs w)) (nusers (globs w)) accounts"
      "holds (admins (globs w)) (nadmins (globs w)) others"
    and io: "logs_in (\<lambda>t. io_script w (io_step w + t)) i addr ms (u, p)"
  shows "\<exists>s' w' d. main_loop [Ready {l} {}, Ready {i} {}, Ready {} {i}, Ready {i} {}] (s, w) =
      Inr (SELECTOR_SUCCESS, s', w') \<and> waits (n + 12) i OP_WRITE (next_key w) d s' w' \<and>
    conn_current d = Some USERPASS_WRITE \<and> clean d \<and> empty_buffer (write_buffer d) \<and>
    authentication d = (if (u, p) \<in> set accounts then 0x00 else 0x01) \<and>
    ((u, p) \<in> set accounts \<longrightarrow> logged_as (globs w) (userIndex d) (u, p)) \<and>
    client_fd d = int i \<and> client_addr d = addr \<and> origin_fd d = -1 \<and> references d = 1 \<and>
    later w 4 [Sent i [0x05, 0x02]] w' \<and>
    registered s' = (registered s)(i \<mapsto> socks_item i OP_WRITE (next_key w))"
proof -
  let ?k = "next_key w" and ?t = "\<lambda>n. io_script w (io_step w + n)"
  have obl: "io_malloc (?t n) m" "io_set_nio (?t n)" "io_register (?t n)" "fresh_ok (io_request (?t n))" for n m
    using io by (simp_all add: logs_in_def obliging_def)
  have recv: "io_accept (?t 0) = Some (i, addr)" "io_recv (?t 1) = Some (hello_message True ms)"
    "io_recv (?t 3) = Some (auth_message u p)" using io by (simp_all add: logs_in_def)
  obtain x where send: "io_send (?t 2) = Some x" "2 \<le> x"
    using io by (auto simp: logs_in_def takes_def)
  have n: "n + 6 < 2 ^ 32" "n + 3 + 6 < 2 ^ 32" "n + 3 + 3 + 6 < 2 ^ 32" "n + 3 + 3 + 3 + 6 < 2 ^ 32" using ok(3) by simp_all
  have io0: "io_accept (io_script w (io_step w)) = Some (i, addr)" "io_set_nio (io_script w (io_step w))"
    "io_malloc (io_script w (io_step w)) 0" "io_register (io_script w (io_step w))"
    using recv(1) obl [of 0] by simp_all
  obtain s1 w1 d1 where t1: "serve (Ready {l} {}) (s, w) = Inr (SELECTOR_SUCCESS, s1, w1)"
    "waits (n + 3) i OP_READ ?k d1 s1 w1" "conn_current d1 = None" "clean d1" "empty_buffer (write_buffer d1)"
    "client_addr d1 = addr" "client_fd d1 = int i" "turned w [] w1" "globs w1 = globs w"
    "origin_fd d1 = -1" "references d1 = 1"
    "registered s1 = (registered s)(i \<mapsto> socks_item i OP_READ ?k)"
    using accept_turn [OF ok(1,2) n(1) s io0] by blast
  have l1: "later w 1 [] w1" using later_turned [OF later_start t1(8)] by simp
  note io1 = later_io [OF l1]
  obtain s2 w2 d2 h where t2: "serve (Ready {i} {}) (s1, w1) = Inr (SELECTOR_SUCCESS, s2, w2)"
    "waits (n + 3 + 3) i OP_WRITE ?k d2 s2 w2" "conn_current d2 = Some HELLO_WRITE" "clean d2" "same_session d1 d2"
    "client d2 = Cl_hello h" "hs_method h = 0x02" "buffer_inv (write_buffer d2)"
    "buffer_contents (write_buffer d2) = [0x05, 0x02]" "turned w1 [] w2" "globs w2 = globs w1"
    "registered s2 = (registered s1)(i \<mapsto> socks_item i OP_WRITE ?k)"
    using hello_turn [OF t1(2) n(2) t1(3-5) recv(2) [folded io1] ms(1) obl(1) [of 1, folded io1]] ms(2,3) t1(9) by auto
  have l2: "later w 2 [] w2" using later_turned [OF l1 t2(10)] by (simp add: eval_nat_numeral)
  note io2 = later_io [OF l2]
  obtain s3 w3 d3 m where t3: "serve (Ready {} {i}) (s2, w2) = Inr (SELECTOR_SUCCESS, s3, w3)"
    "waits (n + 3 + 3 + 3) i OP_READ ?k d3 s3 w3" "conn_current d3 = Some USERPASS_READ" "clean d3" "same_session d2 d3"
    "client d3 = Cl_userpass (fresh_login m)" "empty_buffer (write_buffer d3)" "turned w2 [Sent i [0x05, 0x02]] w3"
    "globs w3 = globs w2" "registered s3 = (registered s2)(i \<mapsto> socks_item i OP_READ ?k)"
    using hello_reply_turn [OF t2(2) n(3) t2(3,4,6-9) send(1) [folded io2] send(2) obl(1) [of 2, folded io2]] by blast
  have l3: "later w 3 [Sent i [0x05, 0x02]] w3" using later_turned [OF l2 t3(8)] by (simp add: eval_nat_numeral)
  note io3 = later_io [OF l3]
  have g: "globs w3 = globs w" using t3(9) t2(11) t1(9) by simp
  obtain s4 w4 d4 where t4: "serve (Ready {i} {}) (s3, w3) = Inr (SELECTOR_SUCCESS, s4, w4)"
    "waits (n + 3 + 3 + 3 + 3) i OP_WRITE ?k d4 s4 w4" "conn_current d4 = Some USERPASS_WRITE" "clean d4"
    "same_session d3 d4" "authentication d4 = (if (u, p) \<in> set accounts then 0x00 else 0x01)"
    "(u, p) \<in> set accounts \<longrightarrow> logged_as (globs w3) (userIndex d4) (u, p)"
    "empty_buffer (write_buffer d4)" "turned w3 [] w4" "registered s4 = (registered s3)(i \<mapsto> socks_item i OP_WRITE ?k)"
    using login_turn [OF t3(2) n(4) t3(3,4,6,7) recv(3) [folded io3] a(1-4) obl(1) [of 3, folded io3]
        a(5) [folded g] a(6) [folded g]] by blast
  have l4: "later w 4 [Sent i [0x05, 0x02]] w4" using later_turned [OF l3 t4(9)] by (simp add: eval_nat_numeral)
  have same: "same_session d1 d4" using t2(5) t3(5) t4(5) same_session_trans by blast
  show ?thesis
  proof (intro exI conjI)
    show "main_loop [Ready {l} {}, Ready {i} {}, Ready {} {i}, Ready {i} {}] (s, w) = Inr (SELECTOR_SUCCESS, s4, w4)"
      by (simp add: t1(1) t2(1) t3(1) t4(1))
    show "waits (n + 12) i OP_WRITE ?k d4 s4 w4" using t4(2) by (simp add: algebra_simps)
    show "client_fd d4 = int i" "client_addr d4 = addr" "origin_fd d4 = -1" "references d4 = 1"
      using same t1(6,7,10,11) by (simp_all add: same_session_def)
    show "(u, p) \<in> set accounts \<longrightarrow> logged_as (globs w) (userIndex d4) (u, p)" using t4(7) g by simp
    show "registered s4 = (registered s)(i \<mapsto> socks_item i OP_WRITE ?k)"
      using t1(12) t2(12) t3(10) t4(10) by simp
  qed (use t4 l4 in simp_all)
qed

lemma session_negotiated:
  assumes ok: "server_ok n (s, w)" "0 < n" "n + 18 < 2 ^ 32" and s: "resolution_jobs s = []"
      "registered s l = Some (socks_listener l)" "registered s i = None" "i < ITEMS_MAX_SIZE"
    and ms: "length ms < 256" "auth_method (globs w) = 0x02" "0x02 \<in> set ms"
    and a: "length u < 256" "length p < 256" "0 \<notin> set u" "0 \<notin> set p"
      "holds (users (globs w)) (nusers (globs w)) accounts" "(u, p) \<in> set accounts"
      "holds (admins (globs w)) (nadmins (globs w)) others"
    and io: "logs_in (\<lambda>t. io_script w (io_step w + t)) i addr ms (u, p)"
  shows "\<exists>s' w' d. main_loop [Ready {l} {}, Ready {i} {}, Ready {} {i}, Ready {i} {}, Ready {} {i}] (s, w) =
      Inr (SELECTOR_SUCCESS, s', w') \<and> waits (n + 15) i OP_READ (next_key w) d s' w' \<and>
    conn_current d = Some REQUEST_READ \<and> clean d \<and> awaits_request (client d) \<and> empty_buffer (write_buffer d) \<and>
    client_fd d = int i \<and> client_addr d = addr \<and> logged_as (globs w) (userIndex d) (u, p) \<and>
    later w 5 [Sent i [0x05, 0x02], Sent i [0x01, 0x00]] w' \<and>
    registered s' = (registered s)(i \<mapsto> socks_item i OP_READ (next_key w))"
proof -
  let ?k = "next_key w" and ?t = "\<lambda>n. io_script w (io_step w + n)"
  have obl: "io_malloc (?t n) m" "fresh_ok (io_request (?t n))" for n m
    using io by (simp_all add: logs_in_def obliging_def)
  obtain y where send: "io_send (?t 4) = Some y" "2 \<le> y"
    using io by (auto simp: logs_in_def takes_def)
  have n: "n + 15 < 2 ^ 32" "n + 12 + 6 < 2 ^ 32" using ok(3) by simp_all
  obtain s4 w4 d4 where t4: "main_loop [Ready {l} {}, Ready {i} {}, Ready {} {i}, Ready {i} {}] (s, w) = Inr (SELECTOR_SUCCESS, s4, w4)"
    "waits (n + 12) i OP_WRITE ?k d4 s4 w4" "conn_current d4 = Some USERPASS_WRITE" "clean d4" "authentication d4 = 0"
    "empty_buffer (write_buffer d4)" "logged_as (globs w) (userIndex d4) (u, p)" "client_fd d4 = int i" "client_addr d4 = addr"
    "later w 4 [Sent i [0x05, 0x02]] w4" "registered s4 = (registered s)(i \<mapsto> socks_item i OP_WRITE ?k)"
    using session_checked [OF ok(1,2) n(1) s ms a(1-5,7) io] a(6) by auto
  note io4 = later_io [OF t4(10)]
  obtain s5 w5 d5 where t5: "serve (Ready {} {i}) (s4, w4) = Inr (SELECTOR_SUCCESS, s5, w5)"
    "waits (n + 12 + 3) i OP_READ ?k d5 s5 w5" "conn_current d5 = Some REQUEST_READ" "clean d5"
    "same_session d4 d5" "userIndex d5 = userIndex d4" "awaits_request (client d5)" "empty_buffer (write_buffer d5)"
    "turned w4 [Sent i [0x01, 0x00]] w5" "registered s5 = (registered s4)(i \<mapsto> socks_item i OP_READ ?k)"
    using login_reply_turn [OF t4(2) n(2) t4(3-6) send(1) [folded io4] send(2) obl(1) [of 4, folded io4]
        obl(2) [of 4, folded io4]] by blast
  have l5: "later w 5 [Sent i [0x05, 0x02], Sent i [0x01, 0x00]] w5"
    using later_turned [OF t4(10) t5(9)] by (simp add: eval_nat_numeral)
  have "main_loop ([Ready {l} {}, Ready {i} {}, Ready {} {i}, Ready {i} {}] @ [Ready {} {i}]) (s, w) =
      Inr (SELECTOR_SUCCESS, s5, w5)"
    unfolding main_loop_append using t4(1) t5(1) by simp
  then show ?thesis
    using t5 l5 t4(7-9,11) by (intro exI [of _ s5] exI [of _ w5] exI [of _ d5]) (simp add: same_session_def algebra_simps)
qed

lemma request_served:
  assumes at: "waits n i OP_READ k d s w" and n: "n + 12 < 2 ^ 32"
    and d: "conn_current d = Some REQUEST_READ" "clean d" "awaits_request (client d)" "empty_buffer (write_buffer d)"
      "client_fd d = int i"
    and q: "registered s q = None" "q < ITEMS_MAX_SIZE" and l5: "later w0 5 es w"
    and io: "request_succeeds (\<lambda>t. io_script w0 (io_step w0 + t)) dst [b1, b2] q" "address_ok dst" "is_ip dst"
  shows "\<exists>s' w' d'. main_loop [Ready {i} {}, Ready {} {q}, Ready {} {i}] (s, w) = Inr (SELECTOR_SUCCESS, s', w') \<and>
    waits (n + 9) i OP_READ k d' s' w' \<and> waits (n + 9) q OP_READ k d' s' w' \<and> conn_current d' = Some COPY \<and>
    relayed d' (\<lambda>_. []) (\<lambda>_. []) \<and>
    later w0 8 (es @ [Access_log (userIndex d) (target_addr dst [b1, b2]) (client_addr d) 0x00, Sent i (reply_bytes 0x00)]) w'"
proof -
  let ?t = "\<lambda>n. io_script w0 (io_step w0 + n)"
  have obl: "io_set_nio (?t n)" "io_register (?t n)" for n
    using io by (simp_all add: request_succeeds_def obliging_def)
  have t: "io_recv (?t 5) = Some (encode_request dst [b1, b2])" "io_socket (?t 5) = Some q" "io_connect (?t 5) = EINPROGRESS"
    "io_so_error (?t 6) = Some E_none" using io by (simp_all add: request_succeeds_def)
  obtain x where send: "io_send (?t 7) = Some x" "10 \<le> x" using io by (auto simp: request_succeeds_def takes_def)
  have b: "n + 6 < 2 ^ 32" "n + 3 + 6 < 2 ^ 32" "n + 3 + 3 + 6 < 2 ^ 32" using n by simp_all
  have none: "errno_to_socks E_none = 0" by (simp add: errno_to_socks_def status_succeeded_def)
  note io5 = later_io [OF l5]
  obtain s6 w6 d6 where t6: "serve (Ready {i} {}) (s, w) = Inr (SELECTOR_SUCCESS, s6, w6)"
    "waits (n + 3) q OP_WRITE k d6 s6 w6" "conn_current d6 = Some REQUEST_CONNECTING"
    "origin_addr d6 = target_addr dst [b1, b2]" "connecting_to d6 i q" "empty_buffer (read_buffer d6)"
    "client_addr d6 = client_addr d" "userIndex d6 = userIndex d" "buf_limit (read_buffer d6) = 2048"
    "write_buffer d6 = write_buffer d" "turned w [] w6"
    "registered s6 = (registered s)(i \<mapsto> socks_item i OP_NOOP k, q \<mapsto> socks_item q OP_WRITE k)"
    using request_turn [OF at b(1) d t(1) [folded io5] io(2,3) t(2) [folded io5] obl(1) [of 5, folded io5]
        t(3) [folded io5] obl(2) [of 5, folded io5] q] by blast
  have l6: "later w0 6 es w6" using later_turned [OF l5 t6(11)] by (simp add: eval_nat_numeral)
  note io6 = later_io [OF l6]
  have ne: "i \<noteq> q" using t6(5) by (simp add: connecting_to_def)
  have wb: "empty_buffer (write_buffer d6)" "10 \<le> buf_limit (write_buffer d6)"
    and i6: "registered s6 i = Some (socks_item i OP_NOOP k)"
    using t6(10,12) d(2,4) ne by (simp_all add: clean_def)
  obtain s7 w7 d7 h m where t7: "serve (Ready {} {q}) (s6, w6) = Inr (SELECTOR_SUCCESS, s7, w7)"
    "waits (n + 3 + 3) i OP_WRITE k d7 s7 w7" "conn_current d7 = Some REQUEST_WRITE" "client d7 = Cl_request h"
    "read_buffer d7 = read_buffer d6" "client_fd d7 = int i" "origin_fd d7 = int q"
    "orig d7 = Or_conn \<lparr>cn_client_fd = int i, cn_origin_fd = m, cn_status = errno_to_socks E_none\<rparr>"
    "buffer_inv (write_buffer d7)" "buffer_contents (write_buffer d7) = reply_bytes (errno_to_socks E_none)"
    "turned w6 [Access_log (userIndex d6) (origin_addr d6) (client_addr d6) (errno_to_socks E_none)] w7"
    "registered s7 = (registered s6)(i \<mapsto> socks_item i OP_WRITE k, q \<mapsto> socks_item q OP_NOOP k)"
    using connect_turn [OF t6(2) b(2) t6(3,5) wb t(4) [folded io6] i6] by blast
  have l7: "later w0 7 (es @ [Access_log (userIndex d) (target_addr dst [b1, b2]) (client_addr d) 0x00]) w7"
    using later_turned [OF l6 t7(11)] t6(4,7,8) none by (simp add: eval_nat_numeral)
  note io7 = later_io [OF l7]
  have rb: "empty_buffer (read_buffer d7)" "0 < buf_limit (read_buffer d7)"
    and q7: "registered s7 q = Some (socks_item q OP_NOOP k)" using t7(5,12) t6(6,9) by simp_all
  obtain s8 w8 d8 where t8: "serve (Ready {} {i}) (s7, w7) = Inr (SELECTOR_SUCCESS, s8, w8)"
    "waits (n + 3 + 3 + 3) i OP_READ k d8 s8 w8" "waits (n + 3 + 3 + 3) q OP_READ k d8 s8 w8"
    "conn_current d8 = Some COPY" "relayed d8 (\<lambda>_. []) (\<lambda>_. [])"
    "turned w7 [Sent i (reply_bytes (errno_to_socks E_none))] w8"
    using answer_turn [OF t7(2) b(3) t7(3,4) rb t7(6-10) send(1) [folded io7] send(2) q7] by blast
  have "later w0 8 (es @ [Access_log (userIndex d) (target_addr dst [b1, b2]) (client_addr d) 0x00, Sent i (reply_bytes 0x00)]) w8"
    using later_turned [OF l7 t8(6)] none by (simp add: eval_nat_numeral)
  then show ?thesis
    using t6(1) t7(1) t8 by (intro exI [of _ s8] exI [of _ w8] exI [of _ d8]) (simp add: algebra_simps)
qed

section \<open>The turn that ends a session\<close>

text \<open>The structure of a connection is given back, to the pool or to \<open>free\<close>.\<close>

definition given_back :: "nat \<Rightarrow> world \<Rightarrow> bool" where
  "given_back k w \<longleftrightarrow> k \<in> set (pool w) \<or> conns w k = None"

lemma done_event:
  assumes c: "conn c = Inr d" "isSocks d" "client_fd d = int i" "origin_fd d = -1" "references d = 1"
    and s: "sel_ok (c_sel c)" "registered (c_sel c) i = Some (socks_item i op (key_data c))"
  obtains c' where "socksv5_done c = Inr c'" and "sel_ok (c_sel c')" and "frame c' = frame c"
    and "registered (c_sel c') = (registered (c_sel c))(i := None)"
    and "events (c_world c') = events (c_world c) @ [Closed (int i)]" and "given_back (key_data c) (c_world c')"
proof -
  have d: "conns (c_world c) (key_data c) = Some d" using c(1) by (simp add: conn_world)
  obtain w1 where w1: "socks5_destroy (Some (key_data c)) (c_world c) = Inr w1" "events w1 = events (c_world c)"
    "given_back (key_data c) w1"
    using d c(5) by (simp add: socks5_destroy_def given_back_def)
  have hook: "close_hook closers (socks_item i op (key_data c)) (c_sel c, c_world c) = Inr (c_sel c, w1)"
    using w1(1) by (simp add: close_hook_def item_hooks_def closers_def socks_item_def socksv5_close_def)
  have inv: "selector_inv (c_sel c)" using s(1) by (simp add: sel_ok_def)
  from selector_unregister_spec [OF inv s(2) hook] obtain s1 where s1:
    "selector_unregister_fd closers (c_sel c, c_world c) (int i) = Inr (SELECTOR_SUCCESS, s1, w1)"
    "selector_inv s1" "registered s1 = (registered (c_sel c))(i := None)" "fd_size s1 = fd_size (c_sel c)" by metis
  let ?c1 = "c\<lparr>c_sel := s1, c_world := w1\<rparr>"
  have u: "unregister (int i) c = Inr (SELECTOR_SUCCESS, ?c1)" using s1(1) by (simp add: unregister_def)
  have "socksv5_done c = Inr (emit (Closed (int i)) ?c1)"
    using c(1,3,4) u by (simp add: socksv5_done_def)
  moreover have "frame (emit (Closed (int i)) ?c1) = frame c" using frame_unregister [OF u] by simp
  moreover have "given_back (key_data c) (c_world (emit (Closed (int i)) ?c1))"
    using w1(3) by (simp add: emit_def given_back_def)
  ultimately show ?thesis
    using that [of "emit (Closed (int i)) ?c1"] s(1) s1 w1(2) by (simp add: emit_def sel_ok_def)
qed

lemma refuse_turn:
  assumes at: "waits n i OP_WRITE k d s w"
    and d: "conn_current d = Some USERPASS_WRITE" "clean d" "authentication d \<noteq> 0" "empty_buffer (write_buffer d)"
      "client_fd d = int i" "origin_fd d = -1" "references d = 1"
    and io: "io_send (io_script w (io_step w)) = Some q" "2 \<le> q" "\<And>m. io_malloc (io_script w (io_step w)) m"
  shows "\<exists>s' w'. serve (Ready {} {i}) (s, w) = Inr (SELECTOR_SUCCESS, s', w') \<and>
    turned w [Sent i [0x01, authentication d], Closed (int i)] w' \<and>
    registered s' = (registered s)(i := None) \<and> given_back k w'"
proof -
  let ?s = "s\<lparr>slave_r := {}, slave_w := {i}\<rparr>"
  define c where "c = start_ctx i k ?s w"
  have ok: "server_ok n (s, w)" "n + 3 < 2 ^ 32" and s: "resolution_jobs s = []"
    "registered s i = Some (socks_item i OP_WRITE k)" "conns w k = Some d"
    using at by (simp_all add: waits_def)
  have sel: "sel_ok s" using ok(1) by (simp add: server_ok_def world_ok_def)
  have called: "called i k d s w c"
    using s(3) sel by (simp add: called_def c_def start_ctx_def conn_def glob_def sel_ok_def)
  have pre: "conn c = Inr d" "done_state d = DONE" "buffer_inv (write_buffer d)" "buffer_contents (write_buffer d) = []"
    "2 \<le> buffer_space (write_buffer d)" "ready_ctx c" "io_send (c_io c) = Some q"
    using called clean_buffers [OF d(2,4)] called_ready [OF called s(2) io(3)] io(1) d(2,4)
    by (simp_all add: called_def clean_def)
  obtain c1 where c1: "stm_handler_write (socks5_stm (Some USERPASS_WRITE)) c =
      Inr (if authentication d \<noteq> 0 then DONE else REQUEST_READ,
        socks5_stm (Some (if authentication d \<noteq> 0 then DONE else REQUEST_READ)), c1)"
    "\<exists>d1 s. c1 = emit (Sent (key_fd c) [0x01, authentication d]) (put_conn d1 (c\<lparr>c_sel := s\<rparr>)) \<and>
    same_session d d1 \<and> userIndex d1 = userIndex d \<and> read_buffer d1 = read_buffer d \<and> empty_buffer (write_buffer d1) \<and>
    (authentication d = 0 \<longrightarrow> registered s = with_interest (registered (c_sel c)) (key_fd c) OP_READ) \<and>
    (authentication d \<noteq> 0 \<longrightarrow> s = c_sel c) \<and>
    (authentication d = 0 \<longrightarrow> fresh_ok (io_request (c_io c)) \<longrightarrow> awaits_request (client d1))"
    by (rule login_event_write [OF pre(1) d(1) pre(2-7) io(2)])
  obtain d1 where d1: "c1 = emit (Sent i [0x01, authentication d]) (put_conn d1 c)" "same_session d d1"
    using c1(2) called d(3) by (auto simp: called_def)
  let ?c2 = "put_conn (d1\<lparr>conn_current := Some DONE\<rparr>) c1"
  have c2: "conn ?c2 = Inr (d1\<lparr>conn_current := Some DONE\<rparr>)" "isSocks (d1\<lparr>conn_current := Some DONE\<rparr>)"
    "client_fd (d1\<lparr>conn_current := Some DONE\<rparr>) = int i" "origin_fd (d1\<lparr>conn_current := Some DONE\<rparr>) = -1"
    "references (d1\<lparr>conn_current := Some DONE\<rparr>) = 1" "sel_ok (c_sel ?c2)"
    "registered (c_sel ?c2) i = Some (socks_item i OP_WRITE (key_data ?c2))"
    using d1 d(2,5-7) called s(2) by (simp_all add: same_session_def clean_def called_def)
  obtain c3 where c3: "socksv5_done ?c2 = Inr c3" "sel_ok (c_sel c3)" "frame c3 = frame ?c2"
    "registered (c_sel c3) = (registered (c_sel ?c2))(i := None)"
    "events (c_world c3) = events (c_world ?c2) @ [Closed (int i)]" "given_back (key_data ?c2) (c_world c3)"
    by (rule done_event [OF c2])
  have run: "stm_handler on_write_ready (socks5_stm (conn_current d)) c = Inr (DONE, socks5_stm (Some DONE), c1)"
    using c1(1) d(1,3) by (simp add: stm_handler_write_def)
  have "conn c1 = Inr d1" using d1(1) by simp
  then have go: "dispatch socks5_stm {ERROR, DONE} socksv5_done (stm_handler on_write_ready) i (Some k) (?s, w) =
      Inr (c_sel c3, c_world c3)"
    using called run c3(1) unfolding dispatch_start c_def [symmetric]
    by (simp add: called_def) (simp add: socks5_stm_def)
  have fr: "frame c3 = frame c" using c3(3) d1(1) by simp
  have fr': "slave_r (c_sel c3) = {}" "slave_w (c_sel c3) = {i}" "resolution_jobs (c_sel c3) = []"
    "io_script (c_world c3) = io_script w" "io_step (c_world c3) = Suc (io_step w)"
    using fr s(1) by (simp_all add: frame_def c_def start_ctx_def)
  have "serve (Ready {} {i}) (s, w) = Inr (SELECTOR_SUCCESS, (c_sel c3)\<lparr>resolution_jobs := []\<rparr>, c_world c3)"
    by (rule one_writer [OF sel s(1,2), where f = socksv5_write and h = Socks5_handler])
      (use go s(2) fr' c3(2) in
        \<open>simp_all add: socks_item_def wants_def op_defs handlers_def socksv5_write_def stm_handler_write_def\<close>)
  then show ?thesis
    using c3(4-6) fr' d1(1) called
    by (intro exI [of _ "(c_sel c3)\<lparr>resolution_jobs := []\<rparr>"] exI [of _ "c_world c3"])
      (simp add: turned_def called_def)
qed

section \<open>Properties\<close>

text \<open>
  \<open>C4\<close> A client that does what the protocol asks is served, through the loop of the program. From any
  state a run of the server can reach, with its listener and two free descriptors: if the client is
  accepted, offers the username and password method, logs in with an account, and asks for an IPv4 or
  IPv6 address that accepts the connection, then eight turns of the loop end with the connection
  relaying between the two descriptors, both listened to. What the client was sent is exactly the
  method, the status of the login and a reply of success, and the access log holds one line, for the
  account that logged in and the address that was asked for.
\<close>

theorem session_served:
  assumes "server_run n (s, w)" and "n + 27 < 2 ^ 32" and "resolution_jobs s = []"
    and "registered s l = Some (socks_listener l)"
    and "registered s i = None" and "i < ITEMS_MAX_SIZE" and "registered s q = None" and "q < ITEMS_MAX_SIZE" and "i \<noteq> q"
    and "auth_method (globs w) = 0x02" and "0x02 \<in> set ms" and "length ms < 256"
    and "length u < 256" and "length p < 256" and "0 \<notin> set u" and "0 \<notin> set p"
    and "holds (users (globs w)) (nusers (globs w)) accounts" and "(u, p) \<in> set accounts"
    and "holds (admins (globs w)) (nadmins (globs w)) others"
    and "logs_in (\<lambda>t. io_script w (io_step w + t)) i addr ms (u, p)"
    and "request_succeeds (\<lambda>t. io_script w (io_step w + t)) dst [b1, b2] q" and "address_ok dst" and "is_ip dst"
  shows "\<exists>s' w' d j. main_loop [Ready {l} {}, Ready {i} {}, Ready {} {i}, Ready {i} {}, Ready {} {i},
      Ready {i} {}, Ready {} {q}, Ready {} {i}] (s, w) = Inr (SELECTOR_SUCCESS, s', w') \<and>
    conns w' (next_key w) = Some d \<and> conn_current d = Some COPY \<and> relayed d (\<lambda>_. []) (\<lambda>_. []) \<and>
    registered s' i = Some (socks_item i OP_READ (next_key w)) \<and>
    registered s' q = Some (socks_item q OP_READ (next_key w)) \<and>
    logged_as (globs w) j (u, p) \<and>
    events w' = events w @ [Sent i [0x05, 0x02], Sent i [0x01, 0x00],
      Access_log j (target_addr dst [b1, b2]) addr 0x00, Sent i [0x05, 0x00, 0x00, 0x01, 0, 0, 0, 0, 0, 0]]"
proof -
  have "served n (s, w)" by (rule server_run_served [OF assms(1)])
  then have ok: "server_ok n (s, w)" "0 < n" "n + 18 < 2 ^ 32" using assms(2) by (simp_all add: served_def)
  obtain s5 w5 d5 where t5: "main_loop [Ready {l} {}, Ready {i} {}, Ready {} {i}, Ready {i} {}, Ready {} {i}] (s, w) =
      Inr (SELECTOR_SUCCESS, s5, w5)" "waits (n + 15) i OP_READ (next_key w) d5 s5 w5"
    "conn_current d5 = Some REQUEST_READ" "clean d5" "awaits_request (client d5)" "empty_buffer (write_buffer d5)"
    "client_fd d5 = int i" "client_addr d5 = addr" "logged_as (globs w) (userIndex d5) (u, p)"
    "later w 5 [Sent i [0x05, 0x02], Sent i [0x01, 0x00]] w5"
    "registered s5 = (registered s)(i \<mapsto> socks_item i OP_READ (next_key w))"
    using session_negotiated [OF ok assms(3-6,12,10,11,13-20)] by blast
  have q: "registered s5 q = None" "n + 15 + 12 < 2 ^ 32" using t5(11) assms(2,7,9) by simp_all
  obtain s8 w8 d8 where t8: "main_loop [Ready {i} {}, Ready {} {q}, Ready {} {i}] (s5, w5) = Inr (SELECTOR_SUCCESS, s8, w8)"
    "waits (n + 15 + 9) i OP_READ (next_key w) d8 s8 w8" "waits (n + 15 + 9) q OP_READ (next_key w) d8 s8 w8"
    "conn_current d8 = Some COPY" "relayed d8 (\<lambda>_. []) (\<lambda>_. [])"
    "later w 8 ([Sent i [0x05, 0x02], Sent i [0x01, 0x00]] @
       [Access_log (userIndex d5) (target_addr dst [b1, b2]) (client_addr d5) 0x00, Sent i (reply_bytes 0x00)]) w8"
    using request_served [OF t5(2) q(2) t5(3-7) q(1) assms(8) t5(10) assms(21-23)] by blast
  have "main_loop ([Ready {l} {}, Ready {i} {}, Ready {} {i}, Ready {i} {}, Ready {} {i}] @
      [Ready {i} {}, Ready {} {q}, Ready {} {i}]) (s, w) = Inr (SELECTOR_SUCCESS, s8, w8)"
    unfolding main_loop_append using t5(1) t8(1) by (simp del: main_loop.simps)
  then show ?thesis
    using t8(2-6) t5(8,9)
    by (intro exI [of _ s8] exI [of _ w8] exI [of _ d8] exI [of _ "userIndex d5"])
      (simp add: waits_def later_def reply_bytes_def)
qed

definition session_io :: "byte \<Rightarrow> nat \<Rightarrow> io" where
  "session_io x t = demo_io (Some (if t = 1 then [5, 1, 2] else if t = 3 then [1, 1, 0x61, 1, x] else [5, 1, 0, 1, 10, 0, 0, 1, 0, 80]))
     \<lparr>io_send := Some 10, io_socket := Some 9, io_connect := EINPROGRESS, io_so_error := Some E_none\<rparr>"

definition session_world :: "byte \<Rightarrow> world" where
  "session_world x = demo_world\<lparr>globs := demo_globals, io_script := session_io x\<rparr>"

lemma session_world_simps [simp]:
  "globs (session_world x) = demo_globals" "io_script (session_world x) = session_io x" "io_step (session_world x) = 0"
  "events (session_world x) = []" "next_key (session_world x) = 0"
  by (simp_all add: session_world_def demo_world_def next_key_def)

lemma session_io_script:
  "logs_in (session_io x) 7 Sa_zero [2] ([0x61], [x])"
  "request_succeeds (session_io x) (Ip4 [10, 0, 0, 1]) [0, 80] 9"
  using demo_fresh
  by (simp_all add: logs_in_def request_succeeds_def obliging_def takes_def session_io_def demo_io_def
      hello_message_def auth_message_def user_message_def encode_field_def encode_request_def SOCKS_VERSION_def)

lemma session_start:
  obtains s where "server_run 1 (s, session_world x)" and "resolution_jobs s = []"
    and "registered s 3 = Some (socks_listener 3)" and "registered s 7 = None" and "registered s 9 = None"
proof -
  obtain s where s: "boot_selector True True True (listeners Inet 3 0) (listeners Inet 4 0) = Inr (Some s)"
    "sel_ok s" "resolution_jobs s = []"
    "registered s = [3 \<mapsto> demo_listener 3 Socks5_passive, 4 \<mapsto> demo_listener 4 Mng_passive]"
    by (rule demo_boot)
  have run: "server_run 1 (s, session_world x)"
    using s(1) by (rule server_run.boot) (simp add: no_connections_def session_world_def demo_world_def)
  show ?thesis by (rule that [OF run s(3)]) (simp_all add: s(4) socks_listener_def)
qed

lemma session_served_witness:
  "\<exists>s s' w' d j. server_run 1 (s, session_world 0x62) \<and>
    main_loop [Ready {3} {}, Ready {7} {}, Ready {} {7}, Ready {7} {}, Ready {} {7}, Ready {7} {}, Ready {} {9}, Ready {} {7}]
      (s, session_world 0x62) = Inr (SELECTOR_SUCCESS, s', w') \<and>
    conns w' 0 = Some d \<and> conn_current d = Some COPY \<and> logged_as demo_globals j ([0x61], [0x62]) \<and>
    events w' = [Sent 7 [5, 2], Sent 7 [1, 0], Access_log j (Sa_in \<lparr>sin_addr = [10, 0, 0, 1], sin_port = [0, 80]\<rparr>) Sa_zero 0,
      Sent 7 [5, 0, 0, 1, 0, 0, 0, 0, 0, 0]]"
proof -
  obtain s where s: "server_run 1 (s, session_world 0x62)" "resolution_jobs s = []"
    "registered s 3 = Some (socks_listener 3)" "registered s 7 = None" "registered s 9 = None"
    by (rule session_start [of "0x62"])
  have sel: "registered s 3 = Some (socks_listener 3)" "registered s 7 = None" "7 < ITEMS_MAX_SIZE"
    "registered s 9 = None" "9 < ITEMS_MAX_SIZE" "(7::nat) \<noteq> 9"
    using s(3-5) by (simp_all add: ITEMS_MAX_SIZE_def)
  have client: "auth_method (globs (session_world 0x62)) = 2" "2 \<in> set [2::byte]" "length [2::byte] < 256"
    "length [0x61::byte] < 256" "length [0x62::byte] < 256" "0 \<notin> set [0x61::byte]" "0 \<notin> set [0x62::byte]"
    "holds (users (globs (session_world 0x62))) (nusers (globs (session_world 0x62))) [([0x61], [0x62]), ([0x63], [0x64])]"
    "([0x61], [0x62]) \<in> set [([0x61::byte], [0x62::byte]), ([0x63], [0x64])]"
    "holds (admins (globs (session_world 0x62))) (nadmins (globs (session_world 0x62))) []"
    using demo_globals_holds(1) demo_admins by (simp_all add: demo_globals_def initial_globals_def)
  have io: "logs_in (\<lambda>t. io_script (session_world 0x62) (io_step (session_world 0x62) + t)) 7 Sa_zero [2] ([0x61], [0x62])"
    "request_succeeds (\<lambda>t. io_script (session_world 0x62) (io_step (session_world 0x62) + t)) (Ip4 [10, 0, 0, 1]) [0, 80] 9"
    "address_ok (Ip4 [10, 0, 0, 1])" "is_ip (Ip4 [10, 0, 0, 1])"
    using session_io_script by (simp_all add: is_ip_def)
  have n: "1 + 27 < (2::nat) ^ 32" by simp
  show ?thesis
    using session_served [OF s(1) n s(2) sel client io] s(1) by (auto simp: target_addr_def)
qed

text \<open>
  \<open>C5\<close> A client that does not log in is cut off, through the loop of the program. In the same
  situation, with a user name and a password that are no account, the client is told so after its login,
  and at once its descriptor leaves the selector, whose table is as it was before it came, and is
  closed, and its structure goes back to the pool or is freed.
\<close>

theorem session_refused:
  assumes "server_run n (s, w)" and "n + 18 < 2 ^ 32" and "resolution_jobs s = []"
    and "registered s l = Some (socks_listener l)" and "registered s i = None" and "i < ITEMS_MAX_SIZE"
    and "length ms < 256" and "auth_method (globs w) = 0x02" and "0x02 \<in> set ms"
    and "length u < 256" and "length p < 256" and "0 \<notin> set u" and "0 \<notin> set p"
    and "holds (users (globs w)) (nusers (globs w)) accounts" and "holds (admins (globs w)) (nadmins (globs w)) others"
    and "logs_in (\<lambda>t. io_script w (io_step w + t)) i addr ms (u, p)" and "(u, p) \<notin> set accounts"
  shows "\<exists>s' w'. main_loop [Ready {l} {}, Ready {i} {}, Ready {} {i}, Ready {i} {}, Ready {} {i}] (s, w) =
      Inr (SELECTOR_SUCCESS, s', w') \<and> registered s' = registered s \<and> given_back (next_key w) w' \<and>
    events w' = events w @ [Sent i [0x05, 0x02], Sent i [0x01, 0x01], Closed (int i)]"
proof -
  have "served n (s, w)" by (rule server_run_served [OF assms(1)])
  then have ok: "server_ok n (s, w)" "0 < n" "n + 15 < 2 ^ 32" using assms(2) by (simp_all add: served_def)
  obtain s4 w4 d4 where t4: "main_loop [Ready {l} {}, Ready {i} {}, Ready {} {i}, Ready {i} {}] (s, w) = Inr (SELECTOR_SUCCESS, s4, w4)"
    "waits (n + 12) i OP_WRITE (next_key w) d4 s4 w4" "conn_current d4 = Some USERPASS_WRITE" "clean d4"
    "authentication d4 = 0x01" "empty_buffer (write_buffer d4)" "client_fd d4 = int i" "origin_fd d4 = -1" "references d4 = 1"
    "later w 4 [Sent i [0x05, 0x02]] w4" "registered s4 = (registered s)(i \<mapsto> socks_item i OP_WRITE (next_key w))"
    using session_checked [OF ok assms(3-16)] assms(17) by auto
  note io4 = later_io [OF t4(10)]
  have obl: "io_malloc (io_script w (io_step w + n)) m" for n m
    using assms(16) by (simp add: logs_in_def obliging_def)
  obtain y where send: "io_send (io_script w (io_step w + 4)) = Some y" "2 \<le> y"
    using assms(16) by (auto simp: logs_in_def takes_def)
  have no: "authentication d4 \<noteq> 0" using t4(5) by simp
  obtain s5 w5 where t5: "serve (Ready {} {i}) (s4, w4) = Inr (SELECTOR_SUCCESS, s5, w5)"
    "turned w4 [Sent i [0x01, authentication d4], Closed (int i)] w5" "registered s5 = (registered s4)(i := None)"
    "given_back (next_key w) w5"
    using refuse_turn [OF t4(2-4) no t4(6-9) send(1) [folded io4] send(2) obl [of 4, folded io4]] by blast
  have "main_loop ([Ready {l} {}, Ready {i} {}, Ready {} {i}, Ready {i} {}] @ [Ready {} {i}]) (s, w) =
      Inr (SELECTOR_SUCCESS, s5, w5)"
    unfolding main_loop_append using t4(1) t5(1) by simp
  moreover have "registered s5 = registered s" using t5(3) t4(11) assms(5) by auto
  ultimately show ?thesis
    using t5(2,4) t4(5,10) by (intro exI [of _ s5] exI [of _ w5]) (simp add: turned_def later_def)
qed

lemma session_refused_witness:
  "\<exists>s s' w'. server_run 1 (s, session_world 0x63) \<and>
    main_loop [Ready {3} {}, Ready {7} {}, Ready {} {7}, Ready {7} {}, Ready {} {7}] (s, session_world 0x63) =
      Inr (SELECTOR_SUCCESS, s', w') \<and> registered s' 7 = None \<and> given_back 0 w' \<and>
    events w' = [Sent 7 [5, 2], Sent 7 [1, 1], Closed 7]"
proof -
  obtain s where s: "server_run 1 (s, session_world 0x63)" "resolution_jobs s = []"
    "registered s 3 = Some (socks_listener 3)" "registered s 7 = None" by (rule session_start [of "0x63"])
  have client: "length [2::byte] < 256" "auth_method (globs (session_world 0x63)) = 2" "2 \<in> set [2::byte]"
    "length [0x61::byte] < 256" "length [0x63::byte] < 256" "0 \<notin> set [0x61::byte]" "0 \<notin> set [0x63::byte]"
    "holds (users (globs (session_world 0x63))) (nusers (globs (session_world 0x63))) [([0x61], [0x62]), ([0x63], [0x64])]"
    "holds (admins (globs (session_world 0x63))) (nadmins (globs (session_world 0x63))) []"
    using demo_globals_holds(1) demo_admins by (simp_all add: demo_globals_def initial_globals_def)
  have io: "logs_in (\<lambda>t. io_script (session_world 0x63) (io_step (session_world 0x63) + t)) 7 Sa_zero [2] ([0x61], [0x63])"
    "([0x61], [0x63]) \<notin> set [([0x61::byte], [0x62::byte]), ([0x63], [0x64])]"
    using session_io_script by simp_all
  have n: "1 + 18 < (2::nat) ^ 32" "7 < ITEMS_MAX_SIZE" by (simp_all add: ITEMS_MAX_SIZE_def)
  show ?thesis
    using session_refused [OF s(1) n(1) s(2-4) n(2) client io] s(1,4) by auto
qed

end
