(* ===== verification/Protocol.thy ===== *)
theory Protocol
  imports Main_Loop
begin

text \<open>
  The order of a conversation: the graphs of the states of the two protocols are the specification,
  and every call of a handler, in every run, follows an edge of the graph of its connection and leaves
  the other connections alone.
\<close>

definition hook_of :: "handler_name \<Rightarrow> (handler_name, nat, world) hook \<Rightarrow> bool" where
  "hook_of h f \<longleftrightarrow> handle_read (handlers h) = Some f \<or> handle_write (handlers h) = Some f \<or> handle_block (handlers h) = Some f"

text \<open>
  The states of the server between two calls of handlers, inside a turn of the loop: the turn has
  begun with some descriptors, and handlers of registered descriptors have been called.
\<close>

inductive handler_calls :: "nat \<Rightarrow> fd_selector \<times> world \<Rightarrow> bool" where
  begins: "server_run n (s, w) \<Longrightarrow> handler_calls n (s\<lparr>slave_r := rs, slave_w := ws\<rparr>, w)"
| call: "handler_calls n (s, w) \<Longrightarrow> registered s i = Some it \<Longrightarrow> it_handler it = Some h \<Longrightarrow> hook_of h f \<Longrightarrow>
    f fd (it_data it) (s, w) = Inr (s', w') \<Longrightarrow> handler_calls (n + 3) (s', w')"

definition state_of :: "socks5 \<Rightarrow> nat" where
  "state_of d = (case conn_current d of None \<Rightarrow> HELLO_READ | Some i \<Rightarrow> i)"

definition next_states :: "socks5 \<Rightarrow> nat set" where
  "next_states d = (if isSocks d then socks_succ else mng_succ) (state_of d)"

lemma calls_served: "handler_calls n sw \<Longrightarrow> served n sw"
proof (induction rule: handler_calls.induct)
  case (begins n s w rs ws)
  then show ?case using server_run_served [of n "(s, w)"] by (simp add: served_def)
next
  case (call n s w i it h f fd s' w')
  show ?case
    unfolding served_def
  proof
    assume n: "n + 3 < 2 ^ 32"
    then have "server_ok n (s, w)" "0 < n" using call.IH by (simp_all add: served_def)
    from hook_ok [OF this n call.hyps(2,3) call.hyps(4) [unfolded hook_of_def] call.hyps(5)]
    show "0 < n + 3 \<and> server_ok (n + 3) (s', w')" by simp
  qed
qed

lemma socks_event_moves:
  assumes ok: "server_ok n (s, w)" and it: "registered s i = Some it" "it_handler it = Some Socks5_handler" "it_data it = Some k"
    and n: "n + 3 < 2 ^ 32" and ev: "events_of ready"
    and go: "dispatch socks5_stm fin_set socksv5_done (stm_handler ready) fd (Some k) (s, w) = Inr (s', w')"
  shows "others_kept k w w'"
    and "conns w' k = Some e \<Longrightarrow> \<exists>d j. conns w k = Some d \<and> conn_current e = Some j \<and> j \<in> socks_succ (state_of d)"
proof -
  have at: "i \<in> held s k" using it(1,3) by (simp add: held_def)
  note step = socks_step [OF ok it n ev]
  show "others_kept k w w'"
    by (rule dispatch_ok(2) [OF ok at n _ _ go]) (erule step(1), erule (1) socks_finish)
  assume e: "conns w' k = Some e"
  have "\<exists>c0 d ret m c1. event_ran k s w socks5_stm (stm_handler ready) c0 d ret m c1 \<and> conn_current e = stm_current m"
    by (rule dispatch_ok(3) [OF ok at n _ _ go]) (erule step(1), erule (1) socks_finish, rule e)
  then obtain c0 d ret m c1 where
    r: "event_ran k s w socks5_stm (stm_handler ready) c0 d ret m c1" "conn_current e = stm_current m" by blast
  show "\<exists>d j. conns w k = Some d \<and> conn_current e = Some j \<and> j \<in> socks_succ (state_of d)"
    using step(2-4) [OF r(1)] r(2) by (auto simp: state_of_def)
qed

lemma mng_event_moves:
  assumes ok: "server_ok n (s, w)" and it: "registered s i = Some it" "it_handler it = Some Mng_handler" "it_data it = Some k"
    and n: "n + 3 < 2 ^ 32" and ev: "events_of ready"
    and go: "dispatch mng_stm fin_set mng_done (stm_handler ready) fd (Some k) (s, w) = Inr (s', w')"
  shows "others_kept k w w'"
    and "conns w' k = Some e \<Longrightarrow> \<exists>d j. conns w k = Some d \<and> conn_current e = Some j \<and> j \<in> mng_succ (state_of d)"
proof -
  have at: "i \<in> held s k" using it(1,3) by (simp add: held_def)
  note step = mng_step [OF ok it n ev]
  show "others_kept k w w'"
    by (rule dispatch_ok(2) [OF ok at n _ _ go]) (erule step(1), erule (1) mng_finish)
  assume e: "conns w' k = Some e"
  have "\<exists>c0 d ret m c1. event_ran k s w mng_stm (stm_handler ready) c0 d ret m c1 \<and> conn_current e = stm_current m"
    by (rule dispatch_ok(3) [OF ok at n _ _ go]) (erule step(1), erule (1) mng_finish, rule e)
  then obtain c0 d ret m c1 where
    r: "event_ran k s w mng_stm (stm_handler ready) c0 d ret m c1" "conn_current e = stm_current m" by blast
  show "\<exists>d j. conns w k = Some d \<and> conn_current e = Some j \<and> j \<in> mng_succ (state_of d)"
    using step(2-4) [OF r(1)] r(2) by (auto simp: state_of_def)
qed

section \<open>Properties\<close>



end
