(* ===== verification/Args.thy ===== *)
theory Args
  imports Main_Loop Client
begin

text \<open>
  The command lines: \<open>src/args.c\<close> and \<open>src/address_utils.c\<close> for the server, \<open>src/client_args.c\<close> for
  the client. What \<open>getopt_long\<close> returns, in order, is a list of options with their arguments, and
  whether arguments are left over. \<open>getaddrinfo\<close> on a numeric host gives the family of the address,
  \<open>inet_addr\<close> its four bytes; both are arguments. The messages on \<open>stderr\<close> are left out.

  A string is the list of its bytes without the final NUL. A structure \<open>sockaddr_in\<close> is its address
  and its port, both in network order; its family is implied by its type.
\<close>

section \<open>Numbers\<close>

definition LONG_MAX :: int where "LONG_MAX = 2 ^ 63 - 1"
definition LONG_MIN :: int where "LONG_MIN = - (2 ^ 63)"
definition USHRT_MAX :: int where "USHRT_MAX = 65535"

text \<open>
  \<open>strtol(s, &end, 10)\<close>: the value, clamped to a \<open>long\<close>, the rest of the string at \<open>end\<close>, and whether
  it set \<open>errno\<close> to \<open>ERANGE\<close>. Without digits \<open>end\<close> is \<open>s\<close>.
\<close>

definition strtol :: "byte list \<Rightarrow> int \<times> byte list \<times> bool" where
  "strtol s =
     (let t = dropWhile isspace s;
          neg = (t \<noteq> [] \<and> hd t = 0x2D);
          u = (if t \<noteq> [] \<and> (hd t = 0x2D \<or> hd t = 0x2B) then tl t else t);
          ds = takeWhile isdigit u;
          v = (if neg then - digits_value 0 ds else digits_value 0 ds)
      in if ds = [] then (0, s, False)
         else if v < LONG_MIN then (LONG_MIN, drop (length ds) u, True)
         else if LONG_MAX < v then (LONG_MAX, drop (length ds) u, True)
         else (v, drop (length ds) u, False))"

text \<open>\<open>erange\<close>: whether \<open>errno\<close> was \<open>ERANGE\<close> already.\<close>

definition port :: "bool \<Rightarrow> byte list \<Rightarrow> int" where
  "port erange s =
     (let (sl, rest, range) = strtol s
      in if rest = s \<or> rest \<noteq> [] \<or> ((LONG_MIN = sl \<or> LONG_MAX = sl) \<and> (range \<or> erange)) \<or> sl < 0 \<or> USHRT_MAX < sl
         then -1 else sl)"

definition buffer_size_arg :: "bool \<Rightarrow> byte list \<Rightarrow> int" where
  "buffer_size_arg erange s =
     (let (sl, rest, range) = strtol s
      in if rest = s \<or> rest \<noteq> [] \<or> ((LONG_MIN = sl \<or> LONG_MAX = sl) \<and> (range \<or> erange))
         then -1 else sl)"

definition htons :: "u16 \<Rightarrow> byte list" where
  "htons p = [ucast (drop_bit 8 p), ucast p]"

section \<open>Addresses\<close>

type_synonym getaddrinfo = "byte list \<Rightarrow> ai_family option"
type_synonym inet_addr = "byte list \<Rightarrow> byte list"

definition sin_zero :: sockaddr_in where
  "sin_zero = \<lparr>sin_addr = replicate 4 0, sin_port = replicate 2 0\<rparr>"

definition sin6_zero :: sockaddr_in6 where
  "sin6_zero = \<lparr>sin6_addr = replicate 16 0, sin6_port = replicate 2 0\<rparr>"

text \<open>The result is \<open>None\<close> for -1.\<close>

definition address_processing ::
  "getaddrinfo \<Rightarrow> inet_addr \<Rightarrow> byte list \<Rightarrow> sockaddr_in \<Rightarrow> sockaddr_in6 \<Rightarrow> u16 \<Rightarrow>
   family option \<times> sockaddr_in \<times> sockaddr_in6" where
  "address_processing gai ia address addr addr6 p =
     (case gai address of
        None \<Rightarrow> (None, addr, addr6)
      | Some AF_INET \<Rightarrow> (Some Inet, addr\<lparr>sin_addr := ia address, sin_port := htons p\<rparr>, addr6)
      | Some AF_INET6 \<Rightarrow> (Some Inet6, addr, addr6\<lparr>sin6_port := htons p\<rparr>)
      | Some AF_OTHER \<Rightarrow> (None, addr, addr6))"

section \<open>The server\<close>

record endpoint =
  ep_addr :: "byte list"
  ep_addr_6 :: "byte list"
  ep_port :: u16
  ep_family :: family
  ep_info :: sockaddr_in
  ep_info_6 :: sockaddr_in6

record socks5args =
  socks_ep :: endpoint
  mng_ep :: endpoint
  buffer_size :: u16
  mng_buffer_size :: u16
  disectors_enabled :: byte
  credentials :: "byte list ptr"

definition endpoint_init :: "string \<Rightarrow> string \<Rightarrow> u16 \<Rightarrow> endpoint" where
  "endpoint_init a a6 p =
     \<lparr>ep_addr = bytes_of a, ep_addr_6 = bytes_of a6, ep_port = p, ep_family = Unspec,
      ep_info = sin_zero, ep_info_6 = sin6_zero\<rparr>"

definition args_init :: socks5args where
  "args_init =
     \<lparr>socks_ep = endpoint_init ''0.0.0.0'' ''::'' 1080, mng_ep = endpoint_init ''127.0.0.1'' ''::1'' 8080,
      buffer_size = 2048, mng_buffer_size = 2048, disectors_enabled = 0x00, credentials = Null\<rparr>"

text \<open>Options \<open>-l\<close> and \<open>-L\<close>, and options \<open>-p\<close> and \<open>-P\<close>; \<open>None\<close> where the code returns -1.\<close>

definition set_endpoint_address :: "getaddrinfo \<Rightarrow> inet_addr \<Rightarrow> byte list \<Rightarrow> endpoint \<Rightarrow> endpoint option" where
  "set_endpoint_address gai ia optarg e =
     (let (f, info, info6) = address_processing gai ia optarg (ep_info e) (ep_info_6 e) (ep_port e);
          e1 = e\<lparr>ep_info := info, ep_info_6 := info6\<rparr>
      in case f of
           None \<Rightarrow> None
         | Some Inet \<Rightarrow> Some (e1\<lparr>ep_family := Inet, ep_addr := optarg\<rparr>)
         | Some Inet6 \<Rightarrow> Some (e1\<lparr>ep_family := Inet6, ep_addr_6 := optarg\<rparr>)
         | Some Unspec \<Rightarrow> Some (e1\<lparr>ep_family := Unspec\<rparr>))"

definition set_endpoint_port :: "bool \<Rightarrow> byte list \<Rightarrow> endpoint \<Rightarrow> endpoint option" where
  "set_endpoint_port erange optarg e =
     (let p = port erange optarg
      in if p = -1 then None
         else Some (e\<lparr>ep_port := of_int p, ep_info := (ep_info e)\<lparr>sin_port := htons (of_int p)\<rparr>,
                      ep_info_6 := (ep_info_6 e)\<lparr>sin6_port := htons (of_int p)\<rparr>\<rparr>))"

text \<open>\<open>strchr(s, ':')\<close> and what \<open>user\<close> makes of the two halves of \<open>argv\<close>.\<close>

definition split_at :: "byte \<Rightarrow> byte list \<Rightarrow> (byte list \<times> byte list) option" where
  "split_at c s = (if c \<in> set s then Some (takeWhile (\<lambda>b. b \<noteq> c) s, tl (dropWhile (\<lambda>b. b \<noteq> c) s)) else None)"

definition argv_str :: "byte list \<Rightarrow> cstr ptr" where
  "argv_str s = Ptr \<lparr>cs_heap = False, cs_bytes = s\<rparr>"

definition user_arg :: "byte list \<Rightarrow> user option" where
  "user_arg s = (case split_at 0x3A s of
     None \<Rightarrow> None
   | Some (n, p) \<Rightarrow> Some \<lparr>u_name = argv_str n, u_pass = argv_str p\<rparr>)"

datatype option_char = Opt_h | Opt_l | Opt_L | Opt_N | Opt_p | Opt_P | Opt_f | Opt_u | Opt_v | Opt_unknown

text \<open>One turn of the loop of \<open>parse_args\<close>: \<open>None\<close> where it returns -1.\<close>

definition parse_option ::
  "getaddrinfo \<Rightarrow> inet_addr \<Rightarrow> bool \<Rightarrow> option_char \<times> byte list \<Rightarrow> socks5args \<times> globals \<Rightarrow>
   (socks5args \<times> globals) option" where
  "parse_option gai ia erange = (\<lambda>(opt, optarg) (a, g).
     case opt of
       Opt_h \<Rightarrow> None
     | Opt_l \<Rightarrow> map_option (\<lambda>e. (a\<lparr>socks_ep := e\<rparr>, g)) (set_endpoint_address gai ia optarg (socks_ep a))
     | Opt_L \<Rightarrow> map_option (\<lambda>e. (a\<lparr>mng_ep := e\<rparr>, g)) (set_endpoint_address gai ia optarg (mng_ep a))
     | Opt_N \<Rightarrow> Some (a\<lparr>disectors_enabled := 0x01\<rparr>, g)
     | Opt_p \<Rightarrow> map_option (\<lambda>e. (a\<lparr>socks_ep := e\<rparr>, g)) (set_endpoint_port erange optarg (socks_ep a))
     | Opt_P \<Rightarrow> map_option (\<lambda>e. (a\<lparr>mng_ep := e\<rparr>, g)) (set_endpoint_port erange optarg (mng_ep a))
     | Opt_f \<Rightarrow> Some (a\<lparr>credentials := Ptr optarg\<rparr>, g)
     | Opt_u \<Rightarrow>
         (if MAX_USERS \<le> nusers g then None
          else map_option (\<lambda>u. (a, g\<lparr>users := (users g)[nusers g := u], nusers := nusers g + 1\<rparr>))
            (user_arg optarg))
     | Opt_v \<Rightarrow> None
     | Opt_unknown \<Rightarrow> None)"

fun parse_options ::
  "getaddrinfo \<Rightarrow> inet_addr \<Rightarrow> bool \<Rightarrow> (option_char \<times> byte list) list \<Rightarrow> socks5args \<times> globals \<Rightarrow>
   (socks5args \<times> globals) option" where
  "parse_options gai ia erange [] s = Some s"
| "parse_options gai ia erange (oa # oas) s =
     (case parse_option gai ia erange oa s of None \<Rightarrow> None | Some s' \<Rightarrow> parse_options gai ia erange oas s')"

text \<open>The defaults of an endpoint for which no address was given.\<close>

definition default_addresses :: "getaddrinfo \<Rightarrow> inet_addr \<Rightarrow> endpoint \<Rightarrow> endpoint option" where
  "default_addresses gai ia e =
     (if ep_family e \<noteq> Unspec then Some e
      else
        let (f, info, info6) = address_processing gai ia (ep_addr e) (ep_info e) (ep_info_6 e) (ep_port e)
        in if f = None then None
           else
             let (f', info', info6') = address_processing gai ia (ep_addr_6 e) info info6 (ep_port e)
             in if f' = None then None else Some (e\<lparr>ep_info := info', ep_info_6 := info6'\<rparr>))"

definition parse_args ::
  "getaddrinfo \<Rightarrow> inet_addr \<Rightarrow> bool \<Rightarrow> (option_char \<times> byte list) list \<Rightarrow> bool \<Rightarrow> globals \<Rightarrow>
   (socks5args \<times> globals) option" where
  "parse_args gai ia erange opts left_over g =
     (case parse_options gai ia erange opts (args_init, g) of
        None \<Rightarrow> None
      | Some (a, g') \<Rightarrow>
          if left_over then None
          else case default_addresses gai ia (socks_ep a) of
            None \<Rightarrow> None
          | Some se \<Rightarrow>
              map_option (\<lambda>me. (a\<lparr>socks_ep := se, mng_ep := me\<rparr>, g')) (default_addresses gai ia (mng_ep a)))"

section \<open>The client\<close>

record management_args =
  ma_ep :: endpoint
  ma_user :: cl_user
  ma_file_path :: "byte list ptr"
  ma_append :: bool

definition client_port :: "bool \<Rightarrow> byte list \<Rightarrow> int" where
  "client_port = port"

definition client_user :: "byte list \<Rightarrow> cl_user option" where
  "client_user s = (case split_at 0x3A s of
     None \<Rightarrow> None
   | Some (n, p) \<Rightarrow> Some \<lparr>cu_username = Ptr n, cu_password = Ptr p, cu_credentials = Some True\<rparr>)"

datatype client_option = Cl_L | Cl_P | Cl_u | Cl_f | Cl_unknown

definition set_client_port :: "bool \<Rightarrow> byte list \<Rightarrow> endpoint \<Rightarrow> endpoint option" where
  "set_client_port erange optarg e =
     (let p = client_port erange optarg
      in if p = -1 then None
         else Some (e\<lparr>ep_port := of_int p, ep_info := (ep_info e)\<lparr>sin_port := htons (of_int p)\<rparr>,
                      ep_info_6 := (ep_info_6 e)\<lparr>sin6_port := htons (of_int p)\<rparr>\<rparr>))"

definition parse_client_option ::
  "getaddrinfo \<Rightarrow> inet_addr \<Rightarrow> bool \<Rightarrow> client_option \<times> byte list \<Rightarrow> management_args \<Rightarrow>
   management_args option" where
  "parse_client_option gai ia erange = (\<lambda>(opt, optarg) a.
     case opt of
       Cl_L \<Rightarrow> map_option (\<lambda>e. a\<lparr>ma_ep := e\<rparr>) (set_endpoint_address gai ia optarg (ma_ep a))
     | Cl_P \<Rightarrow> map_option (\<lambda>e. a\<lparr>ma_ep := e\<rparr>) (set_client_port erange optarg (ma_ep a))
     | Cl_u \<Rightarrow> map_option (\<lambda>u. a\<lparr>ma_user := u\<rparr>) (client_user optarg)
     | Cl_f \<Rightarrow> Some (a\<lparr>ma_file_path := Ptr optarg, ma_append := True\<rparr>)
     | Cl_unknown \<Rightarrow> None)"

fun parse_client_options ::
  "getaddrinfo \<Rightarrow> inet_addr \<Rightarrow> bool \<Rightarrow> (client_option \<times> byte list) list \<Rightarrow> management_args \<Rightarrow>
   management_args option" where
  "parse_client_options gai ia erange [] a = Some a"
| "parse_client_options gai ia erange (oa # oas) a =
     (case parse_client_option gai ia erange oa a of
        None \<Rightarrow> None | Some a' \<Rightarrow> parse_client_options gai ia erange oas a')"

text \<open>\<open>args\<close> is cleared by \<open>main\<close>, the user it points at is not.\<close>

definition client_args_init :: management_args where
  "client_args_init =
     \<lparr>ma_ep = endpoint_init ''127.0.0.1'' ''::1'' 8080,
      ma_user = \<lparr>cu_username = Dangling, cu_password = Dangling, cu_credentials = None\<rparr>,
      ma_file_path = Null, ma_append = False\<rparr>"

definition parse_client_args ::
  "getaddrinfo \<Rightarrow> inet_addr \<Rightarrow> bool \<Rightarrow> (client_option \<times> byte list) list \<Rightarrow> bool \<Rightarrow> management_args option" where
  "parse_client_args gai ia erange opts left_over =
     (case parse_client_options gai ia erange opts client_args_init of
        None \<Rightarrow> None
      | Some a \<Rightarrow>
          if left_over then None
          else map_option (\<lambda>e. a\<lparr>ma_ep := e\<rparr>) (default_addresses gai ia (ma_ep a)))"

text \<open>The address \<open>main\<close> connects to.\<close>

definition client_target :: "endpoint \<Rightarrow> sockaddr" where
  "client_target e = (case ep_family e of
     Unspec \<Rightarrow> Sa_in (ep_info e) | Inet \<Rightarrow> Sa_in (ep_info e) | Inet6 \<Rightarrow> Sa_in6 (ep_info_6 e))"

text \<open>\<open>main\<close> of the client: \<open>fopen_ok\<close> and \<open>connects\<close> are the outcomes of the two calls.\<close>

definition client_main ::
  "getaddrinfo \<Rightarrow> inet_addr \<Rightarrow> bool \<Rightarrow> (client_option \<times> byte list) list \<Rightarrow> bool \<Rightarrow> bool \<Rightarrow>
   (sockaddr \<Rightarrow> bool) \<Rightarrow> client_io \<Rightarrow> client_io res" where
  "client_main gai ia erange opts left_over fopen_ok connects w =
     (case parse_client_args gai ia erange opts left_over of
        None \<Rightarrow> Inl Exited
      | Some a \<Rightarrow>
          if ma_append a \<and> \<not> fopen_ok then Inr (say (Err ''Error opening'') w)
          else client_session (ma_user a) (connects (client_target (ma_ep a)))
            (w\<lparr>ci_append := (if ma_append a then Some [] else None)\<rparr>))"

section \<open>What the command line gives\<close>

lemma digits_run:
  assumes "\<forall>c \<in> set ds. isdigit c" and "rest = [] \<or> \<not> isdigit (hd rest)"
  shows "takeWhile isdigit (ds @ rest) = ds"
  using assms by (cases rest) (auto simp: takeWhile_append)

lemma digits_value_nonneg:
  "\<forall>c \<in> set ds. isdigit c \<Longrightarrow> 0 \<le> n \<Longrightarrow> 0 \<le> digits_value n ds"
proof (induction ds arbitrary: n)
  case (Cons c ds)
  then have "uint (0x30 :: byte) \<le> uint c" by (simp add: isdigit_def word_le_def)
  then show ?case using Cons by simp
qed simp

lemma strtol_digits:
  assumes "\<forall>c \<in> set ds. isdigit c" and "ds \<noteq> []" and "rest = [] \<or> \<not> isdigit (hd rest)"
  shows "strtol (ds @ rest) = (min (digits_value 0 ds) LONG_MAX, rest, LONG_MAX < digits_value 0 ds)"
proof -
  obtain c v where v: "ds = c # v" "isdigit c" using assms(1,2) by (cases ds) auto
  then have c: "\<not> isspace c" "c \<noteq> 0x2D" "c \<noteq> 0x2B"
    by (auto simp: isspace_def isdigit_def word_le_nat_alt)
  have "0 \<le> digits_value 0 ds" using digits_value_nonneg [OF assms(1)] by simp
  then show ?thesis
    using digits_run [OF assms(1,3)] v c
    by (simp add: strtol_def Let_def LONG_MIN_def LONG_MAX_def)
qed

text \<open>
  A port is accepted exactly when it is a number from 0 to 65535: \<open>port\<close> returns the value of a
  text of digits up to 65535, and -1 for a larger one and for a text with anything after its digits;
  and whatever the text, what it returns is -1 or fits in 16 bits.
\<close>

theorem port_range:
  assumes "\<forall>c \<in> set ds. isdigit c" and "ds \<noteq> []"
  shows "port e ds = (if digits_value 0 ds \<le> 65535 then digits_value 0 ds else -1) \<and>
    (\<not> isdigit c \<longrightarrow> port e (ds @ c # rest) = -1) \<and>
    (port e s = -1 \<or> 0 \<le> port e s \<and> port e s < 2 ^ 16)"
proof (intro conjI impI)
  have long: "LONG_MIN < 0" "65535 < LONG_MAX" by (simp_all add: LONG_MIN_def LONG_MAX_def)
  have v: "0 \<le> digits_value 0 ds" using digits_value_nonneg [OF assms(1)] by simp
  show "port e ds = (if digits_value 0 ds \<le> 65535 then digits_value 0 ds else -1)"
    using strtol_digits [OF assms, of "[]"] assms(2) v long
    by (auto simp: port_def USHRT_MAX_def min_def)
  show "port e (ds @ c # rest) = -1" if "\<not> isdigit c"
    using strtol_digits [OF assms, of "c # rest"] that by (simp add: port_def)
  show "port e s = -1 \<or> 0 \<le> port e s \<and> port e s < 2 ^ 16"
    by (auto simp: port_def USHRT_MAX_def split: prod.splits)
qed

lemma port_range_witness:
  "port False (bytes_of ''1080'') = 1080 \<and> port False (bytes_of ''1080'' @ 0x78 # []) = -1"
  using port_range [of "bytes_of ''1080''" False "0x78" "[]" "[]"]
  by (simp add: bytes_of_def isdigit_def)

text \<open>The IPv6 address of an endpoint, whatever the options.\<close>

definition any_ipv6 :: "endpoint \<Rightarrow> bool" where
  "any_ipv6 e \<longleftrightarrow> sin6_addr (ep_info_6 e) = replicate 16 0"

lemma address_processing_ipv6:
  "address_processing gai ia s addr addr6 p = (f, a, a6) \<Longrightarrow> sin6_addr a6 = sin6_addr addr6"
  by (auto simp: address_processing_def split: option.splits ai_family.splits)

lemma set_endpoint_ipv6:
  "set_endpoint_address gai ia s e = Some e' \<Longrightarrow> any_ipv6 e \<Longrightarrow> any_ipv6 e'"
  "set_endpoint_port er s e = Some e' \<Longrightarrow> any_ipv6 e \<Longrightarrow> any_ipv6 e'"
  "set_client_port er s e = Some e' \<Longrightarrow> any_ipv6 e \<Longrightarrow> any_ipv6 e'"
  by (auto simp: set_endpoint_address_def set_endpoint_port_def set_client_port_def any_ipv6_def Let_def
      split: prod.splits option.splits family.splits if_splits dest: address_processing_ipv6)

lemma default_addresses_ipv6:
  "default_addresses gai ia e = Some e' \<Longrightarrow> any_ipv6 e \<Longrightarrow> any_ipv6 e'"
  by (auto simp: default_addresses_def any_ipv6_def Let_def
      split: prod.splits option.splits if_splits dest!: address_processing_ipv6)

lemma parse_option_ipv6:
  "parse_option gai ia er oa (a, g) = Some (a', g') \<Longrightarrow> any_ipv6 (socks_ep a) \<and> any_ipv6 (mng_ep a) \<Longrightarrow>
   any_ipv6 (socks_ep a') \<and> any_ipv6 (mng_ep a')"
  by (auto simp: parse_option_def split: prod.splits option_char.splits if_splits dest: set_endpoint_ipv6)

lemma parse_options_ipv6:
  "parse_options gai ia er oas (a, g) = Some (a', g') \<Longrightarrow> any_ipv6 (socks_ep a) \<and> any_ipv6 (mng_ep a) \<Longrightarrow>
   any_ipv6 (socks_ep a') \<and> any_ipv6 (mng_ep a')"
proof (induction oas arbitrary: a g)
  case (Cons oa oas)
  from Cons.prems(1) obtain a1 g1 where s: "parse_option gai ia er oa (a, g) = Some (a1, g1)"
    "parse_options gai ia er oas (a1, g1) = Some (a', g')"
    by (auto split: option.splits)
  show ?case using Cons.IH [OF s(2)] parse_option_ipv6 [OF s(1) Cons.prems(2)] by blast
qed simp

text \<open>
  \<open>C31\<close> No IPv6 address is ever used. Whatever the command line - the defaults, among them \<open>::1\<close> for the
  management service, or an address given with \<open>-l\<close> or \<open>-L\<close> - the address that \<open>parse_args\<close> leaves
  for the IPv6 sockets is the unspecified one: \<open>address_processing\<close> fills the port in and never the
  address. So the management service that should be local listens on every interface.
\<close>

theorem ipv6_address_ignored:
  assumes "parse_args gai ia e opts left_over g = Some (a, g')"
  shows "sin6_addr (ep_info_6 (socks_ep a)) = replicate 16 0 \<and> sin6_addr (ep_info_6 (mng_ep a)) = replicate 16 0"
proof -
  have init: "any_ipv6 (socks_ep args_init) \<and> any_ipv6 (mng_ep args_init)"
    by (simp add: args_init_def endpoint_init_def any_ipv6_def sin6_zero_def)
  obtain a1 se me where p: "parse_options gai ia e opts (args_init, g) = Some (a1, g')"
    "default_addresses gai ia (socks_ep a1) = Some se" "default_addresses gai ia (mng_ep a1) = Some me"
    "a = a1\<lparr>socks_ep := se, mng_ep := me\<rparr>"
    using assms by (auto simp: parse_args_def split: option.splits if_splits)
  show ?thesis
    using parse_options_ipv6 [OF p(1) init] p(2-4) by (auto simp: any_ipv6_def [symmetric] dest: default_addresses_ipv6)
qed

text \<open>Addresses of the examples: a text with a colon is IPv6, any other IPv4.\<close>

definition demo_gai :: getaddrinfo where
  "demo_gai s = Some (if 0x3A \<in> set s then AF_INET6 else AF_INET)"

definition demo_ia :: inet_addr where
  "demo_ia s = [127, 0, 0, 1]"

lemma ipv6_address_ignored_witness:
  "\<exists>a g. parse_args demo_gai demo_ia False [(Opt_L, bytes_of ''::1'')] False initial_globals = Some (a, g) \<and>
    ep_family (mng_ep a) = Inet6 \<and> sin6_port (ep_info_6 (mng_ep a)) = [0x1F, 0x90] \<and>
    sin6_addr (ep_info_6 (mng_ep a)) = replicate 16 0"
proof -
  obtain a g where a: "parse_args demo_gai demo_ia False [(Opt_L, bytes_of ''::1'')] False initial_globals = Some (a, g)"
    "ep_family (mng_ep a) = Inet6" "sin6_port (ep_info_6 (mng_ep a)) = [0x1F, 0x90]"
    by (simp add: parse_args_def parse_option_def set_endpoint_address_def default_addresses_def address_processing_def
        args_init_def endpoint_init_def demo_gai_def bytes_of_def htons_def Let_def)
  then show ?thesis using ipv6_address_ignored [OF a(1)] by blast
qed

section \<open>Users of the command line\<close>

definition user_option :: "byte list \<times> byte list \<Rightarrow> option_char \<times> byte list" where
  "user_option = (\<lambda>(n, p). (Opt_u, n @ 0x3A # p))"

text \<open>A table whose strings belong to the command line.\<close>

definition argv_users :: "user list \<Rightarrow> nat \<Rightarrow> bool" where
  "argv_users us n \<longleftrightarrow> (\<forall>i < n. \<exists>a b. us ! i = \<lparr>u_name = argv_str a, u_pass = argv_str b\<rparr>)"

lemma split_at_first: "c \<notin> set n \<Longrightarrow> split_at c (n @ c # p) = Some (n, p)"
  by (simp add: split_at_def takeWhile_append dropWhile_append)

lemma user_option_step:
  assumes "0x3A \<notin> set n" and "holds (users g) (nusers g) as" and "argv_users (users g) (nusers g)"
  shows "parse_option gai ia e (user_option (n, p)) (a, g) =
      (if nusers g < MAX_USERS
       then Some (a, g\<lparr>users := (users g)[nusers g := \<lparr>u_name = argv_str n, u_pass = argv_str p\<rparr>],
         nusers := nusers g + 1\<rparr>) else None)"
    and "nusers g < MAX_USERS \<Longrightarrow>
      holds ((users g)[nusers g := \<lparr>u_name = argv_str n, u_pass = argv_str p\<rparr>]) (nusers g + 1) (as @ [(n, p)]) \<and>
      argv_users ((users g)[nusers g := \<lparr>u_name = argv_str n, u_pass = argv_str p\<rparr>]) (nusers g + 1)"
  using assms
  by (auto simp: parse_option_def user_option_def user_arg_def split_at_first holds_def argv_users_def
      account_def str_bytes_def argv_str_def nth_append nth_list_update less_Suc_eq)

lemma user_options_step:
  assumes "\<forall>a \<in> set as. 0x3A \<notin> set (fst a)" and "holds (users g) (nusers g) bs" and "argv_users (users g) (nusers g)"
  shows "if length (bs @ as) \<le> MAX_USERS
    then \<exists>us n. parse_options gai ia e (map user_option as) (a, g) = Some (a, g\<lparr>users := us, nusers := n\<rparr>) \<and>
      holds us n (bs @ as) \<and> argv_users us n
    else parse_options gai ia e (map user_option as) (a, g) = None"
  using assms
proof (induction as arbitrary: g bs)
  case Nil
  then have "length bs \<le> MAX_USERS" by (simp add: holds_def)
  then show ?case
    using Nil by (auto intro!: exI [of _ "users g"] exI [of _ "nusers g"])
next
  case (Cons na as)
  obtain n p where np: "na = (n, p)" by (cases na)
  have len: "nusers g = length bs" using Cons.prems(2) by (simp add: holds_def)
  let ?g = "g\<lparr>users := (users g)[nusers g := \<lparr>u_name = argv_str n, u_pass = argv_str p\<rparr>], nusers := nusers g + 1\<rparr>"
  have colon: "0x3A \<notin> set n" using Cons.prems(1) np by simp
  note step = user_option_step(1) [OF colon Cons.prems(2,3), of gai ia e p a]
  show ?case
  proof (cases "nusers g < MAX_USERS")
    case True
    then have "holds (users ?g) (nusers ?g) (bs @ [(n, p)])" "argv_users (users ?g) (nusers ?g)"
      using user_option_step(2) [OF colon Cons.prems(2,3), of p] by simp_all
    from Cons.IH [OF _ this] show ?thesis
      using Cons.prems(1) step True np
      by (cases "Suc (length bs + length as) \<le> MAX_USERS") simp_all
  next
    case False
    then show ?thesis using step np len by simp
  qed
qed

lemma deleteUser_argv:
  assumes "holds us n as" and "argv_users us n" and "c_text name s" and "j \<le> n"
    and "\<exists>k < n. j \<le> k \<and> fst (as ! k) = s"
  shows "delete_from name [j..<n] (us, False) = Inl Undefined"
  using assms(4,5)
proof (induction "n - j" arbitrary: j)
  case 0
  then show ?case by auto
next
  case (Suc d)
  then have lt: "j < n" by simp
  obtain a b where ab: "us ! j = \<lparr>u_name = argv_str a, u_pass = argv_str b\<rparr>"
    using assms(2) lt by (auto simp: argv_users_def)
  obtain m w where mw: "as ! j = (m, w)" by (cases "as ! j")
  then have fst: "fst (as ! j) = a"
    using holds_at [OF assms(1) lt] ab by (simp add: account_def str_bytes_def argv_str_def)
  have at: "user_at us j = Inr (us ! j)" using holds_at [OF assms(1) lt] by auto
  have cmp: "strcmp_eq name (u_name (us ! j)) = Inr (s = a)"
    using strcmp_eq_text [OF assms(3)] ab by (simp add: argv_str_def str_bytes_def)
  show ?case
  proof (cases "s = a")
    case True
    then show ?thesis using lt at cmp ab by (simp add: upt_conv_Cons free_str_def argv_str_def)
  next
    case False
    then have "\<exists>k < n. Suc j \<le> k \<and> fst (as ! k) = s"
      using Suc.prems(2) fst by (metis Suc_leI le_neq_implies_less)
    then show ?thesis
      using Suc.hyps(1) [of "Suc j"] Suc.hyps(2) lt at cmp False by (simp add: upt_conv_Cons)
  qed
qed

text \<open>
  \<open>C32\<close> The users of the command line. Up to 255 options \<open>-u name:password\<close> fill the table with those
  accounts, in that order; one more is an error. And none of them can be deleted over the management
  protocol: the names point into \<open>argv\<close>, and \<open>deleteUser\<close> passes them to \<open>free\<close>.
\<close>

theorem command_line_users:
  assumes "\<forall>a \<in> set as. 0x3A \<notin> set (fst a)"
    and "\<forall>s \<in> {''0.0.0.0'', ''127.0.0.1'', ''::'', ''::1''}. gai (bytes_of s) \<in> {Some AF_INET, Some AF_INET6}"
  shows "if length as \<le> MAX_USERS
    then \<exists>a g. parse_args gai ia e (map user_option as) False initial_globals = Some (a, g) \<and>
      holds (users g) (nusers g) as \<and>
      (\<forall>name s. c_text name s \<longrightarrow> s \<in> fst ` set as \<longrightarrow> deleteUser g name = Inl Undefined)
    else parse_args gai ia e (map user_option as) False initial_globals = None"
proof -
  have start: "holds (users initial_globals) (nusers initial_globals) []" "argv_users (users initial_globals) (nusers initial_globals)"
    by (simp_all add: initial_globals_def holds_def argv_users_def)
  have defaults: "default_addresses gai ia (socks_ep args_init) \<noteq> None" "default_addresses gai ia (mng_ep args_init) \<noteq> None"
    using assms(2) by (auto simp: default_addresses_def address_processing_def args_init_def endpoint_init_def Let_def
        split: option.splits ai_family.splits)
  note run = user_options_step [OF assms(1) start, of gai ia e args_init]
  show ?thesis
  proof (cases "length as \<le> MAX_USERS")
    case True
    then obtain us n where "parse_options gai ia e (map user_option as) (args_init, initial_globals) =
        Some (args_init, initial_globals\<lparr>users := us, nusers := n\<rparr>)" "holds us n as" "argv_users us n"
      using run by auto
    moreover define g where "g = initial_globals\<lparr>users := us, nusers := n\<rparr>"
    ultimately have g: "parse_options gai ia e (map user_option as) (args_init, initial_globals) = Some (args_init, g)"
      "holds (users g) (nusers g) as" "argv_users (users g) (nusers g)"
      by simp_all
    have "deleteUser g name = Inl Undefined" if nm: "c_text name s" and mem: "s \<in> fst ` set as" for name s
    proof -
      obtain k where "k < nusers g" "fst (as ! k) = s"
        using mem g(2) by (auto simp: holds_def in_set_conv_nth)
      then have "delete_from name [0..<nusers g] (users g, False) = Inl Undefined"
        by (intro deleteUser_argv [OF g(2,3) nm]) auto
      then show ?thesis by (simp add: deleteUser_def)
    qed
    then show ?thesis using True g(1,2) defaults by (auto simp: parse_args_def)
  next
    case False
    then show ?thesis using run by (simp add: parse_args_def)
  qed
qed

lemma command_line_users_witness:
  "\<exists>a g. parse_args demo_gai demo_ia False [(Opt_u, bytes_of ''ana:pw'')] False initial_globals = Some (a, g) \<and>
    holds (users g) (nusers g) [(bytes_of ''ana'', bytes_of ''pw'')] \<and>
    deleteUser g (Ptr (map Some (bytes_of ''ana'') @ [Some 0])) = Inl Undefined"
proof -
  have "c_text (Ptr (map Some (bytes_of ''ana'') @ [Some 0])) (bytes_of ''ana'')"
    by (simp add: c_text_def bytes_of_def)
  then show ?thesis
    using command_line_users [of "[(bytes_of ''ana'', bytes_of ''pw'')]" demo_gai demo_ia False]
    by (auto simp: demo_gai_def user_option_def MAX_USERS_def bytes_of_def)
qed

end
