(* ===== verification/Startup.thy ===== *)
theory Startup
  imports Args
begin

text \<open>
  \<open>main\<close> of the server (\<open>src/main.c\<close>) up to its loop, with \<open>src/socket_utils.c\<close>: the command line, the
  file of the administrators, the listening sockets, the selector. A file is its bytes.
\<close>

section \<open>The administrators\<close>

text \<open>\<open>fgets(line, n, f)\<close>: at most \<open>n - 1\<close> bytes, up to and with the first line end.\<close>

definition fgets_line :: "nat \<Rightarrow> byte list \<Rightarrow> byte list" where
  "fgets_line n contents =
     (let l = take (n - 1) contents; u = takeWhile (\<lambda>c. c \<noteq> 0x0A) l
      in if length u < length l then u @ [0x0A] else u)"

text \<open>
  The body of the loop. \<open>strchr\<close> and \<open>strlen\<close> see the line up to its first NUL; without a space the
  code writes through a null pointer, and it does so when \<open>malloc\<close> fails too.
\<close>

definition credential_line :: "bool \<Rightarrow> bool \<Rightarrow> byte list \<Rightarrow> globals \<Rightarrow> globals res" where
  "credential_line ok1 ok2 line g =
     (case split_at 0x20 (takeWhile (\<lambda>c. c \<noteq> 0) line) of
        None \<Rightarrow> Inl Undefined
      | Some (user, pass) \<Rightarrow>
          let pass' = (if pass \<noteq> [] \<and> last pass = 0x0A then butlast pass else pass)
          in if \<not> ok1 \<or> \<not> ok2 then Inl Undefined
             else if nadmins g < MAX_USERS then
               Inr (g\<lparr>admins := (admins g)[nadmins g :=
                   \<lparr>u_name = Ptr \<lparr>cs_heap = True, cs_bytes = user\<rparr>, u_pass = Ptr \<lparr>cs_heap = True, cs_bytes = pass'\<rparr>\<rparr>],
                 nadmins := nadmins g + 1\<rparr>)
             else Inl Undefined)"

lemma fgets_line_length: "contents \<noteq> [] \<Longrightarrow> 2 \<le> n \<Longrightarrow> 0 < length (fgets_line n contents)"
  by (cases contents) (auto simp: fgets_line_def Let_def take_Cons')

text \<open>\<open>ok\<close> numbers the allocations, two for each line.\<close>

function load_credentials :: "(nat \<Rightarrow> bool) \<Rightarrow> nat \<Rightarrow> byte list \<Rightarrow> globals \<Rightarrow> globals res" where
  "load_credentials ok k contents g =
     (if contents = [] then Inr g
      else
        let line = fgets_line 255 contents
        in bind_res (credential_line (ok k) (ok (k + 1)) line g)
             (load_credentials ok (k + 2) (drop (length line) contents)))"
  by pat_completeness auto
termination
proof (relation "measure (\<lambda>(ok, k, contents, g). length contents)")
  fix ok :: "nat \<Rightarrow> bool" and k and contents :: "byte list" and g :: globals and line x
  assume "contents \<noteq> []" and "line = fgets_line 255 contents"
  then have "0 < length line" using fgets_line_length [of contents 255] by simp
  then show "((ok, k + 2, drop (length line) contents, x), ok, k, contents, g) \<in> measure (\<lambda>(ok, k, contents, g). length contents)"
    using \<open>contents \<noteq> []\<close> by (cases contents) auto
qed simp

declare load_credentials.simps [simp del]

section \<open>The listening sockets\<close>

text \<open>
  What the system calls return for one socket. \<open>F_GETFD\<close> gives the flags of the descriptor, to which
  \<open>selector_fd_set_nio\<close> adds \<open>O_NONBLOCK\<close> and sets the result as the flags of the file.
\<close>

record socket_io =
  so_socket :: int
  so_v6only :: bool
  so_bind :: bool
  so_listen :: bool
  so_getfd :: int
  so_setfl :: "int \<Rightarrow> bool"

definition O_NONBLOCK :: int where "O_NONBLOCK = 0x800"

definition selector_fd_set_nio :: "socket_io \<Rightarrow> int" where
  "selector_fd_set_nio io =
     (if so_getfd io = -1 then -1
      else if \<not> so_setfl io (so_getfd io OR O_NONBLOCK) then -1 else 0)"

definition addr_process :: "socket_io \<Rightarrow> int" where
  "addr_process io = (if \<not> so_bind io then -1 else 0)"

definition addr6_process :: "socket_io \<Rightarrow> int" where
  "addr6_process io = (if \<not> so_v6only io then -1 else if \<not> so_bind io then -1 else 0)"

definition create_socket :: "ai_family \<Rightarrow> socket_io \<Rightarrow> int" where
  "create_socket type io =
     (if type \<noteq> AF_INET \<and> type \<noteq> AF_INET6 then -1
      else if so_socket io < 0 then -1
      else if type = AF_INET \<and> addr_process io = -1 then -1
      else if type = AF_INET6 \<and> addr6_process io = -1 then -1
      else if \<not> so_listen io then -1
      else if selector_fd_set_nio io = -1 then -1
      else so_socket io)"

text \<open>The sockets of a service, IPv4 and IPv6, -1 where its family has none; \<open>None\<close> on failure.\<close>

definition open_sockets :: "family \<Rightarrow> socket_io \<Rightarrow> socket_io \<Rightarrow> (int \<times> int) option" where
  "open_sockets f io io6 =
     (case f of
        Unspec \<Rightarrow>
          (let s = create_socket AF_INET io
           in if s = -1 then None
              else let s6 = create_socket AF_INET6 io6 in if s6 = -1 then None else Some (s, s6))
      | Inet \<Rightarrow> (let s = create_socket AF_INET io in if s = -1 then None else Some (s, -1))
      | Inet6 \<Rightarrow> (let s6 = create_socket AF_INET6 io6 in if s6 = -1 then None else Some (-1, s6)))"

section \<open>The start of \<open>main\<close>\<close>

record start_io =
  st_getaddrinfo :: getaddrinfo
  st_inet_addr :: inet_addr
  st_erange :: bool
  st_fopen :: "byte list \<Rightarrow> byte list option"
  st_malloc :: "nat \<Rightarrow> bool"
  st_socks :: socket_io
  st_socks6 :: socket_io
  st_mng :: socket_io
  st_mng6 :: socket_io
  st_init :: bool
  st_new :: "bool \<times> bool"
  st_table :: bool

text \<open>
  The globals and the selector at the first turn of the loop; \<open>None\<close> when \<open>main\<close> goes to its end
  with an error. Without option \<open>-f\<close> a null pointer is given to \<open>fopen\<close>.
\<close>

definition server_start ::
  "start_io \<Rightarrow> (option_char \<times> byte list) list \<Rightarrow> bool \<Rightarrow> (globals \<times> fd_selector) option res" where
  "server_start io opts left_over =
     (case parse_args (st_getaddrinfo io) (st_inet_addr io) (st_erange io) opts left_over initial_globals of
        None \<Rightarrow> Inl Exited
      | Some (a, g) \<Rightarrow>
          bind_res (deref (credentials a))
            (\<lambda>f. case st_fopen io f of
               None \<Rightarrow> Inl Exited
             | Some content \<Rightarrow>
                 bind_res (load_credentials (st_malloc io) 0 content
                     (g\<lparr>password_dissectors := disectors_enabled a\<rparr>))
                   (\<lambda>g'. case open_sockets (ep_family (socks_ep a)) (st_socks io) (st_socks6 io) of
                      None \<Rightarrow> Inr None
                    | Some (v4, v6) \<Rightarrow>
                        (case open_sockets (ep_family (mng_ep a)) (st_mng io) (st_mng6 io) of
                           None \<Rightarrow> Inr None
                         | Some (m4, m6) \<Rightarrow>
                             if \<not> st_init io then Inr None
                             else bind_res (boot_selector (fst (st_new io)) (snd (st_new io)) (st_table io)
                                 (listeners (ep_family (socks_ep a)) v4 v6) (listeners (ep_family (mng_ep a)) m4 m6))
                               (\<lambda>r. Inr (map_option (\<lambda>s. (g', s)) r))))))"

section \<open>The file of the administrators\<close>

text \<open>A line of the file, and the accounts that have one: the line, with its end, is shorter than the array.\<close>

definition account_line :: "byte list \<times> byte list \<Rightarrow> byte list" where
  "account_line = (\<lambda>(u, p). u @ 0x20 # p @ [0x0A])"

definition printable :: "byte list \<times> byte list \<Rightarrow> bool" where
  "printable = (\<lambda>(u, p). {0, 0x0A, 0x20} \<inter> set u = {} \<and> {0, 0x0A} \<inter> set p = {} \<and> length u + length p \<le> 252)"

lemma fgets_whole_line:
  assumes "0x0A \<notin> set l" and "length l < n - 1"
  shows "fgets_line n (l @ 0x0A # rest) = l @ [0x0A]"
proof -
  obtain m where "n - 1 - length l = Suc m" using assms(2) by (cases "n - 1 - length l") auto
  moreover have "take (n - 1) l = l" using assms(2) by simp
  ultimately show ?thesis
    using assms(1) by (simp add: fgets_line_def Let_def takeWhile_append)
qed

lemma load_account:
  assumes "printable (u, p)" and "\<And>i. ok i"
  shows "load_credentials ok k (account_line (u, p) @ rest) g =
    (if nadmins g < MAX_USERS
     then load_credentials ok (k + 2) rest (g\<lparr>admins := (admins g)[nadmins g := heap_user u p], nadmins := nadmins g + 1\<rparr>)
     else Inl Undefined)"
proof -
  have line: "fgets_line 255 ((u @ 0x20 # p) @ 0x0A # rest) = (u @ 0x20 # p) @ [0x0A]"
    using assms(1) by (intro fgets_whole_line) (auto simp: printable_def)
  have "takeWhile (\<lambda>c. c \<noteq> 0) (u @ 0x20 # p @ [0x0A]) = u @ 0x20 # p @ [0x0A]"
    using assms(1) by (subst takeWhile_eq_all_conv) (auto simp: printable_def)
  moreover have "split_at 0x20 (u @ 0x20 # p @ [0x0A]) = Some (u, p @ [0x0A])"
    using assms(1) by (intro split_at_first) (auto simp: printable_def)
  ultimately show ?thesis
    using line assms(2)
    by (subst load_credentials.simps)
      (simp add: account_line_def credential_line_def heap_user_def Let_def)
qed

lemma holds_heap_user:
  "holds us n as \<Longrightarrow> n < MAX_USERS \<Longrightarrow> holds (us[n := heap_user u p]) (Suc n) (as @ [(u, p)])"
  by (auto simp: holds_def account_def str_bytes_def heap_user_def nth_append nth_list_update less_Suc_eq)

lemma load_accounts:
  assumes "\<forall>a \<in> set as. printable a" and "\<And>i. ok i" and "holds (admins g) (nadmins g) bs"
    and "length (bs @ as) \<le> MAX_USERS"
  shows "\<exists>us n j. load_credentials ok k (concat (map account_line as) @ rest) g =
      load_credentials ok j rest (g\<lparr>admins := us, nadmins := n\<rparr>) \<and> holds us n (bs @ as)"
  using assms(1,3,4)
proof (induction as arbitrary: k g bs)
  case Nil
  then show ?case by (intro exI [of _ "admins g"] exI [of _ "nadmins g"] exI [of _ k]) simp
next
  case (Cons a as)
  obtain u p where a: "a = (u, p)" "printable (u, p)" using Cons.prems(1) by (cases a) simp
  have lt: "nadmins g < MAX_USERS" using Cons.prems(2,3) by (simp add: holds_def)
  let ?g = "g\<lparr>admins := (admins g)[nadmins g := heap_user u p], nadmins := nadmins g + 1\<rparr>"
  have hs: "holds (admins ?g) (nadmins ?g) (bs @ [(u, p)])"
    using holds_heap_user [OF Cons.prems(2) lt] by simp
  obtain us n j where r: "load_credentials ok (k + 2) (concat (map account_line as) @ rest) ?g =
      load_credentials ok j rest (?g\<lparr>admins := us, nadmins := n\<rparr>)" "holds us n ((bs @ [(u, p)]) @ as)"
    using Cons.IH [OF _ hs, of "k + 2"] Cons.prems(1,3) by auto
  show ?case
    using r a lt load_account [of u p ok k "concat (map account_line as) @ rest" g, OF a(2) assms(2)]
    by (intro exI [of _ us] exI [of _ n] exI [of _ j]) simp
qed

text \<open>
  \<open>C33\<close> The file of the administrators. A file of up to 255 lines, each a name, a space and a password
  that fit in the line buffer, gives exactly those administrators, in that order, and changes nothing
  else. A line without a space crashes the server before it starts, an empty one at the end of the
  file among them; and one line more than 255 is written past the table.
\<close>

theorem administrators_loaded:
  assumes "\<forall>a \<in> set as. printable a" and "\<And>i. ok i" and "length as \<le> MAX_USERS"
    and "holds (admins g) (nadmins g) []"
  shows "(\<exists>us n. load_credentials ok k (concat (map account_line as)) g = Inr (g\<lparr>admins := us, nadmins := n\<rparr>) \<and>
      holds us n as) \<and>
    (\<forall>l rest. 0x20 \<notin> set l \<longrightarrow> 0x0A \<notin> set l \<longrightarrow> length l < 254 \<longrightarrow>
      load_credentials ok k (concat (map account_line as) @ l @ 0x0A # rest) g = Inl Undefined) \<and>
    (\<forall>a rest. length as = MAX_USERS \<longrightarrow> printable a \<longrightarrow>
      load_credentials ok k (concat (map account_line as) @ account_line a @ rest) g = Inl Undefined)"
proof (intro conjI allI impI)
  have len: "length ([] @ as) \<le> MAX_USERS" using assms(3) by simp
  have load: "\<exists>us n j. load_credentials ok k (concat (map account_line as) @ rest) g =
      load_credentials ok j rest (g\<lparr>admins := us, nadmins := n\<rparr>) \<and> holds us n as" for rest
    using load_accounts [of as ok g "[]" k rest, OF assms(1,2,4) len] by simp
  obtain us n j where "load_credentials ok k (concat (map account_line as) @ []) g =
      load_credentials ok j [] (g\<lparr>admins := us, nadmins := n\<rparr>)" "holds us n as"
    using load [of "[]"] by auto
  then show "\<exists>us n. load_credentials ok k (concat (map account_line as)) g = Inr (g\<lparr>admins := us, nadmins := n\<rparr>) \<and> holds us n as"
    by (intro exI [of _ us] exI [of _ n]) (simp add: load_credentials.simps [of ok j "[]"])
  show "load_credentials ok k (concat (map account_line as) @ l @ 0x0A # rest) g = Inl Undefined"
    if "0x20 \<notin> set l" "0x0A \<notin> set l" "length l < 254" for l rest
  proof -
    have "0x20 \<notin> set (takeWhile (\<lambda>c. c \<noteq> 0) (l @ [0x0A]))" using that(1) by (auto dest: set_takeWhileD)
    then have "load_credentials ok j (l @ 0x0A # rest) h = Inl Undefined" for j h
      using fgets_whole_line [OF that(2), of 255 rest] that(3)
      by (subst load_credentials.simps) (simp add: credential_line_def split_at_def Let_def)
    then show ?thesis using load [of "l @ 0x0A # rest"] by auto
  qed
  show "load_credentials ok k (concat (map account_line as) @ account_line a @ rest) g = Inl Undefined"
    if len: "length as = MAX_USERS" and a: "printable a" for a rest
  proof -
    obtain us n j where r: "load_credentials ok k (concat (map account_line as) @ account_line a @ rest) g =
        load_credentials ok j (account_line a @ rest) (g\<lparr>admins := us, nadmins := n\<rparr>)" "holds us n as"
      using load [of "account_line a @ rest"] by auto
    obtain u p where u: "a = (u, p)" by (cases a)
    have "n = MAX_USERS" using r(2) len by (simp add: holds_def)
    then show ?thesis using load_account [of u p ok j rest] a u assms(2) r(1) by simp
  qed
qed

lemma administrators_loaded_witness:
  "\<exists>us n. load_credentials (\<lambda>_. True) 0 (bytes_of ''root secret'' @ [0x0A]) initial_globals =
      Inr (initial_globals\<lparr>admins := us, nadmins := n\<rparr>) \<and>
    holds us n [(bytes_of ''root'', bytes_of ''secret'')] \<and>
    load_credentials (\<lambda>_. True) 0 (bytes_of ''root secret'' @ [0x0A, 0x0A]) initial_globals = Inl Undefined"
proof -
  have h: "holds (admins initial_globals) (nadmins initial_globals) []"
    by (simp add: initial_globals_def holds_def)
  have p: "\<forall>a \<in> set [(bytes_of ''root'', bytes_of ''secret'')]. printable a"
    by (simp add: printable_def bytes_of_def)
  have l: "concat (map account_line [(bytes_of ''root'', bytes_of ''secret'')]) = bytes_of ''root secret'' @ [0x0A]"
    by (simp add: account_line_def bytes_of_def)
  have blank: "0x20 \<notin> set ([] :: byte list)" "0x0A \<notin> set ([] :: byte list)" by simp_all
  note loaded = administrators_loaded [of "[(bytes_of ''root'', bytes_of ''secret'')]" "\<lambda>_. True" initial_globals 0,
      OF p _ _ h, unfolded l]
  have "load_credentials (\<lambda>_. True) 0 ((bytes_of ''root secret'' @ [0x0A]) @ [] @ 0x0A # []) initial_globals = Inl Undefined"
    using loaded by (auto simp: MAX_USERS_def dest!: spec [of _ "[]"])
  then show ?thesis using loaded by (simp add: MAX_USERS_def)
qed

section \<open>From the command line to the loop\<close>

lemma parse_options_append:
  "parse_options gai ia e (xs @ ys) s =
    (case parse_options gai ia e xs s of None \<Rightarrow> None | Some s' \<Rightarrow> parse_options gai ia e ys s')"
  by (induction xs arbitrary: s) (auto split: option.splits)

definition address_option :: "option_char \<times> byte list \<Rightarrow> bool" where
  "address_option oa \<longleftrightarrow> fst oa \<in> {Opt_l, Opt_L, Opt_p, Opt_P}"

lemma address_options_step:
  "\<forall>oa \<in> set oas. address_option oa \<Longrightarrow> parse_options gai ia e oas (a, g) = Some (a', g') \<Longrightarrow>
    g' = g \<and> credentials a' = credentials a \<and> disectors_enabled a' = disectors_enabled a"
proof (induction oas arbitrary: a g)
  case (Cons oa oas)
  from Cons.prems(2) obtain a1 g1 where s: "parse_option gai ia e oa (a, g) = Some (a1, g1)"
    "parse_options gai ia e oas (a1, g1) = Some (a', g')"
    by (auto split: option.splits)
  have "g1 = g \<and> credentials a1 = credentials a \<and> disectors_enabled a1 = disectors_enabled a"
    using s(1) Cons.prems(1) by (cases oa) (auto simp: parse_option_def address_option_def)
  then show ?case using Cons.IH [OF _ s(2)] Cons.prems(1) by simp
qed simp

text \<open>
  \<open>C30\<close> The server starts as it is told. When \<open>main\<close> reaches its loop, with users of the command line, a
  file of administrators and any addresses and ports, the accounts of the two tables are exactly
  those, authentication is required and the dissector on, and the selector is one from which a run
  of the server begins.
\<close>

theorem server_starts_as_told:
  assumes "server_start io (pre @ map user_option us @ [(Opt_f, path)]) False = Inr (Some (g, s))"
    and "\<forall>oa \<in> set pre. address_option oa" and "\<forall>u \<in> set us. 0x3A \<notin> set (fst u)"
    and "st_fopen io path = Some (concat (map account_line ads))" and "\<forall>a \<in> set ads. printable a"
    and "length ads \<le> MAX_USERS" and "\<And>i. st_malloc io i"
  shows "holds (users g) (nusers g) us \<and> holds (admins g) (nadmins g) ads \<and> auth_method g = 0x02 \<and>
    password_dissectors g = 0x00 \<and> (\<forall>w. no_connections w \<longrightarrow> server_run 1 (s, w))"
proof -
  obtain a g0 where pa: "parse_args (st_getaddrinfo io) (st_inet_addr io) (st_erange io)
      (pre @ map user_option us @ [(Opt_f, path)]) False initial_globals = Some (a, g0)"
    using assms(1) by (auto simp: server_start_def split: option.splits)
  obtain a1 where po: "parse_options (st_getaddrinfo io) (st_inet_addr io) (st_erange io)
      (pre @ map user_option us @ [(Opt_f, path)]) (args_init, initial_globals) = Some (a1, g0)"
    and a: "credentials a = credentials a1" "disectors_enabled a = disectors_enabled a1"
    using pa by (auto simp: parse_args_def split: option.splits if_splits)
  obtain a0 g1 where pre: "parse_options (st_getaddrinfo io) (st_inet_addr io) (st_erange io) pre (args_init, initial_globals) =
      Some (a0, g1)" using po by (auto simp: parse_options_append split: option.splits)
  have a0: "g1 = initial_globals" "disectors_enabled a0 = 0x00"
    using address_options_step [OF assms(2) pre] by (simp_all add: args_init_def)
  have start: "holds (users initial_globals) (nusers initial_globals) []" "argv_users (users initial_globals) (nusers initial_globals)"
    by (simp_all add: initial_globals_def holds_def argv_users_def)
  obtain tab n where u: "parse_options (st_getaddrinfo io) (st_inet_addr io) (st_erange io) (map user_option us) (a0, initial_globals) =
      Some (a0, initial_globals\<lparr>users := tab, nusers := n\<rparr>)" "holds tab n us"
    using user_options_step [OF assms(3) start, of "st_getaddrinfo io" "st_inet_addr io" "st_erange io" a0] po pre a0(1)
    by (auto simp: parse_options_append split: if_splits)
  have g0: "g0 = initial_globals\<lparr>users := tab, nusers := n\<rparr>" "credentials a = Ptr path" "disectors_enabled a = 0x00"
    using po pre a0 u(1) a by (auto simp: parse_options_append parse_option_def)
  let ?g1 = "g0\<lparr>password_dissectors := disectors_enabled a\<rparr>"
  have adm: "holds (admins ?g1) (nadmins ?g1) []" by (simp add: g0 initial_globals_def holds_def)
  obtain tab' m j where load: "load_credentials (st_malloc io) 0 (concat (map account_line ads) @ []) ?g1 =
      load_credentials (st_malloc io) j [] (?g1\<lparr>admins := tab', nadmins := m\<rparr>)" "holds tab' m ads"
    using load_accounts [of ads "st_malloc io" ?g1 "[]" 0 "[]", OF assms(5,7) adm] assms(6) by auto
  have loaded: "load_credentials (st_malloc io) 0 (concat (map account_line ads)) ?g1 = Inr (?g1\<lparr>admins := tab', nadmins := m\<rparr>)"
    using load(1) by (simp add: load_credentials.simps [of _ j "[]"])
  obtain x y z f v4 v6 f' m4 m6 where "g = ?g1\<lparr>admins := tab', nadmins := m\<rparr>"
    and boot: "boot_selector x y z (listeners f v4 v6) (listeners f' m4 m6) = Inr (Some s)"
    using assms(1,4) pa g0(2) loaded
    by (auto simp: server_start_def split: option.splits prod.splits if_splits)
  then show ?thesis
    using u(2) load(2) g0(1,3) server_run.boot [OF boot] by (simp add: initial_globals_def)
qed

text \<open>A start with IPv4 addresses, a user and an administrator.\<close>

definition demo_socket :: "int \<Rightarrow> socket_io" where
  "demo_socket fd = \<lparr>so_socket = fd, so_v6only = True, so_bind = True, so_listen = True, so_getfd = 0,
     so_setfl = (\<lambda>_. True)\<rparr>"

definition demo_start :: start_io where
  "demo_start = \<lparr>st_getaddrinfo = demo_gai, st_inet_addr = demo_ia, st_erange = False,
     st_fopen = (\<lambda>_. Some (concat (map account_line [(bytes_of ''root'', bytes_of ''secret'')]))),
     st_malloc = (\<lambda>_. True), st_socks = demo_socket 3, st_socks6 = demo_socket (-1), st_mng = demo_socket 4,
     st_mng6 = demo_socket (-1), st_init = True, st_new = (True, True), st_table = True\<rparr>"

definition demo_pre :: "(option_char \<times> byte list) list" where
  "demo_pre = [(Opt_l, bytes_of ''0.0.0.0''), (Opt_L, bytes_of ''127.0.0.1'')]"

lemma server_starts_as_told_witness:
  "\<exists>g s. server_start demo_start (demo_pre @ map user_option [(bytes_of ''ana'', bytes_of ''pw'')] @ [(Opt_f, [])]) False =
      Inr (Some (g, s)) \<and>
    holds (users g) (nusers g) [(bytes_of ''ana'', bytes_of ''pw'')] \<and>
    holds (admins g) (nadmins g) [(bytes_of ''root'', bytes_of ''secret'')]"
proof -
  let ?opts = "demo_pre @ map user_option [(bytes_of ''ana'', bytes_of ''pw'')] @ [(Opt_f, [])]"
  let ?us = "[(bytes_of ''ana'', bytes_of ''pw'')]" and ?ads = "[(bytes_of ''root'', bytes_of ''secret'')]"
  obtain s where boot: "boot_selector True True True (listeners Inet 3 0) (listeners Inet 4 0) = Inr (Some s)"
    by (rule demo_boot)
  have same: "listeners Inet a b = listeners Inet a 0" for a b by (simp add: listeners_def)
  obtain a g where a: "parse_args demo_gai demo_ia False ?opts False initial_globals = Some (a, g)"
    "ep_family (socks_ep a) = Inet" "ep_family (mng_ep a) = Inet" "credentials a = Ptr []"
    "nadmins g = 0" "admins g = admins initial_globals"
    by (simp add: parse_args_def parse_option_def set_endpoint_address_def default_addresses_def address_processing_def
        args_init_def endpoint_init_def demo_gai_def bytes_of_def Let_def demo_pre_def user_option_def user_arg_def
        split_at_def initial_globals_def MAX_USERS_def)
  have adm: "holds (admins (g\<lparr>password_dissectors := disectors_enabled a\<rparr>))
      (nadmins (g\<lparr>password_dissectors := disectors_enabled a\<rparr>)) []"
    using a(5,6) by (simp add: initial_globals_def holds_def)
  have p: "\<forall>a \<in> set ?ads. printable a" by (simp add: printable_def bytes_of_def)
  obtain tab n j where "load_credentials (\<lambda>_. True) 0 (concat (map account_line ?ads) @ [])
        (g\<lparr>password_dissectors := disectors_enabled a\<rparr>) =
      load_credentials (\<lambda>_. True) j [] (g\<lparr>password_dissectors := disectors_enabled a, admins := tab, nadmins := n\<rparr>)"
    using load_accounts [of ?ads "\<lambda>_. True" _ "[]" 0 "[]", OF p _ adm] by (auto simp: MAX_USERS_def)
  then have loaded: "load_credentials (\<lambda>_. True) 0 (concat (map account_line ?ads))
        (g\<lparr>password_dissectors := disectors_enabled a\<rparr>) =
      Inr (g\<lparr>password_dissectors := disectors_enabled a, admins := tab, nadmins := n\<rparr>)"
    by (simp add: load_credentials.simps [of _ j "[]"])
  have socks: "open_sockets Inet (demo_socket 3) x = Some (3, -1)" "open_sockets Inet (demo_socket 4) x = Some (4, -1)" for x
    by (simp_all add: open_sockets_def create_socket_def demo_socket_def addr_process_def selector_fd_set_nio_def)
  obtain g' where start: "server_start demo_start ?opts False = Inr (Some (g', s))"
    using a loaded socks boot same [of 3 "-1"] same [of 4 "-1"]
    by (simp add: server_start_def demo_start_def)
  show ?thesis
    using server_starts_as_told [OF start, of ?ads] start p
    by (auto simp: demo_pre_def address_option_def demo_start_def bytes_of_def MAX_USERS_def)
qed

end
