(* ===== verification/Shutdown.thy ===== *)
theory Shutdown
  imports Startup
begin

text \<open>
  The set-up of the signals and the end of \<open>main\<close>: \<open>selector_init\<close>, \<open>selector_error\<close>,
  \<open>selector_destroy\<close> and \<open>selector_close\<close> of \<open>selector.c\<close>, the release of the two pools of connections
  (\<open>socks5nio.c\<close>, \<open>management.c\<close>), and the label \<open>finally\<close> of \<open>main.c\<close>. Stopping the server from
  any state of a run misuses no memory, and releases every connection whose counter counts its
  descriptors.
\<close>

section \<open>The selector\<close>

definition selector_error :: "selector_status \<Rightarrow> string" where
  "selector_error status =
     (case status of
        SELECTOR_SUCCESS \<Rightarrow> ''Success''
      | SELECTOR_ENOMEM \<Rightarrow> ''Not enough memory''
      | SELECTOR_MAXFD \<Rightarrow> ''Can't handle any more file descriptors''
      | SELECTOR_IARGS \<Rightarrow> ''Illegal argument''
      | SELECTOR_IO \<Rightarrow> ''I/O error''
      | _ \<Rightarrow> ''something failed'')"

text \<open>
  The signal that wakes the selector up is blocked, so that it arrives inside \<open>pselect\<close> only, where the
  mask is empty, and gets a handler that does nothing. The arguments say whether the calls succeed.
\<close>

record signal_setup =
  blocked :: "nat set"
  handled :: "nat set"

definition selector_init :: "bool \<Rightarrow> bool \<Rightarrow> nat \<Rightarrow> signal_setup \<Rightarrow> selector_status \<times> signal_setup" where
  "selector_init mask_ok action_ok signal s =
     (if \<not> mask_ok then (SELECTOR_IO, s)
      else
        let s1 = s\<lparr>blocked := insert signal (blocked s)\<rparr>
        in if \<not> action_ok then (SELECTOR_IO, s1)
           else (SELECTOR_SUCCESS, s1\<lparr>handled := insert signal (handled s1)\<rparr>))"

definition selector_close :: selector_status where
  "selector_close = SELECTOR_SUCCESS"

definition items_init :: "('h, 'd) item list \<Rightarrow> nat \<Rightarrow> ('h, 'd) item list res" where
  "items_init items l = (if l \<le> length items then Inr (take l items @ map item_init (drop l items)) else Inl Aborted)"

fun destroy_items ::
  "('h \<Rightarrow> ('h, 'd, 'w) fd_handler) \<Rightarrow> nat list \<Rightarrow> ('h, 'd) fdselector \<times> 'w \<Rightarrow> (('h, 'd) fdselector \<times> 'w) res" where
  "destroy_items tbl [] sw = Inr sw"
| "destroy_items tbl (i # is) sw =
     bind_res (item_at (fst sw) i)
       (\<lambda>it. bind_res
          (if item_used it then bind_res (selector_unregister_fd tbl sw (int i)) (\<lambda>(_, sw'). Inr sw') else Inr sw)
          (destroy_items tbl is))"

text \<open>The finished jobs and the selector are freed; nothing is left but the rest of the program.\<close>

definition selector_destroy ::
  "('h \<Rightarrow> ('h, 'd, 'w) fd_handler) \<Rightarrow> ('h, 'd) fdselector option \<times> 'w \<Rightarrow> 'w res" where
  "selector_destroy tbl = (\<lambda>(s, w).
     case s of
       None \<Rightarrow> Inr w
     | Some s \<Rightarrow>
         if fds s = Null then Inr w
         else bind_res (destroy_items tbl [0..<fd_size s] (s, w)) (\<lambda>(_, w'). Inr w'))"

section \<open>The pools\<close>

text \<open>A pool is freed from its first element on; the variable that points at it keeps its value.\<close>

fun free_conns :: "nat list \<Rightarrow> world \<Rightarrow> world res" where
  "free_conns [] w = Inr w"
| "free_conns (i # is) w =
     (case conns w i of None \<Rightarrow> Inl Undefined | Some _ \<Rightarrow> free_conns is (w\<lparr>conns := (conns w)(i := None)\<rparr>))"

definition socksv5_pool_destroy :: "world \<Rightarrow> world res" where
  "socksv5_pool_destroy w = free_conns (pool w) w"

definition mng_pool_destroy :: "world \<Rightarrow> world res" where
  "mng_pool_destroy w = free_conns (mng_pool w) w"

section \<open>The end of \<open>main\<close>\<close>

fun free_admins :: "user list \<Rightarrow> unit res" where
  "free_admins [] = Inr ()"
| "free_admins (u # us) =
     bind_res (free_str (u_name u)) (\<lambda>_. bind_res (free_str (u_pass u)) (\<lambda>_. free_admins us))"

text \<open>
  \<open>message\<close> is \<open>err_msg\<close>. Of the four sockets, those of the management service stay open. The result is
  the exit status.
\<close>

definition main_end ::
  "selector_status \<Rightarrow> string option \<Rightarrow> fd_selector option \<Rightarrow> int \<Rightarrow> int \<Rightarrow> world \<Rightarrow> (int \<times> world) res" where
  "main_end ss message selector sock sock6 w =
     (let ret = (if ss \<noteq> SELECTOR_SUCCESS then 2 else if message \<noteq> None then 1 else 0)
      in bind_res (selector_destroy closers (selector, w))
        (\<lambda>w1. bind_res (mng_pool_destroy w1)
          (\<lambda>w2. bind_res (socksv5_pool_destroy w2)
            (\<lambda>w3. let w4 = (if sock \<ge> 0 then w3\<lparr>events := events w3 @ [Closed sock]\<rparr> else w3);
                       w5 = (if sock6 \<ge> 0 then w4\<lparr>events := events w4 @ [Closed sock6]\<rparr> else w4)
                   in bind_res (free_admins (take (nadmins (globs w5)) (admins (globs w5))))
                        (\<lambda>_. Inr (ret, w5))))))"

text \<open>Leaving the loop: the selector failed, or a signal was caught.\<close>

definition serve_to_end :: "pselect_result list \<Rightarrow> int \<Rightarrow> int \<Rightarrow> fd_selector \<times> world \<Rightarrow> (int \<times> world) res" where
  "serve_to_end rs sock sock6 sw =
     bind_res (main_loop rs sw)
       (\<lambda>(ss, s, w). main_end ss (Some (if ss \<noteq> SELECTOR_SUCCESS then ''serving'' else ''closing'')) (Some s) sock sock6 w)"

section \<open>What is released\<close>

text \<open>
  A connection that stopping releases, or has been: it is in a pool, or its counter is the number of
  descriptors registered for it.
\<close>

definition released :: "nat \<Rightarrow> fd_selector \<Rightarrow> world \<Rightarrow> bool" where
  "released k s w \<longleftrightarrow> (case conns w k of None \<Rightarrow> True
     | Some d \<Rightarrow> k \<in> set (pool w) \<union> set (mng_pool w) \<or> (held s k \<noteq> {} \<and> unat (references d) = card (held s k)))"

lemma released_drop:
  assumes ok: "world_ok n s w" and i: "i \<in> held s k" and d: "conns w k = Some d"
    and drop: "drop_reference k w = Inr w'" and held: "held s' k = held s k - {i}"
    and others: "\<forall>j. j \<noteq> k \<longrightarrow> held s' j = held s j"
  shows "released j s' w' \<longleftrightarrow> released j s w"
proof (cases "j = k")
  case False
  then show ?thesis using drop_reference_cases [OF drop d] others by (auto simp: released_def split: option.splits)
next
  case True
  have out: "k \<notin> set (pool w) \<union> set (mng_pool w)" using held_conn [OF ok i] by blast
  have le: "card (held s k) \<le> unat (references d)" using ok d by (simp add: world_ok_def refs_counted_def)
  have fin: "finite (held s k)" using ok by (simp add: world_ok_def finite_held)
  have card: "card (held s' k) = card (held s k) - 1" "0 < card (held s k)"
    using i fin held by (auto simp: card_gt_0_iff)
  show ?thesis
  proof (cases "references d = 1")
    case one: True
    then have "card (held s k) = unat (references d)" using le card(2) by simp
    then have "released k s w" using d i by (auto simp: released_def)
    moreover have "released k s' w'"
      using drop_reference_cases [OF drop d] one by (auto simp: released_def split: option.splits)
    ultimately show ?thesis using True by simp
  next
    case more: False
    then have w': "w' = w\<lparr>conns := (conns w)(k \<mapsto> d\<lparr>references := references d - 1\<rparr>)\<rparr>"
      using drop_reference_cases [OF drop d] by blast
    have "references d \<noteq> 0" using le card(2) by auto
    then have u: "unat (references d - 1) = unat (references d) - 1" "0 < unat (references d)"
      by (simp_all add: unat_minus_one_word unat_gt_0)
    have two: "unat (references d) \<noteq> 1" using more by (simp add: word_unat_eq_iff)
    have "held s' k \<noteq> {} \<longleftrightarrow> 0 < card (held s' k)" using fin held by (simp add: card_gt_0_iff)
    then have "held s' k \<noteq> {} \<longleftrightarrow> 1 < card (held s k)" using card by linarith
    then have "released k s' w' \<longleftrightarrow> 1 < card (held s k) \<and> unat (references d) - 1 = card (held s k) - 1"
      using out u card(1) unfolding w' released_def by simp
    also have "\<dots> \<longleftrightarrow> unat (references d) = card (held s k)" using card(2) u(2) two by auto
    also have "\<dots> \<longleftrightarrow> released k s w" using d out i by (auto simp: released_def)
    finally show ?thesis using True by simp
  qed
qed

lemma drop_reference_world:
  assumes "drop_reference k w = Inr w'"
  shows "globs w' = globs w" and "events w' = events w"
  using assms by (auto simp: drop_reference_def socks5_destroy_def mng_destroy_def split: option.splits if_splits)

lemma unregister_one:
  assumes ok: "world_ok n s w" and it: "registered s i = Some it"
  shows "\<exists>s' w'. selector_unregister_fd closers (s, w) (int i) = Inr (SELECTOR_SUCCESS, s', w') \<and>
    world_ok n s' w' \<and> registered s' = (registered s)(i := None) \<and> (\<forall>j. released j s' w' \<longleftrightarrow> released j s w) \<and>
    globs w' = globs w \<and> events w' = events w"
proof -
  have inv: "selector_inv s" and kind: "item_kind w it" using ok it by (auto simp: world_ok_def sel_ok_def)
  have hook: "\<exists>w1. close_hook closers it (s, w) = Inr (s, w1) \<and> globs w1 = globs w \<and> events w1 = events w \<and>
    (case it_data it of None \<Rightarrow> w1 = w | Some k \<Rightarrow> drop_reference k w = Inr w1)"
  proof (cases "it_data it")
    case None
    then show ?thesis using close_hook_world [OF kind, of s] by simp
  next
    case (Some k)
    then obtain d where "conns w k = Some d" using kind by (auto simp: item_kind_def)
    then have "\<exists>w1. drop_reference k w = Inr w1"
      by (cases "isSocks d") (simp_all add: drop_reference_def socks5_destroy_def mng_destroy_def)
    then obtain w1 where "drop_reference k w = Inr w1" by blast
    then show ?thesis using close_hook_world [OF kind, of s] Some drop_reference_world by simp
  qed
  then obtain w1 where w1: "close_hook closers it (s, w) = Inr (s, w1)" "globs w1 = globs w" "events w1 = events w"
    "case it_data it of None \<Rightarrow> w1 = w | Some k \<Rightarrow> drop_reference k w = Inr w1" by blast
  obtain s' where s': "selector_unregister_fd closers (s, w) (int i) = Inr (SELECTOR_SUCCESS, s', w1)"
    "registered s' = (registered s)(i := None)"
    using selector_unregister_spec [OF inv it w1(1)] by blast
  have ok': "world_ok n s' w1" by (rule world_ok_unregister [OF ok s'(1)])
  have "released j s' w1 \<longleftrightarrow> released j s w" for j
  proof (cases "it_data it")
    case None
    then have "held s' = held s" using it s'(2) by (auto simp: held_def fun_eq_iff)
    then show ?thesis using w1(4) None by (simp add: released_def cong: option.case_cong)
  next
    case (Some k)
    then have k: "i \<in> held s k" using it by (simp add: held_def)
    then obtain d where d: "conns w k = Some d" using held_conn [OF ok] by blast
    have "held s' k = held s k - {i}" "\<forall>j. j \<noteq> k \<longrightarrow> held s' j = held s j"
      using it s'(2) Some by (auto simp: held_def)
    then show ?thesis using released_drop [OF ok k d] w1(4) Some by simp
  qed
  then show ?thesis using s' ok' w1(2,3) by blast
qed

lemma destroy_items_all:
  assumes "world_ok n s w" and "\<forall>i \<in> set is. i < Suc ITEMS_MAX_SIZE"
  shows "\<exists>s' w'. destroy_items closers is (s, w) = Inr (s', w') \<and> world_ok n s' w' \<and>
    registered s' = (\<lambda>i. if i \<in> set is then None else registered s i) \<and> (\<forall>j. released j s' w' \<longleftrightarrow> released j s w) \<and>
    globs w' = globs w \<and> events w' = events w"
  using assms
proof (induction "is" arbitrary: s w)
  case (Cons i ks)
  have inv: "selector_inv s" "fd_size s = Suc ITEMS_MAX_SIZE" using Cons.prems(1) by (auto simp: world_ok_def sel_ok_def)
  obtain it where it: "item_at s i = Inr it" "registered s i = (if item_used it then Some it else None)"
    using item_at_inv [OF inv(1), of i] Cons.prems(2) inv(2) by auto
  have rest: "\<forall>i \<in> set ks. i < Suc ITEMS_MAX_SIZE" using Cons.prems(2) by simp
  show ?case
  proof (cases "item_used it")
    case False
    have "\<exists>s' w'. destroy_items closers ks (s, w) = Inr (s', w') \<and> world_ok n s' w' \<and>
      registered s' = (\<lambda>i. if i \<in> set ks then None else registered s i) \<and>
      (\<forall>j. released j s' w' \<longleftrightarrow> released j s w) \<and> globs w' = globs w \<and> events w' = events w"
      by (rule Cons.IH [OF Cons.prems(1) rest])
    moreover have "(\<lambda>j. if j \<in> set ks then None else registered s j) = (\<lambda>j. if j \<in> set (i # ks) then None else registered s j)"
      using False it(2) by auto
    ultimately show ?thesis using False it(1) by simp
  next
    case True
    then obtain s1 w1 where one: "selector_unregister_fd closers (s, w) (int i) = Inr (SELECTOR_SUCCESS, s1, w1)"
      "world_ok n s1 w1" "registered s1 = (registered s)(i := None)" "\<forall>j. released j s1 w1 \<longleftrightarrow> released j s w"
      "globs w1 = globs w" "events w1 = events w"
      using unregister_one [OF Cons.prems(1), of i it] it(2) by auto
    obtain s2 w2 where two: "destroy_items closers ks (s1, w1) = Inr (s2, w2)" "world_ok n s2 w2"
      "registered s2 = (\<lambda>i. if i \<in> set ks then None else registered s1 i)" "\<forall>j. released j s2 w2 \<longleftrightarrow> released j s1 w1"
      "globs w2 = globs w1" "events w2 = events w1"
      using Cons.IH [OF one(2) rest] by blast
    have "registered s2 = (\<lambda>j. if j \<in> set (i # ks) then None else registered s j)"
      using two(3) one(3) by auto
    moreover have "destroy_items closers (i # ks) (s, w) = Inr (s2, w2)" using True it(1) one(1) two(1) by simp
    ultimately show ?thesis using two one by (intro exI [of _ s2] exI [of _ w2]) simp
  qed
qed auto

lemma free_conns_all:
  assumes "distinct is" and "\<forall>i \<in> set is. conns w i \<noteq> None"
  shows "free_conns is w = Inr (w\<lparr>conns := (\<lambda>k. if k \<in> set is then None else conns w k)\<rparr>)"
  using assms
proof (induction "is" arbitrary: w)
  case (Cons i ks)
  let ?w = "w\<lparr>conns := (conns w)(i := None)\<rparr>"
  have "\<forall>j \<in> set ks. conns ?w j \<noteq> None" using Cons.prems by auto
  then have "free_conns ks ?w = Inr (?w\<lparr>conns := (\<lambda>k. if k \<in> set ks then None else conns ?w k)\<rparr>)"
    using Cons.IH [of ?w] Cons.prems(1) by simp
  moreover have "(\<lambda>k. if k \<in> set ks then None else conns ?w k) = (\<lambda>k. if k \<in> set (i # ks) then None else conns w k)"
    by auto
  ultimately show ?case using Cons.prems(2) by (auto split: option.splits)
qed simp

lemma free_admins_ok:
  "free_admins us = Inr () \<longleftrightarrow> (\<forall>u \<in> set us. free_str (u_name u) = Inr () \<and> free_str (u_pass u) = Inr ())"
  by (induction us) (auto simp: bind_res_eq_Inr)



end
