(* ===== verification/Char_Parser.thy ===== *)
theory Char_Parser
  imports Client
begin

text \<open>
  \<open>src/parser.c\<close> and \<open>src/parser_utils.c\<close>: an engine for parsers described by a table of transitions,
  and the table that compares a text with a given one without regard to case. The programs of the
  repository do not use them; its tests do.
\<close>

section \<open>The engine\<close>

record parser_event =
  ev_type :: nat
  ev_data :: "byte list"
  ev_n :: byte

type_synonym parser_action = "parser_event \<Rightarrow> byte \<Rightarrow> parser_event"

record transition =
  tr_when :: int
  tr_dest :: nat
  tr_act1 :: parser_action
  tr_act2 :: "parser_action option"

definition ANY :: int where "ANY = 2 ^ 9"

record parser_definition =
  pd_count :: nat
  pd_states :: "transition list list ptr"
  pd_states_n :: "nat list ptr"
  pd_start :: nat

text \<open>\<open>ch_next\<close>: whether the first event points at the second.\<close>

record char_parser =
  ch_classes :: "u32 list"
  ch_def :: parser_definition
  ch_state :: nat
  ch_e1 :: parser_event
  ch_e2 :: parser_event
  ch_next :: bool

definition no_event :: parser_event where
  "no_event = \<lparr>ev_type = 0, ev_data = replicate 3 0, ev_n = 0\<rparr>"

definition char_parser_init :: "bool \<Rightarrow> u32 list \<Rightarrow> parser_definition \<Rightarrow> char_parser ptr" where
  "char_parser_init ok classes def =
     (if ok then Ptr \<lparr>ch_classes = classes, ch_def = def, ch_state = pd_start def, ch_e1 = no_event,
        ch_e2 = no_event, ch_next = False\<rparr> else Null)"

definition char_parser_reset :: "char_parser \<Rightarrow> char_parser" where
  "char_parser_reset p = p\<lparr>ch_state := pd_start (ch_def p)\<rparr>"

definition char_parser_destroy :: "char_parser ptr \<Rightarrow> char_parser ptr res" where
  "char_parser_destroy p = (if p \<noteq> Null then free_ptr p else Inr p)"

definition tr_matches :: "u32 \<Rightarrow> byte \<Rightarrow> transition \<Rightarrow> bool" where
  "tr_matches type c t =
     (if tr_when t \<le> 0xFF then uint c = tr_when t
      else if tr_when t = ANY then True
      else type AND word_of_int (tr_when t) \<noteq> 0)"

definition tr_take :: "transition \<Rightarrow> byte \<Rightarrow> char_parser \<Rightarrow> char_parser" where
  "tr_take t c p =
     (let p1 = p\<lparr>ch_e1 := tr_act1 t (ch_e1 p) c\<rparr>;
          p2 = (case tr_act2 t of
                  None \<Rightarrow> p1
                | Some f \<Rightarrow> p1\<lparr>ch_next := True, ch_e2 := f (ch_e2 p1) c\<rparr>)
      in p2\<lparr>ch_state := tr_dest t\<rparr>)"

fun try_transitions ::
  "u32 \<Rightarrow> byte \<Rightarrow> transition list \<Rightarrow> nat list \<Rightarrow> char_parser \<Rightarrow> char_parser res" where
  "try_transitions type c state [] p = Inr p"
| "try_transitions type c state (i # is) p =
     (if length state \<le> i then Inl Undefined
      else if tr_matches type c (state ! i) then Inr (tr_take (state ! i) c p)
      else try_transitions type c state is p)"

definition char_parser_feed :: "char_parser \<Rightarrow> byte \<Rightarrow> char_parser res" where
  "char_parser_feed p c =
     (if length (ch_classes p) \<le> unat c then Inl Undefined
      else
        bind_res (deref (pd_states (ch_def p)))
          (\<lambda>states. bind_res (deref (pd_states_n (ch_def p)))
            (\<lambda>states_n.
              if length states \<le> ch_state p \<or> length states_n \<le> ch_state p then Inl Undefined
              else try_transitions (ch_classes p ! unat c) c (states ! ch_state p)
                [0..<states_n ! ch_state p] (p\<lparr>ch_next := False\<rparr>))))"

text \<open>An array of 255 entries, although \<open>parser_init\<close> asks for one entry for each of the 256 bytes.\<close>

definition parser_no_classes :: "u32 list" where
  "parser_no_classes = replicate 0xFF 0"

section \<open>Comparing without case\<close>

definition STRING_CMP_MAYEQ :: nat where "STRING_CMP_MAYEQ = 0"
definition STRING_CMP_EQ :: nat where "STRING_CMP_EQ = 1"
definition STRING_CMP_NEQ :: nat where "STRING_CMP_NEQ = 2"

text \<open>Any other number leaves the result of the function uninitialised.\<close>

definition parser_utils_strcmpi_event :: "nat \<Rightarrow> string res" where
  "parser_utils_strcmpi_event type =
     (if type = STRING_CMP_MAYEQ then Inr ''wait(c)''
      else if type = STRING_CMP_EQ then Inr ''eq(c)''
      else if type = STRING_CMP_NEQ then Inr ''neq(c)''
      else Inl Undefined)"

definition may_eq :: parser_action where
  "may_eq e c = e\<lparr>ev_type := STRING_CMP_MAYEQ, ev_n := 1, ev_data := (ev_data e)[0 := c]\<rparr>"

definition eq :: parser_action where
  "eq e c = e\<lparr>ev_type := STRING_CMP_EQ, ev_n := 1, ev_data := (ev_data e)[0 := c]\<rparr>"

definition neq :: parser_action where
  "neq e c = e\<lparr>ev_type := STRING_CMP_NEQ, ev_n := 1, ev_data := (ev_data e)[0 := c]\<rparr>"

definition toupper :: "byte \<Rightarrow> byte" where
  "toupper c = (if 0x61 \<le> c \<and> c \<le> 0x7A then c - 0x20 else c)"

text \<open>The text is of \<open>char\<close>, which is signed: a byte above 127 is a negative number.\<close>

definition char_when :: "(byte \<Rightarrow> byte) \<Rightarrow> byte \<Rightarrow> int" where
  "char_when f c = (if c < 0x80 then uint (f c) else sint c)"

definition any_to :: "nat \<Rightarrow> parser_action \<Rightarrow> transition" where
  "any_to dest f = \<lparr>tr_when = ANY, tr_dest = dest, tr_act1 = f, tr_act2 = None\<rparr>"

definition strcmpi_state :: "byte list \<Rightarrow> nat \<Rightarrow> transition list" where
  "strcmpi_state s i =
     (let n = length s; dest = (if i + 1 = n then n else i + 1); f = (if i + 1 = n then eq else may_eq)
      in [\<lparr>tr_when = char_when tolower (s ! i), tr_dest = dest, tr_act1 = f, tr_act2 = None\<rparr>,
          \<lparr>tr_when = char_when toupper (s ! i), tr_dest = dest, tr_act1 = f, tr_act2 = None\<rparr>,
          any_to (n + 1) neq])"

definition parser_utils_strcmpi :: "bool \<Rightarrow> byte list \<Rightarrow> parser_definition" where
  "parser_utils_strcmpi ok s =
     (if \<not> ok then \<lparr>pd_count = 0, pd_states = Null, pd_states_n = Null, pd_start = 0\<rparr>
      else
        let n = length s
        in \<lparr>pd_count = n + 2,
            pd_states = Ptr (map (strcmpi_state s) [0..<n] @ [[any_to (n + 1) neq], [any_to (n + 1) neq]]),
            pd_states_n = Ptr (replicate n 3 @ [1, 1]), pd_start = 0\<rparr>)"

text \<open>The first block to free is read from \<open>states\<close>.\<close>

definition parser_utils_strcmpi_destroy :: "parser_definition \<Rightarrow> unit res" where
  "parser_utils_strcmpi_destroy d =
     bind_res (deref (pd_states d)) (\<lambda>states. if states = [] then Inl Undefined else Inr ())"

fun feed_all :: "char_parser \<Rightarrow> byte list \<Rightarrow> char_parser res" where
  "feed_all p [] = Inr p"
| "feed_all p (c # cs) = bind_res (char_parser_feed p c) (\<lambda>p'. feed_all p' cs)"

section \<open>The comparison decides\<close>

lemma case_match:
  "x < 0x80 \<Longrightarrow> uint c = char_when tolower x \<or> uint c = char_when toupper x \<longleftrightarrow> tolower c = tolower x"
proof -
  assume x: "x < 0x80"
  have "c = tolower x \<or> c = toupper x \<longleftrightarrow> tolower c = tolower x"
    unfolding tolower_def toupper_def word_unat_eq_iff word_le_nat_alt
    by (auto simp: unat_plus_if' unat_sub_if')
  then show ?thesis using x by (simp add: char_when_def word_uint_eq_iff)
qed

text \<open>The state after a text: how far it agrees.\<close>

definition lower :: "byte list \<Rightarrow> byte list" where
  "lower = map tolower"

definition cmp_state :: "byte list \<Rightarrow> byte list \<Rightarrow> nat" where
  "cmp_state s u = (if lower u = lower s then length s
     else if length u < length s \<and> lower u = take (length u) (lower s) then length u else length s + 1)"

definition cmp_event :: "byte list \<Rightarrow> byte list \<Rightarrow> nat" where
  "cmp_event s u = (if lower u = lower s then STRING_CMP_EQ
     else if length u < length s \<and> lower u = take (length u) (lower s) then STRING_CMP_MAYEQ else STRING_CMP_NEQ)"

lemma lower_simps [simp]: "lower [] = []" "lower (u @ [c]) = lower u @ [tolower c]" "length (lower u) = length u"
  by (simp_all add: lower_def)

definition agrees :: "byte list \<Rightarrow> byte list \<Rightarrow> bool" where
  "agrees s u \<longleftrightarrow> length u < length s \<and> lower u = take (length u) (lower s)"

lemma cmp_agrees:
  "cmp_state s u = (if lower u = lower s then length s else if agrees s u then length u else length s + 1)"
  "cmp_event s u = (if lower u = lower s then STRING_CMP_EQ else if agrees s u then STRING_CMP_MAYEQ else STRING_CMP_NEQ)"
  by (simp_all add: cmp_state_def cmp_event_def agrees_def)

lemma agrees_snoc:
  assumes "agrees s u"
  shows "lower (u @ [c]) = lower s \<longleftrightarrow> Suc (length u) = length s \<and> tolower c = tolower (s ! length u)"
    and "agrees s (u @ [c]) \<longleftrightarrow> Suc (length u) < length s \<and> tolower c = tolower (s ! length u)"
proof -
  have u: "length u < length (lower s)" "lower u = take (length u) (lower s)" using assms by (simp_all add: agrees_def)
  have "take (Suc (length u)) (lower s) = lower u @ [tolower (s ! length u)]"
    using u by (simp add: take_Suc_conv_app_nth) (simp add: lower_def)
  then have next_byte: "lower u @ [tolower c] = take (Suc (length u)) (lower s) \<longleftrightarrow> tolower c = tolower (s ! length u)"
    by simp
  have len: "Suc (length u) = length s" if "lower (u @ [c]) = lower s"
    using arg_cong [OF that, of length] by simp
  show "lower (u @ [c]) = lower s \<longleftrightarrow> Suc (length u) = length s \<and> tolower c = tolower (s ! length u)"
    using next_byte len by (cases "Suc (length u) = length s") auto
  show "agrees s (u @ [c]) \<longleftrightarrow> Suc (length u) < length s \<and> tolower c = tolower (s ! length u)"
    using next_byte by (simp add: agrees_def)
qed

lemma not_agrees_snoc:
  assumes "\<not> agrees s u"
  shows "lower (u @ [c]) \<noteq> lower s" and "\<not> agrees s (u @ [c])"
proof -
  have pre: "agrees s u" if "lower (u @ [c]) = take (Suc (length u)) (lower s)" "length u < length s"
    using that by (auto simp: agrees_def take_Suc_conv_app_nth)
  show "lower (u @ [c]) \<noteq> lower s"
  proof
    assume e: "lower (u @ [c]) = lower s"
    have len: "Suc (length u) = length s" using arg_cong [OF e, of length] by simp
    then have "lower (u @ [c]) = take (Suc (length u)) (lower s)" unfolding e by simp
    then show False using pre len assms by simp
  qed
  show "\<not> agrees s (u @ [c])"
    using pre assms by (auto simp: agrees_def)
qed

definition comparing :: "byte list \<Rightarrow> byte list \<Rightarrow> char_parser \<Rightarrow> bool" where
  "comparing s u p \<longleftrightarrow> ch_classes p = parser_no_classes \<and> ch_def p = parser_utils_strcmpi True s \<and>
     ch_state p = cmp_state s u"

lemma any_step:
  assumes "comparing s u p"
  shows "comparing s v (tr_take (any_to (length s + 1) neq) c (p\<lparr>ch_next := False\<rparr>)) \<longleftrightarrow> cmp_state s v = length s + 1"
    and "ev_type (ch_e1 (tr_take (any_to (length s + 1) neq) c (p\<lparr>ch_next := False\<rparr>))) = STRING_CMP_NEQ"
  using assms by (auto simp: comparing_def tr_take_def any_to_def neq_def)

lemma compare_step:
  assumes "\<forall>x \<in> set s. x < 0x80" and "comparing s u p" and "c \<noteq> 0xFF"
  obtains p' where "char_parser_feed p c = Inr p'" and "comparing s (u @ [c]) p'"
    and "ev_type (ch_e1 p') = cmp_event s (u @ [c])"
proof -
  have "unat c \<noteq> 255" using assms(3) by (simp add: word_unat_eq_iff)
  then have c: "unat c < 255" using byte_le_255 [of c] by linarith
  let ?n = "length s"
  have any: "tr_matches 0 c (any_to d f)" "\<not> tr_when (any_to d f) \<le> 0xFF" for d f
    by (simp_all add: any_to_def tr_matches_def ANY_def)
  have feed: "char_parser_feed p c = try_transitions 0 c
      ((map (strcmpi_state s) [0..<?n] @ [[any_to (?n + 1) neq], [any_to (?n + 1) neq]]) ! cmp_state s u)
      [0..<(replicate ?n 3 @ [1, 1]) ! cmp_state s u] (p\<lparr>ch_next := False\<rparr>)"
    using assms(2) c
    by (auto simp: char_parser_feed_def comparing_def parser_no_classes_def parser_utils_strcmpi_def cmp_state_def Let_def)
  show ?thesis
  proof (cases "agrees s u")
    case True
    then have i: "cmp_state s u = length u" "length u < ?n" by (auto simp: cmp_agrees agrees_def)
    have x: "s ! length u < 0x80" using assms(1) i(2) by simp
    have up: "[0..<3] = [0, 1, 2 :: nat]" by (simp add: upt_rec)
    have low: "char_when tolower (s ! length u) \<le> 0xFF" "char_when toupper (s ! length u) \<le> 0xFF"
      using x byte_uint_bounds(1) [of "tolower (s ! length u)"] byte_uint_bounds(1) [of "toupper (s ! length u)"]
      by (simp_all add: char_when_def)
    let ?p = "p\<lparr>ch_next := False\<rparr>" and ?st = "strcmpi_state s (length u)"
    have run: "char_parser_feed p c = (if tolower c = tolower (s ! length u) then Inr (tr_take (?st ! 0) c ?p)
        else Inr (tr_take (?st ! 2) c ?p))"
    proof -
      have fields: "tr_when (?st ! 0) = char_when tolower (s ! length u)" "tr_when (?st ! 1) = char_when toupper (s ! length u)"
        "?st ! 2 = any_to (?n + 1) neq" "length ?st = 3" "tr_take (?st ! 1) c ?p = tr_take (?st ! 0) c ?p"
        by (simp_all add: strcmpi_state_def tr_take_def Let_def)
      show ?thesis
        unfolding feed i(1) using i(2) case_match [OF x, of c] low fields up
        by (auto simp: nth_append tr_matches_def any_to_def ANY_def)
    qed
    show ?thesis
    proof (cases "tolower c = tolower (s ! length u)")
      case True
      then show ?thesis
        using run assms(2) agrees_snoc [OF \<open>agrees s u\<close>, of c] i(2)
        by (intro that) (auto simp: comparing_def cmp_agrees tr_take_def strcmpi_state_def eq_def may_eq_def Let_def)
    next
      case False
      let ?q = "tr_take (any_to (?n + 1) neq) c ?p"
      have "char_parser_feed p c = Inr ?q" using run False by (simp add: strcmpi_state_def Let_def)
      moreover have "comparing s (u @ [c]) ?q" "ev_type (ch_e1 ?q) = cmp_event s (u @ [c])"
        using any_step [OF assms(2)] False agrees_snoc [OF \<open>agrees s u\<close>, of c] by (simp_all add: cmp_agrees)
      ultimately show ?thesis by (rule that)
    qed
  next
    case False
    then have i: "cmp_state s u = ?n \<or> cmp_state s u = ?n + 1" by (simp add: cmp_agrees)
    let ?q = "tr_take (any_to (?n + 1) neq) c (p\<lparr>ch_next := False\<rparr>)"
    have "char_parser_feed p c = Inr ?q"
      unfolding feed using any i by (auto simp: nth_append)
    moreover have "comparing s (u @ [c]) ?q" "ev_type (ch_e1 ?q) = cmp_event s (u @ [c])"
      using any_step [OF assms(2)] not_agrees_snoc [OF False, of c] by (simp_all add: cmp_agrees)
    ultimately show ?thesis by (rule that)
  qed
qed

text \<open>
  \<open>C40\<close> The comparison without case. Fed any text, one byte at a time, the parser made for an ASCII
  string is in its final state exactly when the text equals the string up to case, and each event
  says how the text so far compares: equal, a proper beginning, or different for good. The byte 255
  is the exception: the table of classes has no entry for it, and feeding it reads outside.
\<close>

theorem strcmpi_decides:
  assumes "\<forall>x \<in> set s. x < 0x80" and "0xFF \<notin> set u"
    and "char_parser_init True parser_no_classes (parser_utils_strcmpi True s) = Ptr p"
  shows "\<exists>p'. feed_all p u = Inr p' \<and> (ch_state p' = length s \<longleftrightarrow> map tolower u = map tolower s) \<and>
    (u \<noteq> [] \<longrightarrow> ev_type (ch_e1 p') =
      (if map tolower u = map tolower s then STRING_CMP_EQ
       else if length u < length s \<and> map tolower u = take (length u) (map tolower s) then STRING_CMP_MAYEQ
       else STRING_CMP_NEQ)) \<and>
    char_parser_feed p' 0xFF = Inl Undefined"
proof -
  have start: "comparing s [] p"
    using assms(3) by (auto simp: char_parser_init_def comparing_def parser_utils_strcmpi_def cmp_state_def lower_def Let_def)
  have "\<exists>p'. feed_all p u = Inr p' \<and> comparing s (v @ u) p' \<and> (u \<noteq> [] \<longrightarrow> ev_type (ch_e1 p') = cmp_event s (v @ u))"
    if "comparing s v p" "0xFF \<notin> set u" for v u p
    using that
  proof (induction u arbitrary: v p)
    case (Cons c u)
    obtain q where q: "char_parser_feed p c = Inr q" "comparing s (v @ [c]) q" "ev_type (ch_e1 q) = cmp_event s (v @ [c])"
      using Cons.prems(2) by (rule_tac compare_step [OF assms(1) Cons.prems(1), of c]) auto
    show ?case
      using Cons.IH [OF q(2)] Cons.prems(2) q(1,3) by (cases u) auto
  qed simp
  from this [OF start assms(2)] obtain p' where p': "feed_all p u = Inr p'" "comparing s u p'"
    "u \<noteq> [] \<longrightarrow> ev_type (ch_e1 p') = cmp_event s u" by auto
  have "char_parser_feed p' 0xFF = Inl Undefined"
    using p'(2) by (simp add: comparing_def char_parser_feed_def parser_no_classes_def)
  then show ?thesis
    using p' by (intro exI [of _ p']) (auto simp: comparing_def cmp_state_def cmp_event_def lower_def)
qed

lemma strcmpi_decides_witness:
  "\<exists>p p'. char_parser_init True parser_no_classes (parser_utils_strcmpi True (bytes_of ''Host'')) = Ptr p \<and>
    feed_all p (bytes_of ''hOST'') = Inr p' \<and> ch_state p' = 4 \<and> ev_type (ch_e1 p') = STRING_CMP_EQ"
  using strcmpi_decides [of "bytes_of ''Host''" "bytes_of ''hOST''"]
  by (auto simp: char_parser_init_def bytes_of_def tolower_def)

end
