(* ===== verification/Net_Utils.thy ===== *)
theory Net_Utils
  imports Args Buffer
begin

text \<open>
  \<open>src/netutils.c\<close>: addresses for people to read, and copying over blocking sockets;
  \<open>src/util.c\<close>: the descriptions of an address, and the comparison of two; \<open>src/metrics.c\<close>: counters.
  Of these the server calls \<open>sockaddr_to_human\<close> only, for its two log lines.

  An array of \<open>char\<close> is a list of bytes, \<open>None\<close> where it is indeterminate. The text of an IPv6 address,
  which \<open>inet_ntop\<close> makes, is an argument \<open>text6\<close>.
\<close>

section \<open>The library\<close>

fun decimal :: "nat \<Rightarrow> byte list" where
  "decimal n = (if n < 10 then [0x30 + of_nat n] else decimal (n div 10) @ [0x30 + of_nat (n mod 10)])"

declare decimal.simps [simp del]

definition ntohs :: "byte list \<Rightarrow> nat" where
  "ntohs p = 256 * unat (p ! 0) + unat (p ! 1)"

definition ipv4_text :: "byte list \<Rightarrow> byte list" where
  "ipv4_text a =
     decimal (unat (a ! 0)) @ [0x2E] @ decimal (unat (a ! 1)) @ [0x2E] @ decimal (unat (a ! 2)) @ [0x2E] @
     decimal (unat (a ! 3))"

definition inet_ntop :: "byte list \<Rightarrow> byte option list \<Rightarrow> nat \<Rightarrow> byte option list res option" where
  "inet_ntop t buf n = (if length t < n then Some (mem_store 0 (map Some (t @ [0])) buf) else None)"

definition strncpy :: "byte option list \<Rightarrow> byte list \<Rightarrow> nat \<Rightarrow> byte option list res" where
  "strncpy buf s n = mem_store 0 (map Some (take n (s @ replicate n 0))) buf"

definition strcpy_at :: "nat \<Rightarrow> byte option list \<Rightarrow> byte list \<Rightarrow> byte option list res" where
  "strcpy_at i buf s = mem_store i (map Some (s @ [0])) buf"

definition strncat :: "byte option list \<Rightarrow> byte list \<Rightarrow> nat \<Rightarrow> byte option list res" where
  "strncat buf s n = bind_res (c_string buf) (\<lambda>t. strcpy_at (length t) buf (take n s))"

definition snprintf_at :: "nat \<Rightarrow> byte option list \<Rightarrow> nat \<Rightarrow> byte list \<Rightarrow> byte option list res" where
  "snprintf_at i buf n s = (if n = 0 then Inr buf else strcpy_at i buf (take (n - 1) s))"

definition terminate :: "byte option list \<Rightarrow> nat \<Rightarrow> byte option list res" where
  "terminate buf n = (if n = 0 then Inl Undefined else mem_store (n - 1) [Some 0] buf)"

definition strlen :: "byte option list \<Rightarrow> nat res" where
  "strlen buf = bind_res (c_string buf) (\<lambda>t. Inr (length t))"

section \<open>Addresses for people\<close>

definition sockaddr_to_human ::
  "(byte list \<Rightarrow> byte list) \<Rightarrow> byte option list \<Rightarrow> nat \<Rightarrow> sockaddr ptr \<Rightarrow> byte option list res" where
  "sockaddr_to_human text6 buff buffsize addr =
     (if addr = Null then strncpy buff (bytes_of ''null'') buffsize
      else bind_res (deref addr)
        (\<lambda>a. let handled =
               (case a of
                  Sa_in x \<Rightarrow> Some (ipv4_text (sin_addr x), sin_port x)
                | Sa_in6 x \<Rightarrow> Some (text6 (sin6_addr x), sin6_port x)
                | Sa_zero \<Rightarrow> None)
             in bind_res
                  (case handled of
                     Some (p, _) \<Rightarrow>
                       (case inet_ntop p buff buffsize of
                          None \<Rightarrow> bind_res (strncpy buff (bytes_of ''unknown ip'') buffsize)
                            (\<lambda>b. terminate b buffsize)
                        | Some r \<Rightarrow> r)
                   | None \<Rightarrow> strncpy buff (bytes_of ''unknown'') buffsize)
                  (\<lambda>b1. bind_res (strncat b1 (bytes_of '':'') buffsize)
                    (\<lambda>b2. bind_res (terminate b2 buffsize)
                      (\<lambda>b3. bind_res (strlen b3)
                        (\<lambda>len. bind_res
                          (case handled of
                             Some (_, np) \<Rightarrow> snprintf_at len b3 (buffsize - len) (decimal (ntohs np))
                           | None \<Rightarrow> Inr b3)
                          (\<lambda>b4. terminate b4 buffsize)))))))"

section \<open>Blocking sockets\<close>

text \<open>
  What the \<open>k\<close>-th call of \<open>send\<close> returns when \<open>n\<close> bytes are offered, the value of \<open>errno\<close> after it,
  and the bytes of the \<open>j\<close>-th call of \<open>recv\<close>, none when it returns 0 or less. The third component of
  the results is what went out.
\<close>

type_synonym sender = "nat \<Rightarrow> nat \<Rightarrow> int"

function blocking_write ::
  "sender \<Rightarrow> (nat \<Rightarrow> int) \<Rightarrow> nat \<Rightarrow> byte list \<Rightarrow> buffer \<Rightarrow> (int \<times> buffer \<times> byte list) res" where
  "blocking_write send errno k out b =
     bind_res (buffer_read_ptr b)
       (\<lambda>(r, n). let nwritten = send k n in
          if nwritten > 0 then
            bind_res (buffer_read_adv b nwritten)
              (\<lambda>b'. let out' = out @ take (nat nwritten) (drop r (buf_data b)) in
                 if buffer_can_read b' then blocking_write send errno (Suc k) out' b' else Inr (0, b', out'))
          else Inr (errno k, b, out))"
  by pat_completeness auto

text \<open>Each turn of the loop takes at least one byte, and a buffer found empty is reset and ends it.\<close>

lemma buffer_read_adv_less:
  assumes "buffer_read_adv b n = Inr b'" and "0 < n" and "buffer_can_read b'"
  shows "buf_write b' - buf_read b' < buf_write b - buf_read b"
  using assms
  by (auto simp: buffer_read_adv_def buffer_compact_def buffer_can_read_def Let_def split: if_splits)

termination blocking_write
  by (relation "measure (\<lambda>(send, errno, k, out, b). buf_write b - buf_read b)")
    (auto intro: buffer_read_adv_less)

definition sock_blocking_write :: "sender \<Rightarrow> (nat \<Rightarrow> int) \<Rightarrow> buffer \<Rightarrow> (int \<times> buffer \<times> byte list) res" where
  "sock_blocking_write send errno b = blocking_write send errno 0 [] b"

text \<open>The inner loop: the number of calls of \<open>send\<close>, the error if it stopped at one, what went out.\<close>

function send_all :: "sender \<Rightarrow> (nat \<Rightarrow> int) \<Rightarrow> nat \<Rightarrow> byte list \<Rightarrow> nat \<times> int option \<times> byte list" where
  "send_all send errno k bs =
     (let nwritten = send k (length bs) in
      if nwritten > 0 then
        if int (length bs) - nwritten > 0
        then (case send_all send errno (Suc k) (drop (nat nwritten) bs) of
                (k', e, out) \<Rightarrow> (k', e, take (nat nwritten) bs @ out))
        else (Suc k, None, take (nat nwritten) bs)
      else (Suc k, Some (errno k), []))"
  by pat_completeness auto
termination
  by (relation "measure (\<lambda>(send, errno, k, bs). length bs)") auto

declare blocking_write.simps [simp del] send_all.simps [simp del]

partial_function (option) blocking_copy ::
  "(nat \<Rightarrow> byte list) \<Rightarrow> sender \<Rightarrow> (nat \<Rightarrow> int) \<Rightarrow> nat \<Rightarrow> nat \<Rightarrow> byte list \<Rightarrow> (int \<times> byte list) option" where
  "blocking_copy recv send errno j k out =
     (if recv j = [] then Some (0, out)
      else case send_all send errno k (take 4096 (recv j)) of
             (k', None, bs) \<Rightarrow> blocking_copy recv send errno (Suc j) k' (out @ bs)
           | (k', Some e, bs) \<Rightarrow> Some (e, out @ bs))"

definition sock_blocking_copy ::
  "(nat \<Rightarrow> byte list) \<Rightarrow> sender \<Rightarrow> (nat \<Rightarrow> int) \<Rightarrow> (int \<times> byte list) option" where
  "sock_blocking_copy recv send errno = blocking_copy recv send errno 0 0 []"

section \<open>What an address reads as\<close>

text \<open>An array that holds a string.\<close>

definition holds_text :: "byte option list \<Rightarrow> byte list \<Rightarrow> bool" where
  "holds_text b s \<longleftrightarrow> 0 \<notin> set s \<and> (\<exists>rest. b = map Some s @ Some 0 # rest)"

lemma holds_c_string: "holds_text b s \<Longrightarrow> c_string b = Inr s"
  by (auto simp: holds_text_def c_string_terminated)

lemma holds_length: "holds_text b s \<Longrightarrow> length s < length b"
  by (auto simp: holds_text_def)

lemma strcpy_holds:
  assumes "take i b = map Some s" and "i = length s" and "i + length t < length b" and "0 \<notin> set s" and "0 \<notin> set t"
  shows "\<exists>b'. strcpy_at i b t = Inr b' \<and> holds_text b' (s @ t) \<and> length b' = length b"
  using assms by (auto simp: strcpy_at_def mem_store_def holds_text_def)

lemma strcpy_over: "length b \<le> i + length t \<Longrightarrow> strcpy_at i b t = Inl Undefined"
  by (simp add: strcpy_at_def mem_store_def)

lemma take_holds: "holds_text b s \<Longrightarrow> take (length s) b = map Some s"
  by (auto simp: holds_text_def)

lemma strncat_holds:
  assumes "holds_text b s" and "0 \<notin> set t" and "length t \<le> n"
  shows "if length s + length t < length b
    then \<exists>b'. strncat b t n = Inr b' \<and> holds_text b' (s @ t) \<and> length b' = length b
    else strncat b t n = Inl Undefined"
  using strcpy_holds [OF take_holds [OF assms(1)] refl _ _ assms(2)] assms strcpy_over [of b "length s" t]
  by (simp add: strncat_def holds_c_string) (simp add: holds_text_def)

lemma terminate_holds:
  assumes "holds_text b s" and "0 < n" and "n \<le> length b"
  shows "\<exists>b'. terminate b n = Inr b' \<and> holds_text b' (take (n - 1) s) \<and> length b' = length b"
proof -
  obtain rest where b: "b = map Some s @ Some 0 # rest" "0 \<notin> set s" using assms(1) by (auto simp: holds_text_def)
  have t: "terminate b n = Inr (b[n - 1 := Some 0])"
    using assms(2,3) by (simp add: terminate_def mem_store_one)
  have nz: "0 \<notin> set (take (n - 1) s)" using b(2) by (meson in_set_takeD)
  have "holds_text (b[n - 1 := Some 0]) (take (n - 1) s)"
  proof (cases "n - 1 < length s")
    case True
    then have "b[n - 1 := Some 0] = map Some (take (n - 1) s) @ Some 0 # (drop n (map Some s) @ Some 0 # rest)"
      using b(1) assms(2) by (simp add: list_update_append upd_conv_take_nth_drop take_map)
    then show ?thesis using nz by (auto simp: holds_text_def)
  next
    case False
    then have "\<exists>rest'. b[n - 1 := Some 0] = map Some s @ Some 0 # rest'"
      using b(1) by (cases "n - 1 = length s") (auto simp: list_update_append split: nat.split)
    then show ?thesis using False b(2) by (auto simp: holds_text_def)
  qed
  then show ?thesis using t by simp
qed

lemma snprintf_holds:
  assumes "holds_text b s" and "0 \<notin> set t" and "length s < n" and "n \<le> length b"
  shows "\<exists>b'. snprintf_at (length s) b (n - length s) t = Inr b' \<and> holds_text b' (s @ take (n - 1 - length s) t) \<and>
    length b' = length b"
proof -
  have "0 \<notin> set (take (n - length s - 1) t)" using assms(2) by (meson in_set_takeD)
  moreover have "n - length s - 1 = n - 1 - length s" by simp
  ultimately show ?thesis
    using strcpy_holds [OF take_holds [OF assms(1)] refl, of "take (n - length s - 1) t"] assms
    by (simp add: snprintf_at_def) (simp add: holds_text_def)
qed

lemma strncpy_holds:
  assumes "length s < n" and "n \<le> length b" and "0 \<notin> set s"
  shows "\<exists>b'. strncpy b s n = Inr b' \<and> holds_text b' s \<and> length b' = length b"
proof -
  have "replicate (n - length s) (Some 0) = Some 0 # replicate (n - length s - 1) (Some (0 :: byte))"
    using assms(1) by (cases "n - length s") auto
  then show ?thesis
    using assms by (auto simp: strncpy_def mem_store_def holds_text_def min_def)
qed

lemma strncpy_cut:
  assumes "n \<le> length s" and "n \<le> length b" and "0 < n" and "0 \<notin> set s"
  shows "\<exists>b'. bind_res (strncpy b s n) (\<lambda>b. terminate b n) = Inr b' \<and> holds_text b' (take (n - 1) s) \<and> length b' = length b"
proof -
  have "strncpy b s n = Inr (map Some (take n s) @ drop n b)"
    using assms(1,2) by (simp add: strncpy_def mem_store_def)
  moreover have "(map Some (take n s) @ drop n b)[n - 1 := Some 0] = map Some (take (n - 1) s) @ Some 0 # drop n b"
    using assms(1,3) by (simp add: list_update_append upd_conv_take_nth_drop take_map min_def)
  moreover have "0 \<notin> set (take (n - 1) s)" using assms(4) by (meson in_set_takeD)
  ultimately show ?thesis
    using assms by (auto simp: terminate_def mem_store_one holds_text_def)
qed

lemma decimal_no_zero: "0 \<notin> set (decimal n)"
proof (induction n rule: decimal.induct)
  case (1 n)
  have "(0x30 :: byte) + of_nat d \<noteq> 0" if "d < 10" for d
    using that by (simp add: word_unat_eq_iff unat_word_ariths unat_of_nat)
  then show ?case
    using 1 by (subst decimal.simps) auto
qed

definition host_text :: "(byte list \<Rightarrow> byte list) \<Rightarrow> nat \<Rightarrow> sockaddr \<Rightarrow> byte list" where
  "host_text text6 n a =
     (let cut = (\<lambda>t. if length t < n then t else take (n - 1) (bytes_of ''unknown ip''))
      in case a of Sa_in x \<Rightarrow> cut (ipv4_text (sin_addr x)) | Sa_in6 x \<Rightarrow> cut (text6 (sin6_addr x))
         | Sa_zero \<Rightarrow> bytes_of ''unknown'')"

definition port_text :: "sockaddr \<Rightarrow> byte list" where
  "port_text a = (case a of Sa_in x \<Rightarrow> decimal (ntohs (sin_port x)) | Sa_in6 x \<Rightarrow> decimal (ntohs (sin6_port x))
     | Sa_zero \<Rightarrow> [])"

lemma text_no_zero:
  "0 \<notin> set (ipv4_text a)" "0 \<notin> set (port_text b)" "0 \<notin> set (bytes_of ''unknown'')" "0 \<notin> set (bytes_of ''unknown ip'')"
  by (auto simp: ipv4_text_def port_text_def decimal_no_zero split: sockaddr.split)

lemma ntop_holds:
  assumes "0 < n" and "n \<le> length b" and "0 \<notin> set t"
  shows "\<exists>b'. (case inet_ntop t b n of
      None \<Rightarrow> bind_res (strncpy b (bytes_of ''unknown ip'') n) (\<lambda>b. terminate b n)
    | Some r \<Rightarrow> r) = Inr b' \<and> length b' = length b \<and>
    holds_text b' (if length t < n then t else take (n - 1) (bytes_of ''unknown ip''))"
proof (cases "length t < n")
  case True
  then show ?thesis using assms by (auto simp: inet_ntop_def mem_store_def holds_text_def)
next
  case False
  let ?u = "bytes_of ''unknown ip''"
  show ?thesis
  proof (cases "n \<le> length ?u")
    case True
    then show ?thesis
      using strncpy_cut [OF True assms(2,1) text_no_zero(4)] \<open>\<not> length t < n\<close> by (auto simp: inet_ntop_def)
  next
    case cut: False
    then obtain b' where b': "strncpy b ?u n = Inr b'" "holds_text b' ?u" "length b' = length b"
      using strncpy_holds [OF _ assms(2) text_no_zero(4)] by auto
    then show ?thesis
      using terminate_holds [OF b'(2) assms(1)] assms(2) cut \<open>\<not> length t < n\<close> by (auto simp: inet_ntop_def)
  qed
qed

lemma take_port: "take m (take m x @ take (m - length (take m x)) y) = take m (x @ y)"
  by (simp add: min_def)

text \<open>After the host: the colon, the end, the port, the end again.\<close>

lemma port_appended:
  assumes "holds_text b h" and "0 < n" and "n \<le> length b" and "0 \<notin> set p"
    and "\<And>b s. holds_text b s \<Longrightarrow> f (length s) b = snprintf_at (length s) b (n - length s) p"
  shows "if length h + 1 < length b
    then \<exists>b'. bind_res (strncat b (bytes_of '':'') n)
        (\<lambda>b2. bind_res (terminate b2 n) (\<lambda>b3. bind_res (strlen b3)
          (\<lambda>len. bind_res (f len b3) (\<lambda>b4. terminate b4 n)))) = Inr b' \<and>
      holds_text b' (take (n - 1) (h @ bytes_of '':'' @ p)) \<and> length b' = length b
    else strncat b (bytes_of '':'') n = Inl Undefined"
proof (cases "length h + 1 < length b")
  case True
  let ?c = "bytes_of '':''"
  let ?s = "take (n - 1) (h @ ?c)"
  obtain b2 where b2: "strncat b ?c n = Inr b2" "holds_text b2 (h @ ?c)" "length b2 = length b"
    using strncat_holds [OF assms(1), of ?c n] assms(2) True by auto
  obtain b3 where b3: "terminate b2 n = Inr b3" "holds_text b3 ?s" "length b3 = length b"
    using terminate_holds [OF b2(2) assms(2)] assms(3) b2(3) by auto
  have less: "length ?s < n" using assms(2) by simp
  obtain b4 where b4: "f (length ?s) b3 = Inr b4"
    "holds_text b4 (?s @ take (n - 1 - length ?s) p)" "length b4 = length b"
    using snprintf_holds [OF b3(2) assms(4) less] assms(3) b3(3) assms(5) [OF b3(2)] by metis
  obtain b5 where b5: "terminate b4 n = Inr b5" "holds_text b5 (take (n - 1) (?s @ take (n - 1 - length ?s) p))"
    "length b5 = length b"
    using terminate_holds [OF b4(2) assms(2)] assms(3) b4(3) by metis
  have "holds_text b5 (take (n - 1) (h @ ?c @ p))" using b5(2) by (simp only: take_port append_assoc)
  moreover have "strlen b3 = Inr (length ?s)" using holds_c_string [OF b3(2)] by (simp only: strlen_def bind_res_simps)
  ultimately show ?thesis
    using True b2(1) b3(1) b4(1) b5(1,3) by (simp only: bind_res_simps if_True) blast
next
  case False
  then show ?thesis using strncat_holds [OF assms(1), of "bytes_of '':''" n] assms(2) by auto
qed

text \<open>
  Addresses in the log. Given an array of at least \<open>n\<close> bytes, \<open>sockaddr_to_human\<close> leaves in it the
  address, a colon and the port, cut to \<open>n - 1\<close> bytes, whatever the array held; an address that does
  not fit in \<open>n\<close> bytes reads "unknown ip", another family "unknown". It writes past the array exactly
  when the text of the address fills it, so that no room is left for the colon that \<open>strncat\<close> appends.
\<close>

theorem human_address:
  assumes "0 < n" and "n \<le> length buff" and "\<forall>x. 0 \<notin> set (text6 x)" and "a = Sa_zero \<longrightarrow> 7 < n"
  shows "if length (host_text text6 n a) + 1 < length buff
    then \<exists>b'. sockaddr_to_human text6 buff n (Ptr a) = Inr b' \<and> length b' = length buff \<and>
      c_string b' = Inr (take (n - 1) (host_text text6 n a @ bytes_of '':'' @ port_text a))
    else sockaddr_to_human text6 buff n (Ptr a) = Inl Undefined"
proof -
  let ?h = "host_text text6 n a"
  define handled where "handled = (case a of
                  Sa_in x \<Rightarrow> Some (ipv4_text (sin_addr x), sin_port x)
                | Sa_in6 x \<Rightarrow> Some (text6 (sin6_addr x), sin6_port x)
                | Sa_zero \<Rightarrow> None)"
  let ?first = "case handled of
                     Some (p, _) \<Rightarrow>
                       (case inet_ntop p buff n of
                          None \<Rightarrow> bind_res (strncpy buff (bytes_of ''unknown ip'') n) (\<lambda>b. terminate b n)
                        | Some r \<Rightarrow> r)
                   | None \<Rightarrow> strncpy buff (bytes_of ''unknown'') n"
  obtain b1 where b1: "?first = Inr b1" "holds_text b1 ?h" "length b1 = length buff"
  proof (cases a)
    case Sa_zero
    then show ?thesis
      using that strncpy_holds [OF _ assms(2) text_no_zero(3)] assms(4) by (auto simp: handled_def host_text_def)
  next
    case (Sa_in x)
    show ?thesis
      using that ntop_holds [OF assms(1,2) text_no_zero(1) [of "sin_addr x"]] Sa_in
      by (auto simp: handled_def host_text_def Let_def)
  next
    case (Sa_in6 x)
    show ?thesis
      using that ntop_holds [OF assms(1,2), of "text6 (sin6_addr x)"] assms(3) Sa_in6
      by (auto simp: handled_def host_text_def Let_def)
  qed
  let ?f = "\<lambda>len b. case handled of Some (_, np) \<Rightarrow> snprintf_at len b (n - len) (decimal (ntohs np)) | None \<Rightarrow> Inr b"
  have f: "?f (length s) b = snprintf_at (length s) b (n - length s) (port_text a)" if "holds_text b s" for b s
    using that
    by (auto simp: handled_def port_text_def snprintf_at_def strcpy_at_def mem_store_def holds_text_def split: sockaddr.split)
  have "sockaddr_to_human text6 buff n (Ptr a) = bind_res (strncat b1 (bytes_of '':'') n)
      (\<lambda>b2. bind_res (terminate b2 n) (\<lambda>b3. bind_res (strlen b3)
        (\<lambda>len. bind_res (?f len b3) (\<lambda>b4. terminate b4 n))))"
    using b1(1) unfolding sockaddr_to_human_def handled_def [symmetric] by (simp add: Let_def handled_def [symmetric])
  then show ?thesis
    using port_appended [OF b1(2) assms(1) _ text_no_zero(2) [of a] f] assms(2) b1(3)
    by (auto dest: holds_c_string split: if_splits)
qed

lemma human_address_witness:
  "\<exists>b'. sockaddr_to_human (\<lambda>_. []) (replicate 50 None) 11 (Ptr (Sa_in \<lparr>sin_addr = [1, 2, 3, 4], sin_port = [0x23, 0x82]\<rparr>)) = Inr b' \<and>
    c_string b' = Inr (bytes_of ''1.2.3.4:90'')"
proof -
  let ?a = "Sa_in \<lparr>sin_addr = [1, 2, 3, 4], sin_port = [0x23, 0x82]\<rparr>"
  have d: "decimal 1 = bytes_of ''1''" "decimal 2 = bytes_of ''2''" "decimal 3 = bytes_of ''3''"
    "decimal 4 = bytes_of ''4''" "decimal 9090 = bytes_of ''9090''"
    by (simp_all add: decimal.simps)
  have "host_text (\<lambda>_. []) 11 ?a = bytes_of ''1.2.3.4''" "port_text ?a = bytes_of ''9090''"
    using d by (simp_all add: host_text_def ipv4_text_def port_text_def ntohs_def)
  then show ?thesis using human_address [of 11 "replicate 50 None" "\<lambda>_. []" ?a] by auto
qed

section \<open>What goes through blocking sockets\<close>

lemma send_all_sends:
  assumes "send_all send errno k bs = (k', e, out)"
  shows "(case e of None \<Rightarrow> out = bs | Some _ \<Rightarrow> length out < length bs \<or> bs = []) \<and> out = take (length out) bs \<and>
    ((\<forall>k n. 0 < n \<longrightarrow> 0 < send k n) \<and> bs \<noteq> [] \<longrightarrow> e = None)"
  using assms
proof (induction send errno k bs arbitrary: k' e out rule: send_all.induct)
  case (1 send errno k bs)
  let ?w = "send k (length bs)"
  show ?case
  proof (cases "0 < ?w \<and> 0 < int (length bs) - ?w")
    case True
    obtain k1 e1 out1 where r: "send_all send errno (Suc k) (drop (nat ?w) bs) = (k1, e1, out1)"
      by (metis prod_cases3)
    have o: "out = take (nat ?w) bs @ out1" "e = e1"
      using 1(2) True r by (auto simp: send_all.simps [of send errno k bs] Let_def)
    have ih: "(case e1 of None \<Rightarrow> out1 = drop (nat ?w) bs
        | Some _ \<Rightarrow> length out1 < length (drop (nat ?w) bs) \<or> drop (nat ?w) bs = []) \<and>
      out1 = take (length out1) (drop (nat ?w) bs) \<and>
      ((\<forall>k n. 0 < n \<longrightarrow> 0 < send k n) \<and> drop (nat ?w) bs \<noteq> [] \<longrightarrow> e1 = None)"
      using 1(1) [OF refl _ _ r] True by simp
    have w: "nat ?w < length bs" using True by linarith
    have "out = take (length out) bs"
      using ih o(1) w by (metis append_take_drop_id append_eq_conv_conj length_append take_add length_take min.absorb4)
    then show ?thesis using ih o w by (auto split: option.splits)
  next
    case False
    then show ?thesis
      using 1(2) by (auto simp: send_all.simps [of send errno k bs] Let_def split: if_splits)
  qed
qed

lemma blocking_copy_step:
  assumes "\<forall>k n. 0 < n \<longrightarrow> 0 < send k n" and "recv j \<noteq> []"
  obtains k' where "\<And>out. blocking_copy recv send errno j k out =
    blocking_copy recv send errno (Suc j) k' (out @ take 4096 (recv j))"
    and "send_all send errno k (take 4096 (recv j)) = (k', None, take 4096 (recv j))"
proof -
  obtain k' e bs where r: "send_all send errno k (take 4096 (recv j)) = (k', e, bs)" by (metis prod_cases3)
  have "e = None" "bs = take 4096 (recv j)" using send_all_sends [OF r] assms by auto
  then show ?thesis using r assms(2) by (intro that [of k']) (simp_all add: blocking_copy.simps)
qed

lemma blocking_copy_ends:
  assumes "\<forall>k n. 0 < n \<longrightarrow> 0 < send k n" and "recv (j + d) = []" and "\<forall>i < d. recv (j + i) \<noteq> []"
  shows "blocking_copy recv send errno j k out = Some (0, out @ concat (map (\<lambda>i. take 4096 (recv i)) [j..<j + d]))"
  using assms(2,3)
proof (induction d arbitrary: j k out)
  case 0
  then show ?case by (simp add: blocking_copy.simps)
next
  case (Suc d)
  have "recv j \<noteq> []" using Suc.prems(2) by force
  then obtain k' where k': "blocking_copy recv send errno j k out =
      blocking_copy recv send errno (Suc j) k' (out @ take 4096 (recv j))"
    using blocking_copy_step [OF assms(1)] by metis
  have "recv (Suc j + d) = []" "\<forall>i < d. recv (Suc j + i) \<noteq> []" using Suc.prems by auto
  moreover have "[j..<j + Suc d] = j # [Suc j..<Suc j + d]" by (simp add: upt_conv_Cons del: upt_Suc)
  ultimately show ?case unfolding k' using Suc.IH [of "Suc j"] by (simp del: upt_Suc)
qed

lemma blocking_copy_endless:
  assumes ret: "blocking_copy recv send errno j k out = Some r" and "\<forall>k n. 0 < n \<longrightarrow> 0 < send k n"
  shows "\<exists>j. recv j = []"
proof (rule ccontr)
  assume none: "\<nexists>j. recv j = []"
  have "recv = rc \<longrightarrow> send = sd \<longrightarrow> False" if "blocking_copy rc sd errno j k out = Some r" for rc sd errno j k out r
  proof (rule blocking_copy.raw_induct [where P = "\<lambda>rc sd er j k out r. recv = rc \<longrightarrow> send = sd \<longrightarrow> False", OF _ that])
    fix f rc sd er j k out r
    assume ih: "\<And>rc sd er j k out r. f rc sd er j k out = Some r \<Longrightarrow> recv = rc \<longrightarrow> send = sd \<longrightarrow> False"
      and eq: "(if rc j = [] then Some (0, out) else case send_all sd er k (take 4096 (rc j)) of
             (k', None, bs) \<Rightarrow> f rc sd er (Suc j) k' (out @ bs)
           | (k', Some e, bs) \<Rightarrow> Some (e, out @ bs)) = Some r"
    show "recv = rc \<longrightarrow> send = sd \<longrightarrow> False"
    proof (intro impI)
      assume same: "recv = rc" "send = sd"
      have "recv j \<noteq> []" using none by simp
      from blocking_copy_step [where recv = recv and j = j and send = send, OF assms(2) this] obtain k' where
        "send_all send er k (take 4096 (recv j)) = (k', None, take 4096 (recv j))" by metis
      then have "f recv send er (Suc j) k' (out @ take 4096 (recv j)) = Some r" using eq none same by simp
      then show False using ih by blast
    qed
  qed
  then show False using ret by blast
qed

text \<open>
  \<open>C39\<close> Copying between blocking sockets. As long as the destination takes something at each call,
  \<open>sock_blocking_copy\<close> returns exactly when the source comes to an end; then it returns 0 and has sent,
  in order, all that the source gave. How much each call of \<open>send\<close> takes makes no difference.
\<close>

theorem blocking_copy_returns:
  assumes "\<forall>k n. 0 < n \<longrightarrow> 0 < send k n"
  shows "sock_blocking_copy recv send errno =
    (if \<exists>j. recv j = [] then Some (0, concat (map (\<lambda>j. take 4096 (recv j)) [0..<LEAST j. recv j = []])) else None)"
proof (cases "\<exists>j. recv j = []")
  case True
  let ?d = "LEAST j. recv j = []"
  have end0: "recv (0 + ?d) = []" using True by (auto intro: LeastI_ex)
  have before: "\<forall>i < ?d. recv (0 + i) \<noteq> []" by (auto dest: not_less_Least)
  show ?thesis
    unfolding sock_blocking_copy_def if_P [OF True]
    using blocking_copy_ends [OF assms end0 before, of errno 0 "[]"] by (simp only: add_0 append_Nil)
next
  case False
  have "blocking_copy recv send errno 0 0 [] = None"
  proof (rule ccontr)
    assume "blocking_copy recv send errno 0 0 [] \<noteq> None"
    then obtain r where "blocking_copy recv send errno 0 0 [] = Some r" by blast
    from blocking_copy_endless [OF this assms] show False using False by contradiction
  qed
  then show ?thesis unfolding sock_blocking_copy_def if_not_P [OF False] .
qed

theorem blocking_copy_returns_witness:
  "\<exists>recv. recv 2 = [] \<and> sock_blocking_copy recv (\<lambda>k n. if n = 0 then 0 else 1) (\<lambda>k. 0) = Some (0, [1, 2, 3])"
proof -
  define recv :: "nat \<Rightarrow> byte list" where "recv j = (if j = 0 then [1, 2] else if j = 1 then [3] else [])" for j
  have "(LEAST j. recv j = []) = 2" by (rule Least_equality) (auto simp: recv_def split: if_splits)
  moreover have "[0..<2] = [0, 1 :: nat]" by (simp add: upt_rec)
  moreover have "recv 2 = []" by (simp add: recv_def)
  ultimately have "sock_blocking_copy recv (\<lambda>k n. if n = 0 then 0 else 1) (\<lambda>k. 0) = Some (0, [1, 2, 3])"
    using blocking_copy_returns [of "\<lambda>k n. if n = 0 then 0 else 1" recv "\<lambda>k. 0"] by (auto simp: recv_def)
  then show ?thesis using \<open>recv 2 = []\<close> by blast
qed

lemma blocking_write_sends:
  assumes "\<forall>k n. send k n \<le> int n" and "buffer_inv b"
  shows "\<exists>ret b' sent. blocking_write send errno k out b = Inr (ret, b', out @ sent) \<and> buffer_inv b' \<and>
    sent @ buffer_contents b' = buffer_contents b \<and>
    ((\<forall>k n. 0 < n \<longrightarrow> 0 < send k n) \<and> buffer_contents b \<noteq> [] \<longrightarrow> ret = 0 \<and> buffer_contents b' = [])"
  using assms
proof (induction send errno k out b rule: blocking_write.induct)
  case (1 send errno k out b)
  let ?c = "buffer_contents b" and ?w = "send k (length (buffer_contents b))"
  note ptr = buffer_read_ptr_inv [OF 1(3)]
  show ?case
  proof (cases "0 < ?w")
    case False
    then show ?thesis
      using 1(3) ptr by (auto simp: blocking_write.simps [of send errno k out b] Let_def)
  next
    case True
    have "?w \<le> int (length ?c)" using 1(2) by blast
    then have w: "nat ?w \<le> length ?c" "int (nat ?w) = ?w" using True by linarith+
    obtain b' where b': "buffer_read_adv b ?w = Inr b'" "buffer_inv b'" "buffer_contents b' = drop (nat ?w) ?c"
      using buffer_read_adv_spec [OF 1(3) w(1)] w(2) by metis
    have sent: "take (nat ?w) (drop (buf_read b) (buf_data b)) = take (nat ?w) ?c"
      using w(1) buffer_contents_length [OF 1(3)] by (simp add: buffer_contents_def min_def)
    let ?out = "out @ take (nat ?w) ?c"
    show ?thesis
    proof (cases "buffer_can_read b'")
      case False
      then have "drop (nat ?w) ?c = []" using b'(2,3) by (simp add: buffer_can_read_iff)
      then show ?thesis
        using False True ptr b' sent w(1)
        by (auto simp: blocking_write.simps [of send errno k out b] Let_def)
    next
      case more: True
      have eq: "blocking_write send errno k out b = blocking_write send errno (Suc k) ?out b'"
        using more True ptr b'(1) sent by (simp add: blocking_write.simps [of send errno k out b] Let_def)
      have nonempty: "buffer_contents b' \<noteq> []" using more b'(2) by (simp add: buffer_can_read_iff)
      have "\<exists>ret b2 sent2. blocking_write send errno (Suc k) ?out b' = Inr (ret, b2, ?out @ sent2) \<and>
        buffer_inv b2 \<and> sent2 @ buffer_contents b2 = buffer_contents b' \<and>
        ((\<forall>k n. 0 < n \<longrightarrow> 0 < send k n) \<and> buffer_contents b' \<noteq> [] \<longrightarrow> ret = 0 \<and> buffer_contents b2 = [])"
        using 1(1) [OF ptr refl refl True b'(1) _ more 1(2) b'(2), of ?out] sent by simp
      then obtain ret b2 sent2 where ih: "blocking_write send errno (Suc k) ?out b' = Inr (ret, b2, ?out @ sent2)"
        "buffer_inv b2" "sent2 @ buffer_contents b2 = buffer_contents b'"
        "(\<forall>k n. 0 < n \<longrightarrow> 0 < send k n) \<and> buffer_contents b' \<noteq> [] \<longrightarrow> ret = 0 \<and> buffer_contents b2 = []"
        by blast
      have "(take (nat ?w) ?c @ sent2) @ buffer_contents b2 = ?c" using ih(3) b'(3) by simp
      then show ?thesis using eq ih nonempty by auto
    qed
  qed
qed

end
