(* ===== verification/Util.thy ===== *)
theory Util
  imports Net_Utils
begin

text \<open>
  \<open>src/util.c\<close>: descriptions of an address for people, and the comparison of two addresses;
  \<open>src/metrics.c\<close>: a record of counters; \<open>src/logger.c\<close>: the level of the log; and
  \<open>src/tcpClientUtil.c\<close>: a connection to the first address of a name that accepts it. The programs of
  the build do not call these functions.
\<close>

section \<open>Descriptions\<close>

text \<open>\<open>struct addrinfo\<close>, with the numbers of the platform.\<close>

record addrinfo_c =
  aic_family :: int
  aic_socktype :: int
  aic_protocol :: int
  aic_flags :: u32
  aic_addr :: sockaddr

definition AF_UNSPEC_NUM :: int where "AF_UNSPEC_NUM = 0"
definition AF_UNIX_NUM :: int where "AF_UNIX_NUM = 1"
definition AF_INET_NUM :: int where "AF_INET_NUM = 2"
definition AF_INET6_NUM :: int where "AF_INET6_NUM = 10"

definition printFamily :: "addrinfo_c \<Rightarrow> string" where
  "printFamily aip =
     (if aic_family aip = AF_INET_NUM then ''inet''
      else if aic_family aip = AF_INET6_NUM then ''inet6''
      else if aic_family aip = AF_UNIX_NUM then ''unix''
      else if aic_family aip = AF_UNSPEC_NUM then ''unspecified''
      else ''unknown'')"

definition printType :: "addrinfo_c \<Rightarrow> string" where
  "printType aip =
     (if aic_socktype aip = 1 then ''stream''
      else if aic_socktype aip = 2 then ''datagram''
      else if aic_socktype aip = 5 then ''seqpacket''
      else if aic_socktype aip = 3 then ''raw''
      else ''unknown '')"

definition printProtocol :: "addrinfo_c \<Rightarrow> string" where
  "printProtocol aip =
     (if aic_protocol aip = 0 then ''default''
      else if aic_protocol aip = 6 then ''TCP''
      else if aic_protocol aip = 17 then ''UDP''
      else if aic_protocol aip = 255 then ''raw''
      else ''unknown '')"

text \<open>What goes to the standard output.\<close>

definition flag_text :: "u32 \<Rightarrow> u32 \<Rightarrow> string \<Rightarrow> string" where
  "flag_text flags f s = (if flags AND f \<noteq> 0 then s else [])"

definition printFlags :: "addrinfo_c \<Rightarrow> string" where
  "printFlags aip =
     ''flags'' @
     (if aic_flags aip = 0 then '' 0''
      else flag_text (aic_flags aip) 0x0001 '' passive'' @
           flag_text (aic_flags aip) 0x0002 '' canon'' @
           flag_text (aic_flags aip) 0x0004 '' numhost'' @
           flag_text (aic_flags aip) 0x0400 '' numserv'' @
           flag_text (aic_flags aip) 0x0008 '' v4mapped'' @
           flag_text (aic_flags aip) 0x0010 '' all'')"

text \<open>
  The text of the address, in an array of its own of 46 bytes, of which 16 are for IPv4; the first
  store of the text in \<open>addr\<close> is not bounded.
\<close>

definition address_text :: "byte list \<Rightarrow> nat \<Rightarrow> byte list" where
  "address_text t n = (if length t < n then t else bytes_of ''unknown'')"

definition append_port :: "byte list \<Rightarrow> byte list \<Rightarrow> byte option list \<Rightarrow> byte option list res" where
  "append_port sep p addr =
     (if ntohs p = 0 then Inr addr
      else bind_res (strlen addr) (\<lambda>i. strcpy_at i addr (sep @ decimal (ntohs p))))"

definition printAddressPort ::
  "(byte list \<Rightarrow> byte list) \<Rightarrow> addrinfo_c \<Rightarrow> byte option list \<Rightarrow> byte option list res" where
  "printAddressPort text6 aip addr =
     (case aic_addr aip of
        Sa_in s \<Rightarrow> bind_res (strcpy_at 0 addr (address_text (ipv4_text (sin_addr s)) 16))
          (append_port (bytes_of '': '') (sin_port s))
      | Sa_in6 s \<Rightarrow> bind_res (strcpy_at 0 addr (address_text (text6 (sin6_addr s)) 46))
          (append_port (bytes_of '': '') (sin6_port s))
      | Sa_zero \<Rightarrow> strcpy_at 0 addr (bytes_of ''unknown''))"

definition printSocketAddress ::
  "(byte list \<Rightarrow> byte list) \<Rightarrow> sockaddr \<Rightarrow> byte option list \<Rightarrow> (int \<times> byte option list) res" where
  "printSocketAddress text6 address addrBuffer =
     (let go = (\<lambda>t p. case inet_ntop t addrBuffer 46 of
            None \<Rightarrow> strcpy_at 0 addrBuffer (bytes_of ''[invalid address]'')
          | Some r \<Rightarrow> bind_res r (append_port (bytes_of '':'') p))
      in case address of
           Sa_in s \<Rightarrow> bind_res (go (ipv4_text (sin_addr s)) (sin_port s)) (\<lambda>b. Inr (1, b))
         | Sa_in6 s \<Rightarrow> bind_res (go (text6 (sin6_addr s)) (sin6_port s)) (\<lambda>b. Inr (1, b))
         | Sa_zero \<Rightarrow> bind_res (strcpy_at 0 addrBuffer (bytes_of ''[unknown type]'')) (\<lambda>b. Inr (0, b)))"

text \<open>The family 0 is equal to itself only as a pointer.\<close>

definition sockAddrsEqual :: "sockaddr option \<Rightarrow> sockaddr option \<Rightarrow> bool" where
  "sockAddrsEqual addr1 addr2 =
     (case (addr1, addr2) of
        (None, _) \<Rightarrow> addr2 = None
      | (Some _, None) \<Rightarrow> False
      | (Some (Sa_in a), Some (Sa_in b)) \<Rightarrow> sin_addr a = sin_addr b \<and> sin_port a = sin_port b
      | (Some (Sa_in6 a), Some (Sa_in6 b)) \<Rightarrow> sin6_addr a = sin6_addr b \<and> sin6_port a = sin6_port b
      | _ \<Rightarrow> False)"

lemma sockAddrsEqual_iff:
  "sockAddrsEqual a b \<longleftrightarrow> a = b \<and> a \<noteq> Some Sa_zero"
  by (auto simp: sockAddrsEqual_def split: option.splits sockaddr.splits)


section \<open>Counters\<close>

record metrics_t =
  historic_connections :: u64
  concurrent_connections :: u64
  max_concurrent_connections :: u64
  historic_connections_attempts :: u64
  connecting_clients :: u64
  historic_byte_transfer :: u64
  historic_auth_attempts :: u64
  total_reads_m :: u64
  metrics_average_bytes_per_read_m :: u64
  total_writes_m :: u64
  metrics_average_bytes_per_write_m :: u64

definition init_metrics :: metrics_t where
  "init_metrics = \<lparr>historic_connections = 0, concurrent_connections = 0, max_concurrent_connections = 0,
     historic_connections_attempts = 0, connecting_clients = 0, historic_byte_transfer = 0,
     historic_auth_attempts = 0, total_reads_m = 0, metrics_average_bytes_per_read_m = 0,
     total_writes_m = 0, metrics_average_bytes_per_write_m = 0\<rparr>"

definition add_connecting_clients :: "metrics_t \<Rightarrow> metrics_t" where
  "add_connecting_clients m = m\<lparr>connecting_clients := connecting_clients m + 1\<rparr>"

definition end_connecting_clients :: "metrics_t \<Rightarrow> metrics_t" where
  "end_connecting_clients m = m\<lparr>connecting_clients := connecting_clients m - 1\<rparr>"

text \<open>Also whether it complains; the maximum is never set but to 0, so it always does.\<close>

definition add_connection :: "metrics_t \<Rightarrow> metrics_t \<times> bool" where
  "add_connection m =
     (let m' = m\<lparr>historic_connections := historic_connections m + 1,
                 concurrent_connections := concurrent_connections m + 1\<rparr>
      in (m', concurrent_connections m' \<ge> max_concurrent_connections m'))"

definition end_connection :: "metrics_t \<Rightarrow> metrics_t" where
  "end_connection m = m\<lparr>concurrent_connections := concurrent_connections m - 1\<rparr>"

text \<open>The \<open>int\<close> is extended to 64 bits, with its sign.\<close>

definition add_bytes :: "metrics_t \<Rightarrow> u32 \<Rightarrow> metrics_t" where
  "add_bytes m n = m\<lparr>historic_byte_transfer := historic_byte_transfer m + scast n\<rparr>"

definition add_read :: "metrics_t \<Rightarrow> metrics_t" where
  "add_read m = m\<lparr>total_reads_m := total_reads_m m + 1\<rparr>"

definition add_write :: "metrics_t \<Rightarrow> metrics_t" where
  "add_write m = m\<lparr>total_writes_m := total_writes_m m + 1\<rparr>"

definition get_current_connections :: "metrics_t \<Rightarrow> int" where
  "get_current_connections m = sint (ucast (concurrent_connections m) :: u32)"

definition get_historic_connections :: "metrics_t \<Rightarrow> int" where
  "get_historic_connections m = sint (ucast (historic_connections m) :: u32)"

definition get_bytes :: "metrics_t \<Rightarrow> int" where
  "get_bytes m = sint (ucast (historic_byte_transfer m) :: u32)"

definition get_connecting_clients :: "metrics_t \<Rightarrow> int" where
  "get_connecting_clients m = sint (ucast (connecting_clients m) :: u32)"

section \<open>The log\<close>

definition DEBUG :: nat where "DEBUG = 0"
definition INFO :: nat where "INFO = 1"
definition LOG_ERROR :: nat where "LOG_ERROR = 2"
definition FATAL :: nat where "FATAL = 3"

record logger =
  current_level :: nat
  error_flag :: bool

definition initial_logger :: logger where
  "initial_logger = \<lparr>current_level = DEBUG, error_flag = True\<rparr>"

definition setLogLevel :: "nat \<Rightarrow> logger \<Rightarrow> logger" where
  "setLogLevel newLevel l = (if DEBUG \<le> newLevel \<and> newLevel \<le> FATAL then l\<lparr>current_level := newLevel\<rparr> else l)"

definition levelDescription :: "nat \<Rightarrow> string" where
  "levelDescription level =
     (if level < DEBUG \<or> FATAL < level then [] else [''DEBUG'', ''INFO'', ''ERROR'', ''FATAL''] ! level)"

text \<open>What goes to \<open>stderr\<close>, for a message already formatted; a fatal one ends the program.\<close>

definition log_text :: "nat \<Rightarrow> string \<Rightarrow> logger \<Rightarrow> string" where
  "log_text level msg l =
     (if current_level l \<le> level then levelDescription level @ '': '' @ msg @ [CHR 0x0A] else [])"

definition log_print :: "nat \<Rightarrow> string \<Rightarrow> logger \<Rightarrow> (string \<times> logger) res" where
  "log_print level msg l =
     (if level = FATAL then Inl Exited
      else Inr (log_text level msg l, if level = LOG_ERROR then l\<lparr>error_flag := True\<rparr> else l))"

section \<open>A connection to a name\<close>

text \<open>
  The descriptor that \<open>socket\<close> gives for the \<open>i\<close>-th address, and whether \<open>connect\<close> succeeds on it. The
  second component of the result is what was closed.
\<close>

fun connect_first ::
  "(nat \<Rightarrow> int) \<Rightarrow> (nat \<Rightarrow> bool) \<Rightarrow> nat \<Rightarrow> addrinfo_c list \<Rightarrow> int \<Rightarrow> int \<times> int list" where
  "connect_first socket connects i [] sock = (sock, [])"
| "connect_first socket connects i (addr # addrs) sock =
     (if sock \<noteq> -1 then (sock, [])
      else if socket i \<ge> 0 then
        (if connects i then connect_first socket connects (Suc i) addrs (socket i)
         else let (r, closed) = connect_first socket connects (Suc i) addrs (-1) in (r, socket i # closed))
      else connect_first socket connects (Suc i) addrs (socket i))"

definition tcpClientSocket ::
  "addrinfo_c list option \<Rightarrow> (nat \<Rightarrow> int) \<Rightarrow> (nat \<Rightarrow> bool) \<Rightarrow> int \<times> int list" where
  "tcpClientSocket found socket connects =
     (case found of None \<Rightarrow> (-1, []) | Some addrs \<Rightarrow> connect_first socket connects 0 addrs (-1))"

lemma connect_first_done: "sock \<noteq> -1 \<Longrightarrow> connect_first socket connects i addrs sock = (sock, [])"
  by (cases addrs) auto

text \<open>The first address that accepts, every descriptor opened before it closed.\<close>

definition usable :: "(nat \<Rightarrow> int) \<Rightarrow> (nat \<Rightarrow> bool) \<Rightarrow> nat \<Rightarrow> bool" where
  "usable socket connects i \<longleftrightarrow> 0 \<le> socket i \<and> connects i"

lemma connect_first_result:
  assumes "\<forall>i. -1 \<le> socket i"
  shows "connect_first socket connects i addrs (-1) =
    (case filter (usable socket connects) [i..<i + length addrs] of
       [] \<Rightarrow> (-1, filter (\<lambda>s. 0 \<le> s) (map socket [i..<i + length addrs]))
     | j # _ \<Rightarrow> (socket j, filter (\<lambda>s. 0 \<le> s) (map socket [i..<j])))"
proof (induction addrs arbitrary: i)
  case (Cons a addrs)
  have up: "[i..<i + length (a # addrs)] = i # [Suc i..<Suc i + length addrs]"
    by (simp add: upt_conv_Cons del: upt_Suc)
  have neg: "socket i = -1" if "\<not> 0 \<le> socket i" using assms that by (smt (verit))
  have lo: "[i..<j] = i # [Suc i..<j]" if "j \<in> set [Suc i..<Suc i + length addrs]" for j
    using that by (subst upt_conv_Cons) (auto simp del: upt_Suc)
  have later: "j \<in> set [Suc i..<Suc i + length addrs]"
    if "filter (usable socket connects) [Suc i..<Suc i + length addrs] = j # js" for j js
    using that by (metis filter_is_subset list.set_intros(1) subset_iff)
  show ?case
  proof (cases "usable socket connects i")
    case True
    then have "0 \<le> socket i" "connects i" by (simp_all add: usable_def)
    then show ?thesis
      unfolding up using True by (simp add: connect_first_done del: upt_Suc)
  next
    case False
    have step: "connect_first socket connects i (a # addrs) (-1) =
        (let (r, closed) = connect_first socket connects (Suc i) addrs (-1)
         in (r, (if 0 \<le> socket i then [socket i] else []) @ closed))"
      using False neg by (auto simp: usable_def split: prod.splits)
    show ?thesis
    proof (cases "filter (usable socket connects) [Suc i..<Suc i + length addrs]")
      case Nil
      then show ?thesis unfolding step up Cons.IH using False by (simp del: upt_Suc)
    next
      case (Cons k ks)
      then show ?thesis
        unfolding step up Cons.IH using False lo [OF later [OF Cons]] by (simp del: upt_Suc)
    qed
  qed
qed simp

end
