(* ===== verification/Forwarder.thy ===== *)
theory Forwarder
  imports Prelude
begin

text \<open>
  \<open>src/server.c\<close>: a forwarder on its own. Each client that connects to port 8888 gets a connection
  to one fixed destination, and what one end sends goes to the other. No target of the build compiles
  the file; its \<open>main\<close> is the precursor of the server's.

  The two arrays of descriptors are lists of integers, 0 where free. What the kernel does in one turn
  of the loop is a record; what is printed is left out.
\<close>

section \<open>The code\<close>

definition MAX_CLIENTS :: nat where "MAX_CLIENTS = 500"
definition BUFF_SIZE :: nat where "BUFF_SIZE = 1025"
definition FWD_SETSIZE :: int where "FWD_SETSIZE = 1024"

datatype fwd_event = Fwd_closed int | Fwd_sent int "byte list"

record fwd =
  client_socket :: "int list"
  directed_client_socket :: "int list"
  fwd_buffer :: "byte option list"
  fwd_log :: "fwd_event list"

text \<open>The results of \<open>socket\<close>, \<open>setsockopt\<close>, \<open>bind\<close> and \<open>listen\<close>.\<close>

definition fwd_start :: "int \<Rightarrow> int \<Rightarrow> int \<Rightarrow> int \<Rightarrow> (int \<times> fwd) res" where
  "fwd_start master_socket setopt bound listening =
     (if master_socket \<le> 0 then Inl Exited
      else if setopt < 0 then Inl Exited
      else if bound < 0 then Inl Exited
      else if listening < 0 then Inl Exited
      else Inr (master_socket,
        \<lparr>client_socket = replicate MAX_CLIENTS 0, directed_client_socket = replicate MAX_CLIENTS 0,
         fwd_buffer = replicate BUFF_SIZE None, fwd_log = []\<rparr>))"

text \<open>
  One turn: the descriptors left in \<open>readfds\<close> after \<open>select\<close>, what \<open>accept\<close> and \<open>socket\<close> return,
  whether the address is found and the connection made, and what \<open>read\<close> gives for a descriptor,
  \<open>None\<close> for -1.
\<close>

record fwd_io =
  fw_ready :: "int \<Rightarrow> bool"
  fw_accept :: int
  fw_found :: bool
  fw_socket :: int
  fw_connect :: bool
  fw_read :: "int \<Rightarrow> byte list option"

text \<open>The set given to \<open>select\<close>, and its largest descriptor. \<open>FD_SET\<close> needs one below \<open>FD_SETSIZE\<close>.\<close>

definition watched :: "int \<Rightarrow> fwd \<Rightarrow> int list" where
  "watched master_socket s =
     master_socket # concat (map (\<lambda>i. (if client_socket s ! i > 0 then [client_socket s ! i] else []) @
       (if directed_client_socket s ! i > 0 then [directed_client_socket s ! i] else [])) [0..<MAX_CLIENTS])"

definition max_sd :: "int \<Rightarrow> fwd \<Rightarrow> int" where
  "max_sd master_socket s =
     fold (\<lambda>i m. max (max m (client_socket s ! i)) (directed_client_socket s ! i)) [0..<MAX_CLIENTS] master_socket"

fun free_slot :: "int list \<Rightarrow> nat \<Rightarrow> nat option" where
  "free_slot [] i = None"
| "free_slot (sd # sds) i = (if sd = 0 then Some i else free_slot sds (Suc i))"

definition fwd_accept :: "int \<Rightarrow> fwd_io \<Rightarrow> fwd \<Rightarrow> fwd res" where
  "fwd_accept master_socket io s =
     (if fw_ready io master_socket then
        if fw_accept io < 0 then Inl Exited
        else if \<not> fw_found io then Inl Exited
        else if \<not> fw_connect io then Inl Exited
        else Inr (case free_slot (client_socket s) 0 of
            None \<Rightarrow> s
          | Some i \<Rightarrow> s\<lparr>directed_client_socket := (directed_client_socket s)[i := fw_socket io],
                       client_socket := (client_socket s)[i := fw_accept io]\<rparr>)
      else Inr s)"

text \<open>
  A message is stored at the start of the buffer and a NUL after it; when \<open>read\<close> fails the NUL goes
  before the buffer. What is sent is the string in the buffer.
\<close>

definition fwd_message :: "byte option list \<Rightarrow> byte list option \<Rightarrow> (byte option list \<times> byte list) res" where
  "fwd_message buf r =
     (case r of
        None \<Rightarrow> Inl Undefined
      | Some bs \<Rightarrow> bind_res (mem_store 0 (map Some bs) buf)
          (\<lambda>b1. bind_res (mem_store (length bs) [Some 0] b1)
            (\<lambda>b2. bind_res (c_string b2) (\<lambda>t. Inr (b2, t)))))"

definition serve_client :: "fwd_io \<Rightarrow> nat \<Rightarrow> fwd \<Rightarrow> fwd res" where
  "serve_client io i s =
     (let sd = client_socket s ! i; directed_sd = directed_client_socket s ! i in
      if FWD_SETSIZE \<le> sd then Inl Undefined
      else if \<not> fw_ready io sd then Inr s
      else if fw_read io sd = Some [] then
        Inr (s\<lparr>client_socket := (client_socket s)[i := 0],
               directed_client_socket := (directed_client_socket s)[i := 0],
               fwd_log := fwd_log s @ [Fwd_closed sd, Fwd_closed directed_sd]\<rparr>)
      else bind_res (fwd_message (fwd_buffer s) (fw_read io sd))
        (\<lambda>(b, t). Inr (s\<lparr>fwd_buffer := b, fwd_log := fwd_log s @ [Fwd_sent directed_sd t]\<rparr>)))"

definition serve_destination :: "fwd_io \<Rightarrow> nat \<Rightarrow> fwd \<Rightarrow> fwd res" where
  "serve_destination io i s =
     (let directed_sd = directed_client_socket s ! i; sd = client_socket s ! i in
      if FWD_SETSIZE \<le> directed_sd then Inl Undefined
      else if \<not> fw_ready io directed_sd then Inr s
      else if fw_read io directed_sd = Some [] then
        Inr (s\<lparr>directed_client_socket := (directed_client_socket s)[i := 0],
               client_socket := (client_socket s)[i := 0],
               fwd_log := fwd_log s @ [Fwd_closed directed_sd, Fwd_closed sd]\<rparr>)
      else bind_res (fwd_message (fwd_buffer s) (fw_read io directed_sd))
        (\<lambda>(b, t). Inr (s\<lparr>fwd_buffer := b, fwd_log := fwd_log s @ [Fwd_sent sd t]\<rparr>)))"

fun serve_slots :: "(nat \<Rightarrow> fwd \<Rightarrow> fwd res) \<Rightarrow> nat list \<Rightarrow> fwd \<Rightarrow> fwd res" where
  "serve_slots f [] s = Inr s"
| "serve_slots f (i # is) s = bind_res (f i s) (serve_slots f is)"

definition fwd_turn :: "int \<Rightarrow> fwd_io \<Rightarrow> fwd \<Rightarrow> fwd res" where
  "fwd_turn master_socket io s =
     (if \<exists>sd \<in> set (watched master_socket s). FWD_SETSIZE \<le> sd then Inl Undefined
      else bind_res (fwd_accept master_socket io s)
        (\<lambda>s1. bind_res (serve_slots (serve_client io) [0..<MAX_CLIENTS] s1)
          (serve_slots (serve_destination io) [0..<MAX_CLIENTS])))"

text \<open>The loop never ends: the states it can be in.\<close>

inductive fwd_runs :: "int \<Rightarrow> fwd \<Rightarrow> bool" where
  start: "fwd_start m so bd li = Inr (m, s) \<Longrightarrow> fwd_runs m s"
| turn: "fwd_runs m s \<Longrightarrow> fwd_turn m io s = Inr s' \<Longrightarrow> fwd_runs m s'"

section \<open>What is forwarded\<close>

lemma fwd_message_iff:
  "length buf = BUFF_SIZE \<Longrightarrow> length bs < BUFF_SIZE \<Longrightarrow>
   \<exists>b. fwd_message buf (Some bs) = Inr (b, takeWhile (\<lambda>c. c \<noteq> 0) bs) \<and> length b = BUFF_SIZE"
  by (auto simp: fwd_message_def mem_store_def c_string_prefix)

text \<open>What happens for one descriptor, whose other end is another.\<close>

definition slot_log :: "fwd_io \<Rightarrow> int \<Rightarrow> int \<Rightarrow> fwd_event list" where
  "slot_log io sd other =
     (if \<not> fw_ready io sd then []
      else case fw_read io sd of
             None \<Rightarrow> []
           | Some bs \<Rightarrow> if bs = [] then [Fwd_closed sd, Fwd_closed other]
                        else [Fwd_sent other (takeWhile (\<lambda>c. c \<noteq> 0) bs)])"

definition slot_closed :: "fwd_io \<Rightarrow> int \<Rightarrow> bool" where
  "slot_closed io sd \<longleftrightarrow> fw_ready io sd \<and> fw_read io sd = Some []"

definition fwd_ok :: "fwd \<Rightarrow> bool" where
  "fwd_ok s \<longleftrightarrow> length (client_socket s) = MAX_CLIENTS \<and> length (directed_client_socket s) = MAX_CLIENTS \<and>
     length (fwd_buffer s) = BUFF_SIZE"

text \<open>The kernel keeps to its promise: at most what was asked for, and no error for a ready descriptor.\<close>

definition reads_ok :: "fwd_io \<Rightarrow> int \<Rightarrow> bool" where
  "reads_ok io sd \<longleftrightarrow> sd < FWD_SETSIZE \<and> (fw_ready io sd \<longrightarrow> (\<exists>bs. fw_read io sd = Some bs \<and> length bs < BUFF_SIZE))"

definition pair :: "fwd \<Rightarrow> nat \<Rightarrow> int \<times> int" where
  "pair s i = (client_socket s ! i, directed_client_socket s ! i)"

lemma serve_client_does:
  assumes "fwd_ok s" and "i < MAX_CLIENTS" and "pair s i = (sd, d)" and "reads_ok io sd"
  shows "\<exists>s'. serve_client io i s = Inr s' \<and> fwd_ok s' \<and> fwd_log s' = fwd_log s @ slot_log io sd d \<and>
    pair s' i = (if slot_closed io sd then (0, 0) else (sd, d)) \<and> (\<forall>j. j \<noteq> i \<longrightarrow> pair s' j = pair s j)"
proof (cases "fw_ready io sd \<and> fw_read io sd \<noteq> Some []")
  case True
  then obtain bs where bs: "fw_read io sd = Some bs" "length bs < BUFF_SIZE" "bs \<noteq> []"
    using assms(4) by (auto simp: reads_ok_def)
  have "length (fwd_buffer s) = BUFF_SIZE" using assms(1) by (simp add: fwd_ok_def)
  from fwd_message_iff [OF this bs(2)] obtain b where
    "fwd_message (fwd_buffer s) (Some bs) = Inr (b, takeWhile (\<lambda>c. c \<noteq> 0) bs)" "length b = BUFF_SIZE" by blast
  then show ?thesis
    using True assms bs
    by (auto simp: serve_client_def Let_def pair_def fwd_ok_def slot_log_def slot_closed_def reads_ok_def)
next
  case False
  then show ?thesis
    using assms
    by (auto simp: serve_client_def Let_def pair_def fwd_ok_def slot_log_def slot_closed_def reads_ok_def)
qed

lemma serve_destination_does:
  assumes "fwd_ok s" and "i < MAX_CLIENTS" and "pair s i = (sd, d)" and "reads_ok io d"
  shows "\<exists>s'. serve_destination io i s = Inr s' \<and> fwd_ok s' \<and> fwd_log s' = fwd_log s @ slot_log io d sd \<and>
    pair s' i = (if slot_closed io d then (0, 0) else (sd, d)) \<and> (\<forall>j. j \<noteq> i \<longrightarrow> pair s' j = pair s j)"
proof (cases "fw_ready io d \<and> fw_read io d \<noteq> Some []")
  case True
  then obtain bs where bs: "fw_read io d = Some bs" "length bs < BUFF_SIZE" "bs \<noteq> []"
    using assms(4) by (auto simp: reads_ok_def)
  have "length (fwd_buffer s) = BUFF_SIZE" using assms(1) by (simp add: fwd_ok_def)
  from fwd_message_iff [OF this bs(2)] obtain b where
    "fwd_message (fwd_buffer s) (Some bs) = Inr (b, takeWhile (\<lambda>c. c \<noteq> 0) bs)" "length b = BUFF_SIZE" by blast
  then show ?thesis
    using True assms bs
    by (auto simp: serve_destination_def Let_def pair_def fwd_ok_def slot_log_def slot_closed_def reads_ok_def)
next
  case False
  then show ?thesis
    using assms
    by (auto simp: serve_destination_def Let_def pair_def fwd_ok_def slot_log_def slot_closed_def reads_ok_def)
qed

text \<open>A pass over the slots, for either loop: each slot is served by itself.\<close>

lemma serve_slots_pass:
  assumes step: "\<And>s i. fwd_ok s \<Longrightarrow> i < MAX_CLIENTS \<Longrightarrow> ok (pair s i) \<Longrightarrow>
      \<exists>s'. f i s = Inr s' \<and> fwd_ok s' \<and> fwd_log s' = fwd_log s @ out (pair s i) \<and>
        pair s' i = nxt (pair s i) \<and> (\<forall>j. j \<noteq> i \<longrightarrow> pair s' j = pair s j)"
    and "fwd_ok s" and "distinct is" and "\<forall>i \<in> set is. i < MAX_CLIENTS \<and> ok (pair s i)"
  shows "\<exists>s'. serve_slots f is s = Inr s' \<and> fwd_ok s' \<and>
    fwd_log s' = fwd_log s @ concat (map (\<lambda>i. out (pair s i)) is) \<and>
    (\<forall>i. pair s' i = (if i \<in> set is then nxt (pair s i) else pair s i))"
  using assms(2-)
proof (induction "is" arbitrary: s)
  case (Cons i ks)
  obtain s1 where s1: "f i s = Inr s1" "fwd_ok s1" "fwd_log s1 = fwd_log s @ out (pair s i)"
    "pair s1 i = nxt (pair s i)" "\<forall>j. j \<noteq> i \<longrightarrow> pair s1 j = pair s j"
    using step [OF Cons.prems(1), of i] Cons.prems(3) by auto
  have same: "pair s1 j = pair s j" if "j \<in> set ks" for j using s1(5) that Cons.prems(2) by auto
  then have "\<forall>j \<in> set ks. j < MAX_CLIENTS \<and> ok (pair s1 j)" using Cons.prems(3) by auto
  from Cons.IH [OF s1(2) _ this] Cons.prems(2) obtain s2 where s2:
    "serve_slots f ks s1 = Inr s2" "fwd_ok s2" "fwd_log s2 = fwd_log s1 @ concat (map (\<lambda>i. out (pair s1 i)) ks)"
    "\<forall>j. pair s2 j = (if j \<in> set ks then nxt (pair s1 j) else pair s1 j)" by auto
  have rest: "map (\<lambda>i. out (pair s1 i)) ks = map (\<lambda>i. out (pair s i)) ks" using same by (simp cong: map_cong)
  have "fwd_log s2 = fwd_log s @ concat (map (\<lambda>i. out (pair s i)) (i # ks))" unfolding s2(3) s1(3) rest by simp
  moreover have "pair s2 j = (if j \<in> set (i # ks) then nxt (pair s j) else pair s j)" for j
    using s2(4) s1(4,5) same Cons.prems(2) by (cases "j = i") auto
  moreover have "serve_slots f (i # ks) s = Inr s2" using s1(1) s2(1) by simp
  ultimately show ?case using s2(2) by blast
qed simp

lemma fwd_accept_ok:
  assumes "fwd_accept m io s = Inr s1" and "fwd_ok s"
  shows "fwd_ok s1" and "fwd_log s1 = fwd_log s"
  using assms by (auto simp: fwd_accept_def fwd_ok_def split: if_splits option.splits)

lemma fwd_turn_passes:
  assumes "fwd_ok s" and "fwd_accept m io s = Inr s1" and "\<forall>sd \<in> set (watched m s). sd < FWD_SETSIZE"
    and "\<not> fw_ready io 0"
    and reads: "\<forall>i < MAX_CLIENTS. reads_ok io (client_socket s1 ! i) \<and> reads_ok io (directed_client_socket s1 ! i)"
  shows "\<exists>s'. fwd_turn m io s = Inr s' \<and> fwd_ok s' \<and>
    fwd_log s' = fwd_log s @
      concat (map (\<lambda>i. slot_log io (client_socket s1 ! i) (directed_client_socket s1 ! i)) [0..<MAX_CLIENTS]) @
      concat (map (\<lambda>i. if slot_closed io (client_socket s1 ! i) then []
        else slot_log io (directed_client_socket s1 ! i) (client_socket s1 ! i)) [0..<MAX_CLIENTS]) \<and>
    (\<forall>i < MAX_CLIENTS. pair s' i =
      (if slot_closed io (client_socket s1 ! i) \<or> slot_closed io (directed_client_socket s1 ! i) then (0, 0)
       else pair s1 i))"
proof -
  note s1 = fwd_accept_ok [OF assms(2,1)]
  let ?nxt1 = "\<lambda>p. if slot_closed io (fst p) then (0, 0) else p"
  let ?nxt2 = "\<lambda>p. if slot_closed io (snd p) then (0, 0) else p"
  have zero: "reads_ok io 0" using assms(4) by (simp add: reads_ok_def FWD_SETSIZE_def)
  have all: "\<forall>i \<in> set [0..<MAX_CLIENTS]. i < MAX_CLIENTS \<and> reads_ok io (fst (pair s1 i))"
    using reads by (simp add: pair_def)
  have step1: "\<exists>s'. serve_client io i s = Inr s' \<and> fwd_ok s' \<and>
      fwd_log s' = fwd_log s @ slot_log io (fst (pair s i)) (snd (pair s i)) \<and>
      pair s' i = ?nxt1 (pair s i) \<and> (\<forall>j. j \<noteq> i \<longrightarrow> pair s' j = pair s j)"
    if "fwd_ok s" "i < MAX_CLIENTS" "reads_ok io (fst (pair s i))" for s i
    using serve_client_does [of s i "fst (pair s i)" "snd (pair s i)" io] that
    by (cases "slot_closed io (fst (pair s i))") simp_all
  have step2: "\<exists>s'. serve_destination io i s = Inr s' \<and> fwd_ok s' \<and>
      fwd_log s' = fwd_log s @ slot_log io (snd (pair s i)) (fst (pair s i)) \<and>
      pair s' i = ?nxt2 (pair s i) \<and> (\<forall>j. j \<noteq> i \<longrightarrow> pair s' j = pair s j)"
    if "fwd_ok s" "i < MAX_CLIENTS" "reads_ok io (snd (pair s i))" for s i
    using serve_destination_does [of s i "fst (pair s i)" "snd (pair s i)" io] that
    by (cases "slot_closed io (snd (pair s i))") simp_all
  from serve_slots_pass [where ok = "\<lambda>p. reads_ok io (fst p)" and f = "serve_client io"
        and out = "\<lambda>p. slot_log io (fst p) (snd p)" and nxt = ?nxt1, OF step1 s1(1) distinct_upt all]
  obtain s2 where s2: "serve_slots (serve_client io) [0..<MAX_CLIENTS] s1 = Inr s2" "fwd_ok s2"
    "fwd_log s2 = fwd_log s1 @ concat (map (\<lambda>i. slot_log io (fst (pair s1 i)) (snd (pair s1 i))) [0..<MAX_CLIENTS])"
    "\<forall>i. pair s2 i = (if i \<in> set [0..<MAX_CLIENTS] then ?nxt1 (pair s1 i) else pair s1 i)"
    by blast
  have all2: "\<forall>i \<in> set [0..<MAX_CLIENTS]. i < MAX_CLIENTS \<and> reads_ok io (snd (pair s2 i))"
    using s2(4) reads zero by (simp add: pair_def)
  from serve_slots_pass [where ok = "\<lambda>p. reads_ok io (snd p)" and f = "serve_destination io"
        and out = "\<lambda>p. slot_log io (snd p) (fst p)" and nxt = ?nxt2, OF step2 s2(2) distinct_upt all2]
  obtain s3 where s3: "serve_slots (serve_destination io) [0..<MAX_CLIENTS] s2 = Inr s3" "fwd_ok s3"
    "fwd_log s3 = fwd_log s2 @ concat (map (\<lambda>i. slot_log io (snd (pair s2 i)) (fst (pair s2 i))) [0..<MAX_CLIENTS])"
    "\<forall>i. pair s3 i = (if i \<in> set [0..<MAX_CLIENTS] then ?nxt2 (pair s2 i) else pair s2 i)"
    by blast
  have idle: "slot_log io 0 0 = []" "\<not> slot_closed io 0"
    using assms(4) by (simp_all add: slot_log_def slot_closed_def)
  have second: "map (\<lambda>i. slot_log io (snd (pair s2 i)) (fst (pair s2 i))) [0..<MAX_CLIENTS] =
      map (\<lambda>i. if slot_closed io (client_socket s1 ! i) then []
        else slot_log io (directed_client_socket s1 ! i) (client_socket s1 ! i)) [0..<MAX_CLIENTS]"
    using s2(4) idle by (auto simp: pair_def)
  have turn: "fwd_turn m io s = Inr s3" using assms(2,3) s2(1) s3(1) by (auto simp: fwd_turn_def not_le)
  moreover have "fwd_log s3 = fwd_log s @
      concat (map (\<lambda>i. slot_log io (client_socket s1 ! i) (directed_client_socket s1 ! i)) [0..<MAX_CLIENTS]) @
      concat (map (\<lambda>i. if slot_closed io (client_socket s1 ! i) then []
        else slot_log io (directed_client_socket s1 ! i) (client_socket s1 ! i)) [0..<MAX_CLIENTS])"
    using s3(3) s2(3) s1(2) unfolding second by (simp add: pair_def)
  moreover have "\<forall>i < MAX_CLIENTS. pair s3 i =
      (if slot_closed io (client_socket s1 ! i) \<or> slot_closed io (directed_client_socket s1 ! i) then (0, 0)
       else pair s1 i)"
    using s3(4) s2(4) idle by (auto simp: pair_def)
  ultimately show ?thesis using s3(2) by blast
qed

end
