(* ===== verification/Spec2Isabelle.thy ===== *)
theory Spec2Isabelle
  imports Client_Server Resolution Whole_Session Protocol Shutdown Char_Parser Util Forwarder
begin

text \<open>
  A SOCKS5 proxy server with a management protocol, and its management client, in C. One thread of
  the server serves every connection: \<open>main\<close> (\<open>src/main.c\<close>) opens the listening sockets, registers
  them in a selector and calls \<open>selector_select\<close> for ever; accepting a connection registers it with
  the handlers of its protocol; each handler feeds the state machine of its connection, whose states
  read a message, parse it, act and answer. Names are resolved in a second thread, which gives its
  result back through the selector.

  The theories, from the bottom up, and the code they model.

  \<^item> \<open>Prelude\<close>: machine types, outcomes of C code (\<open>res\<close>: a fault or a value), pointers, byte memory.
  \<^item> \<open>Buffer\<close>: \<open>buffer.c\<close>. Its operations implement a bounded queue.
  \<^item> \<open>Stm\<close>: \<open>stm.c\<close>, over any handlers; the locale \<open>stm_client\<close> is what the engine asks of them.
  \<^item> \<open>Selector\<close>: \<open>selector.c\<close>, over any handlers. The table, the two descriptor sets and the
    maximum stay consistent; registering inserts, unregistering deletes.
  \<^item> \<open>Stream_Parser\<close>, \<open>Hello_Parser\<close>, \<open>New_Parser\<close>, \<open>Request_Parser\<close>, \<open>Password_Parser\<close>: the parsers,
    fed one byte at a time (\<open>hello.c\<close>, \<open>new_parser.c\<close>, \<open>request_parser.c\<close>, \<open>password_parser.c\<close>).
  \<^item> \<open>Users\<close>: the globals of \<open>main.c\<close>, the accounts, and the replies of \<open>management_request.c\<close>.
  \<^item> \<open>Server\<close>: \<open>struct socks5\<close> and the structures of \<open>states.h\<close>, and what a handler sees: its key, the
    selector, the world (every connection, the pools, the globals), and what the kernel answers.
  \<^item> \<open>Handshake\<close>, \<open>Connect\<close>, \<open>Copy\<close>, \<open>Mng_Request\<close>: the handlers of the states (\<open>hello.c\<close>,
    \<open>authentication.c\<close>, \<open>request.c\<close>, \<open>resolv.c\<close>, \<open>connecting.c\<close>, \<open>copy.c\<close>, \<open>management_request.c\<close>).
  \<^item> \<open>Socks5\<close>: the two state tables, accepting and dispatching (\<open>socks5nio.c\<close>, \<open>management.c\<close>).
  \<^item> \<open>Invariant\<close>, \<open>Session\<close>, \<open>Contract\<close>, \<open>Serving\<close>: what every handler keeps, the contract of the
    engine proved for both tables, and one iteration of the selector.
  \<^item> \<open>Main_Loop\<close>: the runs of the server, \<open>server_run\<close>, and the invariant of all of them.
  \<^item> \<open>Protocol\<close>: the graphs of the states as the specification that every call of a handler follows.
  \<^item> \<open>Auth_Gate\<close>, \<open>Negotiation\<close>, \<open>Authentication\<close>, \<open>Management\<close>, \<open>Relay\<close>, \<open>Requests\<close>, \<open>Resolution\<close>:
    what the states do for a connection: who is let in, what is answered, what is relayed, and how a
    request, for an address or for a name, becomes a connection.
  \<^item> \<open>Frame\<close>, \<open>Whole_Session\<close>: what no event touches, and whole sessions through the loop, from the
    accepted client to the relay, or to the end when its login is refused.
  \<^item> \<open>Client\<close>, \<open>Client_Server\<close>: the management client (\<open>client.c\<close>, \<open>client_utils.c\<close>) and its exchanges
    with the server.
  \<^item> \<open>Args\<close>, \<open>Startup\<close>: the two command lines (\<open>args.c\<close>, \<open>client_args.c\<close>, \<open>address_utils.c\<close>) and
    \<open>main\<close> up to its loop (\<open>main.c\<close>, \<open>socket_utils.c\<close>); a successful start begins a \<open>server_run\<close>.
  \<^item> \<open>Shutdown\<close>: the end of \<open>main\<close>, with the destruction of the selector and of the pools.
  \<^item> \<open>Char_Parser\<close>: the table-driven parsers of \<open>parser.c\<close> and \<open>parser_utils.c\<close>.
  \<^item> \<open>Net_Utils\<close>, \<open>Util\<close>: addresses for people, blocking copies, counters and the log (\<open>netutils.c\<close>,
    \<open>util.c\<close>, \<open>metrics.c\<close>, \<open>logger.c\<close>, \<open>tcpClientUtil.c\<close>).
  \<^item> \<open>Forwarder\<close>: \<open>server.c\<close>, a forwarder that no target of the build compiles.

  State and operations. A C function is a function with its name from its arguments and the state
  it reads to a result and the state it leaves; one that can fail an \<open>assert\<close>, exit, or do what C
  leaves undefined returns \<open>'a res\<close>. What the outside gives (\<open>recv\<close>, \<open>send\<close>, \<open>malloc\<close>, \<open>accept\<close>,
  \<open>connect\<close>, \<open>getaddrinfo\<close>, \<open>pselect\<close>, indeterminate memory) is an argument, in the record \<open>io\<close>
  for the handlers of the server, and the theorems hold for all of its values unless they say
  otherwise. Bytes sent, closed descriptors and started threads are events of the world.

  Bounds. The reference counter of a connection is a 32-bit integer. \<open>server_run n\<close> counts the
  calls of handlers, three for each, and the theorems about runs ask for \<open>n < 2 ^ 32\<close>, which rules
  out that the counter wraps around. No other theorem needs a bound on the length of a run. The
  loops of the code are structural recursions over the bytes, descriptors or entries they visit.

  Not modelled: the mutex and the time-outs of \<open>selector.c\<close>, the texts of the help, of the version and
  of the messages on \<open>stderr\<close>, the system calls themselves, and the tests of the repository.
\<close>

section \<open>Runs of the server\<close>

text \<open>
  \<open>C1\<close> In every run of the server, whatever the clients, the origin servers and the kernel do,
  the data of a registered descriptor is a live connection: it exists, it is in neither pool of
  free connections, its reference counter covers every descriptor registered for it, and the
  descriptor has the handlers of the connection's protocol. So no handler ever works on a released
  connection. \<open>n\<close> counts three for each call of a handler since the start; the counter of
  references is a 32-bit integer, and the statement is about runs in which it cannot wrap around.
\<close>

theorem registered_connection_alive:
  assumes "server_run n (s, w)" and "n < 2 ^ 32"
    and "registered s i = Some it" and "it_data it = Some k"
  shows "\<exists>d. conns w k = Some d \<and> k \<notin> set (pool w) \<union> set (mng_pool w) \<and>
    card {j. \<exists>jt. registered s j = Some jt \<and> it_data jt = Some k} \<le> unat (references d) \<and>
    0 < unat (references d) \<and>
    it_handler it = Some (if isSocks d then Socks5_handler else Mng_handler)"
proof -
  have ok: "world_ok n s w"
    using server_run_served [OF assms(1)] assms(2) by (simp add: served_def server_ok_def)
  have at: "i \<in> held s k" using assms(3,4) by (simp add: held_def)
  have "item_kind w it" using ok assms(3) by (simp add: world_ok_def)
  then obtain d where d: "conns w k = Some d" "it_handler it = Some (handler_for d)"
    using assms(4) by (auto simp: item_kind_def)
  have "card (held s k) \<le> unat (references d)"
    using ok d(1) by (simp add: world_ok_def refs_counted_def)
  moreover have "0 < card (held s k)"
    using at finite_held [of s k] ok by (auto simp: world_ok_def card_gt_0_iff)
  moreover have "k \<notin> set (pool w) \<union> set (mng_pool w)" using held_conn [OF ok at] by blast
  ultimately show ?thesis using d by (auto simp: held_def handler_for_def)
qed

theorem registered_connection_alive_witness:
  "\<exists>n s w it d. server_run n (s, w) \<and> registered s 7 = Some it \<and> it_data it = Some 0 \<and>
    conns w 0 = Some d \<and> 0 \<notin> set (pool w) \<union> set (mng_pool w) \<and> 0 < unat (references d)"
proof -
  obtain n s w it d h where r: "server_run n (s, w)" "n < 2 ^ 32" "registered s 7 = Some it"
    "it_data it = Some 0" "it_handler it = Some Socks5_handler" "conns w 0 = Some d"
    "isSocks d" "conn_current d = Some HELLO_READ" "client d = Cl_hello h"
    by (rule demo_run)
  show ?thesis using registered_connection_alive [OF r(1-4)] r by blast
qed

text \<open>
  \<open>C9\<close> In every run the table of the selector is consistent: an item in use sits at the index of its
  descriptor, below the size of the table and below \<open>FD_SETSIZE\<close>, with a handler; the two
  descriptor sets given to \<open>pselect\<close> are exactly the registered interests; \<open>max_fd\<close> bounds every
  registered descriptor.
\<close>

theorem selector_consistent:
  assumes "server_run n (s, w)" and "n < 2 ^ 32"
  shows "(\<forall>i it. registered s i = Some it \<longrightarrow>
      it_fd it = int i \<and> i < fd_size s \<and> i < ITEMS_MAX_SIZE \<and> i \<le> max_fd s \<and> it_handler it \<noteq> None) \<and>
    master_r s = {i. \<exists>it. registered s i = Some it \<and> wants OP_READ (it_interest it)} \<and>
    master_w s = {i. \<exists>it. registered s i = Some it \<and> wants OP_WRITE (it_interest it)}"
proof -
  have ok: "world_ok n s w"
    using server_run_served [OF assms(1)] assms(2) by (simp add: served_def server_ok_def)
  then have inv: "selector_inv s" by (simp add: world_ok_def sel_ok_def)
  have "it_handler it \<noteq> None" if "registered s i = Some it" for i it
  proof -
    have "item_kind w it" using ok that by (simp add: world_ok_def)
    then show ?thesis by (auto simp: item_kind_def split: option.splits)
  qed
  moreover have "wanted s op = {i. \<exists>it. registered s i = Some it \<and> wants op (it_interest it)}" for op
    by (simp add: wanted_def wants_def and.commute)
  ultimately show ?thesis
    using registered_bounds [OF inv] inv unfolding selector_inv_def by metis
qed

theorem selector_consistent_witness:
  "\<exists>n s w it. server_run n (s, w) \<and> registered s 7 = Some it \<and> it_fd it = 7 \<and> 7 < fd_size s"
proof -
  obtain n s w it d h where r: "server_run n (s, w)" "n < 2 ^ 32" "registered s 7 = Some it"
    "it_data it = Some 0" "it_handler it = Some Socks5_handler" "conns w 0 = Some d"
    "isSocks d" "conn_current d = Some HELLO_READ" "client d = Cl_hello h"
    by (rule demo_run)
  show ?thesis using selector_consistent [OF r(1,2)] r(1,3) by (metis of_nat_numeral)
qed



end
